(* ===== verification/Prelude.thy ===== *)
theory Prelude
  imports Main "HOL-Library.Word"
begin

text \<open>
  The shared vocabulary of the development: machine words under the names the C++ uses, the
  faults an operation of the framework can end in, the result type with its sequencing
  combinator, and the generic list, word and arithmetic lemmas the component theories share.
\<close>

unbundle bit_operations_syntax

section \<open>Machine integers, results and faults\<close>

type_synonym byte = "8 word"
type_synonym uint16 = "16 word"
type_synonym uint32 = "32 word"
type_synonym uint64 = "64 word"

text \<open>
  How an operation can end other than by returning: a C++ exception, a failed
  \<^verbatim>\<open>dwframe_ASSERT\<close> (which calls \<^verbatim>\<open>assert\<close>), or an access the language leaves undefined
  (a null pointer dereferenced, an index outside its container, a division by zero).
\<close>

datatype fault =
    Out_of_range
  | Logic_error
  | Invalid_argument
  | Assertion_failed
  | Null_dereference
  | Bad_index
  | Division_by_zero
  | Undefined_shift
  | Negative_count
  | Invalid_iterator
  | Empty_function
  | Length_error
  | Library_exception

type_synonym 'a result = "fault + 'a"

definition bindE :: "'a result \<Rightarrow> ('a \<Rightarrow> 'b result) \<Rightarrow> 'b result" where
  "bindE m f = (case m of Inl e \<Rightarrow> Inl e | Inr x \<Rightarrow> f x)"

lemma bindE_simps [simp]:
  "bindE (Inl e) f = Inl e"
  "bindE (Inr x) f = f x"
  by (simp_all add: bindE_def)

lemma bindE_eq_Inr: "bindE m f = Inr y \<longleftrightarrow> (\<exists>x. m = Inr x \<and> f x = Inr y)"
  by (cases m) auto

lemma bindE_cong [fundef_cong]:
  "m = m' \<Longrightarrow> (\<And>x. m' = Inr x \<Longrightarrow> f x = g x) \<Longrightarrow> bindE m f = bindE m' g"
  by (cases m') auto

section \<open>Collections of rewrite rules\<close>

text \<open>
  \<open>store_defs\<close>: the definitions of the byte store's operations;
  \<open>frame_simps\<close>: what an operation leaves unchanged;
  \<open>inv_intros\<close>: the lemmas that an operation keeps its component's invariant.
\<close>

named_theorems store_defs
named_theorems frame_simps
named_theorems inv_intros

section \<open>Overwriting a segment of a list\<close>

text \<open>\<open>overwrite i ds xs\<close> is \<open>xs\<close> with \<open>ds\<close> written over the elements from position \<open>i\<close> on:
  what \<^verbatim>\<open>memcpy(dst + i, src, n)\<close> does to a buffer that is long enough.\<close>

definition overwrite :: "nat \<Rightarrow> 'a list \<Rightarrow> 'a list \<Rightarrow> 'a list" where
  "overwrite i ds xs = take i xs @ ds @ drop (i + length ds) xs"

lemma overwrite_Nil [simp]: "overwrite i [] xs = xs"
  by (simp add: overwrite_def)

lemma length_overwrite [simp]: "i + length ds \<le> length xs \<Longrightarrow> length (overwrite i ds xs) = length xs"
  by (simp add: overwrite_def)

lemma overwrite_append1:
  "i + length ds \<le> length xs \<Longrightarrow> overwrite i ds (xs @ ys) = overwrite i ds xs @ ys"
  by (simp add: overwrite_def)

lemma overwrite_append2: "length xs \<le> i \<Longrightarrow> overwrite i ds (xs @ ys) = xs @ overwrite (i - length xs) ds ys"
  by (simp add: overwrite_def)

lemma overwrite_overwrite:
  "i + length as + length bs \<le> length xs \<Longrightarrow>
    overwrite (i + length as) bs (overwrite i as xs) = overwrite i (as @ bs) xs"
  by (simp add: overwrite_def ac_simps)

lemma take_overwrite [simp]: "i \<le> length xs \<Longrightarrow> take i (overwrite i ds xs) = take i xs"
  by (simp add: overwrite_def)

lemma drop_overwrite:
  "i + length ds \<le> length xs \<Longrightarrow>
    drop i (overwrite i ds xs) = ds @ drop (i + length ds) xs"
  by (simp add: overwrite_def)

lemma take_max_overwrite:
  "i \<le> s \<Longrightarrow> i + length ds \<le> length xs \<Longrightarrow>
    take (max s (i + length ds)) (overwrite i ds xs) = overwrite i ds (take s xs)"
proof (cases "ds = []")
  case False
  assume "i \<le> s" and "i + length ds \<le> length xs"
  with False show ?thesis
    by (cases "s \<le> i + length ds")
      (auto simp: overwrite_def max_def min_def drop_take neq_Nil_conv)
qed (simp add: max_def)

section \<open>Lists of equally long blocks\<close>

text \<open>A buffer kept as a chain of blocks of one size: position \<open>p\<close> lies in block
  \<open>p div b\<close> at offset \<open>p mod b\<close>.\<close>

lemma length_concat_blocks:
  "\<forall>x \<in> set xss. length x = b \<Longrightarrow> length (concat xss) = length xss * b"
  by (induction xss) auto

lemma drop_concat_blocks:
  "\<forall>x \<in> set xss. length x = b \<Longrightarrow> drop (i * b) (concat xss) = concat (drop i xss)"
proof (induction i arbitrary: xss)
  case 0
  then show ?case by simp
next
  case (Suc i)
  then show ?case by (cases xss) (auto simp: add.commute)
qed

lemma drop_block_Suc:
  assumes "\<forall>x \<in> set xss. length x = b" and "k < length xss"
  shows "drop (k * b) (concat xss) = xss ! k @ drop (Suc k * b) (concat xss)"
  unfolding drop_concat_blocks [OF assms(1)] Cons_nth_drop_Suc [OF assms(2), symmetric] by simp

lemma concat_update_blocks:
  assumes "\<forall>x \<in> set xss. length x = b" and "i < length xss" and "off + length ds \<le> b"
  shows "concat (xss[i := overwrite off ds (xss ! i)]) = overwrite (i * b + off) ds (concat xss)"
  using assms
proof (induction xss arbitrary: i)
  case Nil
  then show ?case by simp
next
  case (Cons x xss)
  show ?case
  proof (cases i)
    case 0
    with Cons.prems show ?thesis by (simp add: overwrite_append1)
  next
    case (Suc j)
    with Cons have "concat (xss[j := overwrite off ds (xss ! j)]) = overwrite (j * b + off) ds (concat xss)"
      by auto
    with Suc Cons.prems show ?thesis by (simp add: overwrite_append2)
  qed
qed

lemma nth_concat_block:
  assumes "\<forall>x \<in> set xss. length x = b" and "i < length xss" and "off + n \<le> b"
  shows "take n (drop off (xss ! i)) = take n (drop (i * b + off) (concat xss))"
proof -
  have "drop (i * b + off) (concat xss) = drop off (concat (drop i xss))"
    using assms(1) by (simp add: drop_concat_blocks drop_drop [symmetric] add.commute del: drop_drop)
  also have "drop i xss = xss ! i # drop (Suc i) xss"
    using assms(2) by (simp add: Cons_nth_drop_Suc)
  finally show ?thesis using assms by auto
qed

section \<open>Ceiling division\<close>

definition ceil_div :: "nat \<Rightarrow> nat \<Rightarrow> nat" where
  "ceil_div n b = (n + b - 1) div b"

lemma ceil_div_pos: "0 < b \<Longrightarrow> 0 < n \<Longrightarrow> 0 < ceil_div n b"
  by (simp add: ceil_div_def div_greater_zero_iff)

lemma ceil_div_ge: "0 < b \<Longrightarrow> n \<le> ceil_div n b * b"
proof -
  assume b: "0 < b"
  have "n + b - 1 = ceil_div n b * b + (n + b - 1) mod b"
    by (simp add: ceil_div_def)
  moreover have "(n + b - 1) mod b \<le> b - 1"
    using b by (simp add: less_Suc_eq_le [symmetric])
  ultimately show ?thesis using b by linarith
qed

section \<open>Numbers as text\<close>

fun digits_rev :: "nat \<Rightarrow> nat \<Rightarrow> nat list" where
  "digits_rev base n = (if base < 2 \<or> n < base then [n] else (n mod base) # digits_rev base (n div base))"

declare digits_rev.simps [simp del]

definition digit_char :: "nat \<Rightarrow> char" where
  "digit_char d = char_of (if d < 10 then 48 + d else 87 + d)"

definition show_base :: "nat \<Rightarrow> nat \<Rightarrow> string" where
  "show_base base n = map digit_char (rev (digits_rev base n))"

definition show_int :: "int \<Rightarrow> string" where
  "show_int i = (if i < 0 then ''-'' @ show_base 10 (nat (- i)) else show_base 10 (nat i))"

text \<open>Reading a number back.\<close>

definition digit_val :: "char \<Rightarrow> nat" where
  "digit_val c = (let n = of_char c in if n < 58 then n - 48 else n - 87)"

definition read_base :: "nat \<Rightarrow> string \<Rightarrow> nat" where
  "read_base base s = foldl (\<lambda>a c. a * base + digit_val c) 0 s"

lemma digits_rev_less: "2 \<le> base \<Longrightarrow> d \<in> set (digits_rev base n) \<Longrightarrow> d < base"
proof (induction base n rule: digits_rev.induct)
  case (1 base n)
  then show ?case by (subst (asm) (2) digits_rev.simps) (auto split: if_splits)
qed

lemma of_char_digit: "d < 16 \<Longrightarrow> of_char (digit_char d) = (if d < 10 then 48 + d else 87 + d)"
  by (simp add: digit_char_def)

lemma digit_val_char [simp]: "d < 16 \<Longrightarrow> digit_val (digit_char d) = d"
  by (simp add: digit_val_def of_char_digit)

lemma show_base_rec:
  "2 \<le> base \<Longrightarrow> show_base base n =
     (if n < base then [digit_char n] else show_base base (n div base) @ [digit_char (n mod base)])"
  by (subst show_base_def, subst digits_rev.simps) (auto simp: show_base_def)

lemma read_show_base:
  assumes "2 \<le> base" and "base \<le> 16"
  shows "read_base base (show_base base n) = n"
proof (induction n rule: less_induct)
  case (less n)
  show ?case
  proof (cases "n < base")
    case True
    then show ?thesis using assms by (simp add: show_base_rec read_base_def)
  next
    case False
    then have "n div base < n" using assms by simp
    moreover have "n mod base < 16" using assms order_less_le_trans [OF mod_less_divisor, of base 16 n] by simp
    ultimately have step: "n div base < n" "n mod base < 16" .
    with less step False assms show ?thesis by (simp add: show_base_rec [of base n] read_base_def)
  qed
qed

lemma show_base_char:
  assumes "2 \<le> base" and "base \<le> 16" and "c \<in> set (show_base base n)"
  shows "48 \<le> (of_char c :: nat) \<and> of_char c \<noteq> (58 :: nat) \<and> of_char c < (103 :: nat)"
proof -
  from assms(3) obtain d where d: "d \<in> set (digits_rev base n)" "c = digit_char d" by (auto simp: show_base_def)
  then have "d < 16" using digits_rev_less [OF assms(1)] assms(2) order_less_le_trans by blast
  then show ?thesis by (simp add: d(2) of_char_digit)
qed

lemma show_base_nonempty [simp]: "show_base base n \<noteq> []"
  by (simp add: show_base_def) (subst digits_rev.simps, simp)

end
