(* ===== verification/Byte_Codec.thy ===== *)
theory Byte_Codec
  imports Prelude
begin

text \<open>
  The pure part of the serialisation layer: byte order (\<^verbatim>\<open>dwframe/endian.h\<close>), the ZigZag maps
  between signed and unsigned integers and the base-128 integers (\<^verbatim>\<open>dwframe/bytearray.cc\<close>).
  A signed C++ integer and its unsigned counterpart are the same word; \<open>sint\<close> reads it as
  signed. Signed overflow is read as two's complement wrap-around, which is what the build
  (\<^verbatim>\<open>-O0\<close>) computes.
\<close>

unbundle bit_operations_syntax

section \<open>Byte order\<close>

datatype endian = Little_endian | Big_endian

text \<open>The bytes of a word, least significant first, and the word they make up.\<close>

definition le_bytes :: "'a::len word \<Rightarrow> byte list" where
  "le_bytes w = map (\<lambda>i. ucast (drop_bit (8 * i) w)) [0..<LENGTH('a) div 8]"

fun of_le_bytes :: "byte list \<Rightarrow> 'a::len word" where
  "of_le_bytes [] = 0"
| "of_le_bytes (b # bs) = (ucast b OR push_bit 8 (of_le_bytes bs))"

text \<open>The object representation of an integer on a host of the given byte order.\<close>

definition mem_bytes :: "endian \<Rightarrow> 'a::len word \<Rightarrow> byte list" where
  "mem_bytes host w = (if host = Little_endian then le_bytes w else rev (le_bytes w))"

definition of_mem_bytes :: "endian \<Rightarrow> byte list \<Rightarrow> 'a::len word" where
  "of_mem_bytes host bs = of_le_bytes (if host = Little_endian then bs else rev bs)"

definition byteswap :: "'a::len word \<Rightarrow> 'a word" where
  "byteswap value = of_le_bytes (rev (le_bytes value))"

definition byteswapOnLittleEndian :: "endian \<Rightarrow> 'a::len word \<Rightarrow> 'a word" where
  "byteswapOnLittleEndian host t = (if host = Big_endian then t else byteswap t)"

definition byteswapOnBigEndian :: "endian \<Rightarrow> 'a::len word \<Rightarrow> 'a word" where
  "byteswapOnBigEndian host t = (if host = Big_endian then byteswap t else t)"

section \<open>ZigZag\<close>

definition EncodeZigzag32 :: "32 word \<Rightarrow> 32 word" where
  "EncodeZigzag32 v = (if sint v < 0 then (- v) * 2 - 1 else v * 2)"

definition EncodeZigzag64 :: "64 word \<Rightarrow> 64 word" where
  "EncodeZigzag64 v = (if sint v < 0 then (- v) * 2 - 1 else v * 2)"

definition DecodeZigzag32 :: "32 word \<Rightarrow> 32 word" where
  "DecodeZigzag32 v = (drop_bit 1 v XOR - (v AND 1))"

definition DecodeZigzag64 :: "64 word \<Rightarrow> 64 word" where
  "DecodeZigzag64 v = (drop_bit 1 v XOR - (v AND 1))"

section \<open>Base-128 integers\<close>

lemma unat_drop_bit_7: "unat (drop_bit 7 v) = unat v div 128"
  by (subst unat_drop_bit_eq) (simp add: drop_bit_eq_div)

text \<open>The loop of \<^verbatim>\<open>writeUint32\<close> and \<^verbatim>\<open>writeUint64\<close>: the bytes stored into \<^verbatim>\<open>tmp\<close>.\<close>

function varint_bytes :: "'a::len word \<Rightarrow> byte list" where
  "varint_bytes value =
     (if unat value \<ge> 128
      then (ucast (value AND 127) OR 128) # varint_bytes (drop_bit 7 value)
      else [ucast value])"
  by pat_completeness auto
termination
  by (relation "measure unat") (auto simp: unat_drop_bit_7)

declare varint_bytes.simps [simp del]

text \<open>The loop of \<^verbatim>\<open>readUint32\<close> and \<^verbatim>\<open>readUint64\<close>, over the function that reads one byte
  and the width at which the loop gives up.\<close>

function readUint_loop ::
  "('s \<Rightarrow> (byte \<times> 's) result) \<Rightarrow> nat \<Rightarrow> nat \<Rightarrow> 'a::len word \<Rightarrow> 's \<Rightarrow> ('a word \<times> 's) result" where
  "readUint_loop rd8 width i r s =
     (if i < width
      then bindE (rd8 s) (\<lambda>(b, s').
        if unat b < 128 then Inr (r OR push_bit i (ucast b), s')
        else readUint_loop rd8 width (i + 7) (r OR push_bit i (ucast (b AND 127))) s')
      else Inr (r, s))"
  by pat_completeness auto
termination
  by (relation "measure (\<lambda>(rd8, width, i, r, s). width - i)") auto

declare readUint_loop.simps [simp del]

section \<open>Byte order: round trips\<close>

lemma bit_of_le_bytes:
  "bit (of_le_bytes bs :: 'a::len word) k \<longleftrightarrow>
     k < LENGTH('a) \<and> k < 8 * length bs \<and> bit (bs ! (k div 8)) (k mod 8)"
proof (induction bs arbitrary: k)
  case Nil
  then show ?case by simp
next
  case (Cons b bs)
  show ?case
  proof (cases "k < 8")
    case True
    then show ?thesis by (auto simp: bit_simps dest: bit_imp_le_length)
  next
    case False
    then obtain j where j: "k = j + 8" by (metis add.commute le_Suc_ex not_less)
    have "\<not> bit b (j + 8)" using bit_imp_le_length [of b "j + 8"] by auto
    moreover have "(j + 8) div 8 = Suc (j div 8)" by simp
    ultimately show ?thesis using Cons.IH [of j] j by (auto simp: bit_simps)
  qed
qed

lemma length_le_bytes [simp]: "length (le_bytes (w :: 'a::len word)) = LENGTH('a) div 8"
  by (simp add: le_bytes_def)

lemma of_le_bytes_le_bytes:
  "8 dvd LENGTH('a) \<Longrightarrow> of_le_bytes (le_bytes w) = (w :: 'a::len word)"
proof (rule bit_word_eqI)
  fix k assume "8 dvd LENGTH('a)" and k: "k < LENGTH('a)"
  then have "k div 8 < LENGTH('a) div 8" by (auto elim!: dvdE)
  moreover have "8 * (k div 8) + k mod 8 = k" by simp
  ultimately show "bit (of_le_bytes (le_bytes w) :: 'a word) k \<longleftrightarrow> bit w k"
    using k \<open>8 dvd _\<close> by (auto simp: bit_of_le_bytes le_bytes_def bit_simps elim!: dvdE)
qed

lemma le_bytes_of_le_bytes:
  assumes "8 * length bs = LENGTH('a)"
  shows "le_bytes (of_le_bytes bs :: 'a::len word) = bs"
proof (rule nth_equalityI)
  show "length (le_bytes (of_le_bytes bs :: 'a word)) = length bs"
    using assms by simp
next
  fix i assume "i < length (le_bytes (of_le_bytes bs :: 'a word))"
  then have i: "i < length bs" using assms by simp
  have "bit (le_bytes (of_le_bytes bs :: 'a word) ! i) k \<longleftrightarrow> bit (bs ! i) k" if "k < 8" for k
    using i that assms by (auto simp: le_bytes_def bit_simps bit_of_le_bytes)
  then show "le_bytes (of_le_bytes bs :: 'a word) ! i = bs ! i"
    by (intro bit_word_eqI) simp
qed

lemma byteswap_byteswap:
  "8 dvd LENGTH('a) \<Longrightarrow> byteswap (byteswap w) = (w :: 'a::len word)"
  by (simp add: byteswap_def le_bytes_of_le_bytes of_le_bytes_le_bytes)

lemma length_mem_bytes [simp]: "length (mem_bytes host (w :: 'a::len word)) = LENGTH('a) div 8"
  by (simp add: mem_bytes_def)

lemma of_mem_bytes_mem_bytes:
  "8 dvd LENGTH('a) \<Longrightarrow> of_mem_bytes host (mem_bytes host w) = (w :: 'a::len word)"
  by (simp add: of_mem_bytes_def mem_bytes_def of_le_bytes_le_bytes)

lemma le_bytes_byteswap:
  "8 dvd LENGTH('a) \<Longrightarrow> le_bytes (byteswap (w :: 'a::len word)) = rev (le_bytes w)"
  by (simp add: byteswap_def le_bytes_of_le_bytes)

lemma mem_bytes_other:
  "8 dvd LENGTH('a) \<Longrightarrow> host \<noteq> e \<Longrightarrow> mem_bytes host (byteswap w) = mem_bytes e (w :: 'a::len word)"
  by (cases host; cases e) (auto simp: mem_bytes_def le_bytes_byteswap)

section \<open>ZigZag: round trips\<close>

lemma zigzag_word:
  fixes v :: "'a::len word"
  assumes "2 \<le> LENGTH('a)"
  defines "e \<equiv> (if sint v < 0 then (- v) * 2 - 1 else v * 2)"
  shows "drop_bit 1 e XOR - (e AND 1) = v"
proof (cases "sint v < 0")
  case True
  then have e: "e = 2 * (NOT v) + 1"
    by (simp add: e_def not_eq_complement algebra_simps)
  have e': "e = (2 * NOT v) OR 1" by (simp add: e or_one_eq)
  have "bit v (LENGTH('a) - 1)" using True by (simp add: bit_last_iff)
  then have "Suc k = LENGTH('a) \<Longrightarrow> bit v k" for k by (metis diff_Suc_1)
  then have "bit (drop_bit 1 e) k \<longleftrightarrow> \<not> bit v k" if "k < LENGTH('a)" for k
    using that by (cases "Suc k = LENGTH('a)") (auto simp: e' bit_simps)
  moreover have "e AND 1 = 1" by (simp add: e and_one_eq mod_2_eq_odd)
  ultimately show ?thesis by (intro bit_word_eqI) (simp add: bit_simps)
next
  case False
  then have e: "e = 2 * v" by (simp add: e_def)
  have "\<not> bit v (LENGTH('a) - 1)" using False by (simp add: bit_last_iff)
  then have "Suc k = LENGTH('a) \<Longrightarrow> \<not> bit v k" for k by (metis diff_Suc_1)
  then have "bit (drop_bit 1 e) k \<longleftrightarrow> bit v k" if "k < LENGTH('a)" for k
    using that by (cases "Suc k = LENGTH('a)") (auto simp: e bit_simps)
  moreover have "e AND 1 = 0" by (simp add: e and_one_eq mod_2_eq_odd)
  ultimately show ?thesis by (intro bit_word_eqI) (simp add: bit_simps)
qed

section \<open>Base-128 integers: size and round trip\<close>

lemma length_varint_bytes:
  "unat v < 2 ^ (7 * k) \<Longrightarrow> 0 < k \<Longrightarrow> length (varint_bytes v) \<le> k"
proof (induction k arbitrary: v)
  case 0
  then show ?case by simp
next
  case (Suc k)
  show ?case
  proof (cases "unat v < 128")
    case True
    then show ?thesis by (simp add: varint_bytes.simps [of v])
  next
    case False
    have "unat v div 128 < 2 ^ (7 * k)"
      using Suc.prems(1) by (simp add: power_add less_mult_imp_div_less mult.commute)
    moreover from this False have "0 < k" by (cases k) auto
    ultimately have "length (varint_bytes (drop_bit 7 v)) \<le> k"
      by (intro Suc.IH) (simp_all add: unat_drop_bit_7)
    with False show ?thesis by (simp add: varint_bytes.simps [of v])
  qed
qed

lemma bit_imp_le_unat: "bit (v :: 'a::len word) k \<Longrightarrow> 2 ^ k \<le> unat v"
proof (rule ccontr)
  assume v: "bit v k" and "\<not> 2 ^ k \<le> unat v"
  then have "take_bit k (unat v) = unat v" by (simp add: take_bit_nat_eq_self)
  then have "\<not> bit (unat v) k" by (metis bit_take_bit_iff less_irrefl)
  with v show False by (simp add: bit_unsigned_iff)
qed

lemma bit_int_128: "bit (128 :: int) k \<longleftrightarrow> k = 7"
  using bit_exp_iff [where 'a = int and m = 7 and n = k] by auto

lemma bit_int_127: "bit (127 :: int) k \<longleftrightarrow> k < 7"
  using bit_mask_iff [where 'a = int and m = 7 and n = k]
  by (simp add: mask_eq_exp_minus_1)

text \<open>
  The interface the base-128 reader uses: a state from which single bytes are taken, with the
  bytes that are still to come. The reader's correctness is proved once, for any provider.
\<close>

locale byte_reader =
  fixes rd8 :: "'s \<Rightarrow> (byte \<times> 's) result"
    and ok :: "'s \<Rightarrow> bool"
    and pending :: "'s \<Rightarrow> byte list"
  assumes rd8_Cons: "ok s \<Longrightarrow> pending s = b # bs \<Longrightarrow>
      \<exists>s'. rd8 s = Inr (b, s') \<and> ok s' \<and> pending s' = bs"
    and rd8_Nil: "ok s \<Longrightarrow> pending s = [] \<Longrightarrow> rd8 s = Inl Out_of_range"
begin

lemma readUint_loop_varint:
  fixes w :: "'a::len word"
  assumes "8 \<le> LENGTH('a)" and "i < LENGTH('a)" and "ok s"
    and "pending s = varint_bytes (drop_bit i w) @ rest"
  shows "\<exists>s'. readUint_loop rd8 LENGTH('a) i (take_bit i w) s = Inr (w, s')
            \<and> ok s' \<and> pending s' = rest"
  using assms(2-)
proof (induction "LENGTH('a) - i" arbitrary: i s rule: less_induct)
  case less
  let ?v = "drop_bit i w"
  show ?case
  proof (cases "unat ?v < 128")
    case True
    let ?b = "ucast ?v :: byte"
    from True have "pending s = ?b # rest"
      using less.prems by (simp add: varint_bytes.simps [of ?v])
    then obtain s' where s': "rd8 s = Inr (?b, s')" "ok s'" "pending s' = rest"
      using rd8_Cons less.prems by blast
    have small: "unat ?b < 128" using True by (simp add: unsigned_ucast_eq take_bit_nat_eq_self)
    have "take_bit i w OR push_bit i (ucast ?b) = w"
    proof (rule bit_word_eqI)
      fix k assume "k < LENGTH('a)"
      have "k - i < 8" if "bit ?v (k - i)"
        using that True bit_imp_le_unat [of ?v "k - i"] power_increasing [of 8 "k - i" "2::nat"]
        by (auto simp: not_less intro: ccontr)
      then show "bit (take_bit i w OR push_bit i (ucast ?b)) k \<longleftrightarrow> bit w k"
        using \<open>k < LENGTH('a)\<close> by (auto simp: bit_simps)
    qed
    then show ?thesis using s' small less.prems
      by (simp add: readUint_loop.simps [of rd8 _ i])
  next
    case False
    let ?b = "ucast (?v AND 127) OR 128 :: byte"
    have "drop_bit 7 ?v = drop_bit (i + 7) w" by (simp add: drop_bit_drop_bit add.commute)
    with False have "pending s = ?b # (varint_bytes (drop_bit (i + 7) w) @ rest)"
      using less.prems by (simp only: varint_bytes.simps [of ?v]) simp
    then obtain s' where s': "rd8 s = Inr (?b, s')" "ok s'"
        "pending s' = varint_bytes (drop_bit (i + 7) w) @ rest"
      using rd8_Cons less.prems by blast
    have "bit ?b 7" by (simp add: bit_simps bit_int_128)
    then have big: "\<not> unat ?b < 128" using bit_imp_le_unat [of ?b 7] by simp
    have next_lt: "i + 7 < LENGTH('a)"
    proof (rule ccontr)
      assume "\<not> i + 7 < LENGTH('a)"
      moreover have "unat w < 2 ^ LENGTH('a)" by simp
      ultimately have "unat w < 2 ^ (i + 7)"
        by (meson not_less order_less_le_trans power_increasing one_le_numeral)
      then have "unat w div 2 ^ i < 128"
        by (simp add: power_add less_mult_imp_div_less mult.commute)
      then have "unat ?v < 128"
        by (subst unat_drop_bit_eq) (simp add: drop_bit_eq_div)
      with False show False ..
    qed
    have "take_bit i w OR push_bit i (ucast (?b AND 127)) = take_bit (i + 7) w"
      by (rule bit_word_eqI) (auto simp: bit_simps bit_int_128 bit_int_127)
    then show ?thesis using s' big less next_lt
      by (simp add: readUint_loop.simps [of rd8 _ i])
  qed
qed

end

end
