(* ===== verification/ByteArray.thy ===== *)
theory ByteArray
  imports Byte_Codec
begin

text \<open>
  The serialisation buffer \<^verbatim>\<open>ByteArray\<close> (\<^verbatim>\<open>dwframe/bytearray.h\<close>, \<^verbatim>\<open>dwframe/bytearray.cc\<close>).
  The chain of \<^verbatim>\<open>Node\<close>s from \<^verbatim>\<open>m_root\<close> on is the list of their buffers, a node's \<^verbatim>\<open>size\<close>
  is its buffer's length, and \<^verbatim>\<open>m_cur\<close> is an index into that list, \<open>None\<close> for a null pointer.
  A \<^verbatim>\<open>size_t\<close> is a natural number; the one place where the code subtracts without a check that
  protects it (\<^verbatim>\<open>m_size - position\<close> in the positional \<^verbatim>\<open>read\<close>) has the 64-bit wrap-around
  written out. The bytes of a fresh node, indeterminate in C++, are 0 here and no theorem
  depends on them. \<open>host\<close> is \<^verbatim>\<open>dwframe_byte_order\<close>, the byte order of the machine.
\<close>

section \<open>State\<close>

record byte_array =
  m_baseSize :: nat
  m_position :: nat
  m_capacity :: nat
  m_size :: nat
  m_endian :: endian
  m_nodes :: "byte list list"
  m_cur :: "nat option"

definition new_node :: "nat \<Rightarrow> byte list" where
  "new_node s = replicate s 0"

definition mk_ByteArray :: "nat \<Rightarrow> byte_array" where
  "mk_ByteArray base_size =
     \<lparr>m_baseSize = base_size, m_position = 0, m_capacity = base_size, m_size = 0,
      m_endian = Big_endian, m_nodes = [new_node base_size], m_cur = Some 0\<rparr>"

definition getReadSize :: "byte_array \<Rightarrow> nat" where
  "getReadSize ba = m_size ba - m_position ba"

definition getCapacity :: "byte_array \<Rightarrow> nat" where
  "getCapacity ba = m_capacity ba - m_position ba"

section \<open>Nodes and the cursor\<close>

text \<open>\<open>p->size\<close> and \<open>p->next\<close> of a node pointer.\<close>

definition node_size :: "byte list list \<Rightarrow> nat option \<Rightarrow> nat result" where
  "node_size nodes p = (case p of
      None \<Rightarrow> Inl Null_dereference
    | Some i \<Rightarrow> if i < length nodes then Inr (length (nodes ! i)) else Inl Null_dereference)"

definition node_next :: "byte list list \<Rightarrow> nat option \<Rightarrow> nat option result" where
  "node_next nodes p = (case p of
      None \<Rightarrow> Inl Null_dereference
    | Some i \<Rightarrow> if Suc i < length nodes then Inr (Some (Suc i))
                else if i < length nodes then Inr None else Inl Null_dereference)"

text \<open>\<^verbatim>\<open>m_position % m_baseSize\<close>\<close>

definition offset_in_node :: "byte_array \<Rightarrow> nat \<Rightarrow> nat result" where
  "offset_in_node ba p = (if m_baseSize ba = 0 then Inl Division_by_zero else Inr (p mod m_baseSize ba))"

section \<open>Growing the chain\<close>

fun addCapacity_loop :: "nat \<Rightarrow> byte_array \<Rightarrow> byte_array" where
  "addCapacity_loop 0 ba = ba"
| "addCapacity_loop (Suc count) ba = addCapacity_loop count
     (ba\<lparr>m_nodes := m_nodes ba @ [new_node (m_baseSize ba)],
         m_capacity := m_capacity ba + m_baseSize ba\<rparr>)"

definition addCapacity :: "byte_array \<Rightarrow> nat \<Rightarrow> byte_array" where
  "addCapacity ba n =
     (if n = 0 then ba
      else let old_cap = getCapacity ba in
        if old_cap \<ge> n then ba
        else let count = ceil_div (n - old_cap) (m_baseSize ba);
                 first = (if count = 0 then None else Some (length (m_nodes ba)));
                 ba' = addCapacity_loop count ba
             in if old_cap = 0 then ba'\<lparr>m_cur := first\<rparr> else ba')"

section \<open>Raw write and read\<close>

text \<open>
  The loop of \<^verbatim>\<open>write\<close>: \<open>buf\<close> is what is left of the data (\<^verbatim>\<open>buf + bpos\<close>, \<^verbatim>\<open>size\<close> bytes),
  \<open>npos\<close> and \<open>ncap\<close> the offset in the current node and the room behind it.
\<close>

function write_loop :: "byte list \<Rightarrow> nat \<Rightarrow> nat \<Rightarrow> byte_array \<Rightarrow> byte_array result" where
  "write_loop buf npos ncap ba =
     (if buf = [] then Inr ba
      else case m_cur ba of
        None \<Rightarrow> Inl Null_dereference
      | Some i \<Rightarrow>
        if i \<ge> length (m_nodes ba) then Inl Null_dereference
        else if ncap \<ge> length buf then
          bindE (if length (m_nodes ba ! i) = npos + length buf
                 then node_next (m_nodes ba) (m_cur ba) else Inr (m_cur ba)) (\<lambda>cur'.
          Inr (ba\<lparr>m_nodes := (m_nodes ba)[i := overwrite npos buf (m_nodes ba ! i)],
                  m_cur := cur', m_position := m_position ba + length buf\<rparr>))
        else
          bindE (node_next (m_nodes ba) (m_cur ba)) (\<lambda>cur'.
          bindE (node_size (m_nodes ba) cur') (\<lambda>ncap'.
          write_loop (drop ncap buf) 0 ncap'
            (ba\<lparr>m_nodes := (m_nodes ba)[i := overwrite npos (take ncap buf) (m_nodes ba ! i)],
                m_cur := cur', m_position := m_position ba + ncap\<rparr>))))"
  by pat_completeness auto
termination
  by (relation "measure (\<lambda>(buf, npos, ncap, ba).
        case m_cur ba of None \<Rightarrow> 0 | Some i \<Rightarrow> Suc (length (m_nodes ba) - i))")
     (auto simp: node_next_def node_size_def split: if_splits option.splits)

declare write_loop.simps [simp del]

definition ba_write :: "byte_array \<Rightarrow> byte list \<Rightarrow> byte_array result" where
  "ba_write ba buf =
     (if length buf = 0 then Inr ba
      else let ba1 = addCapacity ba (length buf) in
        bindE (offset_in_node ba1 (m_position ba1)) (\<lambda>npos.
        bindE (node_size (m_nodes ba1) (m_cur ba1)) (\<lambda>sz.
        bindE (write_loop buf npos (sz - npos) ba1) (\<lambda>ba2.
        Inr (if m_position ba2 > m_size ba2 then ba2\<lparr>m_size := m_position ba2\<rparr> else ba2)))))"

text \<open>The loop both \<^verbatim>\<open>read\<close>s share: the bytes copied out and where the node pointer ends.\<close>

function read_loop :: "byte list list \<Rightarrow> nat option \<Rightarrow> nat \<Rightarrow> nat \<Rightarrow> nat \<Rightarrow> (byte list \<times> nat option) result" where
  "read_loop nodes cur npos ncap n =
     (if n = 0 then Inr ([], cur)
      else case cur of
        None \<Rightarrow> Inl Null_dereference
      | Some i \<Rightarrow>
        if i \<ge> length nodes then Inl Null_dereference
        else if ncap \<ge> n then
          bindE (if length (nodes ! i) = npos + n then node_next nodes cur else Inr cur) (\<lambda>cur'.
          Inr (take n (drop npos (nodes ! i)), cur'))
        else
          bindE (node_next nodes cur) (\<lambda>cur'.
          bindE (node_size nodes cur') (\<lambda>ncap'.
          bindE (read_loop nodes cur' 0 ncap' (n - ncap)) (\<lambda>(bs, cur'').
          Inr (take ncap (drop npos (nodes ! i)) @ bs, cur'')))))"
  by pat_completeness auto
termination
  by (relation "measure (\<lambda>(nodes, cur, npos, ncap, n).
        case cur of None \<Rightarrow> 0 | Some i \<Rightarrow> Suc (length nodes - i))")
     (auto simp: node_next_def node_size_def split: if_splits option.splits)

declare read_loop.simps [simp del]

definition ba_read :: "byte_array \<Rightarrow> nat \<Rightarrow> (byte list \<times> byte_array) result" where
  "ba_read ba n =
     (if n > getReadSize ba then Inl Out_of_range
      else bindE (offset_in_node ba (m_position ba)) (\<lambda>npos.
           bindE (node_size (m_nodes ba) (m_cur ba)) (\<lambda>sz.
           bindE (read_loop (m_nodes ba) (m_cur ba) npos (sz - npos) n) (\<lambda>(bs, cur').
           Inr (bs, ba\<lparr>m_cur := cur', m_position := m_position ba + n\<rparr>)))))"

text \<open>\<^verbatim>\<open>read(buf, size, position) const\<close>: it starts at \<^verbatim>\<open>m_cur\<close>, whatever \<open>position\<close> is.\<close>

definition ba_read_at :: "byte_array \<Rightarrow> nat \<Rightarrow> nat \<Rightarrow> byte list result" where
  "ba_read_at ba n position =
     (if n > (if position \<le> m_size ba then m_size ba - position
                 else m_size ba + 2 ^ 64 - position) then Inl Out_of_range
      else bindE (offset_in_node ba position) (\<lambda>npos.
           bindE (node_size (m_nodes ba) (m_cur ba)) (\<lambda>sz.
           bindE (read_loop (m_nodes ba) (m_cur ba) npos (sz - npos) n) (\<lambda>(bs, cur').
           Inr bs))))"

section \<open>Position, byte order, clearing\<close>

fun setPosition_walk :: "byte list list \<Rightarrow> nat \<Rightarrow> nat \<Rightarrow> nat option result" where
  "setPosition_walk [] i v = Inl Null_dereference"
| "setPosition_walk (x # xs) i v =
     (if v > length x then setPosition_walk xs (Suc i) (v - length x)
      else if v = length x then Inr (if xs = [] then None else Some (Suc i))
      else Inr (Some i))"

definition setPosition :: "byte_array \<Rightarrow> nat \<Rightarrow> byte_array result" where
  "setPosition ba v =
     (if v > m_capacity ba then Inl Out_of_range
      else bindE (setPosition_walk (m_nodes ba) 0 v) (\<lambda>cur.
        Inr (ba\<lparr>m_position := v, m_size := (if v > m_size ba then v else m_size ba), m_cur := cur\<rparr>)))"

definition ba_clear :: "byte_array \<Rightarrow> byte_array" where
  "ba_clear ba = ba\<lparr>m_position := 0, m_size := 0, m_capacity := m_baseSize ba,
     m_nodes := take 1 (m_nodes ba), m_cur := Some 0\<rparr>"

definition isLittleEndian :: "byte_array \<Rightarrow> bool" where
  "isLittleEndian ba = (m_endian ba = Little_endian)"

definition setIsLittleEndian :: "byte_array \<Rightarrow> bool \<Rightarrow> byte_array" where
  "setIsLittleEndian ba val = ba\<lparr>m_endian := (if val then Little_endian else Big_endian)\<rparr>"

section \<open>The invariant and the abstract contents\<close>

text \<open>
  The abstract value of a \<^verbatim>\<open>ByteArray\<close> is one flat array of bytes with a position and a size.
  The cursor is determined by the position: the node that holds the next byte, a null pointer
  exactly when the position is at the end of the capacity.
\<close>

definition cursor_of :: "nat \<Rightarrow> nat \<Rightarrow> nat \<Rightarrow> nat option" where
  "cursor_of b n p = (if p = n * b then None else Some (p div b))"

definition ba_inv :: "byte_array \<Rightarrow> bool" where
  "ba_inv ba \<longleftrightarrow> 0 < m_baseSize ba \<and> m_nodes ba \<noteq> []
     \<and> (\<forall>x \<in> set (m_nodes ba). length x = m_baseSize ba)
     \<and> m_capacity ba = length (m_nodes ba) * m_baseSize ba
     \<and> m_position ba \<le> m_size ba \<and> m_size ba \<le> m_capacity ba
     \<and> m_cur ba = cursor_of (m_baseSize ba) (length (m_nodes ba)) (m_position ba)"

definition contents :: "byte_array \<Rightarrow> byte list" where
  "contents ba = concat (m_nodes ba)"

definition written :: "byte_array \<Rightarrow> byte list" where
  "written ba = take (m_size ba) (contents ba)"

definition readable :: "byte_array \<Rightarrow> byte list" where
  "readable ba = drop (m_position ba) (written ba)"

lemma length_contents: "ba_inv ba \<Longrightarrow> length (contents ba) = m_capacity ba"
  by (simp add: ba_inv_def contents_def length_concat_blocks)

lemma length_readable: "ba_inv ba \<Longrightarrow> length (readable ba) = getReadSize ba"
  by (auto simp: readable_def written_def getReadSize_def length_contents ba_inv_def)

lemma ba_inv_mk: "0 < b \<Longrightarrow> ba_inv (mk_ByteArray b)"
  by (simp add: ba_inv_def mk_ByteArray_def new_node_def cursor_of_def)

lemma readable_mk [simp]: "readable (mk_ByteArray b) = []"
  by (simp add: readable_def written_def mk_ByteArray_def)

lemma node_index_less:
  "p < n * b \<Longrightarrow> p div b < (n::nat)"
  by (simp add: less_mult_imp_div_less)

lemma node_size_cursor:
  assumes "\<forall>x \<in> set nodes. length x = b" and "p < length nodes * b"
  shows "node_size nodes (cursor_of b (length nodes) p) = Inr b"
  using assms node_index_less [OF assms(2)] by (auto simp: node_size_def cursor_of_def)

lemma next_boundary:
  assumes "0 < (b::nat)" shows "p + (b - p mod b) = Suc (p div b) * b"
  using mod_less_divisor [OF assms, of p] div_mult_mod_eq [of p b] unfolding mult_Suc by linarith

lemma node_next_cursor:
  assumes "0 < b" and "p < length nodes * b"
  shows "node_next nodes (cursor_of b (length nodes) p)
       = Inr (cursor_of b (length nodes) (p + (b - p mod b)))"
proof -
  have "p div b < length nodes" using assms(2) by (rule node_index_less)
  then show ?thesis using assms
    by (simp only: next_boundary) (auto simp: node_next_def cursor_of_def simp del: mult_Suc)
qed

lemma cursor_within:
  assumes "0 < b" and "p mod b + k < b" and "p < n * b"
  shows "cursor_of b n (p + k) = cursor_of b n p"
proof -
  define q r where "q = p div b" and "r = p mod b"
  then have p: "p = b * q + r" and r: "r + k < b" using assms(2) by simp_all
  have "(p + k) div b = q"
    using p r by (intro div_nat_eqI) simp_all
  then have "(p + k) div b = p div b" by (simp add: q_def)
  moreover from this have "p + k < n * b"
    using node_index_less [OF assms(3)] assms(1) by (metis div_less_iff_less_mult)
  ultimately show ?thesis using assms by (simp add: cursor_of_def)
qed

lemma cursor_advance:
  assumes "0 < b" and "p < length nodes * b" and "p mod b + k \<le> b"
  shows "(if b = p mod b + k then node_next nodes (cursor_of b (length nodes) p)
          else Inr (cursor_of b (length nodes) p)) = Inr (cursor_of b (length nodes) (p + k))"
proof (cases "b = p mod b + k")
  case True
  then have "k = b - p mod b" by simp
  with True show ?thesis using node_next_cursor [OF assms(1,2)] by simp
next
  case False
  with assms(3) have "p mod b + k < b" by simp
  with False show ?thesis using cursor_within [OF assms(1) _ assms(2)] by simp
qed

section \<open>write refines overwriting a segment\<close>

lemma write_loop_refines:
  assumes "0 < b" and "\<forall>x \<in> set (m_nodes ba). length x = b"
    and "m_position ba + length buf \<le> length (m_nodes ba) * b"
    and "m_cur ba = cursor_of b (length (m_nodes ba)) (m_position ba)"
    and "npos = m_position ba mod b" and "ncap = b - npos"
  shows "\<exists>nodes'. write_loop buf npos ncap ba
       = Inr (ba\<lparr>m_nodes := nodes', m_cur := cursor_of b (length nodes') (m_position ba + length buf),
                 m_position := m_position ba + length buf\<rparr>)
     \<and> length nodes' = length (m_nodes ba) \<and> (\<forall>x \<in> set nodes'. length x = b)
     \<and> concat nodes' = overwrite (m_position ba) buf (concat (m_nodes ba))"
  using assms
proof (induction buf npos ncap ba rule: write_loop.induct)
  case (1 buf npos ncap ba)
  let ?p = "m_position ba" and ?n = "length (m_nodes ba)" and ?i = "m_position ba div b"
  show ?case
  proof (cases "buf = []")
    case True
    with "1.prems" show ?thesis
      by (intro exI [of _ "m_nodes ba"]) (cases ba, simp add: write_loop.simps [of "[]"])
  next
    case False
    then have lt: "?p < ?n * b" using "1.prems" by (cases buf) auto
    then have i: "?i < ?n" by (rule node_index_less)
    have cur: "m_cur ba = Some ?i" using "1.prems" lt by (simp add: cursor_of_def)
    have p: "?i * b + npos = ?p" using "1.prems" by simp
    have npos: "npos < b" using "1.prems" by simp
    have len_i: "length (m_nodes ba ! ?i) = b" using "1.prems" i by simp
    show ?thesis
    proof (cases "length buf \<le> ncap")
      case True
      let ?nodes' = "(m_nodes ba)[?i := overwrite npos buf (m_nodes ba ! ?i)]"
      have fit: "npos + length buf \<le> b" using True npos "1.prems"(6) by linarith
      have all: "\<forall>x \<in> set ?nodes'. length x = b"
        using "1.prems" fit len_i by (auto dest!: subsetD [OF set_update_subset_insert])
      have conc: "concat ?nodes' = overwrite ?p buf (concat (m_nodes ba))"
        using concat_update_blocks [OF _ i fit] "1.prems" p by simp
      have "(if b = npos + length buf then node_next (m_nodes ba) (m_cur ba) else Inr (m_cur ba))
          = Inr (cursor_of b ?n (?p + length buf))"
        using cursor_advance [OF "1.prems"(1) lt, of "length buf"] fit "1.prems"(4,5) by metis
      then show ?thesis using False True cur i len_i all conc
        by (intro exI [of _ ?nodes']) (simp add: write_loop.simps [of buf])
    next
      case more: False
      let ?ba' = "ba\<lparr>m_nodes := (m_nodes ba)[?i := overwrite npos (take ncap buf) (m_nodes ba ! ?i)],
                      m_cur := cursor_of b ?n (?p + ncap), m_position := ?p + ncap\<rparr>"
      have fit: "npos + length (take ncap buf) \<le> b" using npos "1.prems"(6) by simp
      have bound: "?p + ncap = Suc ?i * b" using next_boundary "1.prems" by simp
      have lt': "?p + ncap < ?n * b" using more "1.prems" by simp
      have nxt: "node_next (m_nodes ba) (m_cur ba) = Inr (cursor_of b ?n (?p + ncap))"
        using node_next_cursor [OF _ lt] "1.prems" by simp
      have sz: "node_size (m_nodes ba) (cursor_of b ?n (?p + ncap)) = Inr b"
        using node_size_cursor [OF _ lt'] "1.prems" by simp
      have all: "\<forall>x \<in> set (m_nodes ?ba'). length x = b"
        using "1.prems" fit len_i by (auto dest!: subsetD [OF set_update_subset_insert])
      have conc: "concat (m_nodes ?ba') = overwrite ?p (take ncap buf) (concat (m_nodes ba))"
        using concat_update_blocks [OF _ i fit] "1.prems" p by simp
      have step: "write_loop buf npos ncap ba = write_loop (drop ncap buf) 0 b ?ba'"
        using False more cur i nxt sz by (simp add: write_loop.simps [of buf])
      have IH: "\<exists>nodes'. write_loop (drop ncap buf) 0 b ?ba'
         = Inr (?ba'\<lparr>m_nodes := nodes',
               m_cur := cursor_of b (length nodes') (m_position ?ba' + length (drop ncap buf)),
               m_position := m_position ?ba' + length (drop ncap buf)\<rparr>)
         \<and> length nodes' = length (m_nodes ?ba') \<and> (\<forall>x \<in> set nodes'. length x = b)
         \<and> concat nodes' = overwrite (m_position ?ba') (drop ncap buf) (concat (m_nodes ?ba'))"
      proof (rule "1.IH" [OF False cur _ _ nxt sz])
        show "0 = m_position ?ba' mod b" by (simp only: byte_array.simps bound) simp
        show "m_position ?ba' + length (drop ncap buf) \<le> length (m_nodes ?ba') * b"
          using more "1.prems"(3) by simp
      qed (use i more all "1.prems"(1) in simp_all)
      have len: "length (concat (m_nodes ba)) = ?n * b"
        using "1.prems" by (simp add: length_concat_blocks)
      have "overwrite (?p + ncap) (drop ncap buf) (concat (m_nodes ?ba'))
          = overwrite ?p buf (concat (m_nodes ba))"
        using overwrite_overwrite [of ?p "take ncap buf" "drop ncap buf" "concat (m_nodes ba)"]
          conc more "1.prems"(3) len by simp
      then show ?thesis using IH step more conc by auto
    qed
  qed
qed

lemma addCapacity_loop_eq:
  "addCapacity_loop c ba =
     ba\<lparr>m_nodes := m_nodes ba @ replicate c (new_node (m_baseSize ba)),
        m_capacity := m_capacity ba + c * m_baseSize ba\<rparr>"
  by (induction c arbitrary: ba) (simp_all add: replicate_app_Cons_same)

lemma cursor_of_grow: "p < n * b \<Longrightarrow> cursor_of b (n + c) p = cursor_of b n p"
  by (auto simp: cursor_of_def algebra_simps)

lemma addCapacity_frame [frame_simps]:
  "m_baseSize (addCapacity ba n) = m_baseSize ba"
  "m_position (addCapacity ba n) = m_position ba"
  "m_size (addCapacity ba n) = m_size ba"
  "m_endian (addCapacity ba n) = m_endian ba"
  by (simp_all add: addCapacity_def addCapacity_loop_eq Let_def)

lemma addCapacity_nodes: "\<exists>c. m_nodes (addCapacity ba n) = m_nodes ba @ replicate c (new_node (m_baseSize ba))"
  by (auto simp: addCapacity_def addCapacity_loop_eq Let_def intro: exI [of _ 0])

lemma addCapacity_enough:
  assumes "ba_inv ba" shows "n \<le> getCapacity (addCapacity ba n)"
proof -
  have "n - getCapacity ba \<le> ceil_div (n - getCapacity ba) (m_baseSize ba) * m_baseSize ba"
    using assms by (intro ceil_div_ge) (simp add: ba_inv_def)
  then show ?thesis using assms
    by (auto simp: addCapacity_def addCapacity_loop_eq Let_def getCapacity_def ba_inv_def)
qed

lemma ba_inv_addCapacity [inv_intros]:
  assumes "ba_inv ba" shows "ba_inv (addCapacity ba n)"
proof (cases "n = 0 \<or> n \<le> getCapacity ba")
  case True
  with assms show ?thesis by (auto simp: addCapacity_def)
next
  case False
  define c where "c = ceil_div (n - getCapacity ba) (m_baseSize ba)"
  have c: "0 < c" using False assms by (auto simp: c_def ba_inv_def intro!: ceil_div_pos)
  have ba': "addCapacity ba n = (let ba' = addCapacity_loop c ba in
      if getCapacity ba = 0 then ba'\<lparr>m_cur := Some (length (m_nodes ba))\<rparr> else ba')"
    using False c by (simp add: addCapacity_def Let_def c_def [symmetric])
  show ?thesis
  proof (cases "getCapacity ba = 0")
    case True
    then have "m_position ba = length (m_nodes ba) * m_baseSize ba"
      using assms by (auto simp: getCapacity_def ba_inv_def)
    then show ?thesis using True assms c
      by (auto simp: ba' ba_inv_def addCapacity_loop_eq new_node_def cursor_of_def algebra_simps)
  next
    case False
    then have "m_position ba < length (m_nodes ba) * m_baseSize ba"
      using assms by (auto simp: getCapacity_def ba_inv_def)
    then show ?thesis using False assms
      by (auto simp: ba' ba_inv_def addCapacity_loop_eq new_node_def cursor_of_grow add_mult_distrib)
  qed
qed

lemma written_addCapacity [frame_simps]:
  "ba_inv ba \<Longrightarrow> written (addCapacity ba n) = written ba"
  using addCapacity_nodes [of ba n] length_contents [of ba]
  by (auto simp: written_def contents_def frame_simps ba_inv_def)

lemma ba_write_refines:
  assumes "ba_inv ba"
  shows "\<exists>ba'. ba_write ba buf = Inr ba' \<and> ba_inv ba'
     \<and> m_position ba' = m_position ba + length buf
     \<and> written ba' = overwrite (m_position ba) buf (written ba)
     \<and> m_baseSize ba' = m_baseSize ba \<and> m_endian ba' = m_endian ba"
proof (cases "buf = []")
  case True
  with assms show ?thesis by (simp add: ba_write_def)
next
  case False
  define ba1 where "ba1 = addCapacity ba (length buf)"
  have inv1: "ba_inv ba1" by (simp add: ba1_def ba_inv_addCapacity assms)
  note fr = frame_simps [of ba "length buf", folded ba1_def]
  let ?b = "m_baseSize ba1" and ?p = "m_position ba1" and ?n = "length (m_nodes ba1)"
  have room: "?p + length buf \<le> ?n * ?b"
    using addCapacity_enough [OF assms, of "length buf"] inv1
    by (auto simp: ba1_def [symmetric] getCapacity_def ba_inv_def)
  with False have lt: "?p < ?n * ?b" by (cases buf) auto
  have b: "0 < ?b" and all: "\<forall>x \<in> set (m_nodes ba1). length x = ?b"
    and cur: "m_cur ba1 = cursor_of ?b ?n ?p" using inv1 by (auto simp: ba_inv_def)
  obtain nodes' where w: "write_loop buf (?p mod ?b) (?b - ?p mod ?b) ba1
       = Inr (ba1\<lparr>m_nodes := nodes', m_cur := cursor_of ?b (length nodes') (?p + length buf),
                  m_position := ?p + length buf\<rparr>)"
    and nodes': "length nodes' = ?n" "\<forall>x \<in> set nodes'. length x = ?b"
      "concat nodes' = overwrite ?p buf (concat (m_nodes ba1))"
    using write_loop_refines [OF b all room cur refl refl] by blast
  define ba' where "ba' = ba1\<lparr>m_nodes := nodes', m_cur := cursor_of ?b ?n (?p + length buf),
      m_position := ?p + length buf, m_size := max (m_size ba1) (?p + length buf)\<rparr>"
  have "ba_write ba buf = Inr ba'"
    using False b w node_size_cursor [OF all lt] nodes'(1)
    by (auto simp: ba_write_def ba1_def [symmetric] Let_def offset_in_node_def cur ba'_def max_def)
  moreover have "ba_inv ba'"
    using inv1 nodes' room by (auto simp: ba_inv_def ba'_def)
  moreover have "written ba' = overwrite ?p buf (written ba1)"
    using inv1 nodes'(3) room length_contents [OF inv1]
    by (auto simp: written_def contents_def ba'_def ba_inv_def take_max_overwrite)
  ultimately show ?thesis using fr assms by (auto simp: ba'_def)
qed

section \<open>read refines taking from the readable bytes\<close>

lemma read_loop_refines:
  assumes "0 < b" and "\<forall>x \<in> set nodes. length x = b" and "p + n \<le> length nodes * b"
    and "cur = cursor_of b (length nodes) p" and "npos = p mod b" and "ncap = b - npos"
  shows "read_loop nodes cur npos ncap n
       = Inr (take n (drop p (concat nodes)), cursor_of b (length nodes) (p + n))"
  using assms
proof (induction nodes cur npos ncap n arbitrary: p rule: read_loop.induct)
  case (1 nodes cur npos ncap n)
  let ?i = "p div b"
  show ?case
  proof (cases "n = 0")
    case True
    with "1.prems" show ?thesis by (simp add: read_loop.simps [of nodes])
  next
    case False
    then have lt: "p < length nodes * b" using "1.prems"(3) by linarith
    then have i: "?i < length nodes" by (rule node_index_less)
    have cur: "cur = Some ?i" using "1.prems"(4) lt by (simp add: cursor_of_def)
    have p: "?i * b + npos = p" and npos: "npos < b" using "1.prems"(1,5) by simp_all
    have len_i: "length (nodes ! ?i) = b" using "1.prems"(2) i by simp
    show ?thesis
    proof (cases "n \<le> ncap")
      case True
      have fit: "npos + n \<le> b" using True npos "1.prems"(6) by linarith
      have "(if b = npos + n then node_next nodes cur else Inr cur)
          = Inr (cursor_of b (length nodes) (p + n))"
        using cursor_advance [OF "1.prems"(1) lt, of n] fit "1.prems"(4,5) by metis
      moreover have "read_loop nodes cur npos ncap n
          = bindE (if b = npos + n then node_next nodes cur else Inr cur)
              (\<lambda>cur'. Inr (take n (drop npos (nodes ! ?i)), cur'))"
        using False True cur i len_i by (subst read_loop.simps) simp
      ultimately show ?thesis using nth_concat_block [OF "1.prems"(2) i fit] p by simp
    next
      case more: False
      have bound: "p + ncap = Suc ?i * b" using next_boundary "1.prems"(1,5,6) by simp
      have lt': "p + ncap < length nodes * b" using more "1.prems"(3) by linarith
      have nxt: "node_next nodes cur = Inr (cursor_of b (length nodes) (p + ncap))"
        using node_next_cursor [OF "1.prems"(1) lt] "1.prems"(4-6) by simp
      have sz: "node_size nodes (cursor_of b (length nodes) (p + ncap)) = Inr b"
        using node_size_cursor [OF "1.prems"(2) lt'] .
      have IH: "read_loop nodes (cursor_of b (length nodes) (p + ncap)) 0 b (n - ncap)
         = Inr (take (n - ncap) (drop (p + ncap) (concat nodes)),
                cursor_of b (length nodes) (p + ncap + (n - ncap)))"
      proof (rule "1.IH" [OF False cur _ _ nxt sz])
        show "0 = (p + ncap) mod b" by (simp only: bound) simp
        show "p + ncap + (n - ncap) \<le> length nodes * b" using more "1.prems"(3) by linarith
      qed (use i more "1.prems"(1,2) in simp_all)
      have "take ncap (drop npos (nodes ! ?i)) = take ncap (drop p (concat nodes))"
        using nth_concat_block [OF "1.prems"(2) i, of npos ncap] npos p "1.prems"(6) by simp
      moreover have "take n (drop p (concat nodes))
          = take ncap (drop p (concat nodes)) @ take (n - ncap) (drop (p + ncap) (concat nodes))"
        using take_add [of ncap "n - ncap" "drop p (concat nodes)"] more
        by (simp add: add.commute)
      moreover have "p + ncap + (n - ncap) = p + n" using more by linarith
      ultimately show ?thesis using False more cur i nxt sz IH
        by (simp add: read_loop.simps [of nodes "Some (p div b)" npos])
    qed
  qed
qed

lemma readable_alt: "readable ba = take (getReadSize ba) (drop (m_position ba) (contents ba))"
  by (simp add: readable_def written_def getReadSize_def drop_take)

lemma ba_read_refines:
  assumes "ba_inv ba" and "n \<le> length (readable ba)" and "0 < n \<or> m_position ba < m_capacity ba"
  shows "\<exists>ba'. ba_read ba n = Inr (take n (readable ba), ba') \<and> ba_inv ba'
     \<and> readable ba' = drop n (readable ba) \<and> written ba' = written ba
     \<and> m_position ba' = m_position ba + n
     \<and> m_baseSize ba' = m_baseSize ba \<and> m_endian ba' = m_endian ba"
proof -
  let ?b = "m_baseSize ba" and ?p = "m_position ba" and ?N = "length (m_nodes ba)"
  have b: "0 < ?b" and all: "\<forall>x \<in> set (m_nodes ba). length x = ?b"
    and cur: "m_cur ba = cursor_of ?b ?N ?p" and cap: "m_capacity ba = ?N * ?b"
    using assms(1) by (auto simp: ba_inv_def)
  have n: "n \<le> getReadSize ba" using assms by (simp add: length_readable)
  have fit: "?p + n \<le> ?N * ?b"
    using n assms(1) by (auto simp: getReadSize_def ba_inv_def)
  have lt: "?p < ?N * ?b" using assms(3) fit cap by auto
  define ba' where "ba' = ba\<lparr>m_cur := cursor_of ?b ?N (?p + n), m_position := ?p + n\<rparr>"
  have "ba_read ba n = Inr (take n (readable ba), ba')"
    using n b node_size_cursor [OF all lt] read_loop_refines [OF b all fit refl refl refl]
    by (simp add: ba_read_def offset_in_node_def cur ba'_def readable_alt contents_def min_absorb2
        min_absorb1)
  moreover have "ba_inv ba'" using assms(1) n by (auto simp: ba_inv_def ba'_def getReadSize_def)
  moreover have "readable ba' = drop n (readable ba)"
    by (simp add: readable_def written_def contents_def ba'_def add.commute)
  moreover have "written ba' = written ba" by (simp add: written_def contents_def ba'_def)
  ultimately show ?thesis by (auto simp: ba'_def)
qed

lemma ba_read_short: "ba_inv ba \<Longrightarrow> length (readable ba) < n \<Longrightarrow> ba_read ba n = Inl Out_of_range"
  by (simp add: ba_read_def length_readable)

section \<open>Moving the position\<close>

lemma setPosition_walk_eq:
  assumes "0 < b" and "\<forall>x \<in> set nodes. length x = b" and "v \<le> length nodes * b" and "nodes \<noteq> []"
  shows "setPosition_walk nodes i v
       = Inr (map_option (\<lambda>k. i + k) (cursor_of b (length nodes) v))"
  using assms(2-)
proof (induction nodes i v rule: setPosition_walk.induct)
  case (1 i v)
  then show ?case by simp
next
  case (2 x xs i v)
  have x: "length x = b" using "2.prems" by simp
  consider "v > b" | "v = b" | "v < b" by linarith
  then show ?case
  proof cases
    case 1
    then have "xs \<noteq> []" using "2.prems" x by auto
    then have "setPosition_walk xs (Suc i) (v - b)
        = Inr (map_option (\<lambda>k. Suc i + k) (cursor_of b (length xs) (v - b)))"
      using "2.IH" "2.prems" 1 x by auto
    moreover have "(v - b) div b = v div b - 1" "0 < v div b"
      using 1 assms(1) by (simp_all add: div_greater_zero_iff le_div_geq)
    ultimately show ?thesis using 1 x by (auto simp: cursor_of_def)
  next
    case 2
    then show ?thesis using x assms(1) by (auto simp: cursor_of_def)
  next
    case 3
    then show ?thesis using x assms(1) by (auto simp: cursor_of_def)
  qed
qed

lemma setPosition_refines:
  assumes "ba_inv ba" and "v \<le> m_capacity ba"
  shows "\<exists>ba'. setPosition ba v = Inr ba' \<and> ba_inv ba' \<and> m_position ba' = v
     \<and> m_size ba' = max (m_size ba) v \<and> contents ba' = contents ba
     \<and> m_baseSize ba' = m_baseSize ba \<and> m_endian ba' = m_endian ba
     \<and> m_capacity ba' = m_capacity ba"
proof -
  have "setPosition_walk (m_nodes ba) 0 v
      = Inr (map_option (\<lambda>k. 0 + k) (cursor_of (m_baseSize ba) (length (m_nodes ba)) v))"
    using assms by (intro setPosition_walk_eq) (auto simp: ba_inv_def)
  then have "setPosition ba v = Inr (ba\<lparr>m_position := v, m_size := max (m_size ba) v,
      m_cur := cursor_of (m_baseSize ba) (length (m_nodes ba)) v\<rparr>)"
    using assms by (simp add: setPosition_def max_def option.map_ident_strong)
  then show ?thesis using assms by (auto simp: ba_inv_def contents_def)
qed

lemma setPosition_readable:
  assumes "ba_inv ba" and "v \<le> m_size ba"
  shows "\<exists>ba'. setPosition ba v = Inr ba' \<and> ba_inv ba' \<and> readable ba' = drop v (written ba)
     \<and> written ba' = written ba \<and> m_baseSize ba' = m_baseSize ba \<and> m_endian ba' = m_endian ba"
proof -
  have "v \<le> m_capacity ba" using assms by (auto simp: ba_inv_def)
  then obtain ba' where "setPosition ba v = Inr ba'" "ba_inv ba'" "m_position ba' = v"
      "m_size ba' = max (m_size ba) v" "contents ba' = contents ba"
      "m_baseSize ba' = m_baseSize ba" "m_endian ba' = m_endian ba"
    using setPosition_refines [OF assms(1)] by blast
  then show ?thesis using assms(2) by (auto simp: readable_def written_def max_def)
qed

lemma ba_inv_clear [inv_intros]: "ba_inv ba \<Longrightarrow> ba_inv (ba_clear ba)"
  by (cases "m_nodes ba") (auto simp: ba_inv_def ba_clear_def cursor_of_def)

lemma readable_clear [simp]: "readable (ba_clear ba) = []"
  by (simp add: readable_def written_def ba_clear_def)

end
