(* ===== verification/ByteArray_Typed.thy ===== *)
theory ByteArray_Typed
  imports ByteArray
begin

text \<open>
  The typed writers and readers of \<^verbatim>\<open>ByteArray\<close>: fixed-width integers in the array's byte order,
  base-128 integers, floating-point bit patterns and length-prefixed strings
  (\<^verbatim>\<open>dwframe/bytearray.cc\<close>). A \<^verbatim>\<open>float\<close> or \<^verbatim>\<open>double\<close> is its 32- or 64-bit pattern, a
  \<^verbatim>\<open>std::string\<close> its bytes; failure to allocate the string a reader resizes is not modelled.
  The interface \<open>store_item\<close> states what a writer and its reader promise each other, and is
  interpreted on every such pair.
\<close>

section \<open>Fixed-width integers\<close>

definition write_swapped :: "endian \<Rightarrow> byte_array \<Rightarrow> 'a::len word \<Rightarrow> byte_array result" where
  "write_swapped host ba value =
     ba_write ba (mem_bytes host (if m_endian ba \<noteq> host then byteswap value else value))"

definition read_swapped :: "endian \<Rightarrow> byte_array \<Rightarrow> ('a::len word \<times> byte_array) result" where
  "read_swapped host ba =
     bindE (ba_read ba (LENGTH('a) div 8)) (\<lambda>(bs, ba').
       let v = of_mem_bytes host bs in
       Inr (if m_endian ba' = host then v else byteswap v, ba'))"

definition writeFint8 :: "byte_array \<Rightarrow> 8 word \<Rightarrow> byte_array result" where
  "writeFint8 ba value = ba_write ba [value]"

definition writeFuint8 :: "byte_array \<Rightarrow> 8 word \<Rightarrow> byte_array result" where
  "writeFuint8 ba value = ba_write ba [value]"

definition writeFint16 :: "endian \<Rightarrow> byte_array \<Rightarrow> 16 word \<Rightarrow> byte_array result" where
  "writeFint16 host ba value = write_swapped host ba value"

definition writeFuint16 :: "endian \<Rightarrow> byte_array \<Rightarrow> 16 word \<Rightarrow> byte_array result" where
  "writeFuint16 host ba value = write_swapped host ba value"

definition writeFint32 :: "endian \<Rightarrow> byte_array \<Rightarrow> 32 word \<Rightarrow> byte_array result" where
  "writeFint32 host ba value = write_swapped host ba value"

definition writeFuint32 :: "endian \<Rightarrow> byte_array \<Rightarrow> 32 word \<Rightarrow> byte_array result" where
  "writeFuint32 host ba value = write_swapped host ba value"

definition writeFint64 :: "endian \<Rightarrow> byte_array \<Rightarrow> 64 word \<Rightarrow> byte_array result" where
  "writeFint64 host ba value = write_swapped host ba value"

definition writeFuint64 :: "endian \<Rightarrow> byte_array \<Rightarrow> 64 word \<Rightarrow> byte_array result" where
  "writeFuint64 host ba value = write_swapped host ba value"

definition readFuint8 :: "byte_array \<Rightarrow> (8 word \<times> byte_array) result" where
  "readFuint8 ba = bindE (ba_read ba 1) (\<lambda>(bs, ba'). Inr (hd bs, ba'))"

definition readFint8 :: "byte_array \<Rightarrow> (8 word \<times> byte_array) result" where
  "readFint8 ba = bindE (ba_read ba 1) (\<lambda>(bs, ba'). Inr (hd bs, ba'))"

definition readFint16 :: "endian \<Rightarrow> byte_array \<Rightarrow> (16 word \<times> byte_array) result" where
  "readFint16 host ba = read_swapped host ba"

definition readFuint16 :: "endian \<Rightarrow> byte_array \<Rightarrow> (16 word \<times> byte_array) result" where
  "readFuint16 host ba = read_swapped host ba"

definition readFint32 :: "endian \<Rightarrow> byte_array \<Rightarrow> (32 word \<times> byte_array) result" where
  "readFint32 host ba = read_swapped host ba"

definition readFuint32 :: "endian \<Rightarrow> byte_array \<Rightarrow> (32 word \<times> byte_array) result" where
  "readFuint32 host ba = read_swapped host ba"

definition readFint64 :: "endian \<Rightarrow> byte_array \<Rightarrow> (64 word \<times> byte_array) result" where
  "readFint64 host ba = read_swapped host ba"

definition readFuint64 :: "endian \<Rightarrow> byte_array \<Rightarrow> (64 word \<times> byte_array) result" where
  "readFuint64 host ba = read_swapped host ba"

section \<open>Base-128 integers\<close>

definition writeUint32 :: "byte_array \<Rightarrow> 32 word \<Rightarrow> byte_array result" where
  "writeUint32 ba value = ba_write ba (varint_bytes value)"

definition writeInt32 :: "byte_array \<Rightarrow> 32 word \<Rightarrow> byte_array result" where
  "writeInt32 ba value = writeUint32 ba (EncodeZigzag32 value)"

definition writeUint64 :: "byte_array \<Rightarrow> 64 word \<Rightarrow> byte_array result" where
  "writeUint64 ba value = ba_write ba (varint_bytes value)"

definition writeInt64 :: "byte_array \<Rightarrow> 64 word \<Rightarrow> byte_array result" where
  "writeInt64 ba value = writeUint64 ba (EncodeZigzag64 value)"

definition readUint32 :: "byte_array \<Rightarrow> (32 word \<times> byte_array) result" where
  "readUint32 ba = readUint_loop readFuint8 32 0 0 ba"

definition readInt32 :: "byte_array \<Rightarrow> (32 word \<times> byte_array) result" where
  "readInt32 ba = bindE (readUint32 ba) (\<lambda>(v, ba'). Inr (DecodeZigzag32 v, ba'))"

definition readUint64 :: "byte_array \<Rightarrow> (64 word \<times> byte_array) result" where
  "readUint64 ba = readUint_loop readFuint8 64 0 0 ba"

definition readInt64 :: "byte_array \<Rightarrow> (64 word \<times> byte_array) result" where
  "readInt64 ba = bindE (readUint64 ba) (\<lambda>(v, ba'). Inr (DecodeZigzag64 v, ba'))"

section \<open>Floating point\<close>

definition writeFloat :: "endian \<Rightarrow> byte_array \<Rightarrow> 32 word \<Rightarrow> byte_array result" where
  "writeFloat host ba bits = writeFuint32 host ba bits"

definition writeDouble :: "endian \<Rightarrow> byte_array \<Rightarrow> 64 word \<Rightarrow> byte_array result" where
  "writeDouble host ba bits = writeFuint64 host ba bits"

definition readFloat :: "endian \<Rightarrow> byte_array \<Rightarrow> (32 word \<times> byte_array) result" where
  "readFloat host ba = readFuint32 host ba"

definition readDouble :: "endian \<Rightarrow> byte_array \<Rightarrow> (64 word \<times> byte_array) result" where
  "readDouble host ba = readFuint64 host ba"

section \<open>Strings\<close>

definition writeStringF16 :: "endian \<Rightarrow> byte_array \<Rightarrow> byte list \<Rightarrow> byte_array result" where
  "writeStringF16 host ba value =
     bindE (writeFuint16 host ba (of_nat (length value))) (\<lambda>ba'. ba_write ba' value)"

definition writeStringF32 :: "endian \<Rightarrow> byte_array \<Rightarrow> byte list \<Rightarrow> byte_array result" where
  "writeStringF32 host ba value =
     bindE (writeFuint32 host ba (of_nat (length value))) (\<lambda>ba'. ba_write ba' value)"

definition writeStringF64 :: "endian \<Rightarrow> byte_array \<Rightarrow> byte list \<Rightarrow> byte_array result" where
  "writeStringF64 host ba value =
     bindE (writeFuint64 host ba (of_nat (length value))) (\<lambda>ba'. ba_write ba' value)"

definition writeStringVint :: "byte_array \<Rightarrow> byte list \<Rightarrow> byte_array result" where
  "writeStringVint ba value =
     bindE (writeUint64 ba (of_nat (length value))) (\<lambda>ba'. ba_write ba' value)"

definition writeStringWithoutLength :: "byte_array \<Rightarrow> byte list \<Rightarrow> byte_array result" where
  "writeStringWithoutLength ba value = ba_write ba value"

definition readStringF16 :: "endian \<Rightarrow> byte_array \<Rightarrow> (byte list \<times> byte_array) result" where
  "readStringF16 host ba = bindE (readFuint16 host ba) (\<lambda>(len, ba'). ba_read ba' (unat len))"

definition readStringF32 :: "endian \<Rightarrow> byte_array \<Rightarrow> (byte list \<times> byte_array) result" where
  "readStringF32 host ba = bindE (readFuint32 host ba) (\<lambda>(len, ba'). ba_read ba' (unat len))"

definition readStringF64 :: "endian \<Rightarrow> byte_array \<Rightarrow> (byte list \<times> byte_array) result" where
  "readStringF64 host ba = bindE (readFuint64 host ba) (\<lambda>(len, ba'). ba_read ba' (unat len))"

definition readStringVint :: "byte_array \<Rightarrow> (byte list \<times> byte_array) result" where
  "readStringVint ba = bindE (readUint64 ba) (\<lambda>(len, ba'). ba_read ba' (unat len))"

section \<open>The contract of a writer and its reader\<close>

text \<open>A sequence of values written, or read, one after the other.\<close>

fun put_all :: "('s \<Rightarrow> 'v \<Rightarrow> 's result) \<Rightarrow> 's \<Rightarrow> 'v list \<Rightarrow> 's result" where
  "put_all put s [] = Inr s"
| "put_all put s (v # vs) = bindE (put s v) (\<lambda>s'. put_all put s' vs)"

fun get_all :: "('s \<Rightarrow> ('v \<times> 's) result) \<Rightarrow> 's \<Rightarrow> nat \<Rightarrow> ('v list \<times> 's) result" where
  "get_all get s 0 = Inr ([], s)"
| "get_all get s (Suc n) = bindE (get s) (\<lambda>(v, s').
     bindE (get_all get s' n) (\<lambda>(vs, s''). Inr (v # vs, s'')))"

text \<open>
  \<open>put\<close> appends exactly the encoding of a value, \<open>get\<close> takes exactly one encoding off the
  bytes to come. From this alone, a sequence of values comes back in order.
\<close>

locale store_item =
  fixes inv :: "'s \<Rightarrow> bool"
    and rest_of :: "'s \<Rightarrow> byte list"
    and appended :: "'s \<Rightarrow> byte list \<Rightarrow> 's \<Rightarrow> bool"
    and valid :: "'v \<Rightarrow> bool"
    and enc :: "'v \<Rightarrow> byte list"
    and put :: "'s \<Rightarrow> 'v \<Rightarrow> 's result"
    and get :: "'s \<Rightarrow> ('v \<times> 's) result"
  assumes put_enc: "inv s \<Longrightarrow> valid v \<Longrightarrow> \<exists>s'. put s v = Inr s' \<and> inv s' \<and> appended s (enc v) s'"
    and get_enc: "inv s \<Longrightarrow> valid v \<Longrightarrow> rest_of s = enc v @ rest \<Longrightarrow>
        \<exists>s'. get s = Inr (v, s') \<and> inv s' \<and> rest_of s' = rest"
    and appended_Nil: "inv s \<Longrightarrow> appended s [] s"
    and appended_trans: "inv s \<Longrightarrow> appended s as s' \<Longrightarrow> inv s' \<Longrightarrow> appended s' bs s'' \<Longrightarrow>
        appended s (as @ bs) s''"
begin

lemma put_all_appends:
  "inv s \<Longrightarrow> \<forall>v \<in> set vs. valid v \<Longrightarrow>
     \<exists>s'. put_all put s vs = Inr s' \<and> inv s' \<and> appended s (concat (map enc vs)) s'"
proof (induction vs arbitrary: s)
  case Nil
  then show ?case by (simp add: appended_Nil)
next
  case (Cons v vs)
  then obtain s' where s': "put s v = Inr s'" "inv s'" "appended s (enc v) s'"
    using put_enc by fastforce
  moreover obtain s'' where "put_all put s' vs = Inr s''" "inv s''"
      "appended s' (concat (map enc vs)) s''"
    using Cons s'(2) by auto
  ultimately show ?case using appended_trans Cons.prems(1) by auto
qed

lemma get_all_takes:
  "inv s \<Longrightarrow> \<forall>v \<in> set vs. valid v \<Longrightarrow> rest_of s = concat (map enc vs) @ rest \<Longrightarrow>
     \<exists>s'. get_all get s (length vs) = Inr (vs, s') \<and> inv s' \<and> rest_of s' = rest"
proof (induction vs arbitrary: s)
  case Nil
  then show ?case by simp
next
  case (Cons v vs)
  then obtain s' where s': "get s = Inr (v, s')" "inv s'"
      "rest_of s' = concat (map enc vs) @ rest"
    using get_enc [of s v "concat (map enc vs) @ rest"] by auto
  then obtain s'' where "get_all get s' (length vs) = Inr (vs, s'')" "inv s''" "rest_of s'' = rest"
    using Cons by auto
  with s' show ?case by simp
qed

end

section \<open>The byte array provides the contract\<close>

definition appended_to :: "byte_array \<Rightarrow> byte list \<Rightarrow> byte_array \<Rightarrow> bool" where
  "appended_to ba bs ba' \<longleftrightarrow> m_position ba' = m_position ba + length bs
     \<and> written ba' = overwrite (m_position ba) bs (written ba)"

definition ba_ok :: "endian \<Rightarrow> byte_array \<Rightarrow> bool" where
  "ba_ok e ba \<longleftrightarrow> ba_inv ba \<and> m_endian ba = e"

lemma position_le_written: "ba_inv ba \<Longrightarrow> m_position ba \<le> length (written ba)"
  by (auto simp: written_def length_contents ba_inv_def)

lemma appended_to_trans:
  "ba_inv ba \<Longrightarrow> appended_to ba as ba' \<Longrightarrow> appended_to ba' bs ba'' \<Longrightarrow> appended_to ba (as @ bs) ba''"
  using position_le_written [of ba]
  by (simp add: appended_to_def overwrite_def min_absorb2 ac_simps)

lemma ba_write_ok:
  "ba_ok e ba \<Longrightarrow> \<exists>ba'. ba_write ba bs = Inr ba' \<and> ba_ok e ba' \<and> appended_to ba bs ba'"
  using ba_write_refines [of ba bs] by (auto simp: ba_ok_def appended_to_def)

lemma ba_read_ok:
  "ba_ok e ba \<Longrightarrow> bs \<noteq> [] \<Longrightarrow> readable ba = bs @ rest \<Longrightarrow>
     \<exists>ba'. ba_read ba (length bs) = Inr (bs, ba') \<and> ba_ok e ba' \<and> readable ba' = rest"
  using ba_read_refines [of ba "length bs"] by (auto simp: ba_ok_def)

interpretation ba8: byte_reader readFuint8 "ba_ok e" readable for e
proof
  fix s b bs assume "ba_ok e s" and "readable s = b # bs"
  then show "\<exists>s'. readFuint8 s = Inr (b, s') \<and> ba_ok e s' \<and> readable s' = bs"
    using ba_read_ok [of e s "[b]" bs] by (auto simp: readFuint8_def)
next
  fix s assume "ba_ok e s" and "readable s = []"
  then show "readFuint8 s = Inl Out_of_range"
    using ba_read_short [of s 1] by (simp add: readFuint8_def ba_ok_def)
qed

lemma write_swapped_ok:
  fixes v :: "'a::len word"
  assumes "8 dvd LENGTH('a)" and "ba_ok e ba"
  shows "\<exists>ba'. write_swapped host ba v = Inr ba' \<and> ba_ok e ba' \<and> appended_to ba (mem_bytes e v) ba'"
proof -
  have "mem_bytes host (if m_endian ba \<noteq> host then byteswap v else v) = mem_bytes e v"
    using assms by (auto simp: ba_ok_def mem_bytes_other)
  then show ?thesis using ba_write_ok [OF assms(2)] by (simp add: write_swapped_def)
qed

lemma read_swapped_ok:
  fixes v :: "'a::len word"
  assumes "8 dvd LENGTH('a)" and "ba_ok e ba" and "readable ba = mem_bytes e v @ rest"
  shows "\<exists>ba'. read_swapped host ba = Inr (v, ba') \<and> ba_ok e ba' \<and> readable ba' = rest"
proof -
  have "0 < LENGTH('a) div 8" using assms(1) len_gt_0 [where 'a = 'a] by (auto elim!: dvdE simp del: len_gt_0)
  then have "mem_bytes e v \<noteq> []" by (metis length_mem_bytes length_greater_0_conv)
  then obtain ba' where ba': "ba_read ba (LENGTH('a) div 8) = Inr (mem_bytes e v, ba')"
      "ba_ok e ba'" "readable ba' = rest"
    using ba_read_ok [OF assms(2) _ assms(3)] by auto
  have "of_mem_bytes e (mem_bytes e v) = v"
    using assms(1) by (rule of_mem_bytes_mem_bytes)
  moreover have "byteswap (of_mem_bytes host (mem_bytes e v)) = v" if "e \<noteq> host"
    using mem_bytes_other [OF assms(1), of host e v] that assms(1)
    by (metis byteswap_byteswap of_mem_bytes_mem_bytes)
  ultimately show ?thesis using ba'
    by (auto simp: read_swapped_def Let_def ba_ok_def)
qed

lemma ba_store_itemI:
  assumes "\<And>s v. ba_ok e s \<Longrightarrow> valid v \<Longrightarrow>
      \<exists>s'. put s v = Inr s' \<and> ba_ok e s' \<and> appended_to s (enc v) s'"
    and "\<And>s v rest. ba_ok e s \<Longrightarrow> valid v \<Longrightarrow> readable s = enc v @ rest \<Longrightarrow>
      \<exists>s'. get s = Inr (v, s') \<and> ba_ok e s' \<and> readable s' = rest"
  shows "store_item (ba_ok e) readable appended_to valid enc put get"
  by unfold_locales
    (use assms in blast, use assms in blast, simp add: appended_to_def,
     auto simp: ba_ok_def intro: appended_to_trans)

interpretation item_u8: store_item "ba_ok e" readable appended_to "\<lambda>_. True" "\<lambda>v. [v]"
    writeFuint8 readFuint8 for e
  using ba_write_ok ba8.rd8_Cons by (intro ba_store_itemI) (simp_all add: writeFuint8_def)

interpretation item_u16: store_item "ba_ok e" readable appended_to "\<lambda>_. True" "mem_bytes e"
    "writeFuint16 host" "readFuint16 host" for e host
  by (intro ba_store_itemI)
     (simp_all add: writeFuint16_def readFuint16_def write_swapped_ok read_swapped_ok)

interpretation item_u32: store_item "ba_ok e" readable appended_to "\<lambda>_. True" "mem_bytes e"
    "writeFuint32 host" "readFuint32 host" for e host
  by (intro ba_store_itemI)
     (simp_all add: writeFuint32_def readFuint32_def write_swapped_ok read_swapped_ok)

interpretation item_u64: store_item "ba_ok e" readable appended_to "\<lambda>_. True" "mem_bytes e"
    "writeFuint64 host" "readFuint64 host" for e host
  by (intro ba_store_itemI)
     (simp_all add: writeFuint64_def readFuint64_def write_swapped_ok read_swapped_ok)

lemma readUint32_ok:
  "ba_ok e s \<Longrightarrow> readable s = varint_bytes v @ rest \<Longrightarrow>
     \<exists>s'. readUint32 s = Inr (v, s') \<and> ba_ok e s' \<and> readable s' = rest"
  using ba8.readUint_loop_varint [where w = v and i = 0 and s = s and rest = rest]
  by (simp add: readUint32_def)

lemma readUint64_ok:
  "ba_ok e s \<Longrightarrow> readable s = varint_bytes v @ rest \<Longrightarrow>
     \<exists>s'. readUint64 s = Inr (v, s') \<and> ba_ok e s' \<and> readable s' = rest"
  using ba8.readUint_loop_varint [where w = v and i = 0 and s = s and rest = rest]
  by (simp add: readUint64_def)

lemma DecodeEncodeZigzag32: "DecodeZigzag32 (EncodeZigzag32 v) = v"
  using zigzag_word [of v] by (simp add: DecodeZigzag32_def EncodeZigzag32_def)

lemma DecodeEncodeZigzag64: "DecodeZigzag64 (EncodeZigzag64 v) = v"
  using zigzag_word [of v] by (simp add: DecodeZigzag64_def EncodeZigzag64_def)

interpretation item_v32: store_item "ba_ok e" readable appended_to "\<lambda>_. True" varint_bytes
    writeUint32 readUint32 for e
  using ba_write_ok readUint32_ok by (intro ba_store_itemI) (simp_all add: writeUint32_def)

interpretation item_v64: store_item "ba_ok e" readable appended_to "\<lambda>_. True" varint_bytes
    writeUint64 readUint64 for e
  using ba_write_ok readUint64_ok by (intro ba_store_itemI) (simp_all add: writeUint64_def)

interpretation item_z32: store_item "ba_ok e" readable appended_to "\<lambda>_. True"
    "\<lambda>v. varint_bytes (EncodeZigzag32 v)" writeInt32 readInt32 for e
  by (intro ba_store_itemI)
     (use item_v32.put_enc item_v32.get_enc in
       \<open>fastforce simp: writeInt32_def readInt32_def DecodeEncodeZigzag32\<close>)+

interpretation item_z64: store_item "ba_ok e" readable appended_to "\<lambda>_. True"
    "\<lambda>v. varint_bytes (EncodeZigzag64 v)" writeInt64 readInt64 for e
  by (intro ba_store_itemI)
     (use item_v64.put_enc item_v64.get_enc in
       \<open>fastforce simp: writeInt64_def readInt64_def DecodeEncodeZigzag64\<close>)+

text \<open>A length followed by that many bytes. A string must not be empty: the reader's \<^verbatim>\<open>read\<close> of
  zero bytes dereferences \<^verbatim>\<open>m_cur\<close>, which is null at the end of the capacity.\<close>

definition string_valid :: "nat \<Rightarrow> byte list \<Rightarrow> bool" where
  "string_valid bits v \<longleftrightarrow> v \<noteq> [] \<and> length v < 2 ^ bits"

lemma prefixed_item:
  fixes lput :: "byte_array \<Rightarrow> 'a::len word \<Rightarrow> byte_array result"
  assumes "store_item (ba_ok e) readable appended_to (\<lambda>_. True) lenc lput lget"
  shows "store_item (ba_ok e) readable appended_to (string_valid LENGTH('a))
     (\<lambda>v. lenc (of_nat (length v)) @ v)
     (\<lambda>ba v. bindE (lput ba (of_nat (length v))) (\<lambda>ba'. ba_write ba' v))
     (\<lambda>ba. bindE (lget ba) (\<lambda>(len, ba'). ba_read ba' (unat len)))"
proof (rule ba_store_itemI)
  fix s and v :: "byte list" assume s: "ba_ok e s"
  obtain s' where s': "lput s (of_nat (length v)) = Inr s'" "ba_ok e s'"
      "appended_to s (lenc (of_nat (length v))) s'"
    using store_item.put_enc [OF assms s] by blast
  then show "\<exists>s'. bindE (lput s (of_nat (length v))) (\<lambda>ba'. ba_write ba' v) = Inr s' \<and> ba_ok e s'
      \<and> appended_to s (lenc (of_nat (length v)) @ v) s'"
    using ba_write_ok [OF s'(2), of v] appended_to_trans s by (fastforce simp: ba_ok_def)
next
  fix s v rest assume s: "ba_ok e s" and v: "string_valid LENGTH('a) v"
    and r: "readable s = (lenc (of_nat (length v)) @ v) @ rest"
  obtain s' where s': "lget s = Inr (of_nat (length v), s')" "ba_ok e s'" "readable s' = v @ rest"
    using store_item.get_enc [OF assms s, of "of_nat (length v)" "v @ rest"] r by auto
  moreover have "unat (of_nat (length v) :: 'a word) = length v"
    using v by (simp add: string_valid_def unat_of_nat take_bit_nat_eq_self)
  ultimately show "\<exists>s'. bindE (lget s) (\<lambda>(len, ba'). ba_read ba' (unat len)) = Inr (v, s')
      \<and> ba_ok e s' \<and> readable s' = rest"
    using ba_read_ok [OF s'(2) _ s'(3)] v by (simp add: string_valid_def)
qed

interpretation item_s16: store_item "ba_ok e" readable appended_to "string_valid 16"
    "\<lambda>v. mem_bytes e (of_nat (length v) :: 16 word) @ v" "writeStringF16 host" "readStringF16 host" for e host
  using prefixed_item [OF item_u16.store_item_axioms, of e host]
  by (simp add: writeStringF16_def [abs_def] readStringF16_def [abs_def])

interpretation item_s32: store_item "ba_ok e" readable appended_to "string_valid 32"
    "\<lambda>v. mem_bytes e (of_nat (length v) :: 32 word) @ v" "writeStringF32 host" "readStringF32 host" for e host
  using prefixed_item [OF item_u32.store_item_axioms, of e host]
  by (simp add: writeStringF32_def [abs_def] readStringF32_def [abs_def])

interpretation item_s64: store_item "ba_ok e" readable appended_to "string_valid 64"
    "\<lambda>v. mem_bytes e (of_nat (length v) :: 64 word) @ v" "writeStringF64 host" "readStringF64 host" for e host
  using prefixed_item [OF item_u64.store_item_axioms, of e host]
  by (simp add: writeStringF64_def [abs_def] readStringF64_def [abs_def])

interpretation item_sv: store_item "ba_ok e" readable appended_to "string_valid 64"
    "\<lambda>v. varint_bytes (of_nat (length v) :: 64 word) @ v" writeStringVint readStringVint for e
  using prefixed_item [OF item_v64.store_item_axioms, of e]
  by (simp add: writeStringVint_def [abs_def] readStringVint_def [abs_def])

section \<open>Records of fields\<close>

text \<open>
  A serialised record is a sequence of typed fields. \<open>put_field\<close> and \<open>get_field\<close> select the
  writer and the reader for a field's kind.
\<close>

datatype field =
    F8 "8 word" | F16 "16 word" | F32 "32 word" | F64 "64 word"
  | V32 "32 word" | Z32 "32 word" | V64 "64 word" | Z64 "64 word"
  | S16 "byte list" | S32 "byte list" | S64 "byte list" | SV "byte list"

datatype kind = K8 | K16 | K32 | K64 | KV32 | KZ32 | KV64 | KZ64 | KS16 | KS32 | KS64 | KSV

fun kind_of :: "field \<Rightarrow> kind" where
  "kind_of (F8 _) = K8" | "kind_of (F16 _) = K16" | "kind_of (F32 _) = K32" | "kind_of (F64 _) = K64"
| "kind_of (V32 _) = KV32" | "kind_of (Z32 _) = KZ32" | "kind_of (V64 _) = KV64" | "kind_of (Z64 _) = KZ64"
| "kind_of (S16 _) = KS16" | "kind_of (S32 _) = KS32" | "kind_of (S64 _) = KS64" | "kind_of (SV _) = KSV"

fun field_valid :: "field \<Rightarrow> bool" where
  "field_valid (S16 v) = string_valid 16 v"
| "field_valid (S32 v) = string_valid 32 v"
| "field_valid (S64 v) = string_valid 64 v"
| "field_valid (SV v) = string_valid 64 v"
| "field_valid _ = True"

fun put_field :: "endian \<Rightarrow> byte_array \<Rightarrow> field \<Rightarrow> byte_array result" where
  "put_field host ba (F8 v) = writeFuint8 ba v"
| "put_field host ba (F16 v) = writeFuint16 host ba v"
| "put_field host ba (F32 v) = writeFuint32 host ba v"
| "put_field host ba (F64 v) = writeFuint64 host ba v"
| "put_field host ba (V32 v) = writeUint32 ba v"
| "put_field host ba (Z32 v) = writeInt32 ba v"
| "put_field host ba (V64 v) = writeUint64 ba v"
| "put_field host ba (Z64 v) = writeInt64 ba v"
| "put_field host ba (S16 v) = writeStringF16 host ba v"
| "put_field host ba (S32 v) = writeStringF32 host ba v"
| "put_field host ba (S64 v) = writeStringF64 host ba v"
| "put_field host ba (SV v) = writeStringVint ba v"

fun get_field :: "endian \<Rightarrow> byte_array \<Rightarrow> kind \<Rightarrow> (field \<times> byte_array) result" where
  "get_field host ba K8 = bindE (readFuint8 ba) (\<lambda>(v, b). Inr (F8 v, b))"
| "get_field host ba K16 = bindE (readFuint16 host ba) (\<lambda>(v, b). Inr (F16 v, b))"
| "get_field host ba K32 = bindE (readFuint32 host ba) (\<lambda>(v, b). Inr (F32 v, b))"
| "get_field host ba K64 = bindE (readFuint64 host ba) (\<lambda>(v, b). Inr (F64 v, b))"
| "get_field host ba KV32 = bindE (readUint32 ba) (\<lambda>(v, b). Inr (V32 v, b))"
| "get_field host ba KZ32 = bindE (readInt32 ba) (\<lambda>(v, b). Inr (Z32 v, b))"
| "get_field host ba KV64 = bindE (readUint64 ba) (\<lambda>(v, b). Inr (V64 v, b))"
| "get_field host ba KZ64 = bindE (readInt64 ba) (\<lambda>(v, b). Inr (Z64 v, b))"
| "get_field host ba KS16 = bindE (readStringF16 host ba) (\<lambda>(v, b). Inr (S16 v, b))"
| "get_field host ba KS32 = bindE (readStringF32 host ba) (\<lambda>(v, b). Inr (S32 v, b))"
| "get_field host ba KS64 = bindE (readStringF64 host ba) (\<lambda>(v, b). Inr (S64 v, b))"
| "get_field host ba KSV = bindE (readStringVint ba) (\<lambda>(v, b). Inr (SV v, b))"

fun get_fields :: "endian \<Rightarrow> byte_array \<Rightarrow> kind list \<Rightarrow> (field list \<times> byte_array) result" where
  "get_fields host ba [] = Inr ([], ba)"
| "get_fields host ba (k # ks) = bindE (get_field host ba k) (\<lambda>(f, b).
     bindE (get_fields host b ks) (\<lambda>(fs, b'). Inr (f # fs, b')))"

fun enc_field :: "endian \<Rightarrow> field \<Rightarrow> byte list" where
  "enc_field e (F8 v) = [v]"
| "enc_field e (F16 v) = mem_bytes e v"
| "enc_field e (F32 v) = mem_bytes e v"
| "enc_field e (F64 v) = mem_bytes e v"
| "enc_field e (V32 v) = varint_bytes v"
| "enc_field e (Z32 v) = varint_bytes (EncodeZigzag32 v)"
| "enc_field e (V64 v) = varint_bytes v"
| "enc_field e (Z64 v) = varint_bytes (EncodeZigzag64 v)"
| "enc_field e (S16 v) = mem_bytes e (of_nat (length v) :: 16 word) @ v"
| "enc_field e (S32 v) = mem_bytes e (of_nat (length v) :: 32 word) @ v"
| "enc_field e (S64 v) = mem_bytes e (of_nat (length v) :: 64 word) @ v"
| "enc_field e (SV v) = varint_bytes (of_nat (length v) :: 64 word) @ v"

lemma put_field_ok:
  "ba_ok e ba \<Longrightarrow> field_valid f \<Longrightarrow>
     \<exists>ba'. put_field host ba f = Inr ba' \<and> ba_ok e ba' \<and> appended_to ba (enc_field e f) ba'"
  by (cases f) (simp_all add: item_u8.put_enc item_u16.put_enc item_u32.put_enc item_u64.put_enc
      item_v32.put_enc item_z32.put_enc item_v64.put_enc item_z64.put_enc
      item_s16.put_enc item_s32.put_enc item_s64.put_enc item_sv.put_enc)

lemma get_tagged:
  assumes "\<exists>ba'. r = Inr (v, ba') \<and> P ba'"
  shows "\<exists>ba'. bindE r (\<lambda>(v, b). Inr (C v, b)) = Inr (C v, ba') \<and> P ba'"
  using assms by auto

lemma get_field_ok:
  assumes "ba_ok e ba" and "field_valid f" and "readable ba = enc_field e f @ rest"
  shows "\<exists>ba'. get_field host ba (kind_of f) = Inr (f, ba') \<and> ba_ok e ba' \<and> readable ba' = rest"
  using assms
  by (cases f; simp only: get_field.simps kind_of.simps enc_field.simps field_valid.simps; intro get_tagged;
      simp only: item_u8.get_enc item_u16.get_enc item_u32.get_enc item_u64.get_enc
       item_v32.get_enc item_z32.get_enc item_v64.get_enc item_z64.get_enc
       item_s16.get_enc item_s32.get_enc item_s64.get_enc item_sv.get_enc)

end
