(* ===== verification/ByteArray_IO.thy ===== *)
theory ByteArray_IO
  imports ByteArray_Typed
begin

text \<open>
  The ways bytes leave and enter a \<^verbatim>\<open>ByteArray\<close> in bulk (\<^verbatim>\<open>dwframe/bytearray.cc\<close>): as a string,
  through a file, and as the \<^verbatim>\<open>iovec\<close> segments that \<^verbatim>\<open>SocketStream\<close> hands to the kernel. A segment
  names a node by its index, with the offset and the length in it; \<open>gather\<close> and \<open>scatter\<close> are what
  \<^verbatim>\<open>writev\<close> and \<^verbatim>\<open>readv\<close> do with a list of segments.
\<close>

section \<open>Segments\<close>

record iovec =
  iov_node :: nat
  iov_off :: nat
  iov_len :: nat

text \<open>The loop that \<^verbatim>\<open>getReadBuffers\<close> (both of them) and \<^verbatim>\<open>getWriteBuffers\<close> have in common.\<close>

function iov_loop :: "byte list list \<Rightarrow> nat option \<Rightarrow> nat \<Rightarrow> nat \<Rightarrow> nat \<Rightarrow> iovec list result" where
  "iov_loop nodes cur npos ncap len =
     (if len = 0 then Inr []
      else case cur of
        None \<Rightarrow> Inl Null_dereference
      | Some i \<Rightarrow>
        if i \<ge> length nodes then Inl Null_dereference
        else if ncap \<ge> len then Inr [\<lparr>iov_node = i, iov_off = npos, iov_len = len\<rparr>]
        else
          bindE (node_next nodes cur) (\<lambda>cur'.
          bindE (node_size nodes cur') (\<lambda>ncap'.
          bindE (iov_loop nodes cur' 0 ncap' (len - ncap)) (\<lambda>iovs.
          Inr (\<lparr>iov_node = i, iov_off = npos, iov_len = ncap\<rparr> # iovs)))))"
  by pat_completeness auto
termination
  by (relation "measure (\<lambda>(nodes, cur, npos, ncap, n).
        case cur of None \<Rightarrow> 0 | Some i \<Rightarrow> Suc (length nodes - i))")
     (auto simp: node_next_def node_size_def split: if_splits option.splits)

declare iov_loop.simps [simp del]

definition getReadBuffers :: "byte_array \<Rightarrow> nat \<Rightarrow> (nat \<times> iovec list) result" where
  "getReadBuffers ba len0 =
     (let len = (if len0 > getReadSize ba then getReadSize ba else len0) in
      if len = 0 then Inr (0, [])
      else bindE (offset_in_node ba (m_position ba)) (\<lambda>npos.
           bindE (node_size (m_nodes ba) (m_cur ba)) (\<lambda>sz.
           bindE (iov_loop (m_nodes ba) (m_cur ba) npos (sz - npos) len) (\<lambda>iovs.
           Inr (len, iovs)))))"

text \<open>\<^verbatim>\<open>cur = cur->next\<close>, \<^verbatim>\<open>count\<close> times\<close>

fun walk_nodes :: "byte list list \<Rightarrow> nat \<Rightarrow> nat option \<Rightarrow> nat option result" where
  "walk_nodes nodes 0 cur = Inr cur"
| "walk_nodes nodes (Suc count) cur = bindE (node_next nodes cur) (walk_nodes nodes count)"

definition getReadBuffers_at :: "byte_array \<Rightarrow> nat \<Rightarrow> nat \<Rightarrow> (nat \<times> iovec list) result" where
  "getReadBuffers_at ba len0 position =
     (let len = (if len0 > getReadSize ba then getReadSize ba else len0) in
      if len = 0 then Inr (0, [])
      else bindE (offset_in_node ba position) (\<lambda>npos.
           bindE (walk_nodes (m_nodes ba) (position div m_baseSize ba)
                    (if m_nodes ba = [] then None else Some 0)) (\<lambda>cur.
           bindE (node_size (m_nodes ba) cur) (\<lambda>sz.
           bindE (iov_loop (m_nodes ba) cur npos (sz - npos) len) (\<lambda>iovs.
           Inr (len, iovs))))))"

definition getWriteBuffers :: "byte_array \<Rightarrow> nat \<Rightarrow> (nat \<times> iovec list \<times> byte_array) result" where
  "getWriteBuffers ba len =
     (if len = 0 then Inr (0, [], ba)
      else let ba1 = addCapacity ba len in
           bindE (offset_in_node ba1 (m_position ba1)) (\<lambda>npos.
           bindE (node_size (m_nodes ba1) (m_cur ba1)) (\<lambda>sz.
           bindE (iov_loop (m_nodes ba1) (m_cur ba1) npos (sz - npos) len) (\<lambda>iovs.
           Inr (len, iovs, ba1)))))"

text \<open>What \<^verbatim>\<open>writev\<close> sends and where \<^verbatim>\<open>readv\<close> stores, for a list of segments.\<close>

fun gather :: "byte list list \<Rightarrow> iovec list \<Rightarrow> byte list" where
  "gather nodes [] = []"
| "gather nodes (v # vs) = take (iov_len v) (drop (iov_off v) (nodes ! iov_node v)) @ gather nodes vs"

fun scatter :: "byte list list \<Rightarrow> iovec list \<Rightarrow> byte list \<Rightarrow> byte list list" where
  "scatter nodes [] bs = nodes"
| "scatter nodes (v # vs) bs =
     scatter (nodes[iov_node v := overwrite (iov_off v) (take (iov_len v) bs) (nodes ! iov_node v)])
       vs (drop (iov_len v) bs)"

section \<open>Strings\<close>

definition ba_toString :: "byte_array \<Rightarrow> byte list result" where
  "ba_toString ba =
     (if getReadSize ba = 0 then Inr [] else ba_read_at ba (getReadSize ba) (m_position ba))"

definition hex_digit :: "nat \<Rightarrow> char" where
  "hex_digit d = char_of (if d < 10 then 48 + d else 87 + d)"

definition hex_byte :: "byte \<Rightarrow> string" where
  "hex_byte b = [hex_digit (unat b div 16), hex_digit (unat b mod 16)]"

fun toHexString_loop :: "nat \<Rightarrow> byte list \<Rightarrow> string" where
  "toHexString_loop i [] = []"
| "toHexString_loop i (b # bs) =
     (if i > 0 \<and> i mod 32 = 0 then [CHR 0x0A] else []) @ hex_byte b @ '' '' @ toHexString_loop (Suc i) bs"

definition toHexString :: "byte_array \<Rightarrow> string result" where
  "toHexString ba = bindE (ba_toString ba) (\<lambda>str. Inr (toHexString_loop 0 str))"

section \<open>Files\<close>

text \<open>
  The loop of \<^verbatim>\<open>writeToFile\<close>, with its signed arithmetic: \<open>len\<close> may be zero or negative. A
  negative count is a fault of \<^verbatim>\<open>ofstream::write\<close>.
\<close>

function writeToFile_loop :: "byte list list \<Rightarrow> nat \<Rightarrow> nat option \<Rightarrow> int \<Rightarrow> int \<Rightarrow> byte list result" where
  "writeToFile_loop nodes base cur pos read_size =
     (if read_size \<le> 0 then Inr []
      else if base = 0 then Inl Division_by_zero
      else let diff = pos mod int base;
               len = (if read_size > int base then int base else read_size) - diff
      in case cur of
        None \<Rightarrow> Inl Null_dereference
      | Some i \<Rightarrow>
        if i \<ge> length nodes then Inl Null_dereference
        else if len < 0 then Inl Negative_count
        else bindE (node_next nodes cur) (\<lambda>cur'.
             bindE (writeToFile_loop nodes base cur' (pos + len) (read_size - len)) (\<lambda>out.
             Inr (take (nat len) (drop (nat diff) (nodes ! i)) @ out))))"
  by pat_completeness auto
termination
  by (relation "measure (\<lambda>(nodes, base, cur, pos, rs).
        case cur of None \<Rightarrow> 0 | Some i \<Rightarrow> Suc (length nodes - i))")
     (auto simp: node_next_def split: if_splits option.splits)

declare writeToFile_loop.simps [simp del]

text \<open>\<open>can_open\<close> is what \<^verbatim>\<open>ofs.open\<close> answers; the result is the return value and the file written.\<close>

definition writeToFile :: "byte_array \<Rightarrow> bool \<Rightarrow> (bool \<times> byte list) result" where
  "writeToFile ba can_open =
     (if \<not> can_open then Inr (False, [])
      else bindE (writeToFile_loop (m_nodes ba) (m_baseSize ba) (m_cur ba)
                    (int (m_position ba)) (int (getReadSize ba))) (\<lambda>out. Inr (True, out)))"

text \<open>
  \<^verbatim>\<open>readFromFile\<close>: a read of \<^verbatim>\<open>m_baseSize\<close> bytes sets \<^verbatim>\<open>eof\<close> when fewer are left. With a base size
  of 0 the loop never ends.
\<close>

partial_function (option) readFromFile_loop :: "byte list \<Rightarrow> byte_array \<Rightarrow> byte_array result option" where
  "readFromFile_loop file ba =
     (case ba_write ba (take (m_baseSize ba) file) of
        Inl f \<Rightarrow> Some (Inl f)
      | Inr ba' \<Rightarrow> if length file < m_baseSize ba then Some (Inr ba')
                  else readFromFile_loop (drop (m_baseSize ba) file) ba')"

definition readFromFile :: "byte_array \<Rightarrow> byte list option \<Rightarrow> (bool \<times> byte_array) result option" where
  "readFromFile ba file = (case file of
      None \<Rightarrow> Some (Inr (False, ba))
    | Some bs \<Rightarrow> (case readFromFile_loop bs ba of
          None \<Rightarrow> None
        | Some r \<Rightarrow> Some (bindE r (\<lambda>ba'. Inr (True, ba')))))"

section \<open>Segments hold the same bytes as \<^verbatim>\<open>read\<close> and \<^verbatim>\<open>write\<close>\<close>

definition iov_total :: "iovec list \<Rightarrow> nat" where
  "iov_total vs = sum_list (map iov_len vs)"

lemma iov_loop_total:
  "iov_loop nodes cur npos ncap n = Inr vs \<Longrightarrow> iov_total vs = n"
proof (induction nodes cur npos ncap n arbitrary: vs rule: iov_loop.induct)
  case (1 nodes cur npos ncap n)
  show ?case using "1.prems" "1.IH"
    by (subst (asm) iov_loop.simps)
       (auto simp: iov_total_def bindE_eq_Inr split: if_splits option.splits)
qed

lemma read_loop_iov:
  "read_loop nodes cur npos ncap n = Inr (bs, c) \<Longrightarrow>
     \<exists>vs. iov_loop nodes cur npos ncap n = Inr vs \<and> gather nodes vs = bs"
proof (induction nodes cur npos ncap n arbitrary: bs c rule: read_loop.induct)
  case (1 nodes cur npos ncap n)
  show ?case using "1.prems" "1.IH"
    by (subst iov_loop.simps, subst (asm) read_loop.simps)
       (fastforce simp: bindE_eq_Inr split: if_splits option.splits)
qed

lemma iov_loop_segment:
  assumes "ba_inv ba" and "m_position ba + n \<le> m_capacity ba"
  shows "\<exists>vs. iov_loop (m_nodes ba) (m_cur ba) (m_position ba mod m_baseSize ba)
            (m_baseSize ba - m_position ba mod m_baseSize ba) n = Inr vs
       \<and> gather (m_nodes ba) vs = take n (drop (m_position ba) (contents ba)) \<and> iov_total vs = n"
proof -
  have "read_loop (m_nodes ba) (m_cur ba) (m_position ba mod m_baseSize ba)
          (m_baseSize ba - m_position ba mod m_baseSize ba) n
     = Inr (take n (drop (m_position ba) (contents ba)),
            cursor_of (m_baseSize ba) (length (m_nodes ba)) (m_position ba + n))"
    unfolding contents_def using assms by (intro read_loop_refines) (auto simp: ba_inv_def)
  from read_loop_iov [OF this] iov_loop_total show ?thesis by blast
qed

lemma node_size_cur:
  assumes "ba_inv ba" and "m_position ba < m_capacity ba"
  shows "node_size (m_nodes ba) (m_cur ba) = Inr (m_baseSize ba)"
  using assms node_size_cursor [of "m_nodes ba" "m_baseSize ba" "m_position ba"]
  by (simp add: ba_inv_def)

lemma offset_in_node_inv: "ba_inv ba \<Longrightarrow> offset_in_node ba p = Inr (p mod m_baseSize ba)"
  by (simp add: offset_in_node_def ba_inv_def)

lemma readSize_fits: "ba_inv ba \<Longrightarrow> m_position ba + getReadSize ba \<le> m_capacity ba"
  by (auto simp: ba_inv_def getReadSize_def)

lemma getReadBuffers_gather:
  assumes "ba_inv ba"
  shows "\<exists>vs. getReadBuffers ba n = Inr (min n (length (readable ba)), vs)
     \<and> gather (m_nodes ba) vs = take n (readable ba)
     \<and> iov_total vs = min n (length (readable ba))"
proof (cases "min n (getReadSize ba) = 0")
  case True
  then show ?thesis using length_readable [OF assms]
    by (auto simp: getReadBuffers_def Let_def iov_total_def min_def split: if_splits)
next
  case False
  let ?m = "min n (getReadSize ba)"
  have fit: "m_position ba + ?m \<le> m_capacity ba" using readSize_fits [OF assms] by simp
  with False have "m_position ba < m_capacity ba" by linarith
  note sz = node_size_cur [OF assms this]
  have "(if n > getReadSize ba then getReadSize ba else n) = ?m" by simp
  then show ?thesis
    using iov_loop_segment [OF assms fit] sz False length_readable [OF assms]
    by (auto simp: getReadBuffers_def Let_def offset_in_node_inv assms readable_alt)
qed

lemma getReadSize_0_iff: "ba_inv ba \<Longrightarrow> getReadSize ba = 0 \<longleftrightarrow> readable ba = []"
  using length_readable [of ba] by auto

lemma toString_readable: "ba_inv ba \<Longrightarrow> ba_toString ba = Inr (readable ba)"
proof (cases "getReadSize ba = 0")
  case True
  moreover assume "ba_inv ba"
  ultimately show ?thesis using getReadSize_0_iff by (simp add: ba_toString_def)
next
  case False
  assume inv: "ba_inv ba"
  note fit = readSize_fits [OF inv]
  with False have "m_position ba < m_capacity ba" by simp
  note sz = node_size_cur [OF inv this]
  have "read_loop (m_nodes ba) (m_cur ba) (m_position ba mod m_baseSize ba)
          (m_baseSize ba - m_position ba mod m_baseSize ba) (getReadSize ba)
     = Inr (readable ba, cursor_of (m_baseSize ba) (length (m_nodes ba)) (m_position ba + getReadSize ba))"
    unfolding readable_alt contents_def using inv fit by (intro read_loop_refines) (auto simp: ba_inv_def)
  then show ?thesis using inv False sz
    by (auto simp: ba_toString_def ba_read_at_def offset_in_node_inv ba_inv_def getReadSize_def)
qed

text \<open>The segments depend on the sizes of the nodes only.\<close>

lemma node_next_cong: "length ns = length ms \<Longrightarrow> node_next ns c = node_next ms c"
  unfolding node_next_def by (rule option.case_cong) auto

lemma node_size_cong:
  "map length ns = map length ms \<Longrightarrow> node_size ns c = node_size ms c"
  by (auto simp: node_size_def list_eq_iff_nth_eq split: option.splits dest: map_eq_imp_length_eq)

lemma iov_loop_cong:
  "map length ns = map length ms \<Longrightarrow> iov_loop ns cur npos ncap n = iov_loop ms cur npos ncap n"
proof (induction ns cur npos ncap n rule: iov_loop.induct)
  case (1 ns cur npos ncap n)
  note eqs = map_eq_imp_length_eq [OF "1.prems"] node_next_cong [OF map_eq_imp_length_eq [OF "1.prems"]]
    node_size_cong [OF "1.prems"]
  show ?case
    by (subst (1 2) iov_loop.simps)
       (auto simp: eqs bindE_def "1.IH" [OF _ _ _ _ _ _ "1.prems"] split: option.splits sum.splits)
qed

lemma map_length_overwrite:
  assumes "i < length ns" and "npos + length ds \<le> length (ns ! i)"
  shows "map length (ns[i := overwrite npos ds (ns ! i)]) = map length ns"
  using assms by (simp add: map_update list_update_same_conv)

lemma write_loop_iov:
  "write_loop buf npos ncap ba = Inr ba' \<Longrightarrow>
   (\<forall>i. m_cur ba = Some i \<longrightarrow> i < length (m_nodes ba) \<longrightarrow> npos + ncap = length (m_nodes ba ! i)) \<Longrightarrow>
     \<exists>vs. iov_loop (m_nodes ba) (m_cur ba) npos ncap (length buf) = Inr vs
        \<and> scatter (m_nodes ba) vs buf = m_nodes ba'"
proof (induction buf npos ncap ba arbitrary: ba' rule: write_loop.induct)
  case (1 buf npos ncap ba)
  show ?case
  proof (cases "buf = []")
    case True
    with "1.prems" show ?thesis by (simp add: write_loop.simps [of "[]"] iov_loop.simps [of _ _ _ _ 0])
  next
    case False
    then obtain i where i: "m_cur ba = Some i" "i < length (m_nodes ba)"
      using "1.prems"(1) by (subst (asm) write_loop.simps) (auto split: option.splits if_splits)
    show ?thesis
    proof (cases "length buf \<le> ncap")
      case True
      then show ?thesis using "1.prems"(1) False i
        by (subst iov_loop.simps, subst (asm) write_loop.simps)
           (auto simp: bindE_eq_Inr split: if_splits)
    next
      case short: False
      let ?ns = "(m_nodes ba)[i := overwrite npos (take ncap buf) (m_nodes ba ! i)]"
      obtain c k where c: "node_next (m_nodes ba) (m_cur ba) = Inr c" "node_size (m_nodes ba) c = Inr k"
        and w: "write_loop (drop ncap buf) 0 k (ba\<lparr>m_nodes := ?ns, m_cur := c,
               m_position := m_position ba + ncap\<rparr>) = Inr ba'"
        using "1.prems"(1) False i short
        by (subst (asm) write_loop.simps) (auto simp: bindE_eq_Inr)
      have len: "map length ?ns = map length (m_nodes ba)"
        using i short "1.prems"(2) by (intro map_length_overwrite) auto
      have "\<exists>vs. iov_loop ?ns c 0 k (length (drop ncap buf)) = Inr vs
          \<and> scatter ?ns vs (drop ncap buf) = m_nodes ba'"
        using "1.IH" [OF False i(1) _ short c w] i c(2) node_size_cong [OF len, of c]
        by (auto simp: node_size_def split: option.splits if_splits)
      then obtain vs where vs: "iov_loop (m_nodes ba) c 0 k (length buf - ncap) = Inr vs"
          "scatter ?ns vs (drop ncap buf) = m_nodes ba'"
        using iov_loop_cong [OF len] by auto
      have "iov_loop (m_nodes ba) (m_cur ba) npos ncap (length buf)
          = Inr (\<lparr>iov_node = i, iov_off = npos, iov_len = ncap\<rparr> # vs)"
        by (subst iov_loop.simps) (use False i short c vs(1) in simp)
      then show ?thesis using vs(2) by simp
    qed
  qed
qed

text \<open>
  Reserving segments, letting the kernel fill them and moving the position behind them is
  the same as writing the bytes.
\<close>

lemma getWriteBuffers_scatter:
  assumes "ba_inv ba" and "bs \<noteq> []"
  shows "\<exists>vs ba1. getWriteBuffers ba (length bs) = Inr (length bs, vs, ba1)
     \<and> iov_total vs = length bs \<and> readable ba1 = readable ba
     \<and> (\<exists>ba2. setPosition (ba1\<lparr>m_nodes := scatter (m_nodes ba1) vs bs\<rparr>) (m_position ba + length bs) = Inr ba2
         \<and> ba_write ba bs = Inr ba2)"
proof -
  define ba1 where "ba1 = addCapacity ba (length bs)"
  have inv1: "ba_inv ba1" by (simp add: ba1_def ba_inv_addCapacity assms)
  note fr = frame_simps [of ba "length bs", folded ba1_def]
  let ?b = "m_baseSize ba1" and ?p = "m_position ba1" and ?n = "length (m_nodes ba1)"
  have room: "?p + length bs \<le> ?n * ?b"
    using addCapacity_enough [OF assms(1), of "length bs"] inv1
    by (auto simp: ba1_def [symmetric] getCapacity_def ba_inv_def)
  with assms(2) have lt: "?p < ?n * ?b" by (cases bs) auto
  have b: "0 < ?b" and all: "\<forall>x \<in> set (m_nodes ba1). length x = ?b"
    and cur: "m_cur ba1 = cursor_of ?b ?n ?p" using inv1 by (auto simp: ba_inv_def)
  obtain nodes' where w: "write_loop bs (?p mod ?b) (?b - ?p mod ?b) ba1
       = Inr (ba1\<lparr>m_nodes := nodes', m_cur := cursor_of ?b (length nodes') (?p + length bs),
                  m_position := ?p + length bs\<rparr>)"
    and nodes': "length nodes' = ?n" "\<forall>x \<in> set nodes'. length x = ?b"
    using write_loop_refines [OF b all room cur refl refl] by blast
  obtain vs where vs: "iov_loop (m_nodes ba1) (m_cur ba1) (?p mod ?b) (?b - ?p mod ?b) (length bs) = Inr vs"
      "scatter (m_nodes ba1) vs bs = nodes'"
    using write_loop_iov [OF w] all b by (auto simp: less_imp_le)
  have sz: "node_size (m_nodes ba1) (m_cur ba1) = Inr ?b"
    using node_size_cursor [OF all lt] cur by simp
  have "getWriteBuffers ba (length bs) = Inr (length bs, vs, ba1)"
    using assms sz vs(1) inv1 by (simp add: getWriteBuffers_def ba1_def [symmetric] Let_def offset_in_node_inv)
  moreover have "readable ba1 = readable ba" using fr assms by (simp add: readable_def)
  moreover have "setPosition (ba1\<lparr>m_nodes := nodes'\<rparr>) (m_position ba + length bs) = ba_write ba bs"
  proof -
    have "setPosition_walk nodes' 0 (?p + length bs)
       = Inr (map_option (\<lambda>k. 0 + k) (cursor_of ?b (length nodes') (?p + length bs)))"
      using nodes' room b lt by (intro setPosition_walk_eq) auto
    then show ?thesis
      using assms sz w inv1 room fr
      by (auto simp: setPosition_def ba_write_def ba1_def [symmetric] Let_def offset_in_node_inv
          option.map_ident_strong ba_inv_def)
  qed
  ultimately show ?thesis using iov_loop_total [OF vs(1)] vs(2) ba_write_refines [OF assms(1), of bs]
    by (intro exI [of _ vs] exI [of _ ba1]) auto
qed

section \<open>Files\<close>

lemma node_next_within:
  "k < length nodes \<Longrightarrow>
     \<exists>c. node_next nodes (Some k) = Inr c \<and> (Suc k < length nodes \<longrightarrow> c = Some (Suc k))"
  by (simp add: node_next_def)

lemma writeToFile_step:
  assumes "0 < read_size" and "0 < base"
    and "len = (if read_size > int base then int base else read_size) - pos mod int base"
    and "0 \<le> len" and "i < length nodes" and "node_next nodes (Some i) = Inr c"
    and "writeToFile_loop nodes base c (pos + len) (read_size - len) = Inr out"
  shows "writeToFile_loop nodes base (Some i) pos read_size
       = Inr (take (nat len) (drop (nat (pos mod int base)) (nodes ! i)) @ out)"
  using assms by (subst writeToFile_loop.simps) (simp add: Let_def)

text \<open>From a position at the start of a node on, \<^verbatim>\<open>writeToFile\<close> writes one node after the other.\<close>

lemma writeToFile_loop_aligned:
  assumes "0 < b" and "\<forall>x \<in> set nodes. length x = b" and "k * b + n \<le> length nodes * b"
    and "n > 0 \<longrightarrow> cur = Some k"
  shows "writeToFile_loop nodes b cur (int (k * b)) (int n)
      = Inr (take n (drop (k * b) (concat nodes)))"
  using assms(3,4)
proof (induction n arbitrary: k cur rule: less_induct)
  case (less n)
  show ?case
  proof (cases "n = 0")
    case True
    then show ?thesis by (subst writeToFile_loop.simps) simp
  next
    case False
    define len where "len = min n b"
    have cur: "cur = Some k" using less.prems(2) False by simp
    have "k * b < length nodes * b" using less.prems(1) False by linarith
    then have k: "k < length nodes" using assms(1) by simp
    have blk: "length (nodes ! k) = b" using assms(2) k by simp
    obtain cur' where cur': "node_next nodes (Some k) = Inr cur'"
        "Suc k < length nodes \<longrightarrow> cur' = Some (Suc k)"
      using node_next_within [OF k] by blast
    have more: "Suc k < length nodes" if "n - len > 0"
    proof -
      have "Suc k * b < length nodes * b" using that less.prems(1) by (auto simp: len_def)
      then show ?thesis by (simp only: mult_less_cancel2)
    qed
    have IH: "writeToFile_loop nodes b cur' (int (Suc k * b)) (int (n - len))
        = Inr (take (n - len) (drop (Suc k * b) (concat nodes)))"
    proof (rule less.IH)
      show "n - len < n" using False assms(1) by (simp add: len_def)
      show "Suc k * b + (n - len) \<le> length nodes * b"
        using less.prems(1) k mult_le_mono1 [of "Suc k" "length nodes" b] by (auto simp: len_def)
      show "0 < n - len \<longrightarrow> cur' = Some (Suc k)" using cur' more by blast
    qed
    have rest: "writeToFile_loop nodes b cur' (int (k * b) + int len) (int n - int len)
        = Inr (take (n - len) (drop (Suc k * b) (concat nodes)))"
    proof (cases "n \<le> b")
      case True
      then show ?thesis by (subst writeToFile_loop.simps) (simp add: len_def)
    next
      case False
      then have "int (k * b) + int len = int (Suc k * b)" "int n - int len = int (n - len)"
        by (simp_all add: len_def)
      with IH show ?thesis by (simp only:)
    qed
    have eq: "int len = (if int n > int b then int b else int n) - int (k * b) mod int b"
      by (simp add: len_def)
    have "writeToFile_loop nodes b (Some k) (int (k * b)) (int n)
        = Inr (take (nat (int len)) (drop (nat (int (k * b) mod int b)) (nodes ! k))
               @ take (n - len) (drop (Suc k * b) (concat nodes)))"
      by (rule writeToFile_step [OF _ assms(1) eq _ k cur'(1) rest]) (use False in simp_all)
    then have "writeToFile_loop nodes b cur (int (k * b)) (int n)
        = Inr (take len (nodes ! k) @ take (n - len) (drop (Suc k * b) (concat nodes)))"
      by (simp only: cur of_nat_mult mod_mult_self2_is_0 nat_int nat_0 drop_0)
    also have "take len (nodes ! k) @ take (n - len) (drop (Suc k * b) (concat nodes))
        = take n (drop (k * b) (concat nodes))"
    proof -
      have "drop (k * b) (concat nodes) = nodes ! k @ drop (Suc k * b) (concat nodes)"
        using assms(2) k by (rule drop_block_Suc)
      then show ?thesis using blk by (simp add: len_def min_def)
    qed
    finally show ?thesis .
  qed
qed

lemma writeToFile_loop_offset:
  assumes "0 < b" and "\<forall>x \<in> set nodes. length x = b" and "p + n \<le> length nodes * b"
    and "b \<le> n" and "cur = Some (p div b)"
  shows "writeToFile_loop nodes b cur (int p) (int n) = Inr (take n (drop p (concat nodes)))"
proof -
  let ?k = "p div b" and ?d = "p mod b"
  define len where "len = b - ?d"
  have len: "len \<le> n" "p + len = Suc ?k * b" "len > 0"
    using assms(1,4) mod_less_divisor [of b p] div_mult_mod_eq [of p b] unfolding len_def mult_Suc
    by linarith+
  have "p < length nodes * b" using assms by linarith
  then have k: "?k < length nodes" by (simp add: less_mult_imp_div_less)
  obtain cur' where cur': "node_next nodes (Some ?k) = Inr cur'"
      "Suc ?k < length nodes \<longrightarrow> cur' = Some (Suc ?k)"
    using node_next_within [OF k] by blast
  have more: "Suc ?k < length nodes" if "n - len > 0"
  proof -
    have "Suc ?k * b < length nodes * b" using that assms(3) len by linarith
    then show ?thesis by (simp only: mult_less_cancel2)
  qed
  have rest: "writeToFile_loop nodes b cur' (int (Suc ?k * b)) (int (n - len))
      = Inr (take (n - len) (drop (Suc ?k * b) (concat nodes)))"
    using assms(1-3) len cur' more by (intro writeToFile_loop_aligned) auto
  have eq: "int len = (if int n > int b then int b else int n) - int p mod int b"
    using assms(1,4) by (auto simp: len_def of_nat_diff zmod_int)
  have sums: "int p + int len = int (Suc ?k * b)" "int n - int len = int (n - len)"
    using len(1) by (simp_all add: of_nat_diff len(2) [symmetric] del: mult_Suc)
  have "writeToFile_loop nodes b (Some ?k) (int p) (int n)
      = Inr (take (nat (int len)) (drop (nat (int p mod int b)) (nodes ! ?k))
             @ take (n - len) (drop (Suc ?k * b) (concat nodes)))"
    by (rule writeToFile_step [OF _ assms(1) eq _ k cur'(1)]) (use len in simp, simp, simp only: sums rest)
  then have "writeToFile_loop nodes b cur (int p) (int n)
      = Inr (take len (drop ?d (nodes ! ?k)) @ take (n - len) (drop (Suc ?k * b) (concat nodes)))"
    by (simp only: assms(5) nat_int zmod_int [symmetric])
  also have "\<dots> = Inr (take n (drop p (concat nodes)))"
  proof -
    have "drop (?k * b) (concat nodes) = nodes ! ?k @ drop (Suc ?k * b) (concat nodes)"
      using assms(2) k by (rule drop_block_Suc)
    moreover have "drop p (concat nodes) = drop ?d (drop (?k * b) (concat nodes))"
      by (simp add: add.commute)
    moreover have "length (nodes ! ?k) = b" using assms(2) k by simp
    ultimately show ?thesis using assms(1) len by (simp add: len_def)
  qed
  finally show ?thesis .
qed

lemma writeToFile_readable:
  assumes "ba_inv ba" and "m_position ba mod m_baseSize ba = 0 \<or> m_baseSize ba \<le> getReadSize ba"
  shows "writeToFile ba True = Inr (True, readable ba)"
proof -
  let ?b = "m_baseSize ba" and ?p = "m_position ba" and ?n = "getReadSize ba"
  have b: "0 < ?b" and all: "\<forall>x \<in> set (m_nodes ba). length x = ?b"
    and fit: "?p + ?n \<le> length (m_nodes ba) * ?b"
    and cur: "m_cur ba = cursor_of ?b (length (m_nodes ba)) ?p"
    using assms(1) readSize_fits [OF assms(1)] by (auto simp: ba_inv_def)
  have at: "m_cur ba = Some (?p div ?b)" if "?n > 0"
    using that cur fit by (simp add: cursor_of_def)
  have "writeToFile_loop (m_nodes ba) ?b (m_cur ba) (int ?p) (int ?n) = Inr (readable ba)"
  proof (cases "?p mod ?b = 0")
    case True
    then have "?p = ?p div ?b * ?b" by (simp add: mult.commute mod_0_imp_dvd)
    then show ?thesis
      using writeToFile_loop_aligned [OF b all, of "?p div ?b" ?n "m_cur ba"] fit at
      by (simp add: readable_alt contents_def)
  next
    case False
    then show ?thesis
      using writeToFile_loop_offset [OF b all fit] assms(2) at b
      by (simp add: readable_alt contents_def)
  qed
  then show ?thesis by (simp add: writeToFile_def)
qed

lemma readFromFile_loop_appends:
  "ba_inv ba \<Longrightarrow> \<exists>ba'. readFromFile_loop bs ba = Some (Inr ba') \<and> ba_inv ba'
     \<and> m_position ba' = m_position ba + length bs
     \<and> written ba' = overwrite (m_position ba) bs (written ba)"
proof (induction "length bs" arbitrary: bs ba rule: less_induct)
  case less
  let ?b = "m_baseSize ba"
  obtain ba1 where ba1: "ba_write ba (take ?b bs) = Inr ba1" "ba_inv ba1"
      "m_position ba1 = m_position ba + length (take ?b bs)"
      "written ba1 = overwrite (m_position ba) (take ?b bs) (written ba)" "m_baseSize ba1 = ?b"
    using ba_write_refines [OF less.prems] by blast
  show ?case
  proof (cases "length bs < ?b")
    case True
    then show ?thesis using ba1 by (subst readFromFile_loop.simps) simp
  next
    case False
    have "0 < ?b" using less.prems by (simp add: ba_inv_def)
    then have "length (drop ?b bs) < length bs" using False by simp
    then obtain ba2 where ba2: "readFromFile_loop (drop ?b bs) ba1 = Some (Inr ba2)" "ba_inv ba2"
        "m_position ba2 = m_position ba1 + length (drop ?b bs)"
        "written ba2 = overwrite (m_position ba1) (drop ?b bs) (written ba1)"
      using less.hyps [of "drop ?b bs" ba1] ba1(2) by blast
    have "overwrite (m_position ba1) (drop ?b bs) (written ba1)
        = overwrite (m_position ba) (take ?b bs @ drop ?b bs) (written ba)"
      using appended_to_trans [of ba "take ?b bs" ba1 "drop ?b bs" ba2] less.prems ba1 ba2
      by (simp add: appended_to_def)
    then show ?thesis using ba1 ba2 False by (subst readFromFile_loop.simps) simp
  qed
qed

section \<open>Hexadecimal dump\<close>

lemma hex_digit_inj: "a < 16 \<Longrightarrow> b < 16 \<Longrightarrow> hex_digit a = hex_digit b \<Longrightarrow> a = b"
proof -
  assume "a < 16" "b < 16" "hex_digit a = hex_digit b"
  then have "(of_char (hex_digit a) :: nat) = of_char (hex_digit b)" by simp
  with \<open>a < 16\<close> \<open>b < 16\<close> show "a = b" by (simp add: hex_digit_def split: if_splits)
qed

lemma hex_byte_inj: "hex_byte a = hex_byte b \<Longrightarrow> a = b"
proof -
  assume eq: "hex_byte a = hex_byte b"
  have "unat a div 16 < 16" "unat b div 16 < 16" using unsigned_less [of a, where 'a = nat] unsigned_less [of b, where 'a = nat] by auto
  then have "unat a div 16 = unat b div 16" "unat a mod 16 = unat b mod 16"
    using eq hex_digit_inj by (auto simp: hex_byte_def)
  then have "unat a = unat b" by (metis div_mult_mod_eq)
  then show "a = b" by (simp add: word_unat_eq_iff)
qed

lemma toHexString_loop_inj: "toHexString_loop i as = toHexString_loop i bs \<Longrightarrow> as = bs"
proof (induction as arbitrary: i bs)
  case Nil
  then show ?case by (cases bs) (auto simp: hex_byte_def)
next
  case (Cons a as)
  then obtain b bs' where bs: "bs = b # bs'" by (cases bs) (auto simp: hex_byte_def)
  with Cons.prems have "hex_byte a = hex_byte b" "toHexString_loop (Suc i) as = toHexString_loop (Suc i) bs'"
    by (auto simp: hex_byte_def)
  with Cons.IH bs show ?case by (auto dest: hex_byte_inj)
qed

end
