(* ===== verification/ByteArray_Props.thy ===== *)
theory ByteArray_Props
  imports ByteArray_IO
begin

text \<open>
  The properties of \<^verbatim>\<open>ByteArray\<close> as a client sees them: raw reads and writes against the flat
  contents, serialised records, segments for the kernel, files.
\<close>

lemma mk_ByteArray_start [simp]:
  "m_position (mk_ByteArray b) = 0" "written (mk_ByteArray b) = []" "m_endian (mk_ByteArray b) = Big_endian"
  by (simp_all add: mk_ByteArray_def written_def)

section \<open>Records of fields\<close>

lemma put_fields_append:
  "ba_ok e ba \<Longrightarrow> \<forall>f \<in> set fs. field_valid f \<Longrightarrow>
     \<exists>ba'. put_all (put_field host) ba fs = Inr ba' \<and> ba_ok e ba'
        \<and> appended_to ba (concat (map (enc_field e) fs)) ba'"
proof (induction fs arbitrary: ba)
  case Nil
  then show ?case by (simp add: appended_to_def)
next
  case (Cons f fs)
  then obtain b1 where b1: "put_field host ba f = Inr b1" "ba_ok e b1" "appended_to ba (enc_field e f) b1"
    using put_field_ok by (metis list.set_intros(1))
  with Cons obtain b2 where "put_all (put_field host) b1 fs = Inr b2" "ba_ok e b2"
      "appended_to b1 (concat (map (enc_field e) fs)) b2" by fastforce
  with b1 Cons.prems show ?case by (auto simp: ba_ok_def intro: appended_to_trans)
qed

lemma get_fields_take:
  "ba_ok e ba \<Longrightarrow> \<forall>f \<in> set fs. field_valid f \<Longrightarrow>
   readable ba = concat (map (enc_field e) fs) @ rest \<Longrightarrow>
     \<exists>ba'. get_fields host ba (map kind_of fs) = Inr (fs, ba') \<and> ba_ok e ba' \<and> readable ba' = rest"
proof (induction fs arbitrary: ba)
  case Nil
  then show ?case by simp
next
  case (Cons f fs)
  then have "ba_ok e ba" "field_valid f" "readable ba = enc_field e f @ concat (map (enc_field e) fs) @ rest"
    by simp_all
  then obtain b1 where b1: "get_field host ba (kind_of f) = Inr (f, b1)" "ba_ok e b1"
      "readable b1 = concat (map (enc_field e) fs) @ rest"
    using get_field_ok by blast
  with Cons obtain b2 where "get_fields host b1 (map kind_of fs) = Inr (fs, b2)" "ba_ok e b2"
      "readable b2 = rest" by fastforce
  with b1 show ?case by simp
qed

lemma rewind_readable:
  assumes "ba_ok e ba" and "ba_ok e ba1" and "appended_to ba bs ba1"
  shows "\<exists>ba2. setPosition ba1 (m_position ba) = Inr ba2 \<and> ba_ok e ba2
     \<and> readable ba2 = bs @ drop (length bs) (readable ba)"
proof -
  have p: "m_position ba \<le> length (written ba)" using assms(1) by (simp add: ba_ok_def position_le_written)
  have "m_position ba \<le> m_size ba1" using assms(2,3) by (auto simp: ba_ok_def ba_inv_def appended_to_def)
  then obtain ba2 where "setPosition ba1 (m_position ba) = Inr ba2" "ba_inv ba2"
      "readable ba2 = drop (m_position ba) (written ba1)" "m_endian ba2 = m_endian ba1"
    using setPosition_readable [of ba1 "m_position ba"] assms(2) by (auto simp: ba_ok_def)
  moreover have "drop (m_position ba) (written ba1) = bs @ drop (length bs) (readable ba)"
    using assms(3) p by (simp add: appended_to_def overwrite_def readable_def add.commute)
  ultimately show ?thesis using assms(2) by (auto simp: ba_ok_def)
qed

text \<open>C8: A record of fields (fixed-width integers, variable-length integers, zigzag integers,
  length-prefixed strings) that is written to a byte array is read back unchanged after the
  position is set back to where the record starts, whatever the node size, the position in the
  node, the byte order chosen for the array and the byte orders of the writing and the reading
  machine; what was readable behind the record is still there. Strings must be non-empty and
  short enough for their length prefix.\<close>

theorem record_roundtrip:
  assumes "ba_ok e ba" and "\<forall>f \<in> set fs. field_valid f"
  shows "\<exists>ba1 ba2 ba3. put_all (put_field host) ba fs = Inr ba1
     \<and> setPosition ba1 (m_position ba) = Inr ba2
     \<and> get_fields host' ba2 (map kind_of fs) = Inr (fs, ba3)
     \<and> readable ba3 = drop (length (concat (map (enc_field e) fs))) (readable ba)
     \<and> ba_ok e ba3"
proof -
  obtain ba1 where 1: "put_all (put_field host) ba fs = Inr ba1" "ba_ok e ba1"
      "appended_to ba (concat (map (enc_field e) fs)) ba1"
    using put_fields_append [OF assms] by blast
  obtain ba2 where 2: "setPosition ba1 (m_position ba) = Inr ba2" "ba_ok e ba2"
      "readable ba2 = concat (map (enc_field e) fs)
         @ drop (length (concat (map (enc_field e) fs))) (readable ba)"
    using rewind_readable [OF assms(1) 1(2,3)] by blast
  show ?thesis using 1 2 get_fields_take [OF 2(2) assms(2) 2(3)] by blast
qed

theorem record_roundtrip_witness:
  "\<exists>ba1 ba2 ba3. put_all (put_field Little_endian) (mk_ByteArray 3) [F16 0x0102, Z32 (-3), SV [7, 8]] = Inr ba1
     \<and> setPosition ba1 0 = Inr ba2
     \<and> get_fields Big_endian ba2 [K16, KZ32, KSV] = Inr ([F16 0x0102, Z32 (-3), SV [7, 8]], ba3)
     \<and> readable ba3 = [] \<and> ba_ok Big_endian ba3"
  using record_roundtrip [of Big_endian "mk_ByteArray 3" "[F16 0x0102, Z32 (-3), SV [7, 8]]"
      Little_endian Big_endian]
  by (simp add: ba_ok_def ba_inv_mk string_valid_def)

text \<open>The bytes a writer stores do not depend on the byte order of the machine that runs it.\<close>

theorem wire_format_host_independent: "put_field host ba f = put_field host' ba f"
proof -
  have eq: "mem_bytes h (if m_endian ba \<noteq> h then byteswap v else v) = mem_bytes (m_endian ba) v"
    if "8 dvd LENGTH('a)" for h and v :: "'a::len word" and ba
    using that by (auto simp: mem_bytes_other)
  have sw: "write_swapped host ba v = write_swapped host' ba v"
    if "8 dvd LENGTH('a)" for v :: "'a::len word" and ba
    unfolding write_swapped_def eq [OF that] ..
  show ?thesis
    by (cases f) (simp_all add: writeFuint16_def writeFuint32_def writeFuint64_def writeStringF16_def
        writeStringF32_def writeStringF64_def sw)
qed

section \<open>Raw access\<close>

text \<open>C9: \<^verbatim>\<open>write\<close> of any number of bytes succeeds, keeps the representation invariant (equal
  node sizes, capacity, cursor on the node of the position) and overwrites exactly the bytes from
  the position on, whatever node boundaries they cross; the size grows to the end of the
  written bytes when that is beyond it.\<close>

theorem write_refines_overwrite:
  assumes "ba_inv ba"
  shows "\<exists>ba'. ba_write ba buf = Inr ba' \<and> ba_inv ba' \<and> m_position ba' = m_position ba + length buf
     \<and> written ba' = overwrite (m_position ba) buf (written ba)"
  using ba_write_refines [OF assms] by blast

theorem write_refines_overwrite_witness:
  "\<exists>ba'. ba_write (mk_ByteArray 2) [1, 2, 3, 4, 5] = Inr ba' \<and> ba_inv ba' \<and> m_position ba' = 5
     \<and> written ba' = [1, 2, 3, 4, 5]"
  using write_refines_overwrite [OF ba_inv_mk, of 2 "[1, 2, 3, 4, 5]"]
  by (simp add: overwrite_def eval_nat_numeral)

lemma ba_read_none:
  assumes "ba_inv ba" and "m_position ba = m_capacity ba"
  shows "ba_read ba 0 = Inl Null_dereference"
  using assms by (simp add: ba_read_def offset_in_node_inv ba_inv_def cursor_of_def node_size_def)

text \<open>C10: The outcome of \<^verbatim>\<open>read\<close> in every case. Asking for more than is readable throws; reading
  nothing at the very end of the capacity dereferences the null \<^verbatim>\<open>m_cur\<close>; every other read
  returns the next bytes and consumes them, leaving the written bytes alone.\<close>

theorem read_outcome:
  assumes "ba_inv ba"
  shows "if length (readable ba) < n then ba_read ba n = Inl Out_of_range
     else if n = 0 \<and> m_position ba = m_capacity ba then ba_read ba n = Inl Null_dereference
     else \<exists>ba'. ba_read ba n = Inr (take n (readable ba), ba') \<and> ba_inv ba'
        \<and> readable ba' = drop n (readable ba) \<and> written ba' = written ba"
proof -
  have "0 < n \<or> m_position ba < m_capacity ba" if "\<not> (n = 0 \<and> m_position ba = m_capacity ba)"
    using that assms by (auto simp: ba_inv_def)
  then show ?thesis
    using ba_read_short [OF assms, of n] ba_read_none [OF assms] ba_read_refines [OF assms, of n] by auto
qed

theorem read_outcome_witness:
  "ba_read (mk_ByteArray 4) 1 = Inl Out_of_range"
  using read_outcome [OF ba_inv_mk, of 4 1] by simp

section \<open>Segments for the kernel\<close>

text \<open>The segments of \<^verbatim>\<open>getReadBuffers\<close> cover, in order, exactly the first \<open>n\<close> readable bytes
  (all of them when fewer are readable), and the return value is their total length.\<close>

theorem read_buffers_exact:
  assumes "ba_inv ba"
  shows "\<exists>vs. getReadBuffers ba n = Inr (iov_total vs, vs) \<and> gather (m_nodes ba) vs = take n (readable ba)
     \<and> iov_total vs = min n (length (readable ba))"
  using getReadBuffers_gather [OF assms, of n] by auto

theorem read_buffers_exact_witness:
  "\<exists>vs. getReadBuffers (mk_ByteArray 4) 9 = Inr (iov_total vs, vs)
     \<and> gather (m_nodes (mk_ByteArray 4)) vs = [] \<and> iov_total vs = 0"
  using read_buffers_exact [OF ba_inv_mk, of 4 9] by simp

text \<open>Receiving into the segments of \<^verbatim>\<open>getWriteBuffers\<close> and then moving the position behind the
  received bytes leaves the array exactly as \<^verbatim>\<open>write\<close> of these bytes would have; reserving the
  segments alone changes nothing that is readable.\<close>

theorem write_buffers_like_write:
  assumes "ba_inv ba" and "bs \<noteq> []"
  shows "\<exists>vs ba1 ba2. getWriteBuffers ba (length bs) = Inr (length bs, vs, ba1)
     \<and> iov_total vs = length bs \<and> readable ba1 = readable ba
     \<and> setPosition (ba1\<lparr>m_nodes := scatter (m_nodes ba1) vs bs\<rparr>) (m_position ba + length bs) = Inr ba2
     \<and> ba_write ba bs = Inr ba2"
  using getWriteBuffers_scatter [OF assms] by blast

theorem write_buffers_like_write_witness:
  "\<exists>vs ba1 ba2. getWriteBuffers (mk_ByteArray 2) 3 = Inr (3, vs, ba1)
     \<and> iov_total vs = 3 \<and> readable ba1 = []
     \<and> setPosition (ba1\<lparr>m_nodes := scatter (m_nodes ba1) vs [5, 6, 7]\<rparr>) 3 = Inr ba2
     \<and> ba_write (mk_ByteArray 2) [5, 6, 7] = Inr ba2"
  using write_buffers_like_write [OF ba_inv_mk, of 2 "[5, 6, 7]"] by (simp add: eval_nat_numeral)

section \<open>Files\<close>

text \<open>A file written by \<^verbatim>\<open>writeToFile\<close> from a position at the start of a node, or with at least
  a node's worth of bytes left, holds the readable bytes, and \<^verbatim>\<open>readFromFile\<close> of such a file
  terminates and appends exactly these bytes to the reading array.\<close>

theorem file_roundtrip:
  assumes "ba_inv ba" and "m_position ba mod m_baseSize ba = 0 \<or> m_baseSize ba \<le> getReadSize ba"
    and "ba_inv ba0"
  shows "\<exists>out ba1. writeToFile ba True = Inr (True, out) \<and> out = readable ba
     \<and> readFromFile ba0 (Some out) = Some (Inr (True, ba1)) \<and> ba_inv ba1
     \<and> written ba1 = overwrite (m_position ba0) (readable ba) (written ba0)"
  using writeToFile_readable [OF assms(1,2)] readFromFile_loop_appends [OF assms(3), of "readable ba"]
  by (auto simp: readFromFile_def)

theorem file_roundtrip_witness:
  "\<exists>out ba1. writeToFile (mk_ByteArray 2) True = Inr (True, out) \<and> out = []
     \<and> readFromFile (mk_ByteArray 3) (Some out) = Some (Inr (True, ba1)) \<and> ba_inv ba1
     \<and> written ba1 = []"
  using file_roundtrip [OF ba_inv_mk _ ba_inv_mk, of 2 3] by (simp add: overwrite_def)

text \<open>\<^verbatim>\<open>writeToFile\<close> fails inside a node: with nodes of 8 bytes, 5 bytes written and the position
  at 2, it writes one byte instead of three and then dereferences the end of the chain.\<close>

theorem writeToFile_inside_node_faults:
  "bindE (ba_write (mk_ByteArray 8) [1, 2, 3, 4, 5]) (\<lambda>ba1.
     bindE (setPosition ba1 2) (\<lambda>ba2. Inr (ba_toString ba2, writeToFile ba2 True)))
   = Inr (Inr [3, 4, 5], Inl Null_dereference)"
  by code_simp

end
