(* ===== verification/Ragel_Machine.thy ===== *)
theory Ragel_Machine
  imports Prelude
begin

text \<open>
  Machines as the Ragel compiler writes them (\<^verbatim>\<open>dwframe/http/*.rl.cc\<close>): a \<^verbatim>\<open>switch\<close> over the state, in every case tests on
  the character, and jumps either to the label of a state (\<^verbatim>\<open>st\<close>) or to the label of a transition (\<^verbatim>\<open>tr\<close>), which performs
  actions and goes on to a state. Characters are signed.
\<close>

datatype dest = St nat | Tr nat

type_synonym row = "(int \<times> int \<times> dest) list"
type_synonym state_row = "nat \<times> bool \<times> row \<times> dest"

fun row_dest :: "row \<Rightarrow> dest \<Rightarrow> int \<Rightarrow> dest" where
  "row_dest [] dflt v = dflt"
| "row_dest ((lo, hi, d) # rows) dflt v = (if lo \<le> v \<and> v \<le> hi then d else row_dest rows dflt v)"

definition signed_char :: "char \<Rightarrow> int" where
  "signed_char c = (let n = of_char c in if n < 128 then n else n - 256)"

text \<open>The characters \<^verbatim>\<open>^\<close>, \<^verbatim>\<open>{\<close> and \<^verbatim>\<open>}\<close> are widened in the states that test the condition.\<close>

definition widec :: "bool \<Rightarrow> int \<Rightarrow> int" where
  "widec relaxed v = (if v = 94 \<or> v = 123 \<or> v = 125 then 128 + (v + 128) + (if relaxed then 256 else 0) else v)"

definition machine_dest :: "state_row list \<Rightarrow> bool \<Rightarrow> nat \<Rightarrow> char \<Rightarrow> dest" where
  "machine_dest rows relaxed cs c = (case map_of rows cs of
      None \<Rightarrow> St 0
    | Some (wide, row, dflt) \<Rightarrow>
        row_dest row dflt (if wide then widec relaxed (signed_char c) else signed_char c))"

end
