(* ===== verification/Http11_Table.thy ===== *)
theory Http11_Table
  imports Ragel_Machine
begin

text \<open>
  The state machine of the request parser, \<^verbatim>\<open>dwframe/http/http11_parser.rl.cc\<close>: for every \<^verbatim>\<open>case n\<close> of the generated
  \<^verbatim>\<open>switch\<close>, whether the character is widened by the condition \<^verbatim>\<open>uri_relaxed\<close>, the tests in the order of the code as
  intervals with the label they jump to, and the label of the final \<^verbatim>\<open>goto\<close>. \<open>http11_tr\<close> lists, for every \<^verbatim>\<open>tr\<close> label,
  the actions in order and the state that follows.
\<close>

datatype action = A_mark | A_start_field | A_write_field | A_write_value | A_request_method | A_request_uri
  | A_fragment | A_start_query | A_query_string | A_http_version | A_request_path | A_done | A_xml | A_json

definition http11_rows_1 :: "state_row list" where
  "http11_rows_1 = [
    (1, False, [(60, 60, Tr 2), (64, 64, Tr 3), (65, 90, Tr 0), (48, 57, Tr 0)], St 0),
    (2, False, [(32, 32, Tr 4), (65, 90, St 175), (48, 57, St 175)], St 0),
    (3, True, [(32, 32, Tr 6), (33, 33, Tr 7), (35, 35, Tr 8), (37, 37, Tr 9), (47, 47, Tr 10), (59, 59, Tr 7),
      (61, 61, Tr 7), (63, 63, Tr 11), (64, 64, Tr 7), (95, 95, Tr 7), (126, 126, Tr 7), (606, 606, Tr 7),
      (635, 635, Tr 7), (637, 637, Tr 7), (36, 57, Tr 7), (97, 122, Tr 12), (65, 90, Tr 12)], St 0)]"

definition http11_rows_2 :: "state_row list" where
  "http11_rows_2 = [
    (4, False, [(72, 72, Tr 13)], St 0),
    (5, False, [(84, 84, St 6)], St 0),
    (6, False, [(84, 84, St 7)], St 0),
    (7, False, [(80, 80, St 8)], St 0),
    (8, False, [(47, 47, St 9)], St 0),
    (9, False, [(49, 49, St 10)], St 0),
    (10, False, [(46, 46, St 11)], St 0),
    (11, False, [(48, 49, St 12)], St 0),
    (12, False, [(10, 10, Tr 21), (13, 13, Tr 22)], St 0),
    (13, False, [(10, 10, Tr 24), (13, 13, Tr 25), (33, 33, Tr 23), (124, 124, Tr 23), (126, 126, Tr 23),
      (1, 8, Tr 23), (35, 39, Tr 23), (11, 31, Tr 23), (45, 46, Tr 23), (94, 122, Tr 23), (65, 90, Tr 23),
      (48, 57, Tr 23), (42, 43, Tr 23)], St 0)]"

definition http11_rows_3 :: "state_row list" where
  "http11_rows_3 = [
    (14, False, [(33, 33, St 14), (58, 58, Tr 27), (124, 124, St 14), (126, 126, St 14), (1, 8, St 14),
      (35, 39, St 14), (10, 31, St 14), (45, 46, St 14), (94, 122, St 14), (65, 90, St 14), (48, 57, St 14),
      (42, 43, St 14)], St 0),
    (15, False, [(0, 0, St 0), (9, 9, Tr 29), (10, 10, Tr 30), (13, 13, Tr 31), (32, 32, Tr 29),
      (127, 127, St 0)], Tr 28),
    (16, False, [(0, 0, St 0), (10, 10, Tr 33), (13, 13, Tr 34), (127, 127, St 0)], St 16),
    (17, False, [(10, 10, St 13)], St 0)]"

definition http11_rows_4 :: "state_row list" where
  "http11_rows_4 = [
    (348, False, [(33, 33, St 14), (58, 58, Tr 27), (124, 124, St 14), (126, 126, St 14), (1, 8, St 14),
      (35, 39, St 14), (10, 31, St 14), (45, 46, St 14), (94, 122, St 14), (65, 90, St 14), (48, 57, St 14),
      (42, 43, St 14)], St 0),
    (18, False, [(10, 10, Tr 36), (33, 33, St 14), (58, 58, Tr 27), (124, 124, St 14), (126, 126, St 14),
      (1, 8, St 14), (35, 39, St 14), (11, 31, St 14), (45, 46, St 14), (94, 122, St 14), (65, 90, St 14),
      (48, 57, St 14), (42, 43, St 14)], St 0),
    (19, True, [(32, 32, Tr 37), (33, 33, St 19), (35, 35, Tr 39), (37, 37, St 24), (47, 47, St 26),
      (59, 59, St 19), (61, 61, St 19), (63, 63, Tr 42), (95, 95, St 19), (126, 126, St 19), (606, 606, St 19),
      (635, 635, St 19), (637, 637, St 19), (36, 57, St 19), (97, 122, St 19), (64, 90, St 19)], St 0)]"

definition http11_rows_5 :: "state_row list" where
  "http11_rows_5 = [
    (20, True, [(32, 32, Tr 44), (33, 33, Tr 43), (37, 37, Tr 45), (61, 61, Tr 43), (95, 95, Tr 43),
      (126, 126, Tr 43), (606, 606, Tr 43), (635, 635, Tr 43), (637, 637, Tr 43), (-128, -1, Tr 43),
      (97, 122, Tr 43), (63, 90, Tr 43), (36, 59, Tr 43)], St 0),
    (21, True, [(32, 32, Tr 47), (33, 33, St 21), (37, 37, St 22), (61, 61, St 21), (95, 95, St 21),
      (126, 126, St 21), (606, 606, St 21), (635, 635, St 21), (637, 637, St 21), (-128, -1, St 21),
      (97, 122, St 21), (63, 90, St 21), (36, 59, St 21)], St 0),
    (22, False, [(48, 57, St 23), (97, 102, St 23), (65, 70, St 23)], St 0),
    (23, False, [(48, 57, St 21), (97, 102, St 21), (65, 70, St 21)], St 0),
    (24, False, [(48, 57, St 25), (97, 102, St 25), (65, 70, St 25)], St 0)]"

definition http11_rows_6 :: "state_row list" where
  "http11_rows_6 = [
    (25, False, [(48, 57, St 19), (97, 102, St 19), (65, 70, St 19)], St 0),
    (26, True, [(32, 32, Tr 37), (33, 33, St 26), (35, 35, Tr 39), (37, 37, St 27), (61, 61, St 26),
      (63, 63, Tr 42), (95, 95, St 26), (126, 126, St 26), (606, 606, St 26), (635, 635, St 26),
      (637, 637, St 26), (-128, -1, St 26), (97, 122, St 26), (64, 90, St 26), (36, 59, St 26)], St 0),
    (27, False, [(48, 57, St 28), (97, 102, St 28), (65, 70, St 28)], St 0),
    (28, False, [(48, 57, St 26), (97, 102, St 26), (65, 70, St 26)], St 0)]"

definition http11_rows_7 :: "state_row list" where
  "http11_rows_7 = [
    (29, True, [(32, 32, Tr 54), (33, 33, Tr 53), (35, 35, Tr 55), (37, 37, Tr 56), (61, 61, Tr 53),
      (95, 95, Tr 53), (126, 126, Tr 53), (606, 606, Tr 53), (635, 635, Tr 53), (637, 637, Tr 53),
      (-128, -1, Tr 53), (97, 122, Tr 53), (63, 90, Tr 53), (36, 59, Tr 53)], St 0),
    (30, True, [(32, 32, Tr 58), (33, 33, St 30), (35, 35, Tr 59), (37, 37, St 31), (61, 61, St 30),
      (95, 95, St 30), (126, 126, St 30), (606, 606, St 30), (635, 635, St 30), (637, 637, St 30),
      (-128, -1, St 30), (97, 122, St 30), (63, 90, St 30), (36, 59, St 30)], St 0),
    (31, False, [(48, 57, St 32), (97, 102, St 32), (65, 70, St 32)], St 0),
    (32, False, [(48, 57, St 30), (97, 102, St 30), (65, 70, St 30)], St 0)]"

definition http11_rows_8 :: "state_row list" where
  "http11_rows_8 = [
    (33, True, [(32, 32, Tr 37), (33, 33, St 26), (35, 35, Tr 39), (37, 37, St 27), (47, 47, St 34),
      (61, 61, St 26), (63, 63, Tr 42), (95, 95, St 26), (126, 126, St 26), (606, 606, St 26),
      (635, 635, St 26), (637, 637, St 26), (-128, -1, St 26), (97, 122, St 26), (64, 90, St 26),
      (36, 59, St 26)], St 0),
    (34, True, [(32, 32, Tr 37), (33, 33, St 35), (35, 35, Tr 39), (37, 37, St 36), (47, 47, St 26),
      (58, 58, St 38), (61, 61, St 35), (63, 63, Tr 42), (64, 64, St 42), (91, 91, St 47), (95, 95, St 35),
      (126, 126, St 35), (606, 606, St 35), (635, 635, St 35), (637, 637, St 35), (36, 59, St 35),
      (97, 122, St 35), (65, 90, St 35)], St 0),
    (35, True, [(32, 32, Tr 37), (33, 33, St 35), (35, 35, Tr 39), (37, 37, St 36), (47, 47, St 26),
      (58, 58, St 38), (61, 61, St 35), (63, 63, Tr 42), (64, 64, St 42), (95, 95, St 35), (126, 126, St 35),
      (606, 606, St 35), (635, 635, St 35), (637, 637, St 35), (36, 59, St 35), (97, 122, St 35),
      (65, 90, St 35)], St 0)]"

definition http11_rows_9 :: "state_row list" where
  "http11_rows_9 = [
    (36, False, [(48, 57, St 37), (97, 102, St 37), (65, 70, St 37)], St 0),
    (37, False, [(48, 57, St 35), (97, 102, St 35), (65, 70, St 35)], St 0),
    (38, True, [(32, 32, Tr 37), (33, 33, St 39), (35, 35, Tr 39), (37, 37, St 40), (47, 47, St 26),
      (61, 61, St 39), (63, 63, Tr 42), (64, 64, St 42), (95, 95, St 39), (126, 126, St 39), (606, 606, St 39),
      (635, 635, St 39), (637, 637, St 39), (48, 57, St 38), (36, 46, St 39), (97, 122, St 39),
      (65, 90, St 39), (58, 59, St 39)], St 0),
    (39, True, [(33, 33, St 39), (37, 37, St 40), (61, 61, St 39), (64, 64, St 42), (95, 95, St 39),
      (126, 126, St 39), (606, 606, St 39), (635, 635, St 39), (637, 637, St 39), (36, 46, St 39),
      (97, 122, St 39), (65, 90, St 39), (48, 59, St 39)], St 0),
    (40, False, [(48, 57, St 41), (97, 102, St 41), (65, 70, St 41)], St 0)]"

definition http11_rows_10 :: "state_row list" where
  "http11_rows_10 = [
    (41, False, [(48, 57, St 39), (97, 102, St 39), (65, 70, St 39)], St 0),
    (42, True, [(32, 32, Tr 37), (33, 33, St 43), (35, 35, Tr 39), (37, 37, St 44), (47, 47, St 26),
      (58, 58, St 46), (61, 61, St 43), (63, 63, Tr 42), (91, 91, St 47), (95, 95, St 43), (126, 126, St 43),
      (606, 606, St 43), (635, 635, St 43), (637, 637, St 43), (36, 59, St 43), (97, 122, St 43),
      (65, 90, St 43)], St 0),
    (43, True, [(32, 32, Tr 37), (33, 33, St 43), (35, 35, Tr 39), (37, 37, St 44), (47, 47, St 26),
      (58, 58, St 46), (61, 61, St 43), (63, 63, Tr 42), (95, 95, St 43), (126, 126, St 43), (606, 606, St 43),
      (635, 635, St 43), (637, 637, St 43), (36, 59, St 43), (97, 122, St 43), (65, 90, St 43)], St 0),
    (44, False, [(48, 57, St 45), (97, 102, St 45), (65, 70, St 45)], St 0),
    (45, False, [(48, 57, St 43), (97, 102, St 43), (65, 70, St 43)], St 0),
    (46, False, [(32, 32, Tr 37), (35, 35, Tr 39), (47, 47, St 26), (63, 63, Tr 42), (48, 57, St 46)], St 0)]"

definition http11_rows_11 :: "state_row list" where
  "http11_rows_11 = [
    (47, False, [(6, 6, St 48), (58, 58, St 167), (118, 118, St 169), (48, 57, St 91), (97, 102, St 91),
      (65, 70, St 91)], St 0),
    (48, False, [(48, 57, St 49), (97, 102, St 49), (65, 70, St 49)], St 0),
    (49, False, [(58, 58, St 53), (48, 57, St 50), (97, 102, St 50), (65, 70, St 50)], St 0),
    (50, False, [(58, 58, St 53), (48, 57, St 51), (97, 102, St 51), (65, 70, St 51)], St 0),
    (51, False, [(58, 58, St 53), (48, 57, St 52), (97, 102, St 52), (65, 70, St 52)], St 0),
    (52, False, [(58, 58, St 53)], St 0),
    (53, False, [(49, 49, St 84), (50, 50, St 87), (48, 57, St 54), (97, 102, St 90), (65, 70, St 90)], St 0),
    (54, False, [(46, 46, St 55), (58, 58, St 80), (48, 57, St 77), (97, 102, St 77), (65, 70, St 77)], St 0),
    (55, False, [(49, 49, St 72), (50, 50, St 74), (48, 57, St 56)], St 0),
    (56, False, [(46, 46, St 57)], St 0),
    (57, False, [(49, 49, St 67), (50, 50, St 69), (48, 57, St 58)], St 0),
    (58, False, [(46, 46, St 59)], St 0)]"

definition http11_rows_12 :: "state_row list" where
  "http11_rows_12 = [
    (59, False, [(49, 49, St 62), (50, 50, St 64), (48, 57, St 60)], St 0),
    (60, False, [(93, 93, St 61)], St 0),
    (61, False, [(32, 32, Tr 37), (35, 35, Tr 39), (47, 47, St 26), (58, 58, St 46), (63, 63, Tr 42)], St 0),
    (62, False, [(93, 93, St 61), (48, 57, St 63)], St 0),
    (63, False, [(93, 93, St 61), (48, 57, St 60)], St 0),
    (64, False, [(48, 48, St 65), (53, 53, St 66), (93, 93, St 61)], St 0),
    (65, False, [(48, 57, St 60)], St 0),
    (66, False, [(48, 48, St 60)], St 0),
    (67, False, [(46, 46, St 59), (48, 57, St 68)], St 0),
    (68, False, [(46, 46, St 59), (48, 57, St 58)], St 0),
    (69, False, [(46, 46, St 59), (48, 48, St 70), (53, 53, St 71)], St 0),
    (70, False, [(48, 57, St 58)], St 0),
    (71, False, [(48, 48, St 58)], St 0),
    (72, False, [(46, 46, St 57), (48, 57, St 73)], St 0),
    (73, False, [(46, 46, St 57), (48, 57, St 56)], St 0),
    (74, False, [(46, 46, St 57), (48, 48, St 75), (53, 53, St 76)], St 0),
    (75, False, [(48, 57, St 56)], St 0)]"

definition http11_rows_13 :: "state_row list" where
  "http11_rows_13 = [
    (76, False, [(48, 48, St 56)], St 0),
    (77, False, [(58, 58, St 80), (48, 57, St 78), (97, 102, St 78), (65, 70, St 78)], St 0),
    (78, False, [(58, 58, St 80), (48, 57, St 79), (97, 102, St 79), (65, 70, St 79)], St 0),
    (79, False, [(58, 58, St 80)], St 0),
    (80, False, [(48, 57, St 81), (97, 102, St 81), (65, 70, St 81)], St 0),
    (81, False, [(93, 93, St 61), (48, 57, St 82), (97, 102, St 82), (65, 70, St 82)], St 0),
    (82, False, [(93, 93, St 61), (48, 57, St 83), (97, 102, St 83), (65, 70, St 83)], St 0),
    (83, False, [(93, 93, St 61), (48, 57, St 60), (97, 102, St 60), (65, 70, St 60)], St 0),
    (84, False, [(46, 46, St 55), (58, 58, St 80), (48, 57, St 85), (97, 102, St 77), (65, 70, St 77)], St 0),
    (85, False, [(46, 46, St 55), (58, 58, St 80), (48, 57, St 86), (97, 102, St 78), (65, 70, St 78)], St 0),
    (86, False, [(46, 46, St 55), (58, 58, St 80), (48, 57, St 79), (97, 102, St 79), (65, 70, St 79)], St 0)]"

definition http11_rows_14 :: "state_row list" where
  "http11_rows_14 = [
    (87, False, [(46, 46, St 55), (48, 48, St 88), (53, 53, St 89), (58, 58, St 80), (49, 57, St 77),
      (97, 102, St 77), (65, 70, St 77)], St 0),
    (88, False, [(58, 58, St 80), (48, 57, St 86), (97, 102, St 78), (65, 70, St 78)], St 0),
    (89, False, [(48, 48, St 86), (58, 58, St 80), (49, 57, St 78), (97, 102, St 78), (65, 70, St 78)], St 0),
    (90, False, [(58, 58, St 80), (48, 57, St 77), (97, 102, St 77), (65, 70, St 77)], St 0),
    (91, False, [(58, 58, St 95), (48, 57, St 92), (97, 102, St 92), (65, 70, St 92)], St 0),
    (92, False, [(58, 58, St 95), (48, 57, St 93), (97, 102, St 93), (65, 70, St 93)], St 0),
    (93, False, [(58, 58, St 95), (48, 57, St 94), (97, 102, St 94), (65, 70, St 94)], St 0),
    (94, False, [(58, 58, St 95)], St 0),
    (95, False, [(58, 58, St 166), (48, 57, St 96), (97, 102, St 96), (65, 70, St 96)], St 0),
    (96, False, [(58, 58, St 100), (48, 57, St 97), (97, 102, St 97), (65, 70, St 97)], St 0)]"

definition http11_rows_15 :: "state_row list" where
  "http11_rows_15 = [
    (97, False, [(58, 58, St 100), (48, 57, St 98), (97, 102, St 98), (65, 70, St 98)], St 0),
    (98, False, [(58, 58, St 100), (48, 57, St 99), (97, 102, St 99), (65, 70, St 99)], St 0),
    (99, False, [(58, 58, St 100)], St 0),
    (100, False, [(58, 58, St 165), (48, 57, St 101), (97, 102, St 101), (65, 70, St 101)], St 0),
    (101, False, [(58, 58, St 105), (48, 57, St 102), (97, 102, St 102), (65, 70, St 102)], St 0),
    (102, False, [(58, 58, St 105), (48, 57, St 103), (97, 102, St 103), (65, 70, St 103)], St 0),
    (103, False, [(58, 58, St 105), (48, 57, St 104), (97, 102, St 104), (65, 70, St 104)], St 0),
    (104, False, [(58, 58, St 105)], St 0),
    (105, False, [(58, 58, St 164), (48, 57, St 106), (97, 102, St 106), (65, 70, St 106)], St 0),
    (106, False, [(58, 58, St 110), (48, 57, St 107), (97, 102, St 107), (65, 70, St 107)], St 0),
    (107, False, [(58, 58, St 110), (48, 57, St 108), (97, 102, St 108), (65, 70, St 108)], St 0)]"

definition http11_rows_16 :: "state_row list" where
  "http11_rows_16 = [
    (108, False, [(58, 58, St 110), (48, 57, St 109), (97, 102, St 109), (65, 70, St 109)], St 0),
    (109, False, [(58, 58, St 110)], St 0),
    (110, False, [(58, 58, St 163), (48, 57, St 111), (97, 102, St 111), (65, 70, St 111)], St 0),
    (111, False, [(58, 58, St 115), (48, 57, St 112), (97, 102, St 112), (65, 70, St 112)], St 0),
    (112, False, [(58, 58, St 115), (48, 57, St 113), (97, 102, St 113), (65, 70, St 113)], St 0),
    (113, False, [(58, 58, St 115), (48, 57, St 114), (97, 102, St 114), (65, 70, St 114)], St 0),
    (114, False, [(58, 58, St 115)], St 0),
    (115, False, [(58, 58, St 151), (48, 57, St 116), (97, 102, St 116), (65, 70, St 116)], St 0),
    (116, False, [(58, 58, St 120), (48, 57, St 117), (97, 102, St 117), (65, 70, St 117)], St 0),
    (117, False, [(58, 58, St 120), (48, 57, St 118), (97, 102, St 118), (65, 70, St 118)], St 0),
    (118, False, [(58, 58, St 120), (48, 57, St 119), (97, 102, St 119), (65, 70, St 119)], St 0)]"

definition http11_rows_17 :: "state_row list" where
  "http11_rows_17 = [
    (119, False, [(58, 58, St 120)], St 0),
    (120, False, [(58, 58, St 150), (48, 57, St 121), (97, 102, St 121), (65, 70, St 121)], St 0),
    (121, False, [(58, 58, St 125), (48, 57, St 122), (97, 102, St 122), (65, 70, St 122)], St 0),
    (122, False, [(58, 58, St 125), (48, 57, St 123), (97, 102, St 123), (65, 70, St 123)], St 0),
    (123, False, [(58, 58, St 125), (48, 57, St 124), (97, 102, St 124), (65, 70, St 124)], St 0),
    (124, False, [(58, 58, St 125)], St 0),
    (125, False, [(58, 58, St 126), (48, 57, St 121), (97, 102, St 121), (65, 70, St 121)], St 0),
    (126, False, [(49, 49, St 143), (50, 50, St 146), (93, 93, St 61), (2, 3, St 48), (97, 102, St 149),
      (65, 70, St 149), (48, 57, St 127)], St 0),
    (127, False, [(46, 46, St 55), (58, 58, St 131), (93, 93, St 61), (48, 57, St 128), (97, 102, St 128),
      (65, 70, St 128)], St 0),
    (128, False, [(58, 58, St 131), (93, 93, St 61), (48, 57, St 129), (97, 102, St 129), (65, 70, St 129)], St 0)]"

definition http11_rows_18 :: "state_row list" where
  "http11_rows_18 = [
    (129, False, [(58, 58, St 131), (93, 93, St 61), (48, 57, St 130), (97, 102, St 130), (65, 70, St 130)], St 0),
    (130, False, [(58, 58, St 131), (93, 93, St 61)], St 0),
    (131, False, [(49, 49, St 136), (50, 50, St 139), (48, 57, St 132), (97, 102, St 142), (65, 70, St 142)], St 0),
    (132, False, [(46, 46, St 55), (58, 58, St 80), (93, 93, St 61), (48, 57, St 133), (97, 102, St 133),
      (65, 70, St 133)], St 0),
    (133, False, [(58, 58, St 80), (93, 93, St 61), (48, 57, St 134), (97, 102, St 134), (65, 70, St 134)], St 0),
    (134, False, [(58, 58, St 80), (93, 93, St 61), (48, 57, St 135), (97, 102, St 135), (65, 70, St 135)], St 0),
    (135, False, [(58, 58, St 80), (93, 93, St 61)], St 0),
    (136, False, [(46, 46, St 55), (58, 58, St 80), (93, 93, St 61), (48, 57, St 137), (97, 102, St 133),
      (65, 70, St 133)], St 0),
    (137, False, [(46, 46, St 55), (58, 58, St 80), (93, 93, St 61), (48, 57, St 138), (97, 102, St 134),
      (65, 70, St 134)], St 0)]"

definition http11_rows_19 :: "state_row list" where
  "http11_rows_19 = [
    (138, False, [(46, 46, St 55), (58, 58, St 80), (93, 93, St 61), (48, 57, St 135), (97, 102, St 135),
      (65, 70, St 135)], St 0),
    (139, False, [(46, 46, St 55), (48, 48, St 140), (53, 53, St 141), (58, 58, St 80), (93, 93, St 61),
      (49, 57, St 133), (97, 102, St 133), (65, 70, St 133)], St 0),
    (140, False, [(58, 58, St 80), (93, 93, St 61), (48, 57, St 138), (97, 102, St 134), (65, 70, St 134)], St 0),
    (141, False, [(48, 48, St 138), (58, 58, St 80), (93, 93, St 61), (49, 57, St 134), (97, 102, St 134),
      (65, 70, St 134)], St 0),
    (142, False, [(58, 58, St 80), (93, 93, St 61), (48, 57, St 133), (97, 102, St 133), (65, 70, St 133)], St 0),
    (143, False, [(46, 46, St 55), (58, 58, St 131), (93, 93, St 61), (48, 57, St 144), (97, 102, St 128),
      (65, 70, St 128)], St 0),
    (144, False, [(46, 46, St 55), (58, 58, St 131), (93, 93, St 61), (48, 57, St 145), (97, 102, St 129),
      (65, 70, St 129)], St 0),
    (145, False, [(46, 46, St 55), (58, 58, St 131), (93, 93, St 61), (48, 57, St 130), (97, 102, St 130),
      (65, 70, St 130)], St 0)]"

definition http11_rows_20 :: "state_row list" where
  "http11_rows_20 = [
    (146, False, [(46, 46, St 55), (48, 48, St 147), (53, 53, St 148), (58, 58, St 131), (93, 93, St 61),
      (49, 57, St 128), (97, 102, St 128), (65, 70, St 128)], St 0),
    (147, False, [(58, 58, St 131), (93, 93, St 61), (48, 57, St 145), (97, 102, St 129), (65, 70, St 129)], St 0),
    (148, False, [(48, 48, St 145), (58, 58, St 131), (93, 93, St 61), (49, 57, St 129), (97, 102, St 129),
      (65, 70, St 129)], St 0),
    (149, False, [(58, 58, St 131), (93, 93, St 61), (48, 57, St 128), (97, 102, St 128), (65, 70, St 128)], St 0),
    (150, False, [(49, 49, St 143), (50, 50, St 146), (2, 3, St 48), (97, 102, St 149), (65, 70, St 149),
      (48, 57, St 127)], St 0),
    (151, False, [(49, 49, St 156), (50, 50, St 159), (2, 3, St 48), (97, 102, St 162), (65, 70, St 162),
      (48, 57, St 152)], St 0),
    (152, False, [(46, 46, St 55), (58, 58, St 131), (48, 57, St 153), (97, 102, St 153), (65, 70, St 153)], St 0),
    (153, False, [(58, 58, St 131), (48, 57, St 154), (97, 102, St 154), (65, 70, St 154)], St 0)]"

definition http11_rows_21 :: "state_row list" where
  "http11_rows_21 = [
    (154, False, [(58, 58, St 131), (48, 57, St 155), (97, 102, St 155), (65, 70, St 155)], St 0),
    (155, False, [(58, 58, St 131)], St 0),
    (156, False, [(46, 46, St 55), (58, 58, St 131), (48, 57, St 157), (97, 102, St 153), (65, 70, St 153)], St 0),
    (157, False, [(46, 46, St 55), (58, 58, St 131), (48, 57, St 158), (97, 102, St 154), (65, 70, St 154)], St 0),
    (158, False, [(46, 46, St 55), (58, 58, St 131), (48, 57, St 155), (97, 102, St 155), (65, 70, St 155)], St 0),
    (159, False, [(46, 46, St 55), (48, 48, St 160), (53, 53, St 161), (58, 58, St 131), (49, 57, St 153),
      (97, 102, St 153), (65, 70, St 153)], St 0),
    (160, False, [(58, 58, St 131), (48, 57, St 158), (97, 102, St 154), (65, 70, St 154)], St 0),
    (161, False, [(48, 48, St 158), (58, 58, St 131), (49, 57, St 154), (97, 102, St 154), (65, 70, St 154)], St 0),
    (162, False, [(58, 58, St 131), (48, 57, St 153), (97, 102, St 153), (65, 70, St 153)], St 0)]"

definition http11_rows_22 :: "state_row list" where
  "http11_rows_22 = [
    (163, False, [(2, 3, St 48), (97, 102, St 49), (65, 70, St 49), (48, 57, St 49)], St 0),
    (164, False, [(2, 3, St 48)], St 0),
    (165, False, [(3, 3, St 48)], St 0),
    (166, False, [(4, 4, St 48)], St 0),
    (167, False, [(58, 58, St 168)], St 0),
    (168, False, [(49, 49, St 143), (50, 50, St 146), (93, 93, St 61), (2, 5, St 48), (97, 102, St 149),
      (65, 70, St 149), (48, 57, St 127)], St 0),
    (169, False, [(48, 57, St 170), (97, 102, St 170), (65, 70, St 170)], St 0),
    (170, False, [(46, 46, St 171), (48, 57, St 170), (97, 102, St 170), (65, 70, St 170)], St 0),
    (171, True, [(33, 33, St 172), (36, 36, St 172), (61, 61, St 172), (95, 95, St 172), (126, 126, St 172),
      (606, 606, St 172), (635, 635, St 172), (637, 637, St 172), (38, 46, St 172), (97, 122, St 172),
      (65, 90, St 172), (48, 59, St 172)], St 0)]"

definition http11_rows_23 :: "state_row list" where
  "http11_rows_23 = [
    (172, True, [(33, 33, St 172), (36, 36, St 172), (61, 61, St 172), (93, 93, St 61), (95, 95, St 172),
      (126, 126, St 172), (606, 606, St 172), (635, 635, St 172), (637, 637, St 172), (38, 46, St 172),
      (97, 122, St 172), (65, 90, St 172), (48, 59, St 172)], St 0),
    (173, True, [(32, 32, Tr 37), (33, 33, St 19), (35, 35, Tr 39), (37, 37, St 24), (43, 43, St 173),
      (47, 47, St 26), (58, 58, St 174), (59, 59, St 19), (61, 61, St 19), (63, 63, Tr 42), (64, 64, St 19),
      (95, 95, St 19), (126, 126, St 19), (606, 606, St 19), (635, 635, St 19), (637, 637, St 19),
      (36, 44, St 19), (97, 122, St 173), (65, 90, St 173), (45, 57, St 173)], St 0)]"

definition http11_rows_24 :: "state_row list" where
  "http11_rows_24 = [
    (174, True, [(32, 32, Tr 6), (33, 33, Tr 203), (35, 35, Tr 8), (37, 37, Tr 204), (47, 47, Tr 10),
      (61, 61, Tr 203), (63, 63, Tr 11), (95, 95, Tr 203), (126, 126, Tr 203), (606, 606, Tr 203),
      (635, 635, Tr 203), (637, 637, Tr 203), (-128, -1, Tr 203), (97, 122, Tr 203), (64, 90, Tr 203),
      (36, 59, Tr 203)], St 0),
    (175, False, [(32, 32, Tr 4), (65, 90, St 176), (48, 57, St 176)], St 0),
    (176, False, [(32, 32, Tr 4), (65, 90, St 177), (48, 57, St 177)], St 0),
    (177, False, [(32, 32, Tr 4), (65, 90, St 178), (48, 57, St 178)], St 0),
    (178, False, [(32, 32, Tr 4), (65, 90, St 179), (48, 57, St 179)], St 0),
    (179, False, [(32, 32, Tr 4), (65, 90, St 180), (48, 57, St 180)], St 0),
    (180, False, [(32, 32, Tr 4), (65, 90, St 181), (48, 57, St 181)], St 0),
    (181, False, [(32, 32, Tr 4), (65, 90, St 182), (48, 57, St 182)], St 0),
    (182, False, [(32, 32, Tr 4), (65, 90, St 183), (48, 57, St 183)], St 0)]"

definition http11_rows_25 :: "state_row list" where
  "http11_rows_25 = [
    (183, False, [(32, 32, Tr 4), (65, 90, St 184), (48, 57, St 184)], St 0),
    (184, False, [(32, 32, Tr 4), (65, 90, St 185), (48, 57, St 185)], St 0),
    (185, False, [(32, 32, Tr 4), (65, 90, St 186), (48, 57, St 186)], St 0),
    (186, False, [(32, 32, Tr 4), (65, 90, St 187), (48, 57, St 187)], St 0),
    (187, False, [(32, 32, Tr 4), (65, 90, St 188), (48, 57, St 188)], St 0),
    (188, False, [(32, 32, Tr 4), (65, 90, St 189), (48, 57, St 189)], St 0),
    (189, False, [(32, 32, Tr 4), (65, 90, St 190), (48, 57, St 190)], St 0),
    (190, False, [(32, 32, Tr 4), (65, 90, St 191), (48, 57, St 191)], St 0),
    (191, False, [(32, 32, Tr 4), (65, 90, St 192), (48, 57, St 192)], St 0),
    (192, False, [(32, 32, Tr 4), (65, 90, St 193), (48, 57, St 193)], St 0),
    (193, False, [(32, 32, Tr 4)], St 0),
    (194, False, [(45, 46, St 195), (97, 122, St 195), (65, 90, St 195), (48, 57, St 195)], St 0)]"

definition http11_rows_26 :: "state_row list" where
  "http11_rows_26 = [
    (195, False, [(32, 32, Tr 224), (47, 47, Tr 224), (62, 62, Tr 224), (9, 13, Tr 224), (97, 122, St 195),
      (65, 90, St 195), (45, 57, St 195)], St 0),
    (196, False, [(62, 62, St 197)], St 196),
    (197, False, [(0, 0, Tr 227), (62, 62, St 197)], St 196),
    (349, False, [], St 0),
    (198, True, [(32, 32, Tr 228), (33, 33, St 202), (37, 37, St 203), (47, 47, St 208), (59, 59, St 202),
      (61, 61, St 202), (95, 95, St 202), (126, 126, St 202), (606, 606, St 202), (635, 635, St 202),
      (637, 637, St 202), (36, 57, St 202), (97, 122, St 202), (64, 90, St 202)], St 0)]"

definition http11_rows_27 :: "state_row list" where
  "http11_rows_27 = [
    (199, False, [(123, 123, Tr 232)], St 0),
    (200, False, [(125, 125, St 201)], St 200),
    (201, False, [(0, 0, Tr 235), (125, 125, St 201)], St 200),
    (202, True, [(32, 32, Tr 228), (33, 33, St 202), (37, 37, St 203), (47, 47, St 205), (59, 59, St 202),
      (61, 61, St 202), (95, 95, St 202), (126, 126, St 202), (606, 606, St 202), (635, 635, St 202),
      (637, 637, St 202), (36, 57, St 202), (97, 122, St 202), (64, 90, St 202)], St 0),
    (203, False, [(48, 57, St 204), (97, 102, St 204), (65, 70, St 204)], St 0),
    (204, False, [(48, 57, St 202), (97, 102, St 202), (65, 70, St 202)], St 0),
    (205, True, [(32, 32, Tr 228), (33, 33, St 205), (37, 37, St 206), (61, 61, St 205), (95, 95, St 205),
      (126, 126, St 205), (606, 606, St 205), (635, 635, St 205), (637, 637, St 205), (-128, -1, St 205),
      (97, 122, St 205), (64, 90, St 205), (36, 59, St 205)], St 0)]"

definition http11_rows_28 :: "state_row list" where
  "http11_rows_28 = [
    (206, False, [(48, 57, St 207), (97, 102, St 207), (65, 70, St 207)], St 0),
    (207, False, [(48, 57, St 205), (97, 102, St 205), (65, 70, St 205)], St 0),
    (208, True, [(32, 32, Tr 228), (33, 33, St 205), (37, 37, St 206), (47, 47, St 209), (61, 61, St 205),
      (95, 95, St 205), (126, 126, St 205), (606, 606, St 205), (635, 635, St 205), (637, 637, St 205),
      (-128, -1, St 205), (97, 122, St 205), (64, 90, St 205), (36, 59, St 205)], St 0),
    (209, True, [(32, 32, Tr 228), (33, 33, St 210), (37, 37, St 211), (47, 47, St 205), (58, 58, St 213),
      (61, 61, St 210), (64, 64, St 217), (91, 91, St 222), (95, 95, St 210), (126, 126, St 210),
      (606, 606, St 210), (635, 635, St 210), (637, 637, St 210), (36, 59, St 210), (97, 122, St 210),
      (65, 90, St 210)], St 0)]"

definition http11_rows_29 :: "state_row list" where
  "http11_rows_29 = [
    (210, True, [(32, 32, Tr 228), (33, 33, St 210), (37, 37, St 211), (47, 47, St 205), (58, 58, St 213),
      (61, 61, St 210), (64, 64, St 217), (95, 95, St 210), (126, 126, St 210), (606, 606, St 210),
      (635, 635, St 210), (637, 637, St 210), (36, 59, St 210), (97, 122, St 210), (65, 90, St 210)], St 0),
    (211, False, [(48, 57, St 212), (97, 102, St 212), (65, 70, St 212)], St 0),
    (212, False, [(48, 57, St 210), (97, 102, St 210), (65, 70, St 210)], St 0),
    (213, True, [(32, 32, Tr 228), (33, 33, St 214), (37, 37, St 215), (47, 47, St 205), (61, 61, St 214),
      (64, 64, St 217), (95, 95, St 214), (126, 126, St 214), (606, 606, St 214), (635, 635, St 214),
      (637, 637, St 214), (48, 57, St 213), (36, 46, St 214), (97, 122, St 214), (65, 90, St 214),
      (58, 59, St 214)], St 0)]"

definition http11_rows_30 :: "state_row list" where
  "http11_rows_30 = [
    (214, True, [(33, 33, St 214), (37, 37, St 215), (61, 61, St 214), (64, 64, St 217), (95, 95, St 214),
      (126, 126, St 214), (606, 606, St 214), (635, 635, St 214), (637, 637, St 214), (36, 46, St 214),
      (97, 122, St 214), (65, 90, St 214), (48, 59, St 214)], St 0),
    (215, False, [(48, 57, St 216), (97, 102, St 216), (65, 70, St 216)], St 0),
    (216, False, [(48, 57, St 214), (97, 102, St 214), (65, 70, St 214)], St 0),
    (217, True, [(32, 32, Tr 228), (33, 33, St 218), (37, 37, St 219), (47, 47, St 205), (58, 58, St 221),
      (61, 61, St 218), (91, 91, St 222), (95, 95, St 218), (126, 126, St 218), (606, 606, St 218),
      (635, 635, St 218), (637, 637, St 218), (36, 59, St 218), (97, 122, St 218), (65, 90, St 218)], St 0)]"

definition http11_rows_31 :: "state_row list" where
  "http11_rows_31 = [
    (218, True, [(32, 32, Tr 228), (33, 33, St 218), (37, 37, St 219), (47, 47, St 205), (58, 58, St 221),
      (61, 61, St 218), (95, 95, St 218), (126, 126, St 218), (606, 606, St 218), (635, 635, St 218),
      (637, 637, St 218), (36, 59, St 218), (97, 122, St 218), (65, 90, St 218)], St 0),
    (219, False, [(48, 57, St 220), (97, 102, St 220), (65, 70, St 220)], St 0),
    (220, False, [(48, 57, St 218), (97, 102, St 218), (65, 70, St 218)], St 0),
    (221, False, [(32, 32, Tr 228), (47, 47, St 205), (48, 57, St 221)], St 0),
    (222, False, [(6, 6, St 223), (58, 58, St 342), (118, 118, St 344), (48, 57, St 266), (97, 102, St 266),
      (65, 70, St 266)], St 0),
    (223, False, [(48, 57, St 224), (97, 102, St 224), (65, 70, St 224)], St 0),
    (224, False, [(58, 58, St 228), (48, 57, St 225), (97, 102, St 225), (65, 70, St 225)], St 0),
    (225, False, [(58, 58, St 228), (48, 57, St 226), (97, 102, St 226), (65, 70, St 226)], St 0)]"

definition http11_rows_32 :: "state_row list" where
  "http11_rows_32 = [
    (226, False, [(58, 58, St 228), (48, 57, St 227), (97, 102, St 227), (65, 70, St 227)], St 0),
    (227, False, [(58, 58, St 228)], St 0),
    (228, False, [(49, 49, St 259), (50, 50, St 262), (48, 57, St 229), (97, 102, St 265), (65, 70, St 265)], St 0),
    (229, False, [(46, 46, St 230), (58, 58, St 255), (48, 57, St 252), (97, 102, St 252), (65, 70, St 252)], St 0),
    (230, False, [(49, 49, St 247), (50, 50, St 249), (48, 57, St 231)], St 0),
    (231, False, [(46, 46, St 232)], St 0),
    (232, False, [(49, 49, St 242), (50, 50, St 244), (48, 57, St 233)], St 0),
    (233, False, [(46, 46, St 234)], St 0),
    (234, False, [(49, 49, St 237), (50, 50, St 239), (48, 57, St 235)], St 0),
    (235, False, [(93, 93, St 236)], St 0),
    (236, False, [(32, 32, Tr 228), (47, 47, St 205), (58, 58, St 221)], St 0),
    (237, False, [(93, 93, St 236), (48, 57, St 238)], St 0),
    (238, False, [(93, 93, St 236), (48, 57, St 235)], St 0),
    (239, False, [(48, 48, St 240), (53, 53, St 241), (93, 93, St 236)], St 0)]"

definition http11_rows_33 :: "state_row list" where
  "http11_rows_33 = [
    (240, False, [(48, 57, St 235)], St 0),
    (241, False, [(48, 48, St 235)], St 0),
    (242, False, [(46, 46, St 234), (48, 57, St 243)], St 0),
    (243, False, [(46, 46, St 234), (48, 57, St 233)], St 0),
    (244, False, [(46, 46, St 234), (48, 48, St 245), (53, 53, St 246)], St 0),
    (245, False, [(48, 57, St 233)], St 0),
    (246, False, [(48, 48, St 233)], St 0),
    (247, False, [(46, 46, St 232), (48, 57, St 248)], St 0),
    (248, False, [(46, 46, St 232), (48, 57, St 231)], St 0),
    (249, False, [(46, 46, St 232), (48, 48, St 250), (53, 53, St 251)], St 0),
    (250, False, [(48, 57, St 231)], St 0),
    (251, False, [(48, 48, St 231)], St 0),
    (252, False, [(58, 58, St 255), (48, 57, St 253), (97, 102, St 253), (65, 70, St 253)], St 0),
    (253, False, [(58, 58, St 255), (48, 57, St 254), (97, 102, St 254), (65, 70, St 254)], St 0),
    (254, False, [(58, 58, St 255)], St 0),
    (255, False, [(48, 57, St 256), (97, 102, St 256), (65, 70, St 256)], St 0)]"

definition http11_rows_34 :: "state_row list" where
  "http11_rows_34 = [
    (256, False, [(93, 93, St 236), (48, 57, St 257), (97, 102, St 257), (65, 70, St 257)], St 0),
    (257, False, [(93, 93, St 236), (48, 57, St 258), (97, 102, St 258), (65, 70, St 258)], St 0),
    (258, False, [(93, 93, St 236), (48, 57, St 235), (97, 102, St 235), (65, 70, St 235)], St 0),
    (259, False, [(46, 46, St 230), (58, 58, St 255), (48, 57, St 260), (97, 102, St 252), (65, 70, St 252)], St 0),
    (260, False, [(46, 46, St 230), (58, 58, St 255), (48, 57, St 261), (97, 102, St 253), (65, 70, St 253)], St 0),
    (261, False, [(46, 46, St 230), (58, 58, St 255), (48, 57, St 254), (97, 102, St 254), (65, 70, St 254)], St 0),
    (262, False, [(46, 46, St 230), (48, 48, St 263), (53, 53, St 264), (58, 58, St 255), (49, 57, St 252),
      (97, 102, St 252), (65, 70, St 252)], St 0),
    (263, False, [(58, 58, St 255), (48, 57, St 261), (97, 102, St 253), (65, 70, St 253)], St 0),
    (264, False, [(48, 48, St 261), (58, 58, St 255), (49, 57, St 253), (97, 102, St 253), (65, 70, St 253)], St 0)]"

definition http11_rows_35 :: "state_row list" where
  "http11_rows_35 = [
    (265, False, [(58, 58, St 255), (48, 57, St 252), (97, 102, St 252), (65, 70, St 252)], St 0),
    (266, False, [(58, 58, St 270), (48, 57, St 267), (97, 102, St 267), (65, 70, St 267)], St 0),
    (267, False, [(58, 58, St 270), (48, 57, St 268), (97, 102, St 268), (65, 70, St 268)], St 0),
    (268, False, [(58, 58, St 270), (48, 57, St 269), (97, 102, St 269), (65, 70, St 269)], St 0),
    (269, False, [(58, 58, St 270)], St 0),
    (270, False, [(58, 58, St 341), (48, 57, St 271), (97, 102, St 271), (65, 70, St 271)], St 0),
    (271, False, [(58, 58, St 275), (48, 57, St 272), (97, 102, St 272), (65, 70, St 272)], St 0),
    (272, False, [(58, 58, St 275), (48, 57, St 273), (97, 102, St 273), (65, 70, St 273)], St 0),
    (273, False, [(58, 58, St 275), (48, 57, St 274), (97, 102, St 274), (65, 70, St 274)], St 0),
    (274, False, [(58, 58, St 275)], St 0),
    (275, False, [(58, 58, St 340), (48, 57, St 276), (97, 102, St 276), (65, 70, St 276)], St 0)]"

definition http11_rows_36 :: "state_row list" where
  "http11_rows_36 = [
    (276, False, [(58, 58, St 280), (48, 57, St 277), (97, 102, St 277), (65, 70, St 277)], St 0),
    (277, False, [(58, 58, St 280), (48, 57, St 278), (97, 102, St 278), (65, 70, St 278)], St 0),
    (278, False, [(58, 58, St 280), (48, 57, St 279), (97, 102, St 279), (65, 70, St 279)], St 0),
    (279, False, [(58, 58, St 280)], St 0),
    (280, False, [(58, 58, St 339), (48, 57, St 281), (97, 102, St 281), (65, 70, St 281)], St 0),
    (281, False, [(58, 58, St 285), (48, 57, St 282), (97, 102, St 282), (65, 70, St 282)], St 0),
    (282, False, [(58, 58, St 285), (48, 57, St 283), (97, 102, St 283), (65, 70, St 283)], St 0),
    (283, False, [(58, 58, St 285), (48, 57, St 284), (97, 102, St 284), (65, 70, St 284)], St 0),
    (284, False, [(58, 58, St 285)], St 0),
    (285, False, [(58, 58, St 338), (48, 57, St 286), (97, 102, St 286), (65, 70, St 286)], St 0),
    (286, False, [(58, 58, St 290), (48, 57, St 287), (97, 102, St 287), (65, 70, St 287)], St 0)]"

definition http11_rows_37 :: "state_row list" where
  "http11_rows_37 = [
    (287, False, [(58, 58, St 290), (48, 57, St 288), (97, 102, St 288), (65, 70, St 288)], St 0),
    (288, False, [(58, 58, St 290), (48, 57, St 289), (97, 102, St 289), (65, 70, St 289)], St 0),
    (289, False, [(58, 58, St 290)], St 0),
    (290, False, [(58, 58, St 326), (48, 57, St 291), (97, 102, St 291), (65, 70, St 291)], St 0),
    (291, False, [(58, 58, St 295), (48, 57, St 292), (97, 102, St 292), (65, 70, St 292)], St 0),
    (292, False, [(58, 58, St 295), (48, 57, St 293), (97, 102, St 293), (65, 70, St 293)], St 0),
    (293, False, [(58, 58, St 295), (48, 57, St 294), (97, 102, St 294), (65, 70, St 294)], St 0),
    (294, False, [(58, 58, St 295)], St 0),
    (295, False, [(58, 58, St 325), (48, 57, St 296), (97, 102, St 296), (65, 70, St 296)], St 0),
    (296, False, [(58, 58, St 300), (48, 57, St 297), (97, 102, St 297), (65, 70, St 297)], St 0),
    (297, False, [(58, 58, St 300), (48, 57, St 298), (97, 102, St 298), (65, 70, St 298)], St 0)]"

definition http11_rows_38 :: "state_row list" where
  "http11_rows_38 = [
    (298, False, [(58, 58, St 300), (48, 57, St 299), (97, 102, St 299), (65, 70, St 299)], St 0),
    (299, False, [(58, 58, St 300)], St 0),
    (300, False, [(58, 58, St 301), (48, 57, St 296), (97, 102, St 296), (65, 70, St 296)], St 0),
    (301, False, [(49, 49, St 318), (50, 50, St 321), (93, 93, St 236), (2, 3, St 223), (97, 102, St 324),
      (65, 70, St 324), (48, 57, St 302)], St 0),
    (302, False, [(46, 46, St 230), (58, 58, St 306), (93, 93, St 236), (48, 57, St 303), (97, 102, St 303),
      (65, 70, St 303)], St 0),
    (303, False, [(58, 58, St 306), (93, 93, St 236), (48, 57, St 304), (97, 102, St 304), (65, 70, St 304)], St 0),
    (304, False, [(58, 58, St 306), (93, 93, St 236), (48, 57, St 305), (97, 102, St 305), (65, 70, St 305)], St 0),
    (305, False, [(58, 58, St 306), (93, 93, St 236)], St 0),
    (306, False, [(49, 49, St 311), (50, 50, St 314), (48, 57, St 307), (97, 102, St 317), (65, 70, St 317)], St 0)]"

definition http11_rows_39 :: "state_row list" where
  "http11_rows_39 = [
    (307, False, [(46, 46, St 230), (58, 58, St 255), (93, 93, St 236), (48, 57, St 308), (97, 102, St 308),
      (65, 70, St 308)], St 0),
    (308, False, [(58, 58, St 255), (93, 93, St 236), (48, 57, St 309), (97, 102, St 309), (65, 70, St 309)], St 0),
    (309, False, [(58, 58, St 255), (93, 93, St 236), (48, 57, St 310), (97, 102, St 310), (65, 70, St 310)], St 0),
    (310, False, [(58, 58, St 255), (93, 93, St 236)], St 0),
    (311, False, [(46, 46, St 230), (58, 58, St 255), (93, 93, St 236), (48, 57, St 312), (97, 102, St 308),
      (65, 70, St 308)], St 0),
    (312, False, [(46, 46, St 230), (58, 58, St 255), (93, 93, St 236), (48, 57, St 313), (97, 102, St 309),
      (65, 70, St 309)], St 0),
    (313, False, [(46, 46, St 230), (58, 58, St 255), (93, 93, St 236), (48, 57, St 310), (97, 102, St 310),
      (65, 70, St 310)], St 0),
    (314, False, [(46, 46, St 230), (48, 48, St 315), (53, 53, St 316), (58, 58, St 255), (93, 93, St 236),
      (49, 57, St 308), (97, 102, St 308), (65, 70, St 308)], St 0),
    (315, False, [(58, 58, St 255), (93, 93, St 236), (48, 57, St 313), (97, 102, St 309), (65, 70, St 309)], St 0)]"

definition http11_rows_40 :: "state_row list" where
  "http11_rows_40 = [
    (316, False, [(48, 48, St 313), (58, 58, St 255), (93, 93, St 236), (49, 57, St 309), (97, 102, St 309),
      (65, 70, St 309)], St 0),
    (317, False, [(58, 58, St 255), (93, 93, St 236), (48, 57, St 308), (97, 102, St 308), (65, 70, St 308)], St 0),
    (318, False, [(46, 46, St 230), (58, 58, St 306), (93, 93, St 236), (48, 57, St 319), (97, 102, St 303),
      (65, 70, St 303)], St 0),
    (319, False, [(46, 46, St 230), (58, 58, St 306), (93, 93, St 236), (48, 57, St 320), (97, 102, St 304),
      (65, 70, St 304)], St 0),
    (320, False, [(46, 46, St 230), (58, 58, St 306), (93, 93, St 236), (48, 57, St 305), (97, 102, St 305),
      (65, 70, St 305)], St 0),
    (321, False, [(46, 46, St 230), (48, 48, St 322), (53, 53, St 323), (58, 58, St 306), (93, 93, St 236),
      (49, 57, St 303), (97, 102, St 303), (65, 70, St 303)], St 0),
    (322, False, [(58, 58, St 306), (93, 93, St 236), (48, 57, St 320), (97, 102, St 304), (65, 70, St 304)], St 0),
    (323, False, [(48, 48, St 320), (58, 58, St 306), (93, 93, St 236), (49, 57, St 304), (97, 102, St 304),
      (65, 70, St 304)], St 0)]"

definition http11_rows_41 :: "state_row list" where
  "http11_rows_41 = [
    (324, False, [(58, 58, St 306), (93, 93, St 236), (48, 57, St 303), (97, 102, St 303), (65, 70, St 303)], St 0),
    (325, False, [(49, 49, St 318), (50, 50, St 321), (2, 3, St 223), (97, 102, St 324), (65, 70, St 324),
      (48, 57, St 302)], St 0),
    (326, False, [(49, 49, St 331), (50, 50, St 334), (2, 3, St 223), (97, 102, St 337), (65, 70, St 337),
      (48, 57, St 327)], St 0),
    (327, False, [(46, 46, St 230), (58, 58, St 306), (48, 57, St 328), (97, 102, St 328), (65, 70, St 328)], St 0),
    (328, False, [(58, 58, St 306), (48, 57, St 329), (97, 102, St 329), (65, 70, St 329)], St 0),
    (329, False, [(58, 58, St 306), (48, 57, St 330), (97, 102, St 330), (65, 70, St 330)], St 0),
    (330, False, [(58, 58, St 306)], St 0),
    (331, False, [(46, 46, St 230), (58, 58, St 306), (48, 57, St 332), (97, 102, St 328), (65, 70, St 328)], St 0),
    (332, False, [(46, 46, St 230), (58, 58, St 306), (48, 57, St 333), (97, 102, St 329), (65, 70, St 329)], St 0)]"

definition http11_rows_42 :: "state_row list" where
  "http11_rows_42 = [
    (333, False, [(46, 46, St 230), (58, 58, St 306), (48, 57, St 330), (97, 102, St 330), (65, 70, St 330)], St 0),
    (334, False, [(46, 46, St 230), (48, 48, St 335), (53, 53, St 336), (58, 58, St 306), (49, 57, St 328),
      (97, 102, St 328), (65, 70, St 328)], St 0),
    (335, False, [(58, 58, St 306), (48, 57, St 333), (97, 102, St 329), (65, 70, St 329)], St 0),
    (336, False, [(48, 48, St 333), (58, 58, St 306), (49, 57, St 329), (97, 102, St 329), (65, 70, St 329)], St 0),
    (337, False, [(58, 58, St 306), (48, 57, St 328), (97, 102, St 328), (65, 70, St 328)], St 0),
    (338, False, [(2, 3, St 223), (97, 102, St 224), (65, 70, St 224), (48, 57, St 224)], St 0),
    (339, False, [(2, 3, St 223)], St 0),
    (340, False, [(3, 3, St 223)], St 0),
    (341, False, [(4, 4, St 223)], St 0),
    (342, False, [(58, 58, St 343)], St 0),
    (343, False, [(49, 49, St 318), (50, 50, St 321), (93, 93, St 236), (2, 5, St 223), (97, 102, St 324),
      (65, 70, St 324), (48, 57, St 302)], St 0)]"

definition http11_rows_43 :: "state_row list" where
  "http11_rows_43 = [
    (344, False, [(48, 57, St 345), (97, 102, St 345), (65, 70, St 345)], St 0),
    (345, False, [(46, 46, St 346), (48, 57, St 345), (97, 102, St 345), (65, 70, St 345)], St 0),
    (346, True, [(33, 33, St 347), (36, 36, St 347), (61, 61, St 347), (95, 95, St 347), (126, 126, St 347),
      (606, 606, St 347), (635, 635, St 347), (637, 637, St 347), (38, 46, St 347), (97, 122, St 347),
      (65, 90, St 347), (48, 59, St 347)], St 0),
    (347, True, [(33, 33, St 347), (36, 36, St 347), (61, 61, St 347), (93, 93, St 236), (95, 95, St 347),
      (126, 126, St 347), (606, 606, St 347), (635, 635, St 347), (637, 637, St 347), (38, 46, St 347),
      (97, 122, St 347), (65, 90, St 347), (48, 59, St 347)], St 0)]"

definition http11_rows :: "state_row list" where
  "http11_rows = concat [http11_rows_1, http11_rows_2, http11_rows_3, http11_rows_4, http11_rows_5, http11_rows_6, http11_rows_7, http11_rows_8, http11_rows_9, http11_rows_10, http11_rows_11, http11_rows_12, http11_rows_13, http11_rows_14, http11_rows_15, http11_rows_16, http11_rows_17, http11_rows_18, http11_rows_19, http11_rows_20, http11_rows_21, http11_rows_22, http11_rows_23, http11_rows_24, http11_rows_25, http11_rows_26, http11_rows_27, http11_rows_28, http11_rows_29, http11_rows_30, http11_rows_31, http11_rows_32, http11_rows_33, http11_rows_34, http11_rows_35, http11_rows_36, http11_rows_37, http11_rows_38, http11_rows_39, http11_rows_40, http11_rows_41, http11_rows_42, http11_rows_43]"

definition http11_tr :: "(nat \<times> action list \<times> nat) list" where
  "http11_tr = [
    (0, [A_mark], 2),
    (2, [A_mark], 194),
    (3, [A_mark], 198),
    (4, [A_request_method], 3),
    (6, [A_mark, A_request_path, A_request_uri], 4),
    (7, [A_mark], 19),
    (8, [A_mark, A_request_path, A_request_uri], 20),
    (9, [A_mark], 24),
    (10, [A_mark], 33),
    (11, [A_mark, A_request_path], 29),
    (12, [A_mark], 173),
    (13, [A_mark], 5),
    (21, [A_http_version], 13),
    (22, [A_http_version], 17),
    (23, [A_start_field], 14),
    (24, [A_start_field, A_done], 348),
    (25, [A_start_field], 18),
    (27, [A_write_field], 15),
    (28, [A_mark], 16),
    (29, [A_mark], 15),
    (30, [A_mark, A_write_value], 13),
    (31, [A_mark, A_write_value], 17),
    (33, [A_write_value], 13),
    (34, [A_write_value], 17),
    (36, [A_done], 348),
    (37, [A_request_path, A_request_uri], 4),
    (39, [A_request_path, A_request_uri], 20),
    (42, [A_request_path], 29),
    (43, [A_mark], 21),
    (44, [A_mark, A_fragment], 4),
    (45, [A_mark], 22),
    (47, [A_fragment], 4),
    (53, [A_start_query], 30),
    (54, [A_start_query, A_query_string, A_request_uri], 4),
    (55, [A_start_query, A_query_string, A_request_uri], 20),
    (56, [A_start_query], 31),
    (58, [A_query_string, A_request_uri], 4),
    (59, [A_query_string, A_request_uri], 20),
    (203, [A_mark], 26),
    (204, [A_mark], 27),
    (224, [A_request_path], 196),
    (227, [A_xml, A_done], 349),
    (228, [A_request_path], 199),
    (232, [A_mark], 200),
    (235, [A_json, A_done], 349)]"

end
