(* ===== verification/Ordered_Containers.thy ===== *)
theory Ordered_Containers
  imports Prelude
begin

text \<open>
  \<^verbatim>\<open>std::set\<close> and \<^verbatim>\<open>std::map\<close> with a user-supplied comparator, as the code uses them for its
  timers (\<^verbatim>\<open>Timer::Comparator\<close>) and its case-insensitive header tables (\<^verbatim>\<open>CaseInsensitiveLess\<close>).
  A container is the list of its elements in order; two keys are the same key when neither
  is less than the other. The laws hold for every comparator that is a strict weak order.
\<close>

section \<open>Operations\<close>

definition equiv_key :: "('a \<Rightarrow> 'a \<Rightarrow> bool) \<Rightarrow> 'a \<Rightarrow> 'a \<Rightarrow> bool" where
  "equiv_key lt x y \<longleftrightarrow> \<not> lt x y \<and> \<not> lt y x"

text \<open>\<^verbatim>\<open>lower_bound\<close>, \<^verbatim>\<open>upper_bound\<close>: the elements before and from the bound on.\<close>

definition before_lower :: "('a \<Rightarrow> 'a \<Rightarrow> bool) \<Rightarrow> 'a \<Rightarrow> 'a list \<Rightarrow> 'a list" where
  "before_lower lt x xs = takeWhile (\<lambda>y. lt y x) xs"

definition from_lower :: "('a \<Rightarrow> 'a \<Rightarrow> bool) \<Rightarrow> 'a \<Rightarrow> 'a list \<Rightarrow> 'a list" where
  "from_lower lt x xs = dropWhile (\<lambda>y. lt y x) xs"

definition before_upper :: "('a \<Rightarrow> 'a \<Rightarrow> bool) \<Rightarrow> 'a \<Rightarrow> 'a list \<Rightarrow> 'a list" where
  "before_upper lt x xs = takeWhile (\<lambda>y. \<not> lt x y) xs"

definition from_upper :: "('a \<Rightarrow> 'a \<Rightarrow> bool) \<Rightarrow> 'a \<Rightarrow> 'a list \<Rightarrow> 'a list" where
  "from_upper lt x xs = dropWhile (\<lambda>y. \<not> lt x y) xs"

definition set_find :: "('a \<Rightarrow> 'a \<Rightarrow> bool) \<Rightarrow> 'a \<Rightarrow> 'a list \<Rightarrow> 'a option" where
  "set_find lt x xs = (case from_lower lt x xs of
      [] \<Rightarrow> None | y # ys \<Rightarrow> if lt x y then None else Some y)"

text \<open>\<^verbatim>\<open>insert\<close> leaves the container alone when it has the key.\<close>

definition set_insert :: "('a \<Rightarrow> 'a \<Rightarrow> bool) \<Rightarrow> 'a \<Rightarrow> 'a list \<Rightarrow> 'a list" where
  "set_insert lt x xs = (if set_find lt x xs = None
     then before_lower lt x xs @ x # from_lower lt x xs else xs)"

definition set_erase :: "('a \<Rightarrow> 'a \<Rightarrow> bool) \<Rightarrow> 'a \<Rightarrow> 'a list \<Rightarrow> 'a list" where
  "set_erase lt x xs = (if set_find lt x xs = None
     then xs else before_lower lt x xs @ tl (from_lower lt x xs))"

section \<open>The laws of a strict weak order\<close>

locale strict_weak_order =
  fixes lt :: "'a \<Rightarrow> 'a \<Rightarrow> bool"
  assumes lt_irrefl: "\<not> lt x x"
    and lt_trans: "lt x y \<Longrightarrow> lt y z \<Longrightarrow> lt x z"
    and equiv_trans: "equiv_key lt x y \<Longrightarrow> equiv_key lt y z \<Longrightarrow> equiv_key lt x z"
begin

lemma lt_asym: "lt x y \<Longrightarrow> \<not> lt y x"
  using lt_trans lt_irrefl by blast

lemma equiv_refl: "equiv_key lt x x"
  by (simp add: equiv_key_def lt_irrefl)

lemma equiv_sym: "equiv_key lt x y \<Longrightarrow> equiv_key lt y x"
  by (simp add: equiv_key_def)

lemma lt_equiv: "lt x y \<Longrightarrow> equiv_key lt y z \<Longrightarrow> lt x z"
  using equiv_trans equiv_sym lt_trans unfolding equiv_key_def by meson

lemma equiv_lt: "equiv_key lt x y \<Longrightarrow> lt y z \<Longrightarrow> lt x z"
  using equiv_trans equiv_sym lt_trans unfolding equiv_key_def by meson

lemma not_lt_trans: "\<not> lt y x \<Longrightarrow> lt y z \<Longrightarrow> lt x z"
  using equiv_lt lt_trans unfolding equiv_key_def by blast

lemma from_lower_ge: "sorted_wrt lt xs \<Longrightarrow> y \<in> set (from_lower lt x xs) \<Longrightarrow> \<not> lt y x"
proof (induction xs)
  case (Cons a xs)
  then show ?case
    by (auto simp: from_lower_def split: if_splits dest: lt_trans)
qed (simp add: from_lower_def)

lemma before_from_lower: "before_lower lt x xs @ from_lower lt x xs = xs"
  by (simp add: before_lower_def from_lower_def)

lemma before_lower_lt: "y \<in> set (before_lower lt x xs) \<Longrightarrow> lt y x"
  by (auto simp: before_lower_def dest: set_takeWhileD)

lemma from_lower_sorted: "sorted_wrt lt xs \<Longrightarrow> sorted_wrt lt (from_lower lt x xs)"
  using before_from_lower [of x xs] sorted_wrt_append [of lt] by metis

lemma set_find_None:
  assumes "sorted_wrt lt xs"
  shows "set_find lt x xs = None \<longleftrightarrow> (\<forall>y \<in> set xs. \<not> equiv_key lt x y)"
proof (cases "from_lower lt x xs")
  case Nil
  then have "\<forall>y \<in> set xs. lt y x" using before_from_lower [of x xs] before_lower_lt by (metis append_Nil2)
  then show ?thesis using Nil by (simp add: set_find_def equiv_key_def)
next
  case (Cons z zs)
  have z: "\<not> lt z x" using from_lower_ge [OF assms, of z x] Cons by simp
  have all: "z' \<in> set zs \<Longrightarrow> lt z z'" for z'
    using from_lower_sorted [OF assms, of x] Cons by simp
  have mem: "y \<in> set xs \<longleftrightarrow> y \<in> set (before_lower lt x xs) \<or> y = z \<or> y \<in> set zs" for y
    using arg_cong [OF before_from_lower [of x xs], of set] Cons by auto
  show ?thesis
  proof (cases "lt x z")
    case True
    then have "\<not> equiv_key lt x y" if "y \<in> set xs" for y
      using that mem all before_lower_lt lt_trans by (auto simp: equiv_key_def)
    with True Cons show ?thesis by (simp add: set_find_def)
  next
    case False
    with z mem show ?thesis using Cons by (auto simp: set_find_def equiv_key_def)
  qed
qed

lemma set_find_Some:
  assumes "set_find lt x xs = Some y" and "sorted_wrt lt xs"
  shows "y \<in> set xs \<and> equiv_key lt x y"
proof -
  from assms(1) obtain ys where "from_lower lt x xs = y # ys" "\<not> lt x y"
    by (auto simp: set_find_def split: list.splits if_splits)
  moreover from this have "\<not> lt y x" using from_lower_ge [OF assms(2), of y x] by simp
  moreover have "y \<in> set xs" using calculation(1) arg_cong [OF before_from_lower [of x xs], of set] by auto
  ultimately show ?thesis by (simp add: equiv_key_def)
qed

lemma sorted_unique:
  "sorted_wrt lt xs \<Longrightarrow> y \<in> set xs \<Longrightarrow> z \<in> set xs \<Longrightarrow> equiv_key lt y z \<Longrightarrow> y = z"
  by (induction xs) (auto simp: equiv_key_def)

lemma sorted_lt_distinct: "sorted_wrt lt xs \<Longrightarrow> distinct xs"
  by (induction xs) (auto simp: lt_irrefl)

lemma set_insert_sorted:
  assumes "sorted_wrt lt xs"
  shows "sorted_wrt lt (set_insert lt x xs)"
proof (cases "set_find lt x xs = None")
  case True
  have "lt x y" if y: "y \<in> set (from_lower lt x xs)" for y
  proof -
    have "y \<in> set xs" using y arg_cong [OF before_from_lower [of x xs], of set] by auto
    then show ?thesis
      using True assms from_lower_ge [OF assms y] set_find_None [OF assms, of x] by (auto simp: equiv_key_def)
  qed
  then show ?thesis
    using True assms from_lower_sorted [OF assms, of x] before_lower_lt lt_trans
      before_from_lower [of x xs] sorted_wrt_append [of lt "before_lower lt x xs" "from_lower lt x xs"]
    by (auto simp: set_insert_def sorted_wrt_append)
next
  case False
  then show ?thesis using assms by (auto simp: set_insert_def)
qed

lemma set_set_insert:
  assumes "sorted_wrt lt xs"
  shows "set (set_insert lt x xs) = (if \<exists>y \<in> set xs. equiv_key lt x y then set xs else insert x (set xs))"
  using set_find_None [OF assms, of x] arg_cong [OF before_from_lower [of x xs], of set]
  by (auto simp: set_insert_def)

lemma set_erase_sorted:
  assumes "sorted_wrt lt xs"
  shows "sorted_wrt lt (set_erase lt x xs)"
  using assms before_from_lower [of x xs]
    sorted_wrt_append [of lt "before_lower lt x xs" "from_lower lt x xs"]
  by (cases "from_lower lt x xs") (auto simp: set_erase_def sorted_wrt_append)

lemma set_set_erase:
  assumes "sorted_wrt lt xs"
  shows "set (set_erase lt x xs) = {y \<in> set xs. \<not> equiv_key lt x y}"
proof (cases "set_find lt x xs")
  case None
  then show ?thesis using set_find_None [OF assms, of x] by (auto simp: set_erase_def)
next
  case (Some y)
  then obtain ys where ys: "from_lower lt x xs = y # ys"
    by (auto simp: set_find_def split: list.splits if_splits)
  have y: "equiv_key lt x y" using set_find_Some [OF Some assms] by simp
  have xs: "xs = before_lower lt x xs @ y # ys" using before_from_lower [of x xs] ys by simp
  then have "\<forall>z \<in> set (before_lower lt x xs). lt z y" "\<forall>z \<in> set ys. lt y z"
    using assms sorted_wrt_append [of lt "before_lower lt x xs" "y # ys"] by auto
  then have "\<forall>z \<in> set (before_lower lt x xs) \<union> set ys. \<not> equiv_key lt x z"
    using equiv_lt [OF y] before_lower_lt by (auto simp: equiv_key_def)
  moreover have "set xs = set (before_lower lt x xs) \<union> insert y (set ys)"
    using arg_cong [OF xs, of set] by simp
  ultimately show ?thesis using y Some ys by (auto simp: set_erase_def)
qed

lemma before_upper_filter:
  "sorted_wrt lt xs \<Longrightarrow> before_upper lt x xs = filter (\<lambda>y. \<not> lt x y) xs"
proof (induction xs)
  case (Cons a xs)
  have "filter (\<lambda>y. \<not> lt x y) xs = []" if "lt x a"
    using that Cons.prems lt_trans by (auto simp: filter_empty_conv)
  then show ?case using Cons by (auto simp: before_upper_def)
qed (simp add: before_upper_def)

lemma from_upper_filter:
  "sorted_wrt lt xs \<Longrightarrow> from_upper lt x xs = filter (lt x) xs"
proof (induction xs)
  case (Cons a xs)
  have "filter (lt x) xs = xs" if "lt x a"
    using that Cons.prems lt_trans by (auto simp: filter_id_conv)
  then show ?case using Cons by (auto simp: from_upper_def)
qed (simp add: from_upper_def)

end

section \<open>Maps\<close>

text \<open>\<^verbatim>\<open>find\<close>, \<^verbatim>\<open>m[k] = v\<close> (which keeps the key that is there), \<^verbatim>\<open>insert\<close> and \<^verbatim>\<open>erase(k)\<close>.\<close>

fun map_find :: "('k \<Rightarrow> 'k \<Rightarrow> bool) \<Rightarrow> 'k \<Rightarrow> ('k \<times> 'v) list \<Rightarrow> 'v option" where
  "map_find lt k [] = None"
| "map_find lt k ((k', v) # m) =
     (if lt k' k then map_find lt k m else if lt k k' then None else Some v)"

fun map_assign :: "('k \<Rightarrow> 'k \<Rightarrow> bool) \<Rightarrow> 'k \<Rightarrow> 'v \<Rightarrow> ('k \<times> 'v) list \<Rightarrow> ('k \<times> 'v) list" where
  "map_assign lt k v [] = [(k, v)]"
| "map_assign lt k v ((k', v') # m) =
     (if lt k' k then (k', v') # map_assign lt k v m
      else if lt k k' then (k, v) # (k', v') # m else (k', v) # m)"

fun map_insert :: "('k \<Rightarrow> 'k \<Rightarrow> bool) \<Rightarrow> 'k \<Rightarrow> 'v \<Rightarrow> ('k \<times> 'v) list \<Rightarrow> ('k \<times> 'v) list" where
  "map_insert lt k v [] = [(k, v)]"
| "map_insert lt k v ((k', v') # m) =
     (if lt k' k then (k', v') # map_insert lt k v m
      else if lt k k' then (k, v) # (k', v') # m else (k', v') # m)"

fun map_erase :: "('k \<Rightarrow> 'k \<Rightarrow> bool) \<Rightarrow> 'k \<Rightarrow> ('k \<times> 'v) list \<Rightarrow> ('k \<times> 'v) list" where
  "map_erase lt k [] = []"
| "map_erase lt k ((k', v') # m) =
     (if lt k' k then (k', v') # map_erase lt k m else if lt k k' then (k', v') # m else m)"

definition map_sorted :: "('k \<Rightarrow> 'k \<Rightarrow> bool) \<Rightarrow> ('k \<times> 'v) list \<Rightarrow> bool" where
  "map_sorted lt m \<longleftrightarrow> sorted_wrt lt (map fst m)"

lemma map_sorted_simps [simp]:
  "map_sorted lt []"
  "map_sorted lt ((k, v) # m) \<longleftrightarrow> (\<forall>k' \<in> fst ` set m. lt k k') \<and> map_sorted lt m"
  by (auto simp: map_sorted_def)

context strict_weak_order
begin

lemma map_assign_keys: "x \<in> set (map_assign lt k v m) \<Longrightarrow> fst x = k \<or> fst x \<in> fst ` set m"
  by (induction m) (auto split: if_splits)

lemma map_insert_keys: "x \<in> set (map_insert lt k v m) \<Longrightarrow> fst x = k \<or> fst x \<in> fst ` set m"
  by (induction m) (auto split: if_splits)

lemma map_erase_keys: "x \<in> set (map_erase lt k m) \<Longrightarrow> fst x \<in> fst ` set m"
  by (induction m) (auto split: if_splits)

lemma map_assign_sorted: "map_sorted lt m \<Longrightarrow> map_sorted lt (map_assign lt k v m)"
proof (induction m)
  case (Cons p m)
  obtain a w where p: "p = (a, w)" by fastforce
  have "lt a k \<Longrightarrow> \<forall>x \<in> fst ` set (map_assign lt k v m). lt a x"
    using Cons.prems map_assign_keys [of _ k v m] by (fastforce simp: p)
  moreover have "lt k a \<Longrightarrow> \<forall>x \<in> fst ` set m. lt k x" using Cons.prems lt_trans by (auto simp: p)
  ultimately show ?case using Cons by (simp add: p)
qed simp

lemma map_insert_sorted: "map_sorted lt m \<Longrightarrow> map_sorted lt (map_insert lt k v m)"
proof (induction m)
  case (Cons p m)
  obtain a w where p: "p = (a, w)" by fastforce
  have "lt a k \<Longrightarrow> \<forall>x \<in> fst ` set (map_insert lt k v m). lt a x"
    using Cons.prems map_insert_keys [of _ k v m] by (fastforce simp: p)
  moreover have "lt k a \<Longrightarrow> \<forall>x \<in> fst ` set m. lt k x" using Cons.prems lt_trans by (auto simp: p)
  ultimately show ?case using Cons by (simp add: p)
qed simp

lemma map_erase_sorted: "map_sorted lt m \<Longrightarrow> map_sorted lt (map_erase lt k m)"
proof (induction m)
  case (Cons p m)
  obtain a w where p: "p = (a, w)" by fastforce
  have "\<forall>x \<in> fst ` set (map_erase lt k m). lt a x"
    using Cons.prems map_erase_keys [of _ k m] by (fastforce simp: p)
  then show ?case using Cons by (simp add: p)
qed simp

lemma map_find_below: "\<forall>k' \<in> fst ` set m. lt k k' \<Longrightarrow> map_find lt k m = None"
  by (cases m) (auto dest: lt_asym)

lemma map_find_cong: "equiv_key lt k k' \<Longrightarrow> map_find lt k m = map_find lt k' m"
proof (induction m)
  case (Cons p m)
  then show ?case
    using lt_equiv [of "fst p" k k'] lt_equiv [of "fst p" k' k] equiv_lt [of k k' "fst p"]
      equiv_lt [of k' k "fst p"] equiv_sym by (cases p) auto
qed simp

lemma map_find_assign:
  "map_sorted lt m \<Longrightarrow> map_find lt k' (map_assign lt k v m)
     = (if equiv_key lt k k' then Some v else map_find lt k' m)"
proof (induction m)
  case Nil
  then show ?case by (auto simp: equiv_key_def)
next
  case (Cons p m)
  obtain a w where p: "p = (a, w)" by fastforce
  consider "lt a k" | "lt k a" "\<not> lt a k" | "equiv_key lt k a" by (auto simp: equiv_key_def)
  then show ?case
  proof cases
    case 1
    have "\<not> lt a k' \<Longrightarrow> \<not> equiv_key lt k k'"
      using 1 lt_equiv [of a k k'] by auto
    with 1 Cons show ?thesis by (auto simp: p)
  next
    case 2
    then show ?thesis using lt_trans [of k a k'] lt_irrefl not_lt_trans [of k k' a]
      by (auto simp: p equiv_key_def)
  next
    case 3
    then have e: "equiv_key lt k k' \<longleftrightarrow> equiv_key lt a k'" using equiv_trans equiv_sym by blast
    from 3 show ?thesis by (simp add: p e) (auto simp: equiv_key_def)
  qed
qed

lemma map_find_insert:
  "map_sorted lt m \<Longrightarrow> map_find lt k' (map_insert lt k v m)
     = (if equiv_key lt k k' \<and> map_find lt k m = None then Some v else map_find lt k' m)"
proof (induction m)
  case Nil
  then show ?case by (auto simp: equiv_key_def)
next
  case (Cons p m)
  obtain a w where p: "p = (a, w)" by fastforce
  consider "lt a k" | "lt k a" "\<not> lt a k" | "equiv_key lt k a" by (auto simp: equiv_key_def)
  then show ?case
  proof cases
    case 1
    have "\<not> lt a k' \<Longrightarrow> \<not> equiv_key lt k k'"
      using 1 lt_equiv [of a k k'] by auto
    with 1 Cons show ?thesis by (auto simp: p)
  next
    case 2
    then show ?thesis using lt_trans [of k a k'] lt_irrefl not_lt_trans [of k k' a]
      by (auto simp: p equiv_key_def)
  next
    case 3
    then show ?thesis by (auto simp: p equiv_key_def)
  qed
qed

lemma map_find_erase:
  "map_sorted lt m \<Longrightarrow> map_find lt k' (map_erase lt k m)
     = (if equiv_key lt k k' then None else map_find lt k' m)"
proof (induction m)
  case (Cons p m)
  obtain a w where p: "p = (a, w)" by fastforce
  have below: "\<forall>x \<in> fst ` set m. lt a x" using Cons.prems by (simp add: p)
  consider "lt a k" | "lt k a" "\<not> lt a k" | "equiv_key lt k a" by (auto simp: equiv_key_def)
  then show ?case
  proof cases
    case 1
    have "\<not> lt a k' \<Longrightarrow> \<not> equiv_key lt k k'"
      using 1 lt_equiv [of a k k'] by auto
    with 1 Cons show ?thesis by (auto simp: p)
  next
    case 2
    have "lt k' a \<and> \<not> lt a k'" if "equiv_key lt k k'"
      using equiv_lt [OF equiv_sym [OF that] 2(1)] lt_trans [of a k' a] lt_irrefl by blast
    with 2 show ?thesis by (auto simp: p)
  next
    case 3
    then have e: "equiv_key lt k k' \<longleftrightarrow> equiv_key lt a k'" using equiv_trans equiv_sym by blast
    have "map_find lt k' m = None" if "\<not> lt a k'"
      using below not_lt_trans [OF that] by (intro map_find_below) blast
    with 3 show ?thesis by (simp add: p e) (auto simp: equiv_key_def)
  qed
qed simp

text \<open>A sorted map has at most one entry per key, and finds it.\<close>

lemma map_find_find:
  "map_sorted lt m \<Longrightarrow> map_find lt k m = map_option snd (find (\<lambda>h. equiv_key lt (fst h) k) m)"
proof (induction m)
  case (Cons p m)
  obtain a w where p: "p = (a, w)" by fastforce
  have "find (\<lambda>h. equiv_key lt (fst h) k) m = None" if "lt k a"
    using that Cons.prems lt_trans [OF that] by (auto simp: p find_None_iff equiv_key_def)
  with Cons show ?case by (auto simp: p equiv_key_def)
qed simp

lemma map_find_filter:
  assumes "map_sorted lt m" and "\<And>h. equiv_key lt (fst h) k \<Longrightarrow> Q h"
  shows "map_find lt k (filter Q m) = map_find lt k m"
proof -
  have "map_sorted lt (filter Q m)" using assms(1) unfolding map_sorted_def by (induction m) auto
  moreover have "find (\<lambda>h. equiv_key lt (fst h) k) (filter Q m) = find (\<lambda>h. equiv_key lt (fst h) k) m"
    using assms(2) by (induction m) auto
  ultimately show ?thesis using assms(1) by (simp add: map_find_find)
qed

lemma map_find_assign_all:
  assumes "map_sorted lt hs" and "map_sorted lt m"
  shows "map_sorted lt (fold (\<lambda>h. map_assign lt (fst h) (snd h)) hs m)
    \<and> map_find lt k (fold (\<lambda>h. map_assign lt (fst h) (snd h)) hs m)
     = (case map_find lt k hs of Some v \<Rightarrow> Some v | None \<Rightarrow> map_find lt k m)"
  using assms
proof (induction hs arbitrary: m)
  case (Cons h hs)
  obtain a v where h: "h = (a, v)" by fastforce
  have "map_find lt k hs = None" if "\<not> lt a k"
    using Cons.prems(1) not_lt_trans [OF that] by (intro map_find_below) (auto simp: h)
  with Cons show ?case by (auto simp: h map_assign_sorted map_find_assign equiv_key_def split: option.splits)
qed simp

end

end
