(* ===== verification/Http_Messages.thy ===== *)
theory Http_Messages
  imports Ordered_Containers
begin

unbundle bit_operations_syntax

text \<open>
  HTTP messages (\<^verbatim>\<open>dwframe/http/http.h\<close>, \<^verbatim>\<open>dwframe/http/http.cc\<close>): the method and status tables, the
  case-insensitive header maps, \<^verbatim>\<open>HttpRequest\<close> and \<^verbatim>\<open>HttpResponse\<close> and their text form. A \<^verbatim>\<open>std::string\<close> is a
  list of characters; where the code goes through \<^verbatim>\<open>c_str()\<close> only the part before the first null character counts.
\<close>

section \<open>C strings\<close>

definition c_str :: "string \<Rightarrow> string" where
  "c_str s = takeWhile (\<lambda>c. of_char c \<noteq> (0 :: nat)) s"

definition lower_code :: "char \<Rightarrow> nat" where
  "lower_code c = (let n = of_char c in if 65 \<le> n \<and> n \<le> 90 then n + 32 else n)"

text \<open>\<^verbatim>\<open>strcasecmp\<close> in the C locale: the difference of the first characters that differ.\<close>

fun strcasecmp :: "string \<Rightarrow> string \<Rightarrow> int" where
  "strcasecmp [] [] = 0"
| "strcasecmp [] (y # ys) = - int (lower_code y)"
| "strcasecmp (x # xs) [] = int (lower_code x)"
| "strcasecmp (x # xs) (y # ys) =
     (if lower_code x = lower_code y then strcasecmp xs ys else int (lower_code x) - int (lower_code y))"

fun strcasestr :: "string \<Rightarrow> string \<Rightarrow> bool" where
  "strcasestr [] needle \<longleftrightarrow> needle = []"
| "strcasestr (x # xs) needle \<longleftrightarrow>
     map lower_code (take (length needle) (x # xs)) = map lower_code needle \<or> strcasestr xs needle"

abbreviation (input) crlf :: string where "crlf \<equiv> [CHR 0x0D, CHR 0x0A]"

section \<open>Methods and status codes\<close>

datatype HttpMethod =
    DELETE | GET | HEAD | POST | PUT | CONNECT | OPTIONS | TRACE | COPY | LOCK | MKCOL | MOVE | PROPFIND |
    PROPPATCH | SEARCH | UNLOCK | BIND | REBIND | UNBIND | ACL | REPORT | MKACTIVITY | CHECKOUT | MERGE |
    MSEARCH | NOTIFY | SUBSCRIBE | UNSUBSCRIBE | PATCH | PURGE | MKCALENDAR | LINK | UNLINK | SOURCE |
    INVALID_METHOD

definition HTTP_METHOD_MAP :: "(HttpMethod \<times> string) list" where
  "HTTP_METHOD_MAP = [
     (DELETE, ''DELETE''), (GET, ''GET''), (HEAD, ''HEAD''), (POST, ''POST''), (PUT, ''PUT''),
     (CONNECT, ''CONNECT''), (OPTIONS, ''OPTIONS''), (TRACE, ''TRACE''), (COPY, ''COPY''), (LOCK, ''LOCK''),
     (MKCOL, ''MKCOL''), (MOVE, ''MOVE''), (PROPFIND, ''PROPFIND''), (PROPPATCH, ''PROPPATCH''),
     (SEARCH, ''SEARCH''), (UNLOCK, ''UNLOCK''), (BIND, ''BIND''), (REBIND, ''REBIND''), (UNBIND, ''UNBIND''),
     (ACL, ''ACL''), (REPORT, ''REPORT''), (MKACTIVITY, ''MKACTIVITY''), (CHECKOUT, ''CHECKOUT''),
     (MERGE, ''MERGE''), (MSEARCH, ''M-SEARCH''), (NOTIFY, ''NOTIFY''), (SUBSCRIBE, ''SUBSCRIBE''),
     (UNSUBSCRIBE, ''UNSUBSCRIBE''), (PATCH, ''PATCH''), (PURGE, ''PURGE''), (MKCALENDAR, ''MKCALENDAR''),
     (LINK, ''LINK''), (UNLINK, ''UNLINK''), (SOURCE, ''SOURCE'')]"

text \<open>The macro expands to one test after the other, in the order of the table.\<close>

definition StringToHttpMethod :: "string \<Rightarrow> HttpMethod" where
  "StringToHttpMethod m = (case List.find (\<lambda>(name, s). s = c_str m) HTTP_METHOD_MAP of
     Some (name, s) \<Rightarrow> name | None \<Rightarrow> INVALID_METHOD)"

definition CharsToHttpMethod :: "string \<Rightarrow> HttpMethod" where
  "CharsToHttpMethod m = (case List.find (\<lambda>(name, s). take (length s) (c_str m) = s) HTTP_METHOD_MAP of
     Some (name, s) \<Rightarrow> name | None \<Rightarrow> INVALID_METHOD)"

text \<open>The table indexed by the number of the method; \<^verbatim>\<open>INVALID_METHOD\<close> is past its end.\<close>

definition HttpMethodToString :: "HttpMethod \<Rightarrow> string" where
  "HttpMethodToString m = (case map_of HTTP_METHOD_MAP m of Some s \<Rightarrow> s | None \<Rightarrow> ''<unknown>'')"

text \<open>A status is the number behind the enumeration: the client parser casts whatever it read.\<close>

definition HTTP_STATUS_MAP :: "(int \<times> string) list" where
  "HTTP_STATUS_MAP = [
     (100, ''Continue''), (101, ''Switching Protocols''), (102, ''Processing''), (200, ''OK''),
     (201, ''Created''), (202, ''Accepted''), (203, ''Non-Authoritative Information''), (204, ''No Content''),
     (205, ''Reset Content''), (206, ''Partial Content''), (207, ''Multi-Status''),
     (208, ''Already Reported''), (226, ''IM Used''), (300, ''Multiple Choices''),
     (301, ''Moved Permanently''), (302, ''Found''), (303, ''See Other''), (304, ''Not Modified''),
     (305, ''Use Proxy''), (307, ''Temporary Redirect''), (308, ''Permanent Redirect''),
     (400, ''Bad Request''), (401, ''Unauthorized''), (402, ''Payment Required''), (403, ''Forbidden''),
     (404, ''Not Found''), (405, ''Method Not Allowed''), (406, ''Not Acceptable''),
     (407, ''Proxy Authentication Required''), (408, ''Request Timeout''), (409, ''Conflict''),
     (410, ''Gone''), (411, ''Length Required''), (412, ''Precondition Failed''),
     (413, ''Payload Too Large''), (414, ''URI Too Long''), (415, ''Unsupported Media Type''),
     (416, ''Range Not Satisfiable''), (417, ''Expectation Failed''), (421, ''Misdirected Request''),
     (422, ''Unprocessable Entity''), (423, ''Locked''), (424, ''Failed Dependency''),
     (426, ''Upgrade Required''), (428, ''Precondition Required''), (429, ''Too Many Requests''),
     (431, ''Request Header Fields Too Large''), (451, ''Unavailable For Legal Reasons''),
     (500, ''Internal Server Error''), (501, ''Not Implemented''), (502, ''Bad Gateway''),
     (503, ''Service Unavailable''), (504, ''Gateway Timeout''), (505, ''HTTP Version Not Supported''),
     (506, ''Variant Also Negotiates''), (507, ''Insufficient Storage''), (508, ''Loop Detected''),
     (510, ''Not Extended''), (511, ''Network Authentication Required'')]"

definition HttpStatusToString :: "int \<Rightarrow> string" where
  "HttpStatusToString s = (case map_of HTTP_STATUS_MAP s of Some msg \<Rightarrow> msg | None \<Rightarrow> ''<unknown>'')"

section \<open>Header maps\<close>

definition CaseInsensitiveLess :: "string \<Rightarrow> string \<Rightarrow> bool" where
  "CaseInsensitiveLess lhs rhs \<longleftrightarrow> strcasecmp (c_str lhs) (c_str rhs) < 0"

type_synonym header_map = "(string \<times> string) list"

abbreviation hfind :: "string \<Rightarrow> header_map \<Rightarrow> string option" where "hfind \<equiv> map_find CaseInsensitiveLess"
abbreviation hassign :: "string \<Rightarrow> string \<Rightarrow> header_map \<Rightarrow> header_map" where "hassign \<equiv> map_assign CaseInsensitiveLess"
abbreviation herase :: "string \<Rightarrow> header_map \<Rightarrow> header_map" where "herase \<equiv> map_erase CaseInsensitiveLess"

text \<open>\<open>cast\<close> is \<^verbatim>\<open>boost::lexical_cast\<close>: \<open>None\<close> where it throws.\<close>

definition checkGetAs :: "(string \<Rightarrow> 't option) \<Rightarrow> header_map \<Rightarrow> string \<Rightarrow> 't \<Rightarrow> bool \<times> 't" where
  "checkGetAs cast m key dflt = (case hfind key m of
      None \<Rightarrow> (False, dflt)
    | Some s \<Rightarrow> (case cast s of Some v \<Rightarrow> (True, v) | None \<Rightarrow> (False, dflt)))"

definition getAs :: "(string \<Rightarrow> 't option) \<Rightarrow> header_map \<Rightarrow> string \<Rightarrow> 't \<Rightarrow> 't" where
  "getAs cast m key dflt = (case hfind key m of
      None \<Rightarrow> dflt
    | Some s \<Rightarrow> (case cast s of Some v \<Rightarrow> v | None \<Rightarrow> dflt))"

section \<open>Requests\<close>

record HttpRequest =
  m_method :: HttpMethod
  m_version :: byte
  m_close :: bool
  m_websocket :: bool
  m_parserParamFlag :: byte
  m_path :: string
  m_query :: string
  m_fragment :: string
  m_body :: string
  m_headers :: header_map
  m_params :: header_map
  m_cookies :: header_map

definition mk_HttpRequest :: "byte \<Rightarrow> bool \<Rightarrow> HttpRequest" where
  "mk_HttpRequest version close = \<lparr>m_method = GET, m_version = version, m_close = close, m_websocket = False,
     m_parserParamFlag = 0, m_path = ''/'', m_query = [], m_fragment = [], m_body = [], m_headers = [],
     m_params = [], m_cookies = []\<rparr>"

definition getHeader :: "string \<Rightarrow> string \<Rightarrow> HttpRequest \<Rightarrow> string" where
  "getHeader key dflt r = (case hfind key (m_headers r) of None \<Rightarrow> dflt | Some v \<Rightarrow> v)"

definition initQueryParam :: "HttpRequest \<Rightarrow> HttpRequest" where
  "initQueryParam r = (if bit (m_parserParamFlag r) 0 then r
     else r\<lparr>m_parserParamFlag := m_parserParamFlag r OR 0x1\<rparr>)"

definition initBodyParam :: "HttpRequest \<Rightarrow> HttpRequest" where
  "initBodyParam r = (if bit (m_parserParamFlag r) 1 then r
     else let content_type = getHeader ''content-type'' [] r in
       if \<not> strcasestr (c_str content_type) ''application/x-www-form-urlencoded''
       then r\<lparr>m_parserParamFlag := m_parserParamFlag r OR 0x2\<rparr>
       else r\<lparr>m_parserParamFlag := m_parserParamFlag r OR 0x2\<rparr>)"

definition initCookies :: "HttpRequest \<Rightarrow> HttpRequest" where
  "initCookies r = (if bit (m_parserParamFlag r) 2 then r
     else let cookie = getHeader ''cookie'' [] r in
       if cookie = [] then r\<lparr>m_parserParamFlag := m_parserParamFlag r OR 0x4\<rparr>
       else r\<lparr>m_parserParamFlag := m_parserParamFlag r OR 0x4\<rparr>)"

definition initParam :: "HttpRequest \<Rightarrow> HttpRequest" where
  "initParam r = initCookies (initBodyParam (initQueryParam r))"

definition getParam :: "string \<Rightarrow> string \<Rightarrow> HttpRequest \<Rightarrow> string \<times> HttpRequest" where
  "getParam key dflt r = (let r = initBodyParam (initQueryParam r) in
     (case hfind key (m_params r) of None \<Rightarrow> dflt | Some v \<Rightarrow> v, r))"

definition getCookie :: "string \<Rightarrow> string \<Rightarrow> HttpRequest \<Rightarrow> string \<times> HttpRequest" where
  "getCookie key dflt r = (let r = initCookies r in
     (case hfind key (m_cookies r) of None \<Rightarrow> dflt | Some v \<Rightarrow> v, r))"

definition setHeader :: "string \<Rightarrow> string \<Rightarrow> HttpRequest \<Rightarrow> HttpRequest" where
  "setHeader key val r = r\<lparr>m_headers := hassign key val (m_headers r)\<rparr>"

definition setParam :: "string \<Rightarrow> string \<Rightarrow> HttpRequest \<Rightarrow> HttpRequest" where
  "setParam key val r = r\<lparr>m_params := hassign key val (m_params r)\<rparr>"

definition setCookie :: "string \<Rightarrow> string \<Rightarrow> HttpRequest \<Rightarrow> HttpRequest" where
  "setCookie key val r = r\<lparr>m_cookies := hassign key val (m_cookies r)\<rparr>"

definition delHeader :: "string \<Rightarrow> HttpRequest \<Rightarrow> HttpRequest" where
  "delHeader key r = r\<lparr>m_headers := herase key (m_headers r)\<rparr>"

definition delParam :: "string \<Rightarrow> HttpRequest \<Rightarrow> HttpRequest" where
  "delParam key r = r\<lparr>m_params := herase key (m_params r)\<rparr>"

definition delCookie :: "string \<Rightarrow> HttpRequest \<Rightarrow> HttpRequest" where
  "delCookie key r = r\<lparr>m_cookies := herase key (m_cookies r)\<rparr>"

text \<open>\<^verbatim>\<open>hasHeader\<close> and its siblings: whether the key is there, and the value written through \<open>val\<close> if it is.\<close>

definition hasHeader :: "string \<Rightarrow> HttpRequest \<Rightarrow> string option" where
  "hasHeader key r = hfind key (m_headers r)"

definition hasParam :: "string \<Rightarrow> HttpRequest \<Rightarrow> string option \<times> HttpRequest" where
  "hasParam key r = (let r = initBodyParam (initQueryParam r) in (hfind key (m_params r), r))"

definition hasCookie :: "string \<Rightarrow> HttpRequest \<Rightarrow> string option \<times> HttpRequest" where
  "hasCookie key r = (let r = initCookies r in (hfind key (m_cookies r), r))"

definition getParamAs :: "(string \<Rightarrow> 't option) \<Rightarrow> string \<Rightarrow> 't \<Rightarrow> HttpRequest \<Rightarrow> 't \<times> HttpRequest" where
  "getParamAs cast key dflt r = (let r = initBodyParam (initQueryParam r) in (getAs cast (m_params r) key dflt, r))"

definition getCookieAs :: "(string \<Rightarrow> 't option) \<Rightarrow> string \<Rightarrow> 't \<Rightarrow> HttpRequest \<Rightarrow> 't \<times> HttpRequest" where
  "getCookieAs cast key dflt r = (let r = initCookies r in (getAs cast (m_cookies r) key dflt, r))"

definition request_init :: "HttpRequest \<Rightarrow> HttpRequest" where
  "request_init r = (let conn = getHeader ''connection'' [] r in
     if conn \<noteq> [] then
       if strcasecmp (c_str conn) ''keep-alive'' = 0 then r\<lparr>m_close := False\<rparr> else r\<lparr>m_close := True\<rparr>
     else r)"

definition show_version :: "byte \<Rightarrow> string" where
  "show_version v = ''HTTP/'' @ show_base 10 (unat (drop_bit 4 v)) @ ''.'' @ show_base 10 (unat (v AND 0x0F))"

definition header_line :: "string \<times> string \<Rightarrow> string" where
  "header_line h = fst h @ '': '' @ snd h @ crlf"

definition skip_header :: "bool \<Rightarrow> string \<times> string \<Rightarrow> bool" where
  "skip_header websocket h \<longleftrightarrow> \<not> websocket \<and> strcasecmp (c_str (fst h)) ''connection'' = 0"

definition connection_line :: "bool \<Rightarrow> string" where
  "connection_line close = ''connection: '' @ (if close then ''close'' else ''keep-alive'') @ crlf"

definition body_text :: "string \<Rightarrow> string" where
  "body_text body = (if body \<noteq> []
     then ''content-length: '' @ show_base 10 (length body) @ crlf @ crlf @ body else crlf)"

definition request_dump :: "HttpRequest \<Rightarrow> string" where
  "request_dump r =
     HttpMethodToString (m_method r) @ '' '' @ m_path r
     @ (if m_query r = [] then [] else ''?'') @ m_query r
     @ (if m_fragment r = [] then [] else ''#'') @ m_fragment r
     @ '' '' @ show_version (m_version r) @ crlf
     @ (if \<not> m_websocket r then connection_line (m_close r) else [])
     @ concat (map (\<lambda>h. if skip_header (m_websocket r) h then [] else header_line h) (m_headers r))
     @ body_text (m_body r)"

section \<open>Responses\<close>

record HttpResponse =
  r_status :: int
  r_version :: byte
  r_close :: bool
  r_websocket :: bool
  r_body :: string
  r_reason :: string
  r_headers :: header_map
  r_cookies :: "string list"

definition mk_HttpResponse :: "byte \<Rightarrow> bool \<Rightarrow> HttpResponse" where
  "mk_HttpResponse version close = \<lparr>r_status = 200, r_version = version, r_close = close, r_websocket = False,
     r_body = [], r_reason = [], r_headers = [], r_cookies = []\<rparr>"

definition createResponse :: "HttpRequest \<Rightarrow> HttpResponse" where
  "createResponse r = mk_HttpResponse (m_version r) (m_close r)"

definition rsp_getHeader :: "string \<Rightarrow> string \<Rightarrow> HttpResponse \<Rightarrow> string" where
  "rsp_getHeader key dflt r = (case hfind key (r_headers r) of None \<Rightarrow> dflt | Some v \<Rightarrow> v)"

definition rsp_setHeader :: "string \<Rightarrow> string \<Rightarrow> HttpResponse \<Rightarrow> HttpResponse" where
  "rsp_setHeader key val r = r\<lparr>r_headers := hassign key val (r_headers r)\<rparr>"

definition rsp_delHeader :: "string \<Rightarrow> HttpResponse \<Rightarrow> HttpResponse" where
  "rsp_delHeader key r = r\<lparr>r_headers := herase key (r_headers r)\<rparr>"

definition setRedirect :: "string \<Rightarrow> HttpResponse \<Rightarrow> HttpResponse" where
  "setRedirect uri r = rsp_setHeader ''Location'' uri (r\<lparr>r_status := 302\<rparr>)"

text \<open>The expiry time is taken and dropped: the line that would print it is a comment.\<close>

definition rsp_setCookie :: "string \<Rightarrow> string \<Rightarrow> int \<Rightarrow> string \<Rightarrow> string \<Rightarrow> bool \<Rightarrow> HttpResponse \<Rightarrow> HttpResponse" where
  "rsp_setCookie key val expired path domain secure r = r\<lparr>r_cookies := r_cookies r @
     [key @ ''='' @ val
      @ (if domain \<noteq> [] then '';domain='' @ domain else [])
      @ (if path \<noteq> [] then '';path='' @ path else [])
      @ (if secure then '';secure'' else [])]\<rparr>"

definition response_dump :: "HttpResponse \<Rightarrow> string" where
  "response_dump r =
     show_version (r_version r) @ '' '' @ show_base 10 (nat (r_status r mod 2 ^ 32)) @ '' ''
     @ (if r_reason r = [] then HttpStatusToString (r_status r) else r_reason r) @ crlf
     @ concat (map (\<lambda>h. if skip_header (r_websocket r) h then [] else header_line h) (r_headers r))
     @ concat (map (\<lambda>c. ''Set-Cookie: '' @ c @ crlf) (r_cookies r))
     @ (if \<not> r_websocket r then connection_line (r_close r) else [])
     @ body_text (r_body r)"

section \<open>The order of header names\<close>

definition fold_key :: "string \<Rightarrow> nat list" where
  "fold_key s = map lower_code (c_str s)"

lemma lower_code_pos: "of_char c \<noteq> (0 :: nat) \<Longrightarrow> 0 < lower_code c"
  by (simp add: lower_code_def Let_def)

lemma c_str_nonzero: "c \<in> set (c_str s) \<Longrightarrow> of_char c \<noteq> (0 :: nat)"
  by (auto simp: c_str_def dest: set_takeWhileD)

lemma c_str_id: "\<forall>c \<in> set s. of_char c \<noteq> (0 :: nat) \<Longrightarrow> c_str s = s"
  by (simp add: c_str_def)

abbreviation nonzero :: "string \<Rightarrow> bool" where
  "nonzero s \<equiv> \<forall>c \<in> set s. 0 < lower_code c"

lemma nonzero_c_str: "nonzero (c_str s)"
  using c_str_nonzero lower_code_pos by blast

lemma strcasecmp_zero: "nonzero a \<Longrightarrow> nonzero b \<Longrightarrow> strcasecmp a b = 0 \<longleftrightarrow> map lower_code a = map lower_code b"
  by (induction a b rule: strcasecmp.induct) auto

lemma strcasecmp_swap: "strcasecmp a b = - strcasecmp b a"
  by (induction a b rule: strcasecmp.induct) auto

lemma strcasecmp_trans:
  "nonzero a \<Longrightarrow> nonzero b \<Longrightarrow> nonzero c \<Longrightarrow> strcasecmp a b < 0 \<Longrightarrow> strcasecmp b c < 0 \<Longrightarrow> strcasecmp a c < 0"
proof (induction a b arbitrary: c rule: strcasecmp.induct)
  case (2 y ys)
  then show ?case by (cases c) auto
next
  case (4 x xs y ys)
  then show ?case by (cases c) (auto split: if_splits)
qed auto

lemma CaseInsensitiveLess_equiv: "equiv_key CaseInsensitiveLess a b \<longleftrightarrow> fold_key a = fold_key b"
  using strcasecmp_zero [OF nonzero_c_str nonzero_c_str, of a b] strcasecmp_swap [of "c_str a" "c_str b"]
  by (auto simp: equiv_key_def CaseInsensitiveLess_def fold_key_def)

interpretation header_order: strict_weak_order CaseInsensitiveLess
proof
  show "\<not> CaseInsensitiveLess x x" for x
    using strcasecmp_zero [OF nonzero_c_str nonzero_c_str, of x x] by (simp add: CaseInsensitiveLess_def)
  show "CaseInsensitiveLess x z" if "CaseInsensitiveLess x y" "CaseInsensitiveLess y z" for x y z
    using that strcasecmp_trans [OF nonzero_c_str nonzero_c_str nonzero_c_str]
    unfolding CaseInsensitiveLess_def by blast
  show "equiv_key CaseInsensitiveLess x z"
    if "equiv_key CaseInsensitiveLess x y" "equiv_key CaseInsensitiveLess y z" for x y z
    using that by (simp add: CaseInsensitiveLess_equiv)
qed

text \<open>The invariant of a request: its three maps are sorted.\<close>

definition request_wf :: "HttpRequest \<Rightarrow> bool" where
  "request_wf r \<longleftrightarrow> map_sorted CaseInsensitiveLess (m_headers r) \<and> map_sorted CaseInsensitiveLess (m_params r)
     \<and> map_sorted CaseInsensitiveLess (m_cookies r)"

lemmas header_map_ops = header_order.map_assign_sorted header_order.map_erase_sorted
  header_order.map_find_assign header_order.map_find_erase

section \<open>Reading a message back\<close>

text \<open>
  A reader that shares nothing with the code: lines end with CR LF, an empty line ends the head, and what follows is the body.
\<close>

fun next_line :: "string \<Rightarrow> (string \<times> string) option" where
  "next_line [] = None"
| "next_line (c # cs) = (if c = CHR 0x0D \<and> take 1 cs = [CHR 0x0A] then Some ([], drop 1 cs)
     else map_option (\<lambda>(l, rest). (c # l, rest)) (next_line cs))"

lemma next_line_shorter: "next_line s = Some (l, rest) \<Longrightarrow> length rest < length s"
proof (induction s arbitrary: l)
  case (Cons c cs)
  then show ?case by (fastforce split: if_splits option.splits)
qed simp

function read_head :: "string \<Rightarrow> (string list \<times> string) option" where
  "read_head s = (case next_line s of
      None \<Rightarrow> None
    | Some (l, rest) \<Rightarrow> if l = [] then Some ([], rest)
        else map_option (\<lambda>(ls, body). (l # ls, body)) (read_head rest))"
  by pat_completeness auto
termination by (relation "measure length") (auto dest: next_line_shorter)

declare read_head.simps [simp del]

abbreviation no_cr :: "string \<Rightarrow> bool" where "no_cr s \<equiv> CHR 0x0D \<notin> set s"

lemma next_line_line: "no_cr l \<Longrightarrow> next_line (l @ crlf @ rest) = Some (l, rest)"
  by (induction l) auto

lemma read_head_lines:
  "\<forall>l \<in> set ls. no_cr l \<and> l \<noteq> [] \<Longrightarrow>
     read_head (concat (map (\<lambda>l. l @ crlf) ls) @ crlf @ body) = Some (ls, body)"
proof (induction ls)
  case Nil
  show ?case by (subst read_head.simps) simp
next
  case (Cons l ls)
  then show ?case using next_line_line [of l] by (subst read_head.simps) simp
qed

section \<open>The lines of a message\<close>

definition content_lines :: "string \<Rightarrow> string list" where
  "content_lines body = (if body = [] then [] else [''content-length: '' @ show_base 10 (length body)])"

definition header_lines :: "bool \<Rightarrow> header_map \<Rightarrow> string list" where
  "header_lines websocket hs = map (\<lambda>(k, v). k @ '': '' @ v) (filter (\<lambda>h. \<not> skip_header websocket h) hs)"

definition connection_lines :: "bool \<Rightarrow> bool \<Rightarrow> string list" where
  "connection_lines websocket close = (if websocket then [] else [''connection: '' @ (if close then ''close'' else ''keep-alive'')])"

definition request_target :: "HttpRequest \<Rightarrow> string" where
  "request_target r = m_path r @ (if m_query r = [] then [] else ''?'' @ m_query r)
     @ (if m_fragment r = [] then [] else ''#'' @ m_fragment r)"

definition request_lines :: "HttpRequest \<Rightarrow> string list" where
  "request_lines r = (HttpMethodToString (m_method r) @ '' '' @ request_target r @ '' '' @ show_version (m_version r))
     # connection_lines (m_websocket r) (m_close r) @ header_lines (m_websocket r) (m_headers r)
     @ content_lines (m_body r)"

definition response_lines :: "HttpResponse \<Rightarrow> string list" where
  "response_lines r = (show_version (r_version r) @ '' '' @ show_base 10 (nat (r_status r mod 2 ^ 32)) @ '' ''
       @ (if r_reason r = [] then HttpStatusToString (r_status r) else r_reason r))
     # header_lines (r_websocket r) (r_headers r) @ map (\<lambda>c. ''Set-Cookie: '' @ c) (r_cookies r)
     @ connection_lines (r_websocket r) (r_close r) @ content_lines (r_body r)"

abbreviation line_text :: "string list \<Rightarrow> string" where
  "line_text ls \<equiv> concat (map (\<lambda>l. l @ crlf) ls)"

lemma body_text_lines: "body_text body = line_text (content_lines body) @ crlf @ body"
  by (simp add: body_text_def content_lines_def)

lemma header_lines_text:
  "concat (map (\<lambda>h. if skip_header w h then [] else header_line h) hs) = line_text (header_lines w hs)"
  by (induction hs) (auto simp: header_lines_def header_line_def)

lemma connection_lines_text:
  "(if \<not> w then connection_line c else []) = line_text (connection_lines w c)"
  by (simp add: connection_line_def connection_lines_def)

lemma request_dump_lines: "request_dump r = line_text (request_lines r) @ crlf @ m_body r"
  by (simp add: request_dump_def request_lines_def request_target_def header_lines_text connection_lines_text body_text_lines)

lemma response_dump_lines: "response_dump r = line_text (response_lines r) @ crlf @ r_body r"
  by (simp add: response_dump_def response_lines_def header_lines_text connection_lines_text body_text_lines comp_def)

lemma no_cr_show: "no_cr (show_base 10 n)"
  using show_base_char [of 10 "CHR 0x0D" n] by auto

lemma no_cr_version: "no_cr (show_version v)"
  using no_cr_show by (simp add: show_version_def)

lemma no_cr_method: "no_cr (HttpMethodToString m)"
  by (cases m) (simp_all add: HttpMethodToString_def HTTP_METHOD_MAP_def)

lemma no_cr_status: "no_cr (HttpStatusToString s)"
proof (cases "map_of HTTP_STATUS_MAP s")
  case (Some msg)
  moreover have "\<forall>p \<in> set HTTP_STATUS_MAP. no_cr (snd p)" by (simp add: HTTP_STATUS_MAP_def)
  ultimately show ?thesis using map_of_SomeD [OF Some] by (auto simp: HttpStatusToString_def)
qed (simp add: HttpStatusToString_def)

lemma message_lines_ok:
  "\<forall>l \<in> set (content_lines body). no_cr l \<and> l \<noteq> []"
  "\<forall>l \<in> set (connection_lines w c). no_cr l \<and> l \<noteq> []"
  "\<forall>(k, v) \<in> set hs. no_cr k \<and> no_cr v \<Longrightarrow> \<forall>l \<in> set (header_lines w hs). no_cr l \<and> l \<noteq> []"
  using no_cr_show by (auto simp: content_lines_def connection_lines_def header_lines_def)

lemma start_line_ok:
  "no_cr t \<Longrightarrow> no_cr (HttpMethodToString m @ '' '' @ t @ '' '' @ show_version v)"
  "no_cr t \<Longrightarrow> no_cr (show_version v @ '' '' @ show_base 10 n @ '' '' @ (if t = [] then HttpStatusToString st else t))"
  by (simp_all add: no_cr_version no_cr_method no_cr_status no_cr_show)

lemma request_lines_ok:
  assumes "no_cr (request_target q)" and "\<forall>(k, v) \<in> set (m_headers q). no_cr k \<and> no_cr v"
  shows "\<forall>l \<in> set (request_lines q). no_cr l \<and> l \<noteq> []"
proof -
  note parts = start_line_ok(1) [OF assms(1), of "m_method q" "m_version q"] message_lines_ok(1) [of "m_body q"]
    message_lines_ok(2) [of "m_websocket q" "m_close q"] message_lines_ok(3) [OF assms(2), of "m_websocket q"]
  have "HttpMethodToString m @ '' '' @ t \<noteq> []" for m t by simp
  with parts show ?thesis unfolding request_lines_def by (simp only: list.set set_append ball_Un ball_simps simp_thms)
qed

lemma response_lines_ok:
  assumes "no_cr (r_reason p)" and "\<forall>(k, v) \<in> set (r_headers p). no_cr k \<and> no_cr v" and "\<forall>c \<in> set (r_cookies p). no_cr c"
  shows "\<forall>l \<in> set (response_lines p). no_cr l \<and> l \<noteq> []"
proof -
  note parts = start_line_ok(2) [OF assms(1), of "r_version p" "nat (r_status p mod 2 ^ 32)" "r_status p"]
    message_lines_ok(1) [of "r_body p"] message_lines_ok(2) [of "r_websocket p" "r_close p"]
    message_lines_ok(3) [OF assms(2), of "r_websocket p"]
  have "show_version m @ '' '' @ t \<noteq> []" for m t by simp
  moreover have "\<forall>l \<in> set (map (\<lambda>c. ''Set-Cookie: '' @ c) (r_cookies p)). no_cr l \<and> l \<noteq> []" using assms(3) by simp
  ultimately show ?thesis
    using parts unfolding response_lines_def by (simp only: list.set set_append ball_Un ball_simps simp_thms)
qed

section \<open>Properties\<close>

text \<open>
  A message reads back. The text of a request or of a response, read by a reader that splits at CR LF and takes what
  follows the first empty line as the body, gives the start line with the method (or status), the target and the version,
  the connection line, the headers in the order of the map without those named connection, the cookies, and exactly
  the body, announced by a content-length that reads back as its length. The names and values must not hold a CR.
\<close>

theorem message_reads_back:
  assumes "no_cr (request_target q)" and "\<forall>(k, v) \<in> set (m_headers q). no_cr k \<and> no_cr v"
    and "no_cr (r_reason p)" and "\<forall>(k, v) \<in> set (r_headers p). no_cr k \<and> no_cr v" and "\<forall>c \<in> set (r_cookies p). no_cr c"
  shows "read_head (request_dump q) = Some (request_lines q, m_body q)
    \<and> read_head (response_dump p) = Some (response_lines p, r_body p)
    \<and> (m_body q \<noteq> [] \<longrightarrow> read_base 10 (drop 16 (last (request_lines q))) = length (m_body q))
    \<and> (r_body p \<noteq> [] \<longrightarrow> read_base 10 (drop 16 (last (response_lines p))) = length (r_body p))"
proof (intro conjI impI)
  show "read_head (request_dump q) = Some (request_lines q, m_body q)"
    unfolding request_dump_lines using request_lines_ok [OF assms(1,2)] by (rule read_head_lines)
  show "read_head (response_dump p) = Some (response_lines p, r_body p)"
    unfolding response_dump_lines using response_lines_ok [OF assms(3-5)] by (rule read_head_lines)
qed (simp_all add: request_lines_def response_lines_def content_lines_def read_show_base)

lemma message_reads_back_witness:
  "read_head (request_dump (setHeader ''host'' ''a.b'' ((mk_HttpRequest 0x11 False)\<lparr>m_body := ''hello''\<rparr>)))
     = Some ([''GET / HTTP/1.1'', ''connection: keep-alive'', ''host: a.b'', ''content-length: 5''], ''hello'')"
  using message_reads_back [of "setHeader ''host'' ''a.b'' ((mk_HttpRequest 0x11 False)\<lparr>m_body := ''hello''\<rparr>)"
      "mk_HttpResponse 0x11 True"]
  by (simp add: setHeader_def mk_HttpRequest_def mk_HttpResponse_def request_target_def request_lines_def
      connection_lines_def header_lines_def content_lines_def skip_header_def c_str_def lower_code_def Let_def
      HttpMethodToString_def HTTP_METHOD_MAP_def show_version_def show_base_rec digit_char_def char_of_def bit_0)

text \<open>
  Header names are case insensitive and the maps stay sorted. After setting a header, every spelling of its name reads
  the value and every other name reads what it did; after deleting it, every spelling of its name reads the default.
\<close>

theorem header_laws:
  assumes "request_wf r"
  shows "request_wf (setHeader k v r) \<and> request_wf (delHeader k r)
    \<and> getHeader k' d (setHeader k v r) = (if fold_key k' = fold_key k then v else getHeader k' d r)
    \<and> getHeader k' d (delHeader k r) = (if fold_key k' = fold_key k then d else getHeader k' d r)"
  using assms
  by (simp add: request_wf_def setHeader_def delHeader_def getHeader_def header_map_ops CaseInsensitiveLess_equiv eq_commute)

lemma header_laws_witness:
  "getHeader ''HOST'' [] (setHeader ''Host'' ''a.b'' (mk_HttpRequest 0x11 True)) = ''a.b''"
proof -
  have "request_wf (mk_HttpRequest 0x11 True)" by (simp add: request_wf_def mk_HttpRequest_def map_sorted_def)
  from header_laws [OF this, of "''Host''" "''a.b''" "''HOST''" "[]"] show ?thesis
    by (simp add: fold_key_def c_str_def lower_code_def Let_def)
qed

lemma StringToHttpMethod_print: "m \<noteq> INVALID_METHOD \<Longrightarrow> StringToHttpMethod (HttpMethodToString m) = m"
  by (cases m) (simp_all add: HttpMethodToString_def StringToHttpMethod_def HTTP_METHOD_MAP_def c_str_def)

lemma CharsToHttpMethod_print: "m \<noteq> INVALID_METHOD \<Longrightarrow> CharsToHttpMethod (HttpMethodToString m @ t) = m"
  by (cases m) (simp_all add: HttpMethodToString_def CharsToHttpMethod_def HTTP_METHOD_MAP_def c_str_def)

text \<open>
  The method tables agree. Every method prints as a name that both readers turn back into it; a name the exact reader
  accepts prints as itself. The reader of the parser, which compares only as many characters as the name has, also
  accepts every text that starts with a name.
\<close>

theorem method_roundtrip:
  "(m \<noteq> INVALID_METHOD \<longrightarrow>
      StringToHttpMethod (HttpMethodToString m) = m \<and> CharsToHttpMethod (HttpMethodToString m @ more_text) = m)
   \<and> (StringToHttpMethod s \<noteq> INVALID_METHOD \<longrightarrow> HttpMethodToString (StringToHttpMethod s) = c_str s)"
proof (intro conjI impI)
  show "StringToHttpMethod (HttpMethodToString m) = m" if "m \<noteq> INVALID_METHOD"
    using that by (rule StringToHttpMethod_print)
  show "CharsToHttpMethod (HttpMethodToString m @ more_text) = m" if "m \<noteq> INVALID_METHOD"
    using that by (rule CharsToHttpMethod_print)
  assume "StringToHttpMethod s \<noteq> INVALID_METHOD"
  then obtain name t where f: "List.find (\<lambda>(n, t). t = c_str s) HTTP_METHOD_MAP = Some (name, t)"
      and name: "StringToHttpMethod s = name"
    by (auto simp: StringToHttpMethod_def split: option.splits)
  then have "(name, c_str s) \<in> set HTTP_METHOD_MAP" by (auto simp: find_Some_iff in_set_conv_nth)
  moreover have "distinct (map fst HTTP_METHOD_MAP)" by (simp add: HTTP_METHOD_MAP_def)
  ultimately show "HttpMethodToString (StringToHttpMethod s) = c_str s"
    by (simp add: name HttpMethodToString_def)
qed

lemma method_roundtrip_witness: "CharsToHttpMethod ''GETX'' = GET \<and> StringToHttpMethod ''GETX'' = INVALID_METHOD"
proof
  show "CharsToHttpMethod ''GETX'' = GET"
    using method_roundtrip [of GET "''X''"] by (simp add: HttpMethodToString_def HTTP_METHOD_MAP_def)
  show "StringToHttpMethod ''GETX'' = INVALID_METHOD" by (simp add: StringToHttpMethod_def HTTP_METHOD_MAP_def c_str_def)
qed

section \<open>Connection handling and parameters\<close>

lemma request_init_close:
  "m_close (request_init r) = (if getHeader ''connection'' [] r = [] then m_close r
     else fold_key (getHeader ''connection'' [] r) \<noteq> fold_key ''keep-alive'')"
proof -
  have k: "c_str ''keep-alive'' = ''keep-alive''" by (simp add: c_str_def)
  show ?thesis
    using strcasecmp_zero [OF nonzero_c_str nonzero_c_str, of _ "''keep-alive''", unfolded k]
    by (simp add: request_init_def Let_def fold_key_def k)
qed

lemma init_params_unchanged [simp]:
  "m_params (initQueryParam r) = m_params r" "m_params (initBodyParam r) = m_params r"
  "m_cookies (initCookies r) = m_cookies r"
  by (simp_all add: initQueryParam_def initBodyParam_def initCookies_def Let_def)

text \<open>
  Parameters and cookies that a client sends are never read. The value of a parameter depends neither on the query nor
  on the body, and the value of a cookie not on the headers: only what was set by hand is found.
\<close>

theorem params_never_parsed:
  "fst (getParam k d (r\<lparr>m_query := q, m_body := b\<rparr>)) = fst (getParam k d r)
   \<and> fst (getCookie k d (r\<lparr>m_headers := h\<rparr>)) = fst (getCookie k d r)
   \<and> fst (getParam k d ((mk_HttpRequest ver cl)\<lparr>m_query := q, m_body := b\<rparr>)) = d"
  by (simp add: getParam_def getCookie_def Let_def mk_HttpRequest_def)

end
