(* ===== verification/Http_Parsers.thy ===== *)
theory Http_Parsers
  imports Http11_Table Http_Messages
begin

text \<open>
  The request parser: \<^verbatim>\<open>http_parser_execute\<close> and its companions of \<^verbatim>\<open>dwframe/http/http11_parser.rl.cc\<close> over the table
  of \<open>Http11_Table\<close>, and the callbacks and \<^verbatim>\<open>HttpRequestParser\<close> of \<^verbatim>\<open>dwframe/http/http_parser.cc\<close>. A callback gets
  a pointer into the buffer and a length; the model passes the text from the pointer to the end of the buffer and the
  difference of the two positions, which may be negative: as a \<^verbatim>\<open>size_t\<close> it is then larger than any string.
\<close>

section \<open>State\<close>

record http_parser =
  hp_cs :: nat
  body_start :: nat
  content_len :: nat
  nread :: nat
  hp_mark :: nat
  field_start :: nat
  field_len :: nat
  query_start :: nat
  xml_sent :: bool
  json_sent :: bool
  uri_relaxed :: bool

record request_parser =
  m_parser :: http_parser
  m_data :: HttpRequest
  m_error :: nat

text \<open>The fields the initialiser does not touch keep whatever the memory held.\<close>

definition http_parser_init :: "http_parser \<Rightarrow> http_parser" where
  "http_parser_init h = h\<lparr>hp_cs := 1, body_start := 0, content_len := 0, hp_mark := 0, nread := 0, field_len := 0,
     field_start := 0, xml_sent := False, json_sent := False\<rparr>"

definition mk_HttpRequestParser :: "http_parser \<Rightarrow> request_parser" where
  "mk_HttpRequestParser memory = \<lparr>m_parser = http_parser_init memory, m_data = mk_HttpRequest 0x11 True, m_error = 0\<rparr>"

section \<open>Callbacks\<close>

definition setError :: "nat \<Rightarrow> request_parser \<Rightarrow> request_parser" where
  "setError v s = s\<lparr>m_error := v\<rparr>"

text \<open>\<^verbatim>\<open>std::string(at, length)\<close>.\<close>

definition text_of :: "string \<Rightarrow> int \<Rightarrow> string result" where
  "text_of at len = (if len < 0 then Inl Length_error else Inr (take (nat len) at))"

definition c_head :: "string \<Rightarrow> char" where
  "c_head s = (case s of [] \<Rightarrow> CHR 0x00 | c # _ \<Rightarrow> c)"

fun strncmp_eq :: "string \<Rightarrow> string \<Rightarrow> nat \<Rightarrow> bool" where
  "strncmp_eq a b 0 \<longleftrightarrow> True"
| "strncmp_eq a b (Suc n) \<longleftrightarrow> c_head a = c_head b \<and> (c_head a = CHR 0x00 \<or> strncmp_eq (drop 1 a) (drop 1 b) n)"

definition on_request_method :: "string \<Rightarrow> int \<Rightarrow> request_parser \<Rightarrow> request_parser result" where
  "on_request_method at len s = (let m = CharsToHttpMethod at in
     if m = INVALID_METHOD then Inr (setError 1000 s) else Inr (s\<lparr>m_data := (m_data s)\<lparr>m_method := m\<rparr>\<rparr>))"

definition on_request_fragment :: "string \<Rightarrow> int \<Rightarrow> request_parser \<Rightarrow> request_parser result" where
  "on_request_fragment at len s = bindE (text_of at len) (\<lambda>t. Inr (s\<lparr>m_data := (m_data s)\<lparr>m_fragment := t\<rparr>\<rparr>))"

definition on_request_path :: "string \<Rightarrow> int \<Rightarrow> request_parser \<Rightarrow> request_parser result" where
  "on_request_path at len s = bindE (text_of at len) (\<lambda>t. Inr (s\<lparr>m_data := (m_data s)\<lparr>m_path := t\<rparr>\<rparr>))"

definition on_request_query :: "string \<Rightarrow> int \<Rightarrow> request_parser \<Rightarrow> request_parser result" where
  "on_request_query at len s = bindE (text_of at len) (\<lambda>t. Inr (s\<lparr>m_data := (m_data s)\<lparr>m_query := t\<rparr>\<rparr>))"

definition on_request_version :: "string \<Rightarrow> int \<Rightarrow> request_parser \<Rightarrow> request_parser result" where
  "on_request_version at len s =
     (if strncmp_eq at ''HTTP/1.1'' (nat len) then Inr (s\<lparr>m_data := (m_data s)\<lparr>m_version := 0x11\<rparr>\<rparr>)
      else if strncmp_eq at ''HTTP/1.0'' (nat len) then Inr (s\<lparr>m_data := (m_data s)\<lparr>m_version := 0x10\<rparr>\<rparr>)
      else Inr (setError 1001 s))"

definition on_request_http_field :: "string \<Rightarrow> nat \<Rightarrow> string \<Rightarrow> int \<Rightarrow> request_parser \<Rightarrow> request_parser result" where
  "on_request_http_field field flen val vlen s =
     (if flen = 0 then Inr s
      else bindE (text_of val vlen) (\<lambda>v. Inr (s\<lparr>m_data := setHeader (take flen field) v (m_data s)\<rparr>)))"

section \<open>Actions\<close>

abbreviation upd_parser :: "(http_parser \<Rightarrow> http_parser) \<Rightarrow> request_parser \<Rightarrow> request_parser" where
  "upd_parser f s \<equiv> s\<lparr>m_parser := f (m_parser s)\<rparr>"

text \<open>\<^verbatim>\<open>PTR_TO\<close> and \<^verbatim>\<open>LEN\<close> of a mark at position \<open>p\<close> of the buffer.\<close>

definition slice_from :: "string \<Rightarrow> nat \<Rightarrow> nat \<Rightarrow> (string \<Rightarrow> int \<Rightarrow> 'a) \<Rightarrow> 'a" where
  "slice_from buffer at p f = f (drop at buffer) (int p - int at)"

fun do_action :: "string \<Rightarrow> nat \<Rightarrow> action \<Rightarrow> request_parser \<Rightarrow> request_parser result" where
  "do_action buffer p A_mark s = Inr (upd_parser (\<lambda>h. h\<lparr>hp_mark := p\<rparr>) s)"
| "do_action buffer p A_start_field s = Inr (upd_parser (\<lambda>h. h\<lparr>field_start := p\<rparr>) s)"
| "do_action buffer p A_write_field s = Inr (upd_parser (\<lambda>h. h\<lparr>field_len := p - field_start h\<rparr>) s)"
| "do_action buffer p A_write_value s = slice_from buffer (hp_mark (m_parser s)) p
     (\<lambda>at len. on_request_http_field (drop (field_start (m_parser s)) buffer) (field_len (m_parser s)) at len s)"
| "do_action buffer p A_request_method s = slice_from buffer (hp_mark (m_parser s)) p (\<lambda>at len. on_request_method at len s)"
| "do_action buffer p A_request_uri s = Inr s"
| "do_action buffer p A_fragment s = slice_from buffer (hp_mark (m_parser s)) p (\<lambda>at len. on_request_fragment at len s)"
| "do_action buffer p A_start_query s = Inr (upd_parser (\<lambda>h. h\<lparr>query_start := p\<rparr>) s)"
| "do_action buffer p A_query_string s = slice_from buffer (query_start (m_parser s)) p (\<lambda>at len. on_request_query at len s)"
| "do_action buffer p A_http_version s = slice_from buffer (hp_mark (m_parser s)) p (\<lambda>at len. on_request_version at len s)"
| "do_action buffer p A_request_path s = slice_from buffer (hp_mark (m_parser s)) p (\<lambda>at len. on_request_path at len s)"
| "do_action buffer p A_done s = Inr (upd_parser (\<lambda>h. if xml_sent h \<or> json_sent h
       then h\<lparr>body_start := hp_mark h, content_len := p - hp_mark h + 1\<rparr> else h\<lparr>body_start := p + 1\<rparr>) s)"
| "do_action buffer p A_xml s = Inr (upd_parser (\<lambda>h. h\<lparr>xml_sent := True\<rparr>) s)"
| "do_action buffer p A_json s = Inr (upd_parser (\<lambda>h. h\<lparr>json_sent := True\<rparr>) s)"

fun do_actions :: "string \<Rightarrow> nat \<Rightarrow> action list \<Rightarrow> request_parser \<Rightarrow> request_parser result" where
  "do_actions buffer p [] s = Inr s"
| "do_actions buffer p (a # as) s = bindE (do_action buffer p a s) (do_actions buffer p as)"

section \<open>Execution\<close>

text \<open>
  From state \<open>cs\<close> with the text from position \<open>p\<close> on: the state, the position and the parser when the machine stops, at the
  end of the buffer, in the error state, or behind the action \<^verbatim>\<open>done\<close>.
\<close>

fun exec :: "string \<Rightarrow> nat \<Rightarrow> nat \<Rightarrow> string \<Rightarrow> request_parser \<Rightarrow> (nat \<times> nat \<times> request_parser) result" where
  "exec buffer cs p [] s = Inr (cs, p, s)"
| "exec buffer cs p (c # rest) s =
     (if cs = 0 then Inr (0, p, s)
      else case machine_dest http11_rows (uri_relaxed (m_parser s)) cs c of
        St n \<Rightarrow> if n = 0 then Inr (0, p, s) else exec buffer n (p + 1) rest s
      | Tr k \<Rightarrow> (case map_of http11_tr k of
            None \<Rightarrow> Inl Logic_error
          | Some (as, n) \<Rightarrow> bindE (do_actions buffer p as s) (\<lambda>s.
              if A_done \<in> set as then Inr (n, p + 1, s) else exec buffer n (p + 1) rest s)))"

text \<open>What \<^verbatim>\<open>http_parser_execute\<close> does behind the machine: the state is stored, the length noted, the assertions hold or abort.\<close>

definition execute_end :: "string \<Rightarrow> nat \<Rightarrow> nat \<Rightarrow> request_parser \<Rightarrow> (nat \<times> request_parser) result" where
  "execute_end buffer cs p s =
     (let s = upd_parser (\<lambda>h. (if hp_cs h \<noteq> 0 then h\<lparr>hp_cs := cs\<rparr> else h)\<lparr>nread := p\<rparr>) s;
          h = m_parser s; len = length buffer in
      if nread h \<le> len \<and> body_start h \<le> len \<and> hp_mark h < len \<and> field_len h \<le> len \<and> field_start h < len
      then Inr (nread h, s) else Inl Assertion_failed)"

definition http_parser_execute :: "string \<Rightarrow> request_parser \<Rightarrow> (nat \<times> request_parser) result" where
  "http_parser_execute buffer s =
     (if buffer = [] then Inr (0, s)
      else let s = upd_parser (\<lambda>h. h\<lparr>nread := 0, hp_mark := 0, field_len := 0, field_start := 0\<rparr>) s in
        bindE (exec buffer (hp_cs (m_parser s)) 0 buffer s) (\<lambda>(cs, p, s). execute_end buffer cs p s))"

definition http_parser_has_error :: "http_parser \<Rightarrow> bool" where
  "http_parser_has_error h \<longleftrightarrow> hp_cs h = 0"

definition http_parser_is_finished :: "http_parser \<Rightarrow> bool" where
  "http_parser_is_finished h \<longleftrightarrow> hp_cs h \<ge> 348"

definition http_parser_finish :: "http_parser \<Rightarrow> int" where
  "http_parser_finish h = (if http_parser_has_error h then -1 else if http_parser_is_finished h then 1 else 0)"

section \<open>HttpRequestParser\<close>

text \<open>\<^verbatim>\<open>execute\<close> moves the rest of the data to the front; the model returns the rest.\<close>

definition parser_execute :: "string \<Rightarrow> request_parser \<Rightarrow> (nat \<times> string \<times> request_parser) result" where
  "parser_execute data s = bindE (http_parser_execute data s) (\<lambda>(offset, s). Inr (offset, drop offset data, s))"

definition isFinished :: "request_parser \<Rightarrow> int" where
  "isFinished s = http_parser_finish (m_parser s)"

definition hasError :: "request_parser \<Rightarrow> bool" where
  "hasError s \<longleftrightarrow> m_error s \<noteq> 0 \<or> http_parser_has_error (m_parser s)"

definition getContentLength :: "(string \<Rightarrow> uint64 option) \<Rightarrow> request_parser \<Rightarrow> uint64" where
  "getContentLength cast s = getAs cast (m_headers (m_data s)) ''content-length'' 0"

end
