(* ===== verification/Http11_Facts.thy ===== *)
theory Http11_Facts
  imports Http11_Table
begin

text \<open>
  What the request machine does on the characters of a well-formed request: for every state on its way, the label that
  each class of characters leads to. The lookups go through the blocks of the table one at a time.
\<close>

section \<open>Looking up a state\<close>

fun find_state :: "state_row list list \<Rightarrow> nat \<Rightarrow> (bool \<times> row \<times> dest) option" where
  "find_state [] k = None"
| "find_state (xs # xss) k = (case map_of xs k of Some v \<Rightarrow> Some v | None \<Rightarrow> find_state xss k)"

lemma map_of_concat: "map_of (concat xss) k = find_state xss k"
  by (induction xss) (auto simp: map_add_def split: option.splits)

lemmas http11_lookup = machine_dest_def http11_rows_def map_of_concat find_state.simps

lemmas http11_blocks = http11_rows_1_def http11_rows_2_def http11_rows_3_def http11_rows_4_def http11_rows_5_def
  http11_rows_6_def http11_rows_7_def http11_rows_8_def

section \<open>Classes of characters\<close>

lemma signed_char_bounds: "- 128 \<le> signed_char c" "signed_char c \<le> 127"
proof -
  have "(of_char c :: int) = int (of_char c)" by (simp add: of_nat_of_char)
  moreover have "of_char c < (256 :: nat)" by simp
  ultimately have "0 \<le> (of_char c :: int)" "(of_char c :: int) < 256" by linarith+
  then show "- 128 \<le> signed_char c" "signed_char c \<le> 127" by (simp_all add: signed_char_def Let_def)
qed

definition path_char :: "char \<Rightarrow> bool" where
  "path_char c \<longleftrightarrow> (let v = signed_char c in v = 33 \<or> 36 \<le> v \<and> v \<le> 59 \<and> v \<noteq> 37 \<or> v = 61 \<or> 64 \<le> v \<and> v \<le> 90
     \<or> v = 95 \<or> 97 \<le> v \<and> v \<le> 122 \<or> v = 126 \<or> v < 0)"

definition query_char :: "char \<Rightarrow> bool" where
  "query_char c \<longleftrightarrow> path_char c \<or> signed_char c = 63"

definition name_char :: "char \<Rightarrow> bool" where
  "name_char c \<longleftrightarrow> (let v = signed_char c in v = 33 \<or> 35 \<le> v \<and> v \<le> 39 \<or> v = 42 \<or> v = 43 \<or> v = 45 \<or> v = 46
     \<or> 48 \<le> v \<and> v \<le> 57 \<or> 65 \<le> v \<and> v \<le> 90 \<or> 94 \<le> v \<and> v \<le> 122 \<or> v = 124 \<or> v = 126)"

definition value_char :: "char \<Rightarrow> bool" where
  "value_char c \<longleftrightarrow> (let v = signed_char c in v \<noteq> 0 \<and> v \<noteq> 10 \<and> v \<noteq> 13 \<and> v \<noteq> 127)"

definition value_start :: "char \<Rightarrow> bool" where
  "value_start c \<longleftrightarrow> value_char c \<and> signed_char c \<noteq> 9 \<and> signed_char c \<noteq> 32"

lemmas char_classes = path_char_def query_char_def name_char_def value_char_def value_start_def Let_def

lemma widec_id: "v \<noteq> 94 \<Longrightarrow> v \<noteq> 123 \<Longrightarrow> v \<noteq> 125 \<Longrightarrow> widec r v = v"
  by (simp add: widec_def)

section \<open>The states of a request line\<close>

abbreviation http11 :: "bool \<Rightarrow> nat \<Rightarrow> char \<Rightarrow> dest" where "http11 \<equiv> machine_dest http11_rows"

lemma dest_target_start: "http11 r 3 (CHR ''/'') = Tr 10"
  unfolding http11_lookup by (simp add: http11_blocks signed_char_def widec_def)

lemma dest_version:
  "http11 r 4 (CHR ''H'') = Tr 13" "http11 r 5 (CHR ''T'') = St 6" "http11 r 6 (CHR ''T'') = St 7"
  "http11 r 7 (CHR ''P'') = St 8" "http11 r 8 (CHR ''/'') = St 9" "http11 r 9 (CHR ''1'') = St 10"
  "http11 r 10 (CHR ''.'') = St 11" "http11 r 11 (CHR ''0'') = St 12" "http11 r 11 (CHR ''1'') = St 12"
  "http11 r 12 (CHR 0x0D) = Tr 22" "http11 r 17 (CHR 0x0A) = St 13"
  unfolding http11_lookup by (simp_all add: http11_blocks signed_char_def)

lemma signed_char_eq_iff: "signed_char c = signed_char d \<longleftrightarrow> c = d"
proof -
  have "signed_char x mod 256 = of_char x" for x by (simp add: signed_char_def Let_def)
  then show ?thesis by (metis of_char_eq_iff)
qed

text \<open>The rows of the states that loop over a class of characters.\<close>

lemma http11_row_13:
  "http11 r 13 c = row_dest [(10, 10, Tr 24), (13, 13, Tr 25), (33, 33, Tr 23), (124, 124, Tr 23),
      (126, 126, Tr 23), (1, 8, Tr 23), (35, 39, Tr 23), (11, 31, Tr 23), (45, 46, Tr 23), (94, 122, Tr 23),
      (65, 90, Tr 23), (48, 57, Tr 23), (42, 43, Tr 23)] (St 0) (signed_char c)"
  unfolding http11_lookup by (simp add: http11_blocks del: row_dest.simps)

lemma http11_row_14:
  "http11 r 14 c = row_dest [(33, 33, St 14), (58, 58, Tr 27), (124, 124, St 14), (126, 126, St 14),
      (1, 8, St 14), (35, 39, St 14), (10, 31, St 14), (45, 46, St 14), (94, 122, St 14), (65, 90, St 14),
      (48, 57, St 14), (42, 43, St 14)] (St 0) (signed_char c)"
  unfolding http11_lookup by (simp add: http11_blocks del: row_dest.simps)

lemma http11_row_15:
  "http11 r 15 c = row_dest [(0, 0, St 0), (9, 9, Tr 29), (10, 10, Tr 30), (13, 13, Tr 31), (32, 32, Tr 29),
      (127, 127, St 0)] (Tr 28) (signed_char c)"
  unfolding http11_lookup by (simp add: http11_blocks del: row_dest.simps)

lemma http11_row_16:
  "http11 r 16 c = row_dest [(0, 0, St 0), (10, 10, Tr 33), (13, 13, Tr 34), (127, 127, St 0)] (St 16) (signed_char c)"
  unfolding http11_lookup by (simp add: http11_blocks del: row_dest.simps)

lemma http11_row_20:
  "http11 r 20 c = row_dest [(32, 32, Tr 44), (33, 33, Tr 43), (37, 37, Tr 45), (61, 61, Tr 43), (95, 95, Tr 43),
      (126, 126, Tr 43), (606, 606, Tr 43), (635, 635, Tr 43), (637, 637, Tr 43), (-128, -1, Tr 43),
      (97, 122, Tr 43), (63, 90, Tr 43), (36, 59, Tr 43)] (St 0) (widec r (signed_char c))"
  unfolding http11_lookup by (simp add: http11_blocks del: row_dest.simps)

lemma http11_row_21:
  "http11 r 21 c = row_dest [(32, 32, Tr 47), (33, 33, St 21), (37, 37, St 22), (61, 61, St 21), (95, 95, St 21),
      (126, 126, St 21), (606, 606, St 21), (635, 635, St 21), (637, 637, St 21), (-128, -1, St 21),
      (97, 122, St 21), (63, 90, St 21), (36, 59, St 21)] (St 0) (widec r (signed_char c))"
  unfolding http11_lookup by (simp add: http11_blocks del: row_dest.simps)

lemma http11_row_26:
  "http11 r 26 c = row_dest [(32, 32, Tr 37), (33, 33, St 26), (35, 35, Tr 39), (37, 37, St 27), (61, 61, St 26),
      (63, 63, Tr 42), (95, 95, St 26), (126, 126, St 26), (606, 606, St 26), (635, 635, St 26),
      (637, 637, St 26), (-128, -1, St 26), (97, 122, St 26), (64, 90, St 26), (36, 59, St 26)] (St 0) (widec r (signed_char c))"
  unfolding http11_lookup by (simp add: http11_blocks del: row_dest.simps)

lemma http11_row_29:
  "http11 r 29 c = row_dest [(32, 32, Tr 54), (33, 33, Tr 53), (35, 35, Tr 55), (37, 37, Tr 56), (61, 61, Tr 53),
      (95, 95, Tr 53), (126, 126, Tr 53), (606, 606, Tr 53), (635, 635, Tr 53), (637, 637, Tr 53),
      (-128, -1, Tr 53), (97, 122, Tr 53), (63, 90, Tr 53), (36, 59, Tr 53)] (St 0) (widec r (signed_char c))"
  unfolding http11_lookup by (simp add: http11_blocks del: row_dest.simps)

lemma http11_row_30:
  "http11 r 30 c = row_dest [(32, 32, Tr 58), (33, 33, St 30), (35, 35, Tr 59), (37, 37, St 31), (61, 61, St 30),
      (95, 95, St 30), (126, 126, St 30), (606, 606, St 30), (635, 635, St 30), (637, 637, St 30),
      (-128, -1, St 30), (97, 122, St 30), (63, 90, St 30), (36, 59, St 30)] (St 0) (widec r (signed_char c))"
  unfolding http11_lookup by (simp add: http11_blocks del: row_dest.simps)

lemma http11_row_33:
  "http11 r 33 c = row_dest [(32, 32, Tr 37), (33, 33, St 26), (35, 35, Tr 39), (37, 37, St 27), (47, 47, St 34),
      (61, 61, St 26), (63, 63, Tr 42), (95, 95, St 26), (126, 126, St 26), (606, 606, St 26),
      (635, 635, St 26), (637, 637, St 26), (-128, -1, St 26), (97, 122, St 26), (64, 90, St 26),
      (36, 59, St 26)] (St 0) (widec r (signed_char c))"
  unfolding http11_lookup by (simp add: http11_blocks del: row_dest.simps)

lemma dest_path:
  assumes "path_char c"
  shows "http11 r 26 c = St 26" and "signed_char c \<noteq> 47 \<Longrightarrow> http11 r 33 c = St 26"
  using assms signed_char_bounds [of c] unfolding path_char_def Let_def http11_row_26 http11_row_33
  by (elim disjE conjE; simp add: widec_id)+

lemma dest_path_end:
  assumes "s \<in> {26, 33}"
  shows "http11 r s (CHR '' '') = Tr 37" and "http11 r s (CHR ''?'') = Tr 42" and "http11 r s (CHR ''#'') = Tr 39"
  using assms by (auto simp: http11_row_26 http11_row_33 signed_char_def widec_def)

lemma query_char_cases:
  assumes "query_char c"
  obtains "signed_char c = 33" | "36 \<le> signed_char c" "signed_char c \<le> 59" "signed_char c \<noteq> 37" | "signed_char c = 61"
    | "63 \<le> signed_char c" "signed_char c \<le> 90" | "signed_char c = 95" | "97 \<le> signed_char c" "signed_char c \<le> 122"
    | "signed_char c = 126" | "signed_char c < 0"
  using assms unfolding query_char_def path_char_def Let_def by linarith

lemma dest_query:
  assumes "query_char c"
  shows "http11 r 29 c = Tr 53" and "http11 r 30 c = St 30" and "http11 r 20 c = Tr 43" and "http11 r 21 c = St 21"
  unfolding http11_row_29 http11_row_30 http11_row_20 http11_row_21
  by (insert signed_char_bounds [of c]) (rule query_char_cases [OF assms]; simp add: widec_id)+

lemma dest_query_end:
  "http11 r 30 (CHR '' '') = Tr 58" "http11 r 30 (CHR ''#'') = Tr 59" "http11 r 21 (CHR '' '') = Tr 47"
  by (simp_all add: http11_row_30 http11_row_21 signed_char_def widec_def)

section \<open>The states of the headers\<close>

lemma dest_name:
  assumes "name_char c"
  shows "http11 r 13 c = Tr 23" and "http11 r 14 c = St 14"
  using assms unfolding name_char_def Let_def http11_row_13 http11_row_14
  by (elim disjE conjE; simp)+

lemma dest_value:
  "value_start c \<Longrightarrow> http11 r 15 c = Tr 28" "value_char c \<Longrightarrow> http11 r 16 c = St 16"
  by (simp_all add: http11_row_15 http11_row_16 value_start_def value_char_def Let_def)

lemma dest_header_end:
  "http11 r 14 (CHR '':'') = Tr 27" "http11 r 15 (CHR '' '') = Tr 29" "http11 r 15 (CHR 0x0D) = Tr 31"
  "http11 r 16 (CHR 0x0D) = Tr 34" "http11 r 13 (CHR 0x0D) = Tr 25"
  by (simp_all add: http11_row_13 http11_row_14 http11_row_15 http11_row_16 signed_char_def)

lemma dest_end: "http11 r 18 (CHR 0x0A) = Tr 36"
  unfolding http11_lookup by (simp add: http11_blocks signed_char_def)

section \<open>The states of a method\<close>

text \<open>A method has at most twenty characters: one state for every number of characters read so far.\<close>

definition method_state :: "nat \<Rightarrow> nat" where
  "method_state k = (if k = 0 then 2 else 174 + k)"

definition method_char :: "char \<Rightarrow> bool" where
  "method_char c \<longleftrightarrow> 65 \<le> signed_char c \<and> signed_char c \<le> 90 \<or> 48 \<le> signed_char c \<and> signed_char c \<le> 57"

lemma dest_method_start: "method_char c \<Longrightarrow> http11 r 1 c = Tr 0"
  unfolding http11_lookup method_char_def by (auto simp: http11_rows_1_def)

lemma early_blocks:
  "list_all (\<lambda>x. fst x < 175 \<or> fst x = 348) (concat [http11_rows_1, http11_rows_2, http11_rows_3, http11_rows_4, http11_rows_5, http11_rows_6, http11_rows_7, http11_rows_8, http11_rows_9, http11_rows_10, http11_rows_11, http11_rows_12, http11_rows_13, http11_rows_14, http11_rows_15, http11_rows_16, http11_rows_17, http11_rows_18, http11_rows_19, http11_rows_20, http11_rows_21, http11_rows_22, http11_rows_23])"
  by (simp add: http11_blocks
    http11_rows_9_def http11_rows_10_def http11_rows_11_def http11_rows_12_def http11_rows_13_def http11_rows_14_def http11_rows_15_def http11_rows_16_def http11_rows_17_def http11_rows_18_def http11_rows_19_def http11_rows_20_def http11_rows_21_def http11_rows_22_def http11_rows_23_def)

lemma method_rows:
  "list_all (\<lambda>k. find_state [http11_rows_24, http11_rows_25] (method_state k) =
       Some (False, [(32, 32, Tr 4), (65, 90, St (method_state (Suc k))), (48, 57, St (method_state (Suc k)))], St 0)) [1..<19]"
  by (simp add: http11_rows_24_def http11_rows_25_def method_state_def upt_rec numeral_eq_Suc)

lemma map_of_middle: "map_of as k = None \<Longrightarrow> map_of bs k = Some v \<Longrightarrow> map_of (as @ bs @ cs) k = Some v"
  by (simp add: map_add_def)

lemma method_lookup:
  assumes "1 \<le> k" and "k < 19"
  shows "map_of http11_rows (method_state k) =
    Some (False, [(32, 32, Tr 4), (65, 90, St (method_state (Suc k))), (48, 57, St (method_state (Suc k)))], St 0)"
proof -
  let ?early = "[http11_rows_1, http11_rows_2, http11_rows_3, http11_rows_4, http11_rows_5, http11_rows_6, http11_rows_7, http11_rows_8, http11_rows_9, http11_rows_10, http11_rows_11, http11_rows_12, http11_rows_13, http11_rows_14, http11_rows_15, http11_rows_16, http11_rows_17, http11_rows_18, http11_rows_19, http11_rows_20, http11_rows_21, http11_rows_22, http11_rows_23]"
  have "method_state k \<notin> fst ` set (concat ?early)"
    using early_blocks assms unfolding list_all_iff by (fastforce simp only: method_state_def split: if_splits)
  then have e: "find_state ?early (method_state k) = None"
    unfolding map_of_concat [symmetric] by (simp only: map_of_eq_None_iff not_False_eq_True)
  have "k \<in> set [1..<19]" using assms by simp
  then have f: "find_state [http11_rows_24, http11_rows_25] (method_state k) =
    Some (False, [(32, 32, Tr 4), (65, 90, St (method_state (Suc k))), (48, 57, St (method_state (Suc k)))], St 0)"
    using method_rows unfolding list_all_iff by blast
  obtain later where rows: "http11_rows = concat ?early @ concat [http11_rows_24, http11_rows_25] @ later"
    unfolding http11_rows_def by simp
  show ?thesis unfolding rows using e f unfolding map_of_concat [symmetric] by (rule map_of_middle)
qed

lemma dest_method:
  assumes "k < 19"
  shows "method_char c \<Longrightarrow> http11 r (method_state k) c = St (method_state (Suc k))"
    and "http11 r (method_state k) (CHR '' '') = Tr 4"
proof -
  show "http11 r (method_state k) c = St (method_state (Suc k))" if "method_char c"
  proof (cases "k = 0")
    case True
    then show ?thesis
      using that unfolding http11_lookup method_char_def by (auto simp: method_state_def http11_rows_1_def)
  next
    case False
    then show ?thesis
      using that assms unfolding method_char_def by (auto simp: machine_dest_def method_lookup)
  qed
  show "http11 r (method_state k) (CHR '' '') = Tr 4"
  proof (cases "k = 0")
    case True
    then show ?thesis unfolding http11_lookup by (simp add: method_state_def http11_rows_1_def signed_char_def)
  next
    case False
    then show ?thesis using assms by (simp add: machine_dest_def method_lookup signed_char_def)
  qed
qed

end
