(* ===== verification/Http_Parse_Runs.thy ===== *)
theory Http_Parse_Runs
  imports Http_Parsers Http11_Facts
begin

text \<open>
  Runs of the request machine over the parts of a request: the method, the target, the version, one header, all headers.
  Each lemma says in which state, at which position and with which effect on the parser a run goes on after the part.
\<close>

section \<open>Steps\<close>

lemma exec_St:
  "cs \<noteq> 0 \<Longrightarrow> http11 (uri_relaxed (m_parser s)) cs c = St n \<Longrightarrow> n \<noteq> 0 \<Longrightarrow>
     exec buffer cs p (c # rest) s = exec buffer n (p + 1) rest s"
  by simp

lemma exec_Tr:
  "cs \<noteq> 0 \<Longrightarrow> http11 (uri_relaxed (m_parser s)) cs c = Tr k \<Longrightarrow> map_of http11_tr k = Some (as, n) \<Longrightarrow>
     exec buffer cs p (c # rest) s = bindE (do_actions buffer p as s) (\<lambda>s.
       if A_done \<in> set as then Inr (n, p + 1, s) else exec buffer n (p + 1) rest s)"
  by simp

lemma exec_loop:
  assumes "\<forall>c \<in> set w. http11 (uri_relaxed (m_parser s)) cs c = St cs" and "cs \<noteq> 0"
  shows "exec buffer cs p (w @ rest) s = exec buffer cs (p + length w) rest s"
  using assms(1) by (induction w arbitrary: p) (simp_all add: assms(2))

declare exec.simps(2) [simp del]

lemma tr_actions:
  "map_of http11_tr 0 = Some ([A_mark], 2)" "map_of http11_tr 4 = Some ([A_request_method], 3)"
  "map_of http11_tr 10 = Some ([A_mark], 33)" "map_of http11_tr 13 = Some ([A_mark], 5)"
  "map_of http11_tr 22 = Some ([A_http_version], 17)" "map_of http11_tr 23 = Some ([A_start_field], 14)"
  "map_of http11_tr 25 = Some ([A_start_field], 18)" "map_of http11_tr 27 = Some ([A_write_field], 15)"
  "map_of http11_tr 28 = Some ([A_mark], 16)" "map_of http11_tr 29 = Some ([A_mark], 15)"
  "map_of http11_tr 31 = Some ([A_mark, A_write_value], 17)" "map_of http11_tr 34 = Some ([A_write_value], 17)"
  "map_of http11_tr 36 = Some ([A_done], 348)" "map_of http11_tr 37 = Some ([A_request_path, A_request_uri], 4)"
  "map_of http11_tr 39 = Some ([A_request_path, A_request_uri], 20)" "map_of http11_tr 42 = Some ([A_request_path], 29)"
  "map_of http11_tr 43 = Some ([A_mark], 21)" "map_of http11_tr 47 = Some ([A_fragment], 4)"
  "map_of http11_tr 53 = Some ([A_start_query], 30)" "map_of http11_tr 58 = Some ([A_query_string, A_request_uri], 4)"
  "map_of http11_tr 59 = Some ([A_query_string, A_request_uri], 20)"
  by (simp_all add: http11_tr_def)

text \<open>The text between a mark and the position.\<close>

lemma text_between [simp]: "text_of (drop p buffer) (int (p + n) - int p) = Inr (take n (drop p buffer))"
  by (simp add: text_of_def)

lemmas parser_callbacks = slice_from_def on_request_path_def on_request_query_def on_request_fragment_def
  on_request_http_field_def

section \<open>The request line\<close>

lemma run_method:
  assumes "list_all method_char w" and "w \<noteq> []" and "length w \<le> 19" and "drop p buffer = w @ '' '' @ rest"
    and "CharsToHttpMethod (drop p buffer) = m" and "m \<noteq> INVALID_METHOD"
  shows "exec buffer 1 p (w @ '' '' @ rest) s = exec buffer 3 (p + length w + 1) rest
     (s\<lparr>m_parser := (m_parser s)\<lparr>hp_mark := p\<rparr>, m_data := (m_data s)\<lparr>m_method := m\<rparr>\<rparr>)"
proof -
  obtain c t where w: "w = c # t" using assms(2) by (cases w) auto
  define s1 where "s1 = upd_parser (\<lambda>h. h\<lparr>hp_mark := p\<rparr>) s"
  have "exec buffer 1 p (w @ '' '' @ rest) s = exec buffer (method_state 0) (p + 1) (t @ '' '' @ rest) s1"
    using assms(1) w exec_Tr [OF _ dest_method_start tr_actions(1)] by (simp add: s1_def method_state_def)
  also have "\<dots> = exec buffer (method_state (0 + length t)) (p + 1 + length t) ('' '' @ rest) s1"
  proof -
    have "exec buffer (method_state k) q (t @ r) s1 = exec buffer (method_state (k + length t)) (q + length t) r s1"
      if "k + length t \<le> 18" "list_all method_char t" for k q r t
      using that
    proof (induction t arbitrary: k q)
      case (Cons d t)
      then have "exec buffer (method_state k) q ((d # t) @ r) s1 = exec buffer (method_state (Suc k)) (q + 1) (t @ r) s1"
        using exec_St [OF _ dest_method(1)] by (simp add: method_state_def)
      with Cons show ?case by simp
    qed simp
    then show ?thesis using assms(1,3) w by simp
  qed
  also have "\<dots> = exec buffer 3 (p + length w + 1) rest
     (s\<lparr>m_parser := (m_parser s)\<lparr>hp_mark := p\<rparr>, m_data := (m_data s)\<lparr>m_method := m\<rparr>\<rparr>)"
  proof -
    have "method_state (length t) \<noteq> 0" "length t < 19" using assms(3) w by (auto simp: method_state_def)
    then show ?thesis
      using exec_Tr [OF _ dest_method(2) tr_actions(2)] assms(5,6) w
      by (simp add: s1_def slice_from_def on_request_method_def Let_def)
  qed
  finally show ?thesis .
qed

definition path_ok :: "string \<Rightarrow> bool" where
  "path_ok w \<longleftrightarrow> (case w of [] \<Rightarrow> False | c # t \<Rightarrow> c = CHR ''/'' \<and> list_all path_char t \<and> (t = [] \<or> hd t \<noteq> CHR ''/''))"

text \<open>A path leads into one of the two states that end it at a blank, a question mark or a number sign.\<close>

lemma run_path_chars:
  assumes "path_ok w"
  shows "\<exists>cs \<in> {26, 33}. exec buffer 3 p (w @ rest) s =
     exec buffer cs (p + length w) rest (upd_parser (\<lambda>h. h\<lparr>hp_mark := p\<rparr>) s)"
proof -
  obtain t where w: "w = CHR ''/'' # t" and t: "list_all path_char t" "t = [] \<or> hd t \<noteq> CHR ''/''"
    using assms by (auto simp: path_ok_def split: list.splits)
  let ?s = "upd_parser (\<lambda>h. h\<lparr>hp_mark := p\<rparr>) s"
  have start: "exec buffer 3 p (w @ rest) s = exec buffer 33 (p + 1) (t @ rest) ?s"
    using exec_Tr [OF _ dest_target_start tr_actions(3)] w by simp
  show ?thesis
  proof (cases t)
    case Nil
    then show ?thesis using start w by simp
  next
    case (Cons c u)
    then have c: "signed_char c \<noteq> 47" "path_char c" and u: "\<forall>c \<in> set u. path_char c"
      using t signed_char_eq_iff [of c "CHR ''/''"] by (auto simp: signed_char_def list_all_iff)
    have "exec buffer 33 (p + 1) (t @ rest) ?s = exec buffer 26 (p + 1 + 1) (u @ rest) ?s"
      using Cons exec_St [OF _ dest_path(2) [OF c(2,1)]] by simp
    also have "\<dots> = exec buffer 26 (p + 1 + 1 + length u) rest ?s"
      using u dest_path(1) by (intro exec_loop) auto
    finally show ?thesis using start w Cons by simp
  qed
qed

lemma run_path:
  fixes s :: request_parser
  assumes "path_ok w" and "drop p buffer = w @ rest"
  defines "s1 \<equiv> s\<lparr>m_parser := (m_parser s)\<lparr>hp_mark := p\<rparr>, m_data := (m_data s)\<lparr>m_path := w\<rparr>\<rparr>"
  shows "rest = CHR '' '' # r \<Longrightarrow> exec buffer 3 p (w @ rest) s = exec buffer 4 (p + length w + 1) r s1"
    and "rest = CHR ''?'' # r \<Longrightarrow> exec buffer 3 p (w @ rest) s = exec buffer 29 (p + length w + 1) r s1"
    and "rest = CHR ''#'' # r \<Longrightarrow> exec buffer 3 p (w @ rest) s = exec buffer 20 (p + length w + 1) r s1"
proof -
  obtain cs where cs: "cs \<in> {26, 33}" and run: "exec buffer 3 p (w @ rest) s =
     exec buffer cs (p + length w) rest (upd_parser (\<lambda>h. h\<lparr>hp_mark := p\<rparr>) s)"
    using run_path_chars [OF assms(1)] by blast
  have nz: "cs \<noteq> 0" using cs by auto
  note ends = exec_Tr [OF nz dest_path_end(1) [OF cs] tr_actions(14)] exec_Tr [OF nz dest_path_end(2) [OF cs] tr_actions(16)]
    exec_Tr [OF nz dest_path_end(3) [OF cs] tr_actions(15)]
  show "rest = CHR '' '' # r \<Longrightarrow> exec buffer 3 p (w @ rest) s = exec buffer 4 (p + length w + 1) r s1"
    and "rest = CHR ''?'' # r \<Longrightarrow> exec buffer 3 p (w @ rest) s = exec buffer 29 (p + length w + 1) r s1"
    and "rest = CHR ''#'' # r \<Longrightarrow> exec buffer 3 p (w @ rest) s = exec buffer 20 (p + length w + 1) r s1"
    unfolding run using assms(2) by (simp_all add: ends parser_callbacks text_of_def s1_def)
qed

lemma run_query:
  fixes s :: request_parser
  assumes "list_all query_char w" and "w \<noteq> []" and "drop p buffer = w @ rest"
  defines "s1 \<equiv> s\<lparr>m_parser := (m_parser s)\<lparr>query_start := p\<rparr>, m_data := (m_data s)\<lparr>m_query := w\<rparr>\<rparr>"
  shows "rest = CHR '' '' # r \<Longrightarrow> exec buffer 29 p (w @ rest) s = exec buffer 4 (p + length w + 1) r s1"
    and "rest = CHR ''#'' # r \<Longrightarrow> exec buffer 29 p (w @ rest) s = exec buffer 20 (p + length w + 1) r s1"
proof -
  obtain c u where w: "w = c # u" and c: "query_char c" and u: "\<forall>c \<in> set u. query_char c"
    using assms(1,2) by (cases w) (auto simp: list_all_iff)
  have "exec buffer 29 p (w @ rest) s = exec buffer 30 (p + 1) (u @ rest) (upd_parser (\<lambda>h. h\<lparr>query_start := p\<rparr>) s)"
    using w exec_Tr [OF _ dest_query(1) [OF c] tr_actions(19)] by simp
  also have "\<dots> = exec buffer 30 (p + 1 + length u) rest (upd_parser (\<lambda>h. h\<lparr>query_start := p\<rparr>) s)"
    using u dest_query(2) by (intro exec_loop) auto
  finally have run: "exec buffer 29 p (w @ rest) s =
    exec buffer 30 (p + length w) rest (upd_parser (\<lambda>h. h\<lparr>query_start := p\<rparr>) s)" using w by simp
  show "rest = CHR '' '' # r \<Longrightarrow> exec buffer 29 p (w @ rest) s = exec buffer 4 (p + length w + 1) r s1"
    and "rest = CHR ''#'' # r \<Longrightarrow> exec buffer 29 p (w @ rest) s = exec buffer 20 (p + length w + 1) r s1"
    unfolding run using assms(3)
    by (simp_all add: exec_Tr [OF _ dest_query_end(1) tr_actions(20)] exec_Tr [OF _ dest_query_end(2) tr_actions(21)]
        parser_callbacks text_of_def s1_def)
qed

lemma run_fragment:
  assumes "list_all query_char w" and "w \<noteq> []" and "drop p buffer = w @ '' '' @ rest"
  shows "exec buffer 20 p (w @ '' '' @ rest) s = exec buffer 4 (p + length w + 1) rest
     (s\<lparr>m_parser := (m_parser s)\<lparr>hp_mark := p\<rparr>, m_data := (m_data s)\<lparr>m_fragment := w\<rparr>\<rparr>)"
proof -
  obtain c u where w: "w = c # u" and c: "query_char c" and u: "\<forall>c \<in> set u. query_char c"
    using assms(1,2) by (cases w) (auto simp: list_all_iff)
  have "exec buffer 20 p (w @ '' '' @ rest) s = exec buffer 21 (p + 1) (u @ '' '' @ rest) (upd_parser (\<lambda>h. h\<lparr>hp_mark := p\<rparr>) s)"
    using w exec_Tr [OF _ dest_query(3) [OF c] tr_actions(17)] by simp
  also have "\<dots> = exec buffer 21 (p + 1 + length u) ('' '' @ rest) (upd_parser (\<lambda>h. h\<lparr>hp_mark := p\<rparr>) s)"
    using u dest_query(4) by (intro exec_loop) auto
  also have "\<dots> = exec buffer 4 (p + length w + 1) rest
     (s\<lparr>m_parser := (m_parser s)\<lparr>hp_mark := p\<rparr>, m_data := (m_data s)\<lparr>m_fragment := w\<rparr>\<rparr>)"
    using assms(3) w
    by (simp add: exec_Tr [OF _ dest_query_end(3) tr_actions(18)] parser_callbacks text_of_def nat_add_distrib)
  finally show ?thesis .
qed

lemma show_version_10: "show_version 0x10 = ''HTTP/1.0''"
  by code_simp

lemma show_version_11: "show_version 0x11 = ''HTTP/1.1''"
  by code_simp

lemma version_compare:
  "strncmp_eq (CHR ''H'' # CHR ''T'' # CHR ''T'' # CHR ''P'' # CHR ''/'' # CHR ''1'' # CHR ''.'' # c # t) ''HTTP/1.1'' 8
     \<longleftrightarrow> c = CHR ''1''"
  "strncmp_eq (CHR ''H'' # CHR ''T'' # CHR ''T'' # CHR ''P'' # CHR ''/'' # CHR ''1'' # CHR ''.'' # c # t) ''HTTP/1.0'' 8
     \<longleftrightarrow> c = CHR ''0''"
  by (simp_all add: c_head_def numeral_eq_Suc)

lemma run_version:
  assumes "v = 0x10 \<or> v = 0x11" and "drop p buffer = show_version v @ crlf @ rest"
  shows "exec buffer 4 p (show_version v @ crlf @ rest) s = exec buffer 13 (p + 10) rest
     (s\<lparr>m_parser := (m_parser s)\<lparr>hp_mark := p\<rparr>, m_data := (m_data s)\<lparr>m_version := v\<rparr>\<rparr>)"
proof -
  have v: "show_version v = ''HTTP/1.'' @ (if v = 0x10 then ''0'' else ''1'')"
    using assms(1) show_version_10 show_version_11 by auto
  note steps = exec_Tr [OF _ dest_version(1) tr_actions(4)] exec_St [OF _ dest_version(2)] exec_St [OF _ dest_version(3)]
    exec_St [OF _ dest_version(4)] exec_St [OF _ dest_version(5)] exec_St [OF _ dest_version(6)] exec_St [OF _ dest_version(7)]
    exec_St [OF _ dest_version(8)] exec_St [OF _ dest_version(9)] exec_Tr [OF _ dest_version(10) tr_actions(5)]
    exec_St [OF _ dest_version(11)]
  have at: "drop p buffer = ''HTTP/1.'' @ (if v = 0x10 then ''0'' else ''1'') @ crlf @ rest" using assms(2) v by simp
  show ?thesis
    using assms(1) at
    by (auto simp: v steps slice_from_def on_request_version_def version_compare) (simp_all add: numeral_eq_Suc)
qed

section \<open>The target\<close>

definition target_ok :: "HttpRequest \<Rightarrow> bool" where
  "target_ok q \<longleftrightarrow> path_ok (m_path q) \<and> list_all query_char (m_query q) \<and> list_all query_char (m_fragment q)"

text \<open>What a run over the request leaves alone.\<close>

definition same_run :: "request_parser \<Rightarrow> request_parser \<Rightarrow> bool" where
  "same_run s t \<longleftrightarrow> m_error t = m_error s \<and> hp_cs (m_parser t) = hp_cs (m_parser s)
     \<and> xml_sent (m_parser t) = xml_sent (m_parser s) \<and> json_sent (m_parser t) = json_sent (m_parser s)"

lemma same_run_trans: "same_run s t \<Longrightarrow> same_run t u \<Longrightarrow> same_run s u"
  by (simp add: same_run_def)

lemma drop_part: "drop p buffer = w @ x \<Longrightarrow> drop (p + length w) buffer = x"
  by (metis add.commute append_eq_conv_conj drop_drop)

lemma run_target:
  assumes "target_ok q" and "drop p buffer = request_target q @ '' '' @ rest"
    and "m_query (m_data s) = []" and "m_fragment (m_data s) = []"
  shows "\<exists>t. exec buffer 3 p (request_target q @ '' '' @ rest) s = exec buffer 4 (p + length (request_target q) + 1) rest t
     \<and> same_run s t
     \<and> m_data t = (m_data s)\<lparr>m_path := m_path q, m_query := m_query q, m_fragment := m_fragment q\<rparr>"
proof -
  let ?path = "m_path q" and ?query = "m_query q" and ?frag = "m_fragment q"
  have ok: "path_ok ?path" "list_all query_char ?query" "list_all query_char ?frag"
    using assms(1) by (simp_all add: target_ok_def)
  define s1 where "s1 = s\<lparr>m_parser := (m_parser s)\<lparr>hp_mark := p\<rparr>, m_data := (m_data s)\<lparr>m_path := ?path\<rparr>\<rparr>"
  define q1 where "q1 = p + length ?path + 1"
  define tail where "tail = (if ?query = [] then [] else ''?'' @ ?query) @ (if ?frag = [] then [] else ''#'' @ ?frag) @ '' '' @ rest"
  have target: "request_target q @ '' '' @ rest = ?path @ tail" by (simp add: request_target_def tail_def)
  have at: "drop p buffer = ?path @ tail" using assms(2) target by simp
  note path = run_path [OF ok(1) at, where s = s, folded s1_def q1_def]
  have at1: "drop q1 buffer = drop 1 tail" using drop_part [OF at] unfolding q1_def by (metis drop_drop add.commute)
  show ?thesis
  proof (cases "?query = []")
    case nq: True
    show ?thesis
    proof (cases "?frag = []")
      case True
      then have tail: "tail = CHR '' '' # rest" using nq by (simp add: tail_def)
      show ?thesis unfolding target using path(1) [OF tail] nq True assms(3,4)
        by (intro exI [of _ s1]) (auto simp: request_target_def q1_def s1_def same_run_def add.assoc intro!: HttpRequest.equality)
    next
      case False
      then have tail: "tail = CHR ''#'' # ?frag @ '' '' @ rest" using nq by (simp add: tail_def)
      have at2: "drop q1 buffer = ?frag @ '' '' @ rest" using at1 tail by simp
      show ?thesis unfolding target using path(3) [OF tail] run_fragment [OF ok(3) False at2, of s1] nq False assms(3)
        by (intro exI [of _ "s1\<lparr>m_parser := (m_parser s1)\<lparr>hp_mark := q1\<rparr>, m_data := (m_data s1)\<lparr>m_fragment := ?frag\<rparr>\<rparr>"])
          (auto simp: request_target_def q1_def s1_def same_run_def add.assoc intro!: HttpRequest.equality)
    qed
  next
    case qn: False
    define s2 where "s2 = s1\<lparr>m_parser := (m_parser s1)\<lparr>query_start := q1\<rparr>, m_data := (m_data s1)\<lparr>m_query := ?query\<rparr>\<rparr>"
    define q2 where "q2 = q1 + length ?query + 1"
    define tail2 where "tail2 = (if ?frag = [] then [] else ''#'' @ ?frag) @ '' '' @ rest"
    have tail: "tail = CHR ''?'' # ?query @ tail2" using qn by (simp add: tail_def tail2_def)
    have at2: "drop q1 buffer = ?query @ tail2" using at1 tail by simp
    note query = run_query [OF ok(2) qn at2, where s = s1, folded s2_def q2_def]
    show ?thesis
    proof (cases "?frag = []")
      case True
      then have tail2: "tail2 = CHR '' '' # rest" by (simp add: tail2_def)
      show ?thesis unfolding target using path(2) [OF tail] query(1) [OF tail2] qn True assms(4)
        by (intro exI [of _ s2]) (auto simp: request_target_def q1_def q2_def s1_def s2_def same_run_def add.assoc intro!: HttpRequest.equality)
    next
      case False
      then have tail2: "tail2 = CHR ''#'' # ?frag @ '' '' @ rest" by (simp add: tail2_def)
      have at3: "drop q2 buffer = ?frag @ '' '' @ rest"
        using drop_part [OF at2] tail2 unfolding q2_def by (metis drop_drop add.commute drop0 drop_Suc_Cons One_nat_def)
      show ?thesis unfolding target
        using path(2) [OF tail] query(2) [OF tail2] run_fragment [OF ok(3) False at3, of s2] qn False
        by (intro exI [of _ "s2\<lparr>m_parser := (m_parser s2)\<lparr>hp_mark := q2\<rparr>, m_data := (m_data s2)\<lparr>m_fragment := ?frag\<rparr>\<rparr>"])
          (auto simp: request_target_def q1_def q2_def s1_def s2_def same_run_def add.assoc intro!: HttpRequest.equality)
    qed
  qed
qed

section \<open>Headers\<close>

definition header_ok :: "string \<times> string \<Rightarrow> bool" where
  "header_ok h \<longleftrightarrow> fst h \<noteq> [] \<and> list_all name_char (fst h) \<and> list_all value_char (snd h)
     \<and> (snd h = [] \<or> value_start (hd (snd h)))"

text \<open>From the blank behind the colon to the end of the line.\<close>

lemma run_value:
  assumes "list_all value_char v" and "v = [] \<or> value_start (hd v)" and "drop p buffer = v @ crlf @ rest"
    and "field_len (m_parser s) = length k" and "k \<noteq> []" and "take (length k) (drop (field_start (m_parser s)) buffer) = k"
  shows "exec buffer 15 p (v @ crlf @ rest) s = exec buffer 13 (p + length v + 2) rest
     (s\<lparr>m_parser := (m_parser s)\<lparr>hp_mark := p\<rparr>, m_data := setHeader k v (m_data s)\<rparr>)"
proof (cases v)
  case Nil
  then show ?thesis
    using assms(3-6)
    by (simp add: exec_Tr [OF _ dest_header_end(3) tr_actions(11)] exec_St [OF _ dest_version(11)] parser_callbacks text_of_def)
next
  case (Cons c u)
  then have c: "value_start c" and u: "\<forall>c \<in> set u. value_char c" using assms(1,2) by (auto simp: list_all_iff)
  let ?s = "upd_parser (\<lambda>h. h\<lparr>hp_mark := p\<rparr>) s"
  have "exec buffer 15 p (v @ crlf @ rest) s = exec buffer 16 (p + 1) (u @ crlf @ rest) ?s"
    using Cons exec_Tr [OF _ dest_value(1) [OF c] tr_actions(9)] by simp
  also have "\<dots> = exec buffer 16 (p + 1 + length u) (crlf @ rest) ?s"
    using u dest_value(2) by (intro exec_loop) auto
  finally show ?thesis
    using assms(3-6) Cons
    by (simp add: exec_Tr [OF _ dest_header_end(4) tr_actions(12)] exec_St [OF _ dest_version(11)]
        parser_callbacks text_of_def nat_add_distrib)
qed

lemma run_header:
  assumes "header_ok h" and "drop p buffer = header_line h @ rest"
  shows "\<exists>t. exec buffer 13 p (header_line h @ rest) s = exec buffer 13 (p + length (header_line h)) rest t
     \<and> same_run s t \<and> m_data t = setHeader (fst h) (snd h) (m_data s)"
proof -
  obtain k v where h: "h = (k, v)" by (cases h)
  have ok: "k \<noteq> []" "list_all name_char k" "list_all value_char v" "v = [] \<or> value_start (hd v)"
    using assms(1) h by (simp_all add: header_ok_def)
  obtain c u where k: "k = c # u" and c: "name_char c" and u: "\<forall>c \<in> set u. name_char c"
    using ok(1,2) by (cases k) (auto simp: list_all_iff)
  let ?r = "v @ crlf @ rest"
  have line: "header_line h @ rest = k @ '': '' @ ?r" using h by (simp add: header_line_def)
  let ?s1 = "upd_parser (\<lambda>h. h\<lparr>field_start := p\<rparr>) s"
  let ?s2 = "upd_parser (\<lambda>h. h\<lparr>field_start := p, field_len := length k, hp_mark := p + length k + 1\<rparr>) s"
  have "exec buffer 13 p (k @ '': '' @ ?r) s = exec buffer 14 (p + 1) (u @ '': '' @ ?r) ?s1"
    using k exec_Tr [OF _ dest_name(1) [OF c] tr_actions(6)] by simp
  also have "\<dots> = exec buffer 14 (p + 1 + length u) ('': '' @ ?r) ?s1"
    using u dest_name(2) by (intro exec_loop) auto
  also have "\<dots> = exec buffer 15 (p + length k + 2) ?r ?s2"
    using k by (simp add: exec_Tr [OF _ dest_header_end(1) tr_actions(8)] exec_Tr [OF _ dest_header_end(2) tr_actions(10)])
  also have "\<dots> = exec buffer 13 (p + length k + 2 + length v + 2) rest
     (?s2\<lparr>m_parser := (m_parser ?s2)\<lparr>hp_mark := p + length k + 2\<rparr>, m_data := setHeader k v (m_data ?s2)\<rparr>)"
  proof (rule run_value [OF ok(3,4)])
    show "drop (p + length k + 2) buffer = v @ crlf @ rest"
      using drop_part [of p buffer "k @ '': ''" ?r] assms(2) line by (simp add: add.assoc)
    show "take (length k) (drop (field_start (m_parser ?s2)) buffer) = k" using assms(2) line by simp
  qed (use ok(1) in simp_all)
  finally show ?thesis
    unfolding line using h by (auto simp: header_line_def same_run_def add.assoc)
qed

lemma run_headers:
  assumes "list_all header_ok hs" and "drop p buffer = concat (map header_line hs) @ rest"
  shows "\<exists>t. exec buffer 13 p (concat (map header_line hs) @ rest) s
      = exec buffer 13 (p + length (concat (map header_line hs))) rest t
     \<and> same_run s t \<and> m_data t = fold (\<lambda>h. setHeader (fst h) (snd h)) hs (m_data s)"
  using assms
proof (induction hs arbitrary: p s)
  case Nil
  then show ?case by (auto simp: same_run_def)
next
  case (Cons h hs)
  let ?r = "concat (map header_line hs) @ rest"
  obtain t where t: "exec buffer 13 p (header_line h @ ?r) s = exec buffer 13 (p + length (header_line h)) ?r t"
      "same_run s t" "m_data t = setHeader (fst h) (snd h) (m_data s)"
    using run_header [of h p buffer ?r s] Cons.prems by auto
  have "drop (p + length (header_line h)) buffer = ?r" using Cons.prems(2) drop_part by auto
  from Cons.IH [OF _ this, of t] Cons.prems(1) obtain u where
    "exec buffer 13 (p + length (header_line h)) ?r t
      = exec buffer 13 (p + length (header_line h) + length (concat (map header_line hs))) rest u"
    "same_run t u" "m_data u = fold (\<lambda>h. setHeader (fst h) (snd h)) hs (m_data t)" by auto
  with t show ?case by (intro exI [of _ u]) (auto simp: add.assoc intro: same_run_trans)
qed

lemma run_end:
  assumes "\<not> xml_sent (m_parser s)" and "\<not> json_sent (m_parser s)"
  shows "exec buffer 13 p (crlf @ rest) s =
     Inr (348, p + 2, upd_parser (\<lambda>h. h\<lparr>field_start := p, body_start := p + 2\<rparr>) s)"
  using assms by (simp add: exec_Tr [OF _ dest_header_end(5) tr_actions(7)] exec_Tr [OF _ dest_end tr_actions(13)])

end
