(* ===== verification/Http11_Check.thy ===== *)
theory Http11_Check
  imports Http11_Facts
begin

text \<open>
  A check over the whole table of the request machine, from which its safety follows: every jump goes to a state below the
  final ones or to a transition that exists, and the text of a query is handed out only behind a mark of its start.
\<close>

lemmas http11_all_blocks =
  http11_rows_1_def http11_rows_2_def http11_rows_3_def http11_rows_4_def http11_rows_5_def http11_rows_6_def
  http11_rows_7_def http11_rows_8_def http11_rows_9_def http11_rows_10_def http11_rows_11_def
  http11_rows_12_def http11_rows_13_def http11_rows_14_def http11_rows_15_def http11_rows_16_def
  http11_rows_17_def http11_rows_18_def http11_rows_19_def http11_rows_20_def http11_rows_21_def
  http11_rows_22_def http11_rows_23_def http11_rows_24_def http11_rows_25_def http11_rows_26_def
  http11_rows_27_def http11_rows_28_def http11_rows_29_def http11_rows_30_def http11_rows_31_def
  http11_rows_32_def http11_rows_33_def http11_rows_34_def http11_rows_35_def http11_rows_36_def
  http11_rows_37_def http11_rows_38_def http11_rows_39_def http11_rows_40_def http11_rows_41_def
  http11_rows_42_def http11_rows_43_def

text \<open>The states inside a query.\<close>

definition in_query :: "nat \<Rightarrow> bool" where
  "in_query n \<longleftrightarrow> n = 30 \<or> n = 31 \<or> n = 32"

definition tr_labels :: "nat list" where
  "tr_labels = [0, 2, 3, 4, 6, 7, 8, 9, 10, 11, 12, 13, 21, 22, 23, 24, 25, 27, 28, 29, 30, 31, 33, 34, 36, 37, 39, 42, 43,
     44, 45, 47, 53, 54, 55, 56, 58, 59, 203, 204, 224, 227, 228, 232, 235]"

fun dest_ok :: "nat \<Rightarrow> dest \<Rightarrow> bool" where
  "dest_ok n (St m) \<longleftrightarrow> m < 348 \<and> (in_query m \<longrightarrow> in_query n)"
| "dest_ok n (Tr k) \<longleftrightarrow> k \<in> set tr_labels \<and> (k = 58 \<or> k = 59 \<longrightarrow> in_query n)"

fun row_ok :: "state_row \<Rightarrow> bool" where
  "row_ok (n, w, row, d) \<longleftrightarrow> dest_ok n d \<and> list_all (\<lambda>(lo, hi, d). dest_ok n d) row"

lemma http11_rows_ok: "list_all row_ok http11_rows"
  by (simp add: http11_rows_def http11_all_blocks in_query_def tr_labels_def)

text \<open>The transitions: the machine stops exactly in the final states, and a query is marked where it starts.\<close>

fun tr_ok :: "nat \<times> action list \<times> nat \<Rightarrow> bool" where
  "tr_ok (k, as, m) \<longleftrightarrow> (A_done \<in> set as \<longleftrightarrow> 348 \<le> m) \<and> m \<noteq> 0
     \<and> (A_query_string \<in> set as \<longrightarrow> k = 58 \<or> k = 59 \<or> hd as = A_start_query)
     \<and> (in_query m \<longrightarrow> hd as = A_start_query)"

lemma http11_tr_ok: "list_all tr_ok http11_tr"
  by (simp add: http11_tr_def in_query_def)

lemma tr_labels_defined: "k \<in> set tr_labels \<Longrightarrow> map_of http11_tr k \<noteq> None"
  by (simp add: tr_labels_def) (auto simp: http11_tr_def)

lemma row_dest_in: "row_dest row d v \<in> insert d ((\<lambda>x. snd (snd x)) ` set row)"
proof (induction row)
  case (Cons x row)
  then show ?case by (cases x) (simp, blast)
qed simp

lemma machine_dest_ok: "machine_dest http11_rows r n c = St 0 \<or> dest_ok n (machine_dest http11_rows r n c)"
proof (cases "map_of http11_rows n")
  case None
  then show ?thesis by (simp add: machine_dest_def)
next
  case (Some x)
  obtain w row d where x: "x = (w, row, d)" by (cases x)
  have "row_ok (n, w, row, d)"
    using http11_rows_ok map_of_SomeD [OF Some] x unfolding list_all_iff by blast
  then have "dest_ok n d" "\<forall>y \<in> (\<lambda>x. snd (snd x)) ` set row. dest_ok n y" by (auto simp: list_all_iff)
  then have "dest_ok n (row_dest row d v)" for v using row_dest_in [of row d v] by auto
  then show ?thesis using Some x by (simp add: machine_dest_def)
qed

end
