(* ===== verification/Http_Parse_Props.thy ===== *)
theory Http_Parse_Props
  imports Http_Parse_Runs Http11_Check
begin

text \<open>
  What the request parser guarantees: it is safe on every input, it reads back every request that the library prints, and
  it misreads a request that arrives in two pieces.
\<close>

section \<open>Safety of a run\<close>

text \<open>The positions the parser keeps lie inside a buffer of the given length.\<close>

definition inside :: "nat \<Rightarrow> request_parser \<Rightarrow> bool" where
  "inside len s \<longleftrightarrow> hp_mark (m_parser s) < len \<and> field_start (m_parser s) < len \<and> field_len (m_parser s) \<le> len
     \<and> body_start (m_parser s) \<le> len"

text \<open>No mark lies behind the position.\<close>

definition behind :: "nat \<Rightarrow> request_parser \<Rightarrow> bool" where
  "behind p s \<longleftrightarrow> hp_mark (m_parser s) \<le> p"

lemma text_of_ok: "0 \<le> len \<Longrightarrow> text_of at len = Inr (take (nat len) at)"
  by (simp add: text_of_def)

lemma do_action_cases:
  assumes "p < len" and "inside len s" and "behind p s"
  shows "(\<exists>t. do_action buffer p a s = Inr t \<and> inside len t \<and> behind p t
        \<and> hp_cs (m_parser t) = hp_cs (m_parser s)
        \<and> query_start (m_parser t) = (if a = A_start_query then p else query_start (m_parser s)))
     \<or> a = A_query_string \<and> p < query_start (m_parser s) \<and> do_action buffer p a s = Inl Length_error"
  using assms
  by (cases a)
    (auto simp: inside_def behind_def slice_from_def on_request_method_def on_request_path_def on_request_query_def
      on_request_fragment_def on_request_version_def on_request_http_field_def setError_def Let_def text_of_def)

lemma do_actions_ok:
  assumes "p < len" and "inside len s" and "behind p s" and "A_query_string \<in> set as \<Longrightarrow> query_start (m_parser s) \<le> p"
  shows "\<exists>t. do_actions buffer p as s = Inr t \<and> inside len t \<and> behind p t \<and> hp_cs (m_parser t) = hp_cs (m_parser s)
     \<and> (query_start (m_parser t) = p \<or> query_start (m_parser t) = query_start (m_parser s) \<and> A_start_query \<notin> set as)"
  using assms(2-4)
proof (induction as arbitrary: s)
  case (Cons a as)
  obtain t where t: "do_action buffer p a s = Inr t" "inside len t" "behind p t" "hp_cs (m_parser t) = hp_cs (m_parser s)"
      "query_start (m_parser t) = (if a = A_start_query then p else query_start (m_parser s))"
    using do_action_cases [OF assms(1) Cons.prems(1,2), of buffer a] Cons.prems(3) by auto
  with Cons.prems(3) have "A_query_string \<in> set as \<Longrightarrow> query_start (m_parser t) \<le> p" by auto
  from Cons.IH [OF t(2,3) this] t show ?case by (auto split: if_splits)
qed simp

lemma tr_actions_ok:
  assumes "map_of http11_tr k = Some (as, n)" and "k = 58 \<or> k = 59 \<longrightarrow> query_start (m_parser s) \<le> p"
    and "p < len" and "inside len s" and "behind p s"
  shows "\<exists>t. do_actions buffer p as s = Inr t \<and> inside len t \<and> behind p t \<and> hp_cs (m_parser t) = hp_cs (m_parser s)
     \<and> (in_query n \<longrightarrow> query_start (m_parser t) \<le> p) \<and> (A_done \<in> set as \<longleftrightarrow> 348 \<le> n) \<and> n \<noteq> 0"
proof -
  have ok: "tr_ok (k, as, n)" using http11_tr_ok map_of_SomeD [OF assms(1)] unfolding list_all_iff by blast
  show ?thesis
  proof (cases "as \<noteq> [] \<and> hd as = A_start_query")
    case True
    then obtain as' where as: "as = A_start_query # as'" by (cases as) auto
    let ?s = "upd_parser (\<lambda>h. h\<lparr>query_start := p\<rparr>) s"
    have "inside len ?s" "behind p ?s" using assms(4,5) by (simp_all add: inside_def behind_def)
    from do_actions_ok [OF assms(3) this, of as' buffer] show ?thesis using ok as by auto
  next
    case False
    then have "A_query_string \<in> set as \<Longrightarrow> query_start (m_parser s) \<le> p" using ok assms(2) by auto
    moreover have "\<not> in_query n"
    proof
      assume "in_query n"
      then have "hd as = A_start_query" "as = []" using ok False by auto
      moreover have "\<forall>x \<in> set http11_tr. fst (snd x) \<noteq> []" by (simp add: http11_tr_def)
      ultimately show False using map_of_SomeD [OF assms(1)] by fastforce
    qed
    ultimately show ?thesis using do_actions_ok [OF assms(3-5), of as buffer] ok by auto
  qed
qed

lemma exec_safe:
  assumes "p + length rest = len" and "inside len s" and "behind p s" and "in_query cs \<longrightarrow> query_start (m_parser s) \<le> p"
  shows "\<exists>cs' p' t. exec buffer cs p rest s = Inr (cs', p', t) \<and> inside len t \<and> p' \<le> len
     \<and> hp_cs (m_parser t) = hp_cs (m_parser s) \<and> (cs' = 0 \<or> 348 \<le> cs' \<or> p' = len)"
  using assms
proof (induction rest arbitrary: cs p s)
  case (Cons c rest)
  let ?d = "http11 (uri_relaxed (m_parser s)) cs c"
  have nxt: "p + 1 + length rest = len" "p < len" and b: "behind (p + 1) t" if "behind p t" for t
    using Cons.prems(1) that by (auto simp: behind_def)
  show ?case
  proof (cases "cs = 0 \<or> ?d = St 0")
    case True
    then show ?thesis using Cons.prems by (auto simp: exec.simps)
  next
    case False
    then have d: "dest_ok cs ?d" using machine_dest_ok by blast
    show ?thesis
    proof (cases ?d)
      case (St n)
      then have "in_query n \<longrightarrow> query_start (m_parser s) \<le> p + 1" using d Cons.prems(4) by auto
      from Cons.IH [OF nxt(1) [OF Cons.prems(3)] Cons.prems(2) b [OF Cons.prems(3)] this] show ?thesis
        using False St by (auto simp: exec_St)
    next
      case (Tr k)
      with d tr_labels_defined obtain as n where tr: "map_of http11_tr k = Some (as, n)" by fastforce
      have "k = 58 \<or> k = 59 \<longrightarrow> query_start (m_parser s) \<le> p" using d Tr Cons.prems(4) by auto
      from tr_actions_ok [OF tr this nxt(2) [OF Cons.prems(3)] Cons.prems(2,3), of buffer] obtain t where
        t: "do_actions buffer p as s = Inr t" "inside len t" "behind p t" "hp_cs (m_parser t) = hp_cs (m_parser s)"
          "in_query n \<longrightarrow> query_start (m_parser t) \<le> p + 1" "A_done \<in> set as \<longleftrightarrow> 348 \<le> n" by auto
      show ?thesis
      proof (cases "A_done \<in> set as")
        case True
        then show ?thesis using False t nxt(1) [OF Cons.prems(3)] by (auto simp: exec_Tr [OF _ Tr tr])
      next
        case not_done: False
        from Cons.IH [OF nxt(1) [OF Cons.prems(3)] t(2) b [OF t(3)] t(5)] show ?thesis
          using False t not_done by (auto simp: exec_Tr [OF _ Tr tr])
      qed
    qed
  qed
qed (auto simp: inside_def)

text \<open>The parser as \<^verbatim>\<open>http_parser_execute\<close> starts the machine, and what it returns when the positions are inside.\<close>

definition restart :: "request_parser \<Rightarrow> request_parser" where
  "restart s = upd_parser (\<lambda>h. h\<lparr>nread := 0, hp_mark := 0, field_len := 0, field_start := 0\<rparr>) s"

lemma parser_execute_run:
  assumes "exec data (hp_cs (m_parser s)) 0 data (restart s) = Inr (cs, p, t)" and "inside (length data) t"
    and "p \<le> length data" and "hp_cs (m_parser t) \<noteq> 0" and "data \<noteq> []"
  shows "parser_execute data s = Inr (p, drop p data, upd_parser (\<lambda>h. h\<lparr>hp_cs := cs, nread := p\<rparr>) t)"
  using assms
  by (simp add: parser_execute_def http_parser_execute_def execute_end_def Let_def inside_def restart_def)

lemmas parser_status = hasError_def isFinished_def http_parser_finish_def http_parser_has_error_def http_parser_is_finished_def

section \<open>Properties\<close>


text \<open>The memory a parser is built in; its contents do not matter.\<close>

definition blank_memory :: http_parser where
  "blank_memory = \<lparr>hp_cs = 0, body_start = 0, content_len = 0, nread = 0, hp_mark = 0, field_start = 0, field_len = 0,
     query_start = 0, xml_sent = False, json_sent = False, uri_relaxed = False\<rparr>"


text \<open>The lines between the request line and the empty line, as names and values.\<close>

definition printed_headers :: "HttpRequest \<Rightarrow> (string \<times> string) list" where
  "printed_headers q =
     (if m_websocket q then [] else [(''connection'', if m_close q then ''close'' else ''keep-alive'')])
     @ filter (\<lambda>h. \<not> skip_header (m_websocket q) h) (m_headers q)
     @ (if m_body q = [] then [] else [(''content-length'', show_base 10 (length (m_body q)))])"

lemma headers_text:
  "concat (map (\<lambda>h. if skip_header w h then [] else header_line h) hs) = concat (map header_line (filter (\<lambda>h. \<not> skip_header w h) hs))"
  by (induction hs) auto

definition request_head :: "HttpRequest \<Rightarrow> string" where
  "request_head q = HttpMethodToString (m_method q) @ '' '' @ request_target q @ '' '' @ show_version (m_version q) @ crlf
     @ concat (map header_line (printed_headers q)) @ crlf"

lemma request_dump_parts: "request_dump q = request_head q @ m_body q"
  by (simp add: request_head_def request_dump_def request_target_def printed_headers_def headers_text connection_line_def body_text_def
      header_line_def)

lemma signed_char_ascii: "of_char c < (128 :: nat) \<Longrightarrow> signed_char c = int (of_char c)"
proof -
  assume "of_char c < (128 :: nat)"
  moreover have "(of_char c :: int) = int (of_char c)" by (simp add: of_nat_of_char)
  ultimately show ?thesis unfolding signed_char_def Let_def by simp
qed

lemma show_base_value: "list_all value_char (show_base 10 n)" "value_start (hd (show_base 10 n))"
proof -
  have *: "value_start c" if "c \<in> set (show_base 10 n)" for c
  proof -
    have "48 \<le> (of_char c :: nat)" "of_char c < (103 :: nat)" using show_base_char [OF _ _ that] by auto
    then show ?thesis
      using signed_char_ascii [of c] by (simp add: value_start_def value_char_def Let_def)
  qed
  then show "list_all value_char (show_base 10 n)" by (auto simp: list_all_iff value_start_def)
  show "value_start (hd (show_base 10 n))" using * by (simp add: hd_in_set)
qed

lemma printed_headers_ok: "list_all header_ok (m_headers q) \<Longrightarrow> list_all header_ok (printed_headers q)"
proof -
  assume "list_all header_ok (m_headers q)"
  then have "list_all header_ok (filter (\<lambda>h. \<not> skip_header (m_websocket q) h) (m_headers q))" by (auto simp: list_all_iff)
  moreover have "header_ok (''connection'', ''close'')" "header_ok (''connection'', ''keep-alive'')"
    by (simp_all add: header_ok_def name_char_def value_char_def value_start_def signed_char_def)
  moreover have "header_ok (''content-length'', show_base 10 n)" for n
    using show_base_value by (simp add: header_ok_def) (simp add: name_char_def signed_char_def)
  ultimately show ?thesis by (simp add: printed_headers_def)
qed

lemma method_text_ok:
  assumes "m \<noteq> INVALID_METHOD" and "m \<noteq> MSEARCH"
  shows "list_all method_char (HttpMethodToString m) \<and> HttpMethodToString m \<noteq> [] \<and> length (HttpMethodToString m) \<le> 19"
  using assms by (cases m) (simp_all add: HttpMethodToString_def HTTP_METHOD_MAP_def method_char_def signed_char_def)

text \<open>A parser at the start of a run.\<close>

definition fresh :: "request_parser \<Rightarrow> bool" where
  "fresh s \<longleftrightarrow> hp_cs (m_parser s) = 1 \<and> \<not> xml_sent (m_parser s) \<and> \<not> json_sent (m_parser s) \<and> m_error s = 0
     \<and> m_data s = mk_HttpRequest 0x11 True"

lemma head_run:
  assumes "m_method q \<noteq> INVALID_METHOD" and "m_method q \<noteq> MSEARCH" and "m_version q = 0x10 \<or> m_version q = 0x11"
    and "target_ok q" and "list_all header_ok (m_headers q)"
    and "buffer = request_head q @ tail" and "fresh s"
  shows "\<exists>p t. exec buffer 1 0 buffer s = Inr (348, p, t) \<and> drop p buffer = tail \<and> m_error t = 0
     \<and> hp_cs (m_parser t) = 1
     \<and> m_data t = fold (\<lambda>h. setHeader (fst h) (snd h)) (printed_headers q)
          ((mk_HttpRequest (m_version q) True)\<lparr>m_method := m_method q, m_path := m_path q, m_query := m_query q,
             m_fragment := m_fragment q\<rparr>)"
proof -
  let ?w = "HttpMethodToString (m_method q)" and ?hs = "concat (map header_line (printed_headers q))"
  define r3 where "r3 = ?hs @ crlf @ tail"
  define r2 where "r2 = show_version (m_version q) @ crlf @ r3"
  define r1 where "r1 = request_target q @ '' '' @ r2"
  have at0: "drop 0 buffer = ?w @ '' '' @ r1" using assms(6) by (simp add: request_head_def r1_def r2_def r3_def)
  note w = method_text_ok [OF assms(1,2)]
  define p1 where "p1 = 0 + length ?w + 1"
  define s1 where "s1 = s\<lparr>m_parser := (m_parser s)\<lparr>hp_mark := 0\<rparr>, m_data := (m_data s)\<lparr>m_method := m_method q\<rparr>\<rparr>"
  have "CharsToHttpMethod (drop 0 buffer) = m_method q" using CharsToHttpMethod_print [OF assms(1)] at0 by simp
  then have run1: "exec buffer 1 0 buffer s = exec buffer 3 p1 r1 s1"
    using run_method [of ?w 0 buffer r1 "m_method q" s] w at0 assms(1) by (simp add: p1_def s1_def)
  have at1: "drop p1 buffer = request_target q @ '' '' @ r2"
    using drop_part [of 0 buffer "?w @ '' ''" r1] at0 by (simp add: p1_def r1_def)
  define p2 where "p2 = p1 + length (request_target q) + 1"
  obtain s2 where run2: "exec buffer 3 p1 r1 s1 = exec buffer 4 p2 r2 s2" "same_run s1 s2"
      "m_data s2 = (m_data s1)\<lparr>m_path := m_path q, m_query := m_query q, m_fragment := m_fragment q\<rparr>"
    using run_target [OF assms(4) at1, of s1] assms(7)
    by (auto simp: p2_def r1_def s1_def fresh_def mk_HttpRequest_def)
  have at2: "drop p2 buffer = show_version (m_version q) @ crlf @ r3"
    using drop_part [of p1 buffer "request_target q @ '' ''" r2] at1 by (simp add: p2_def r2_def add.assoc)
  define s3 where "s3 = s2\<lparr>m_parser := (m_parser s2)\<lparr>hp_mark := p2\<rparr>, m_data := (m_data s2)\<lparr>m_version := m_version q\<rparr>\<rparr>"
  have run3: "exec buffer 4 p2 r2 s2 = exec buffer 13 (p2 + 10) r3 s3"
    using run_version [OF assms(3) at2, of s2] by (simp add: r2_def s3_def)
  have len10: "length (show_version (m_version q)) = 8" using assms(3) show_version_10 show_version_11 by auto
  have at3: "drop (p2 + 10) buffer = ?hs @ crlf @ tail"
    using drop_part [of p2 buffer "show_version (m_version q) @ crlf" r3] at2 len10 by (simp add: r3_def)
  obtain s4 where run4: "exec buffer 13 (p2 + 10) r3 s3 = exec buffer 13 (p2 + 10 + length ?hs) (crlf @ tail) s4"
      "same_run s3 s4" "m_data s4 = fold (\<lambda>h. setHeader (fst h) (snd h)) (printed_headers q) (m_data s3)"
    using run_headers [OF printed_headers_ok [OF assms(5)] at3, of s3] by (auto simp: r3_def)
  have same: "same_run s s4"
    using run2(2) run4(2) by (simp add: s1_def s3_def same_run_def)
  define p4 where "p4 = p2 + 10 + length ?hs"
  have end_at: "drop (p4 + 2) buffer = tail"
    using drop_part [of p4 buffer crlf "tail"] drop_part [OF at3] by (simp add: p4_def)
  have run: "exec buffer 1 0 buffer s = Inr (348, p4 + 2, upd_parser (\<lambda>h. h\<lparr>field_start := p4, body_start := p4 + 2\<rparr>) s4)"
    using run1 run2(1) run3 run4(1) run_end [of s4 buffer p4 "tail"] same assms(7)
    by (simp add: p4_def same_run_def fresh_def)
  have data4: "m_data s4 = fold (\<lambda>h. setHeader (fst h) (snd h)) (printed_headers q)
      ((mk_HttpRequest (m_version q) True)\<lparr>m_method := m_method q, m_path := m_path q, m_query := m_query q, m_fragment := m_fragment q\<rparr>)"
    using run4(3) run2(3) assms(7)
    by (simp add: s3_def s1_def fresh_def mk_HttpRequest_def)
  show ?thesis
    using run end_at data4 same assms(7)
    by (intro exI [of _ "p4 + 2"] exI [of _ "upd_parser (\<lambda>h. h\<lparr>field_start := p4, body_start := p4 + 2\<rparr>) s4"])
      (simp add: same_run_def fresh_def)
qed


lemma parse_head:
  assumes "m_method q \<noteq> INVALID_METHOD" and "m_method q \<noteq> MSEARCH" and "m_version q = 0x10 \<or> m_version q = 0x11"
    and "target_ok q" and "list_all header_ok (m_headers q)"
  shows "\<exists>n t. parser_execute (request_head q @ tail) (mk_HttpRequestParser memory) = Inr (n, tail, t)
     \<and> \<not> hasError t \<and> isFinished t = 1
     \<and> m_data t = fold (\<lambda>h. setHeader (fst h) (snd h)) (printed_headers q)
          ((mk_HttpRequest (m_version q) True)\<lparr>m_method := m_method q, m_path := m_path q, m_query := m_query q,
             m_fragment := m_fragment q\<rparr>)"
proof -
  let ?s = "mk_HttpRequestParser memory" and ?d = "request_head q @ tail"
  have s: "fresh (restart ?s)" by (simp add: restart_def fresh_def mk_HttpRequestParser_def http_parser_init_def)
  obtain p t where run: "exec ?d 1 0 ?d (restart ?s) = Inr (348, p, t)" "drop p ?d = tail" "m_error t = 0"
      "hp_cs (m_parser t) = 1"
      and data: "m_data t = fold (\<lambda>h. setHeader (fst h) (snd h)) (printed_headers q)
          ((mk_HttpRequest (m_version q) True)\<lparr>m_method := m_method q, m_path := m_path q, m_query := m_query q,
             m_fragment := m_fragment q\<rparr>)"
    using head_run [OF assms refl s] by blast
  have ne: "?d \<noteq> []" by (simp add: request_head_def)
  have "inside (length ?d) (restart ?s)" "behind 0 (restart ?s)"
    using ne by (simp_all add: restart_def inside_def behind_def mk_HttpRequestParser_def http_parser_init_def)
  from exec_safe [OF _ this, of ?d 1 ?d] run(1)
  have safe: "inside (length ?d) t" "p \<le> length ?d" by (auto simp: in_query_def)
  have "hp_cs (m_parser ?s) = 1" by (simp add: mk_HttpRequestParser_def http_parser_init_def)
  with parser_execute_run [of ?d ?s 348 p t] run(1,4) safe ne
  have "parser_execute ?d ?s = Inr (p, drop p ?d, upd_parser (\<lambda>h. h\<lparr>hp_cs := 348, nread := p\<rparr>) t)" by simp
  then show ?thesis using run(2,3) data by (simp add: parser_status)
qed



section \<open>A request in two pieces\<close>

lemma run_get:
  assumes "buffer = ''GET '' @ rest"
  shows "exec buffer 1 0 buffer s = exec buffer 3 4 rest
     (s\<lparr>m_parser := (m_parser s)\<lparr>hp_mark := 0\<rparr>, m_data := (m_data s)\<lparr>m_method := GET\<rparr>\<rparr>)"
proof -
  have get: "HttpMethodToString GET = ''GET''" by (simp add: HttpMethodToString_def HTTP_METHOD_MAP_def)
  have "CharsToHttpMethod (drop 0 buffer) = GET" using CharsToHttpMethod_print [of GET "'' '' @ rest"] assms get by simp
  then show ?thesis
    using run_method [of "''GET''" 0 buffer rest GET s] method_text_ok [of GET] get assms by (simp add: numeral_eq_Suc)
qed

text \<open>The first piece ends inside the path, or inside the query: the state the parser is left in.\<close>

lemma first_piece_path:
  assumes "path_ok a"
  shows "\<exists>cs t. cs \<in> {26, 33} \<and> parser_execute (''GET '' @ a) (mk_HttpRequestParser memory) = Inr (4 + length a, [], t)
     \<and> hp_cs (m_parser t) = cs \<and> body_start (m_parser t) = 0 \<and> m_error t = 0"
proof -
  let ?s = "mk_HttpRequestParser memory" and ?d = "''GET '' @ a"
  let ?t = "(restart ?s)\<lparr>m_parser := (m_parser (restart ?s))\<lparr>hp_mark := 4\<rparr>, m_data := (m_data (restart ?s))\<lparr>m_method := GET\<rparr>\<rparr>"
  let ?g = "(restart ?s)\<lparr>m_parser := (m_parser (restart ?s))\<lparr>hp_mark := 0\<rparr>, m_data := (m_data (restart ?s))\<lparr>m_method := GET\<rparr>\<rparr>"
  obtain cs where cs: "cs \<in> {26, 33}" and "exec ?d 3 4 (a @ []) ?g = exec ?d cs (4 + length a) [] (upd_parser (\<lambda>h. h\<lparr>hp_mark := 4\<rparr>) ?g)"
    using run_path_chars [OF assms] by blast
  then have run: "exec ?d 1 0 ?d (restart ?s) = Inr (cs, 4 + length a, ?t)"
    using run_get [of ?d a "restart ?s"] by simp
  have "a \<noteq> []" using assms by (auto simp: path_ok_def)
  then have "parser_execute ?d ?s = Inr (4 + length a, [], upd_parser (\<lambda>h. h\<lparr>hp_cs := cs, nread := 4 + length a\<rparr>) ?t)"
    using parser_execute_run [of ?d ?s cs "4 + length a" ?t] run cs
    by (simp add: mk_HttpRequestParser_def http_parser_init_def restart_def inside_def)
  then show ?thesis using cs by (auto simp: mk_HttpRequestParser_def http_parser_init_def restart_def)
qed

lemma first_piece_query:
  assumes "path_ok a" and "list_all query_char w" and "w \<noteq> []"
  shows "\<exists>t. parser_execute (''GET '' @ a @ ''?'' @ w) (mk_HttpRequestParser memory) = Inr (5 + length a + length w, [], t)
     \<and> hp_cs (m_parser t) = 30 \<and> 0 < query_start (m_parser t)"
proof -
  let ?s = "mk_HttpRequestParser memory" and ?d = "''GET '' @ a @ ''?'' @ w"
  obtain c u where w: "w = c # u" and c: "query_char c" and u: "\<forall>c \<in> set u. query_char c"
    using assms(2,3) by (cases w) (auto simp: list_all_iff)
  define s1 where "s1 = (restart ?s)\<lparr>m_parser := (m_parser (restart ?s))\<lparr>hp_mark := 4\<rparr>,
    m_data := (m_data (restart ?s))\<lparr>m_method := GET, m_path := a\<rparr>\<rparr>"
  define s2 where "s2 = upd_parser (\<lambda>h. h\<lparr>query_start := 5 + length a\<rparr>) s1"
  have "exec ?d 1 0 ?d (restart ?s) = exec ?d 29 (5 + length a) w s1"
    using run_get [of ?d "a @ ''?'' @ w" "restart ?s"] run_path(2) [OF assms(1), of 4 ?d "''?'' @ w" w] by (simp add: s1_def)
  also have "\<dots> = exec ?d 30 (5 + length a + 1) (u @ []) s2"
    using w exec_Tr [OF _ dest_query(1) [OF c] tr_actions(19)] by (simp add: s2_def)
  also have "\<dots> = exec ?d 30 (5 + length a + 1 + length u) [] s2"
    using u dest_query(2) by (intro exec_loop) auto
  finally have run: "exec ?d 1 0 ?d (restart ?s) = Inr (30, 5 + length a + length w, s2)" using w by simp
  have "parser_execute ?d ?s = Inr (5 + length a + length w, [], upd_parser (\<lambda>h. h\<lparr>hp_cs := 30, nread := 5 + length a + length w\<rparr>) s2)"
    using parser_execute_run [of ?d ?s 30 "5 + length a + length w" s2] run
    by (simp add: s1_def s2_def mk_HttpRequestParser_def http_parser_init_def restart_def inside_def)
  then show ?thesis by (simp add: s2_def s1_def)
qed

lemma second_piece_path:
  assumes "cs \<in> {26, 33}" and "hp_cs (m_parser s) = cs" and "body_start (m_parser s) = 0"
    and "list_all path_char b" and "b \<noteq> []" and "hd b \<noteq> CHR ''/''"
  shows "\<exists>t. parser_execute (b @ '' '') s = Inr (length b + 1, [], t) \<and> m_path (m_data t) = b"
proof -
  let ?d = "b @ '' ''" and ?r = "restart s"
  obtain c u where b: "b = c # u" and c: "path_char c" "signed_char c \<noteq> 47" and u: "\<forall>c \<in> set u. path_char c"
    using assms(4-6) signed_char_eq_iff [of _ "CHR ''/''"] by (cases b) (auto simp: list_all_iff signed_char_def)
  let ?t = "?r\<lparr>m_data := (m_data ?r)\<lparr>m_path := b\<rparr>\<rparr>"
  have "exec ?d cs 0 ?d ?r = exec ?d 26 1 (u @ '' '') ?r"
    using b c assms(1) exec_St [OF _ dest_path(1)] exec_St [OF _ dest_path(2)] by auto
  also have "\<dots> = exec ?d 26 (1 + length u) '' '' ?r" using u dest_path(1) by (intro exec_loop) auto
  also have "\<dots> = Inr (4, length b + 1, ?t)"
    using b by (simp add: exec_Tr [OF _ dest_path_end(1) tr_actions(14)] parser_callbacks text_of_def restart_def nat_add_distrib)
  finally have "exec ?d cs 0 ?d ?r = Inr (4, length b + 1, ?t)" .
  then show ?thesis
    using parser_execute_run [of ?d s 4 "length b + 1" ?t] assms(1-3) by (auto simp: inside_def restart_def)
qed



text \<open>The grammar of header names lets line ends through: they do not end the name.\<close>

lemma line_end_in_header_name: "http11 r 14 (CHR 0x0D) = St 14" "http11 r 14 (CHR 0x0A) = St 14"
  by (simp_all add: http11_row_14 signed_char_def)

text \<open>The method M-SEARCH of the table is no method of the grammar.\<close>

lemma msearch_rejected: "http11 r 2 (CHR ''-'') = St 0"
  unfolding http11_lookup by (simp add: http11_rows_1_def signed_char_def)

end
