(* ===== verification/Addresses.thy ===== *)
theory Addresses
  imports Byte_Codec Ordered_Containers
begin

unbundle bit_operations_syntax

text \<open>
  Socket addresses (\<^verbatim>\<open>dwframe/address.h\<close>, \<^verbatim>\<open>dwframe/address.cc\<close>). A \<^verbatim>\<open>sockaddr_in\<close> or \<^verbatim>\<open>sockaddr_in6\<close> is a
  record of the values a program on the host reads from its fields, so ports and IPv4 addresses
  are stored in network byte order: swapped on a little-endian host. \<open>host\<close> is the byte order of the
  machine. The resolver (\<^verbatim>\<open>getaddrinfo\<close>, \<^verbatim>\<open>inet_pton\<close>) and the interface list (\<^verbatim>\<open>getifaddrs\<close>) are parameters.
\<close>

section \<open>Masks\<close>

text \<open>
  \<^verbatim>\<open>CreateMask<T>\<close> shifts the 32-bit \<^verbatim>\<open>int\<close> 1: shifting by 32 or more is undefined. \<open>w\<close> is the width of
  \<open>T\<close>; the shift count is computed in \<^verbatim>\<open>uint32_t\<close>. One bit makes the subtraction reach below the
  least \<^verbatim>\<open>int\<close>; the model wraps, as the compiled code does.
\<close>

definition CreateMask :: "nat \<Rightarrow> nat \<Rightarrow> uint32 result" where
  "CreateMask w bits = (if w < bits \<or> 32 \<le> w - bits then Inl Undefined_shift
     else Inr (push_bit (w - bits) 1 - 1))"

lemma and_dec_less: "(v :: 'a::len word) \<noteq> 0 \<Longrightarrow> unat (v AND (v - 1)) < unat v"
proof -
  assume "v \<noteq> 0"
  then have "unat (v - 1) < unat v" by (simp add: unat_minus_one unat_gt_0)
  moreover have "v AND (v - 1) \<le> v - 1" by (rule word_and_le1)
  ultimately show ?thesis by (simp add: word_le_nat_alt)
qed

function CountBytes :: "'a::len word \<Rightarrow> nat" where
  "CountBytes value = (if value = 0 then 0 else Suc (CountBytes (value AND (value - 1))))"
  by pat_completeness auto
termination by (relation "measure unat") (auto simp: and_dec_less)

declare CountBytes.simps [simp del]

section \<open>Addresses\<close>

record sockaddr_in =
  sin_family :: uint16
  sin_port :: uint16
  s_addr :: uint32

record sockaddr_in6 =
  sin6_family :: uint16
  sin6_port :: uint16
  sin6_flowinfo :: uint32
  s6_addr :: "byte list"
  sin6_scope_id :: uint32

record sockaddr_un =
  sun_family :: uint16
  sun_path :: "byte list"
  m_length :: nat

record sockaddr =
  sa_family :: uint16
  sa_data :: "byte list"

datatype address =
    IPv4Address sockaddr_in
  | IPv6Address sockaddr_in6
  | UnixAddress sockaddr_un
  | UnknowAddress sockaddr

abbreviation (input) AF_UNSPEC :: uint16 where "AF_UNSPEC \<equiv> 0"
abbreviation (input) AF_UNIX :: uint16 where "AF_UNIX \<equiv> 1"
abbreviation (input) AF_INET :: uint16 where "AF_INET \<equiv> 2"
abbreviation (input) AF_INET6 :: uint16 where "AF_INET6 \<equiv> 10"

text \<open>What a \<^verbatim>\<open>const sockaddr*\<close> may point to.\<close>

datatype raw_sockaddr = Raw_in sockaddr_in | Raw_in6 sockaddr_in6 | Raw_other sockaddr

definition Address_Create :: "raw_sockaddr option \<Rightarrow> address option" where
  "Address_Create addr = (case addr of
      None \<Rightarrow> None
    | Some (Raw_in a) \<Rightarrow> Some (IPv4Address a)
    | Some (Raw_in6 a) \<Rightarrow> Some (IPv6Address a)
    | Some (Raw_other a) \<Rightarrow> Some (UnknowAddress a))"

fun raw_family :: "raw_sockaddr \<Rightarrow> uint16" where
  "raw_family (Raw_in a) = AF_INET"
| "raw_family (Raw_in6 a) = AF_INET6"
| "raw_family (Raw_other a) = sa_family a"

section \<open>IPv4\<close>

definition mk_IPv4 :: "endian \<Rightarrow> uint32 \<Rightarrow> uint16 \<Rightarrow> sockaddr_in" where
  "mk_IPv4 host addr port = \<lparr>sin_family = AF_INET, sin_port = byteswapOnLittleEndian host port,
     s_addr = byteswapOnLittleEndian host addr\<rparr>"

text \<open>\<open>pton\<close> is \<^verbatim>\<open>inet_pton\<close>: the address in network order, or \<open>None\<close>.\<close>

definition IPv4_Create :: "endian \<Rightarrow> (string \<Rightarrow> uint32 option) \<Rightarrow> string \<Rightarrow> uint16 \<Rightarrow> sockaddr_in option" where
  "IPv4_Create host pton addr port = map_option (\<lambda>a. (mk_IPv4 host 0 port)\<lparr>s_addr := a\<rparr>) (pton addr)"

definition IPv4_broadcastAddress :: "endian \<Rightarrow> sockaddr_in \<Rightarrow> nat \<Rightarrow> sockaddr_in option result" where
  "IPv4_broadcastAddress host a prefix_len =
     (if prefix_len > 32 then Inr None
      else bindE (CreateMask 32 prefix_len) (\<lambda>m.
        Inr (Some (a\<lparr>s_addr := s_addr a OR byteswapOnLittleEndian host m\<rparr>))))"

definition IPv4_networkAddress :: "endian \<Rightarrow> sockaddr_in \<Rightarrow> nat \<Rightarrow> sockaddr_in option result" where
  "IPv4_networkAddress host a prefix_len =
     (if prefix_len > 32 then Inr None
      else bindE (CreateMask 32 prefix_len) (\<lambda>m.
        Inr (Some (a\<lparr>s_addr := s_addr a AND byteswapOnLittleEndian host m\<rparr>))))"

definition IPv4_subnetMask :: "endian \<Rightarrow> nat \<Rightarrow> sockaddr_in result" where
  "IPv4_subnetMask host prefix_len =
     bindE (CreateMask 32 prefix_len) (\<lambda>m.
     Inr \<lparr>sin_family = AF_INET, sin_port = 0, s_addr = NOT (byteswapOnLittleEndian host m)\<rparr>)"

definition IPv4_getPort :: "endian \<Rightarrow> sockaddr_in \<Rightarrow> uint16" where
  "IPv4_getPort host a = byteswapOnLittleEndian host (sin_port a)"

definition IPv4_setPort :: "endian \<Rightarrow> uint16 \<Rightarrow> sockaddr_in \<Rightarrow> sockaddr_in" where
  "IPv4_setPort host port a = a\<lparr>sin_port := byteswapOnLittleEndian host port\<rparr>"

definition IPv4_insert :: "endian \<Rightarrow> sockaddr_in \<Rightarrow> string" where
  "IPv4_insert host a = (let addr = byteswapOnLittleEndian host (s_addr a) in
     show_base 10 (unat (drop_bit 24 addr AND 0xff)) @ ''.'' @ show_base 10 (unat (drop_bit 16 addr AND 0xff)) @ ''.''
     @ show_base 10 (unat (drop_bit 8 addr AND 0xff)) @ ''.'' @ show_base 10 (unat (addr AND 0xff))
     @ '':'' @ show_base 10 (unat (byteswapOnLittleEndian host (sin_port a))))"

section \<open>IPv6\<close>

definition mk_IPv6_any :: sockaddr_in6 where
  "mk_IPv6_any = \<lparr>sin6_family = AF_INET6, sin6_port = 0, sin6_flowinfo = 0, s6_addr = replicate 16 0, sin6_scope_id = 0\<rparr>"

definition mk_IPv6 :: "endian \<Rightarrow> byte list \<Rightarrow> uint16 \<Rightarrow> sockaddr_in6" where
  "mk_IPv6 host addr port = mk_IPv6_any\<lparr>sin6_port := byteswapOnLittleEndian host port, s6_addr := take 16 addr\<rparr>"

definition IPv6_Create :: "endian \<Rightarrow> (string \<Rightarrow> byte list option) \<Rightarrow> string \<Rightarrow> uint16 \<Rightarrow> sockaddr_in6 option" where
  "IPv6_Create host pton addr port =
     map_option (\<lambda>a. mk_IPv6_any\<lparr>sin6_port := byteswapOnLittleEndian host port, s6_addr := a\<rparr>) (pton addr)"

text \<open>\<open>s6_addr[i] = v\<close>, where the index is out of range from a prefix of 128 on.\<close>

definition s6_set :: "nat \<Rightarrow> (byte \<Rightarrow> byte) \<Rightarrow> byte list \<Rightarrow> byte list result" where
  "s6_set i f bs = (if i < length bs then Inr (bs[i := f (bs ! i)]) else Inl Bad_index)"

definition fill_from :: "nat \<Rightarrow> byte \<Rightarrow> byte list \<Rightarrow> byte list" where
  "fill_from i v bs = take i bs @ replicate (length bs - i) v"

definition IPv6_broadcastAddress :: "sockaddr_in6 \<Rightarrow> nat \<Rightarrow> sockaddr_in6 result" where
  "IPv6_broadcastAddress a prefix_len =
     bindE (CreateMask 8 (prefix_len mod 8)) (\<lambda>m.
     bindE (s6_set (prefix_len div 8) (\<lambda>b. b OR ucast m) (s6_addr a)) (\<lambda>bs.
     Inr (a\<lparr>s6_addr := fill_from (prefix_len div 8 + 1) 0xff bs\<rparr>)))"

definition IPv6_networkAddress :: "sockaddr_in6 \<Rightarrow> nat \<Rightarrow> sockaddr_in6 result" where
  "IPv6_networkAddress a prefix_len =
     bindE (CreateMask 8 (prefix_len mod 8)) (\<lambda>m.
     bindE (s6_set (prefix_len div 8) (\<lambda>b. b AND ucast m) (s6_addr a)) (\<lambda>bs.
     Inr (a\<lparr>s6_addr := fill_from (prefix_len div 8 + 1) 0 bs\<rparr>)))"

definition IPv6_subnetMask :: "nat \<Rightarrow> sockaddr_in6 result" where
  "IPv6_subnetMask prefix_len =
     bindE (CreateMask 8 (prefix_len mod 8)) (\<lambda>m.
     bindE (s6_set (prefix_len div 8) (\<lambda>b. NOT (ucast m)) (replicate 16 0)) (\<lambda>bs.
     Inr (mk_IPv6_any\<lparr>s6_addr := replicate (prefix_len div 8) 0xff @ drop (prefix_len div 8) bs\<rparr>)))"

definition IPv6_getPort :: "endian \<Rightarrow> sockaddr_in6 \<Rightarrow> uint16" where
  "IPv6_getPort host a = byteswapOnLittleEndian host (sin6_port a)"

definition IPv6_setPort :: "endian \<Rightarrow> uint16 \<Rightarrow> sockaddr_in6 \<Rightarrow> sockaddr_in6" where
  "IPv6_setPort host port a = a\<lparr>sin6_port := byteswapOnLittleEndian host port\<rparr>"

text \<open>The eight groups as a program on the host reads them through \<^verbatim>\<open>uint16_t*\<close>.\<close>

fun s6_words :: "endian \<Rightarrow> byte list \<Rightarrow> uint16 list" where
  "s6_words host (b0 # b1 # bs) = of_mem_bytes host [b0, b1] # s6_words host bs"
| "s6_words host _ = []"

text \<open>The printing loop from group \<open>i\<close> on; \<open>prev\<close> is the group before, if any.\<close>

fun insert6_loop :: "endian \<Rightarrow> uint16 option \<Rightarrow> bool \<Rightarrow> uint16 list \<Rightarrow> string \<times> bool" where
  "insert6_loop host prev used_zeros [] = ([], used_zeros)"
| "insert6_loop host prev used_zeros (g # gs) =
     (if g = 0 \<and> \<not> used_zeros then insert6_loop host (Some g) used_zeros gs
      else let z = (prev = Some 0 \<and> \<not> used_zeros);
               (s, u) = insert6_loop host (Some g) (used_zeros \<or> z) gs
           in ((if z then '':'' else []) @ (if prev \<noteq> None then '':'' else [])
               @ show_base 16 (unat (byteswapOnLittleEndian host g)) @ s, u))"

definition IPv6_insert :: "endian \<Rightarrow> sockaddr_in6 \<Rightarrow> string" where
  "IPv6_insert host a =
     (let addr = s6_words host (s6_addr a);
          (s, used_zeros) = insert6_loop host None False addr
      in ''['' @ s @ (if \<not> used_zeros \<and> addr ! 7 = 0 then ''::'' else [])
         @ '']:'' @ show_base 10 (unat (byteswapOnLittleEndian host (sin6_port a))))"

section \<open>Unix and other addresses\<close>

definition mk_Unix_any :: sockaddr_un where
  "mk_Unix_any = \<lparr>sun_family = AF_UNIX, sun_path = replicate 108 0, m_length = 2 + 107\<rparr>"

definition mk_Unix :: "byte list \<Rightarrow> sockaddr_un result" where
  "mk_Unix path =
     (let len = (if path \<noteq> [] \<and> hd path = 0 then length path + 1 - 1 else length path + 1) in
      if len > 108 then Inl Logic_error
      else Inr \<lparr>sun_family = AF_UNIX, sun_path = overwrite 0 (take len (path @ [0])) (replicate 108 0),
                m_length = len + 2\<rparr>)"

text \<open>The reads below stay inside the structure while the length set here is at most 110, its size.\<close>

definition setAddrlen :: "nat \<Rightarrow> sockaddr_un \<Rightarrow> sockaddr_un" where
  "setAddrlen v a = a\<lparr>m_length := v\<rparr>"

definition c_string :: "byte list \<Rightarrow> byte list" where
  "c_string bs = takeWhile (\<lambda>b. b \<noteq> 0) bs"

definition Unix_insert :: "sockaddr_un \<Rightarrow> byte list" where
  "Unix_insert a = (if m_length a > 2 \<and> sun_path a ! 0 = 0
     then [92, 48] @ take (m_length a - 2 - 1) (drop 1 (sun_path a)) else c_string (sun_path a))"

definition Unknow_insert :: "sockaddr \<Rightarrow> string" where
  "Unknow_insert a = ''[UnknownAddress family='' @ show_base 10 (unat (sa_family a)) @ '']''"

section \<open>Comparing\<close>

text \<open>The bytes of \<^verbatim>\<open>getAddr()\<close>, \<^verbatim>\<open>getAddrlen()\<close> of them.\<close>

fun addr_bytes :: "endian \<Rightarrow> address \<Rightarrow> byte list" where
  "addr_bytes host (IPv4Address a) = mem_bytes host (sin_family a) @ mem_bytes host (sin_port a)
     @ mem_bytes host (s_addr a) @ replicate 8 0"
| "addr_bytes host (IPv6Address a) = mem_bytes host (sin6_family a) @ mem_bytes host (sin6_port a)
     @ mem_bytes host (sin6_flowinfo a) @ s6_addr a @ mem_bytes host (sin6_scope_id a)"
| "addr_bytes host (UnixAddress a) = take (m_length a) (mem_bytes host (sun_family a) @ sun_path a)"
| "addr_bytes host (UnknowAddress a) = mem_bytes host (sa_family a) @ sa_data a"

fun memcmp :: "byte list \<Rightarrow> byte list \<Rightarrow> nat \<Rightarrow> int" where
  "memcmp (x # xs) (y # ys) (Suc n) = (if x < y then -1 else if y < x then 1 else memcmp xs ys n)"
| "memcmp _ _ _ = 0"

definition addr_less :: "byte list \<Rightarrow> byte list \<Rightarrow> bool" where
  "addr_less l r =
     (let result = memcmp l r (min (length l) (length r)) in
      if result < 0 then True else if result > 0 then False
      else if length l < length r then True else False)"

definition addr_eq :: "byte list \<Rightarrow> byte list \<Rightarrow> bool" where
  "addr_eq l r \<longleftrightarrow> length l = length r \<and> memcmp l r (length l) = 0"

section \<open>Lookup\<close>

text \<open>\<^verbatim>\<open>memchr\<close>: the text before the character and from it on.\<close>

fun split_at_char :: "char \<Rightarrow> string \<Rightarrow> (string \<times> string) option" where
  "split_at_char c [] = None"
| "split_at_char c (x # xs) = (if x = c then Some ([], x # xs)
     else map_option (\<lambda>(a, b). (x # a, b)) (split_at_char c xs))"

text \<open>The node and the service that \<^verbatim>\<open>Lookup\<close> passes on.\<close>

definition lookup_bracket :: "string \<Rightarrow> string \<times> string option" where
  "lookup_bracket host = (case host of
      CHR ''['' # rest \<Rightarrow> (case split_at_char (CHR '']'') rest of
          Some (node, endipv6) \<Rightarrow>
            (node, if length endipv6 > 1 \<and> endipv6 ! 1 = CHR '':'' then Some (drop 2 endipv6) else None)
        | None \<Rightarrow> ([], None))
    | _ \<Rightarrow> ([], None))"

definition lookup_split :: "string \<Rightarrow> string \<times> string option" where
  "lookup_split host =
     (let (node1, service1) = lookup_bracket host;
          (node2, service2) =
            (if node1 = [] then
               (case split_at_char (CHR '':'') host of
                  None \<Rightarrow> ([], None)
                | Some (before, service) \<Rightarrow>
                    if split_at_char (CHR '':'') (drop 1 service) = None then (before, Some (drop 1 service))
                    else ([], Some service))
             else (node1, service1))
      in (if node2 = [] then host else node2, service2))"

definition Address_Lookup :: "(string \<Rightarrow> string option \<Rightarrow> raw_sockaddr list option) \<Rightarrow> string \<Rightarrow> bool \<times> address list" where
  "Address_Lookup getaddrinfo host =
     (let (node, service) = lookup_split host in
      case getaddrinfo node service of
        None \<Rightarrow> (False, [])
      | Some results \<Rightarrow> let r = map (\<lambda>a. the (Address_Create (Some a))) results in (r \<noteq> [], r))"

definition LookupAny :: "(string \<Rightarrow> string option \<Rightarrow> raw_sockaddr list option) \<Rightarrow> string \<Rightarrow> address option" where
  "LookupAny getaddrinfo host =
     (case Address_Lookup getaddrinfo host of (ok, r) \<Rightarrow> if ok then Some (hd r) else None)"

fun is_ip :: "address \<Rightarrow> bool" where
  "is_ip (IPv4Address _) = True" | "is_ip (IPv6Address _) = True" | "is_ip _ = False"

definition LookupAnyIPAddress :: "(string \<Rightarrow> string option \<Rightarrow> raw_sockaddr list option) \<Rightarrow> string \<Rightarrow> address option" where
  "LookupAnyIPAddress getaddrinfo host =
     (case Address_Lookup getaddrinfo host of (ok, r) \<Rightarrow> if ok then List.find is_ip r else None)"

fun set_port :: "endian \<Rightarrow> uint16 \<Rightarrow> address \<Rightarrow> address" where
  "set_port host port (IPv4Address a) = IPv4Address (IPv4_setPort host port a)"
| "set_port host port (IPv6Address a) = IPv6Address (IPv6_setPort host port a)"
| "set_port host port a = a"

text \<open>\<^verbatim>\<open>IPAddress::Create\<close>: a numeric host, the first answer.\<close>

definition IPAddress_Create :: "endian \<Rightarrow> (string \<Rightarrow> raw_sockaddr list option) \<Rightarrow> string \<Rightarrow> uint16 \<Rightarrow> address option" where
  "IPAddress_Create host getaddrinfo addr port =
     (case getaddrinfo addr of None \<Rightarrow> None
      | Some results \<Rightarrow> (case results of [] \<Rightarrow> None
          | a # _ \<Rightarrow> (case Address_Create (Some a) of None \<Rightarrow> None
              | Some x \<Rightarrow> if is_ip x then Some (set_port host port x) else None)))"

section \<open>Interfaces\<close>

record ifaddr =
  ifa_name :: string
  ifa_addr :: "raw_sockaddr option"
  ifa_netmask :: "byte list"

text \<open>\<^verbatim>\<open>ifa_addr\<close> may be null; the loop dereferences it unless the list ends before.\<close>

fun interface_loop :: "uint16 \<Rightarrow> ifaddr list \<Rightarrow> (string \<times> address \<times> nat) list result" where
  "interface_loop family [] = Inr []"
| "interface_loop family (next # rest) =
     (case ifa_addr next of
        None \<Rightarrow> Inl Null_dereference
      | Some a \<Rightarrow>
        bindE (interface_loop family rest) (\<lambda>tail.
        if family \<noteq> AF_UNSPEC \<and> family \<noteq> raw_family a then Inr tail
        else case a of
          Raw_in _ \<Rightarrow> Inr ((ifa_name next, the (Address_Create (Some a)),
             CountBytes (of_le_bytes (ifa_netmask next) :: uint32)) # tail)
        | Raw_in6 _ \<Rightarrow> Inr ((ifa_name next, the (Address_Create (Some a)),
             sum_list (map CountBytes (take 16 (ifa_netmask next)))) # tail)
        | Raw_other _ \<Rightarrow> Inr tail))"

definition GetInterfaceAddresses :: "uint16 \<Rightarrow> ifaddr list option \<Rightarrow> (bool \<times> (string \<times> address \<times> nat) list) result" where
  "GetInterfaceAddresses family results = (case results of
      None \<Rightarrow> Inr (False, [])
    | Some l \<Rightarrow> bindE (interface_loop family l) (\<lambda>r. Inr (r \<noteq> [], r)))"

definition GetInterfaceAddresses_iface ::
  "endian \<Rightarrow> string \<Rightarrow> uint16 \<Rightarrow> ifaddr list option \<Rightarrow> (bool \<times> (address \<times> nat) list) result" where
  "GetInterfaceAddresses_iface host iface family results =
     (if iface = [] \<or> iface = ''*'' then
        Inr (True, (if family = AF_INET \<or> family = AF_UNSPEC then [(IPv4Address (mk_IPv4 host 0 0), 0)] else [])
                 @ (if family = AF_INET6 \<or> family = AF_UNSPEC then [(IPv6Address mk_IPv6_any, 0)] else []))
      else bindE (GetInterfaceAddresses family results) (\<lambda>(ok, m).
        if \<not> ok then Inr (False, [])
        else let r = map snd (filter (\<lambda>(n, _). n = iface) m) in Inr (r \<noteq> [], r)))"

section \<open>Byte order and bits\<close>

definition swapped_index :: "nat \<Rightarrow> nat \<Rightarrow> nat" where
  "swapped_index w k = 8 * (w div 8 - 1 - k div 8) + k mod 8"

lemma bit_byteswap:
  fixes v :: "'a::len word"
  assumes "8 dvd LENGTH('a)" and "k < LENGTH('a)"
  shows "bit (byteswap v) k \<longleftrightarrow> bit v (swapped_index LENGTH('a) k)"
proof -
  let ?n = "LENGTH('a) div 8" and ?i = "k div 8"
  have i: "?i < ?n" and n: "8 * ?n = LENGTH('a)" using assms by (auto elim!: dvdE)
  have "bit (byteswap v) k \<longleftrightarrow> bit (rev (le_bytes v) ! ?i) (k mod 8)"
    using assms n by (simp add: byteswap_def bit_of_le_bytes)
  also have "rev (le_bytes v) ! ?i = ucast (drop_bit (8 * (?n - 1 - ?i)) v)"
    using i by (simp add: rev_nth le_bytes_def)
  moreover have "k mod 8 < LENGTH(8)" by simp
  ultimately show ?thesis
    by (simp only: bit_ucast_iff bit_drop_bit_eq swapped_index_def add.commute comp_def simp_thms)
qed

lemma swapped_index_less: "8 dvd w \<Longrightarrow> k < w \<Longrightarrow> swapped_index w k < w"
  by (auto simp: swapped_index_def elim!: dvdE)

lemma swapped_index_swapped: "8 dvd w \<Longrightarrow> k < w \<Longrightarrow> swapped_index w (swapped_index w k) = k"
  by (auto simp: swapped_index_def elim!: dvdE)

lemma byteswap_or:
  "8 dvd LENGTH('a) \<Longrightarrow> byteswap (v OR w) = byteswap v OR (byteswap w :: 'a::len word)"
  by (intro bit_word_eqI) (simp add: bit_byteswap bit_or_iff)

lemma byteswap_and:
  "8 dvd LENGTH('a) \<Longrightarrow> byteswap (v AND w) = byteswap v AND (byteswap w :: 'a::len word)"
  by (intro bit_word_eqI) (simp add: bit_byteswap bit_and_iff)

lemma byteswap_not:
  "8 dvd LENGTH('a) \<Longrightarrow> byteswap (NOT v) = NOT (byteswap v :: 'a::len word)"
  by (intro bit_word_eqI) (simp add: bit_byteswap bit_not_iff swapped_index_less)

text \<open>Network byte order: reading it back, and working on it bitwise, on any host.\<close>

lemma net_order:
  fixes v w :: "'a::len word"
  assumes "8 dvd LENGTH('a)"
  shows "byteswapOnLittleEndian host (byteswapOnLittleEndian host v) = v"
    and "byteswapOnLittleEndian host (v OR w) = byteswapOnLittleEndian host v OR byteswapOnLittleEndian host w"
    and "byteswapOnLittleEndian host (v AND w) = byteswapOnLittleEndian host v AND byteswapOnLittleEndian host w"
    and "byteswapOnLittleEndian host (NOT v) = NOT (byteswapOnLittleEndian host v)"
  using assms
  by (simp_all add: byteswapOnLittleEndian_def byteswap_byteswap byteswap_or byteswap_and byteswap_not)

lemma CreateMask_bits:
  assumes "w - bits < 32" and "bits \<le> w"
  obtains m where "CreateMask w bits = Inr m" and "\<And>n. bit m n \<longleftrightarrow> n < w - bits"
proof
  show "CreateMask w bits = Inr (push_bit (w - bits) 1 - 1)" using assms by (simp add: CreateMask_def)
  show "bit (push_bit (w - bits) 1 - 1 :: uint32) n \<longleftrightarrow> n < w - bits" for n
    using assms(1) by (simp add: push_bit_of_1 flip: mask_eq_exp_minus_1) (auto simp: bit_mask_iff)
qed

section \<open>Counting bits\<close>

definition bits_of :: "nat \<Rightarrow> nat set" where
  "bits_of n = {k. bit n k}"

lemma bits_of_double [simp]: "bits_of (2 * n) = Suc ` bits_of n"
  by (auto simp: bits_of_def bit_double_iff image_iff) (metis Suc_pred bot_nat_0.not_eq_extremum)

lemma bits_of_odd [simp]: "bits_of (Suc (2 * n)) = insert 0 (Suc ` bits_of n)"
proof -
  have "bit (Suc (2 * n)) k \<longleftrightarrow> k = 0 \<or> bit (2 * n) k" for k
    using even_bit_succ_iff [of "2 * n" k] by auto
  then show ?thesis using bits_of_double [of n] by (auto simp: bits_of_def)
qed

lemma bit_imp_less_nat: "bit n k \<Longrightarrow> k < (n :: nat)"
proof -
  assume "bit n k"
  then have "2 ^ k \<le> n" by (metis bit_nat_iff div_less even_zero linorder_not_le bit_iff_odd)
  with less_exp [of k] show "k < n" by linarith
qed

lemma finite_bits_of [simp]: "finite (bits_of n)"
  by (rule finite_subset [of _ "{..< n}"]) (auto simp: bits_of_def dest: bit_imp_less_nat)

lemma and_dec_bits: "0 < x \<Longrightarrow> \<exists>n \<in> bits_of x. bits_of (x AND (x - 1)) = bits_of x - {n}" for x :: nat
proof (induction x rule: less_induct)
  case (less x)
  have inj: "inj Suc" by simp
  show ?case
  proof (cases "even x")
    case True
    then obtain y where y: "x = 2 * y" by blast
    with less.prems have "y < x" "0 < y" by auto
    with less.IH obtain n where n: "n \<in> bits_of y" "bits_of (y AND (y - 1)) = bits_of y - {n}" by blast
    have "x - 1 = Suc (2 * (y - 1))" using y \<open>0 < y\<close> by simp
    then have "x AND (x - 1) = 2 * (y AND (y - 1))"
      using y by (subst and_rec) simp
    with n y have "bits_of (x AND (x - 1)) = bits_of x - {Suc n}" "Suc n \<in> bits_of x"
      by (auto simp: image_set_diff [OF inj])
    then show ?thesis by blast
  next
    case False
    then obtain y where y: "x = Suc (2 * y)" using oddE by fastforce
    then have "x AND (x - 1) = 2 * y" by (subst and_rec) simp
    then have "bits_of (x AND (x - 1)) = bits_of x - {0}" "0 \<in> bits_of x" using y by auto
    then show ?thesis by blast
  qed
qed

lemma CountBytes_card: "CountBytes v = card (bits_of (unat v))"
proof (induction v rule: CountBytes.induct)
  case (1 v)
  show ?case
  proof (cases "v = 0")
    case True
    then show ?thesis by (simp add: CountBytes.simps bits_of_def)
  next
    case False
    then have pos: "0 < unat v" by (simp add: unat_gt_0)
    have "unat (v AND (v - 1)) = unat v AND (unat v - 1)"
      using False by (simp add: unsigned_and_eq unat_minus_one)
    moreover obtain n where n: "n \<in> bits_of (unat v)"
      "bits_of (unat v AND (unat v - 1)) = bits_of (unat v) - {n}" using and_dec_bits [OF pos] by blast
    ultimately have "CountBytes (v AND (v - 1)) = card (bits_of (unat v)) - 1"
      using 1 False by simp
    moreover have "0 < card (bits_of (unat v))" using n(1) by (auto simp: card_gt_0_iff)
    ultimately show ?thesis using False by (simp add: CountBytes.simps [of v])
  qed
qed

lemma bits_of_unat: "bits_of (unat v) = {k. bit v k}"
  by (auto simp: bits_of_def bit_unsigned_iff dest: bit_imp_le_length)

lemma CountBytes_byteswap:
  fixes v :: "'a::len word"
  assumes "8 dvd LENGTH('a)"
  shows "CountBytes (byteswap v) = CountBytes v"
proof -
  let ?s = "swapped_index LENGTH('a)"
  have fwd: "bit (byteswap v) k \<longleftrightarrow> bit v (?s k)" if "k < LENGTH('a)" for k
    using bit_byteswap [OF assms that] .
  have less: "bit w k \<Longrightarrow> k < LENGTH('a)" for w :: "'a word" and k by (rule bit_imp_le_length)
  have "bit v k \<Longrightarrow> bit (byteswap v) (?s k)" for k
    using fwd [of "?s k"] less [of v k] swapped_index_less [OF assms] swapped_index_swapped [OF assms] by simp
  then have "bij_betw ?s {k. bit (byteswap v) k} {k. bit v k}"
    by (intro bij_betw_byWitness [where f' = ?s])
      (use fwd less in \<open>auto simp: swapped_index_swapped [OF assms]\<close>)
  then show ?thesis by (simp add: CountBytes_card bits_of_unat bij_betw_same_card)
qed

lemma CountBytes_net: "8 dvd LENGTH('a) \<Longrightarrow> CountBytes (byteswapOnLittleEndian host v) = CountBytes (v :: 'a::len word)"
  by (simp add: byteswapOnLittleEndian_def CountBytes_byteswap)

section \<open>The order on addresses\<close>

lemma memcmp_same [simp]: "memcmp xs xs n = 0"
proof (induction xs arbitrary: n)
  case (Cons x xs)
  then show ?case by (cases n) auto
qed simp

lemma addr_less_simps [simp]:
  "addr_less [] ys \<longleftrightarrow> ys \<noteq> []" "\<not> addr_less xs []"
  "addr_less (x # xs) (y # ys) \<longleftrightarrow> x < y \<or> x = y \<and> addr_less xs ys"
  by (auto simp: addr_less_def Let_def)

lemma memcmp_0_iff: "length xs = length ys \<Longrightarrow> memcmp xs ys (length xs) = 0 \<longleftrightarrow> xs = ys"
  by (induction xs ys rule: list_induct2) auto

lemma addr_eq_iff: "addr_eq xs ys \<longleftrightarrow> xs = ys"
  unfolding addr_eq_def using memcmp_0_iff by (metis memcmp_same)

lemma addr_less_irrefl: "\<not> addr_less xs xs"
  by (induction xs) auto

lemma addr_less_trans: "addr_less xs ys \<Longrightarrow> addr_less ys zs \<Longrightarrow> addr_less xs zs"
proof (induction xs arbitrary: ys zs)
  case Nil
  then show ?case by (cases zs) auto
next
  case (Cons x xs)
  then show ?case by (cases ys; cases zs) auto
qed

lemma addr_less_total: "addr_less xs ys \<or> xs = ys \<or> addr_less ys xs"
proof (induction xs arbitrary: ys)
  case (Cons x xs)
  then show ?case by (cases ys) auto
qed auto

interpretation address_order: strict_weak_order addr_less
proof
  show "equiv_key addr_less x z" if "equiv_key addr_less x y" "equiv_key addr_less y z" for x y z
    using that addr_less_total unfolding equiv_key_def by metis
qed (simp_all only: addr_less_irrefl not_False_eq_True, rule addr_less_trans)

section \<open>Properties\<close>

text \<open>
  Addresses of every family order totally. \<^verbatim>\<open>operator<\<close> is transitive, exactly one of less, equal and greater
  holds for two addresses, and two addresses that neither precedes are equal by \<^verbatim>\<open>operator==\<close>; hence an address
  kept in an ordered container is found again after it is inserted.
\<close>

theorem address_order_total:
  "(addr_less a b \<longrightarrow> addr_less b c \<longrightarrow> addr_less a c)
   \<and> \<not> (addr_less a b \<and> addr_less b a)
   \<and> (addr_eq a b \<longleftrightarrow> \<not> addr_less a b \<and> \<not> addr_less b a)
   \<and> (sorted_wrt addr_less xs \<longrightarrow>
        sorted_wrt addr_less (set_insert addr_less a xs) \<and> set_find addr_less a (set_insert addr_less a xs) = Some a)"
proof (intro conjI impI)
  show "addr_less a b \<Longrightarrow> addr_less b c \<Longrightarrow> addr_less a c" by (rule addr_less_trans)
  show "\<not> (addr_less a b \<and> addr_less b a)" using address_order.lt_asym by blast
  show "addr_eq a b \<longleftrightarrow> \<not> addr_less a b \<and> \<not> addr_less b a"
    using addr_less_total [of a b] addr_less_irrefl by (auto simp: addr_eq_iff)
  assume xs: "sorted_wrt addr_less xs"
  then show s: "sorted_wrt addr_less (set_insert addr_less a xs)" by (rule address_order.set_insert_sorted)
  have mem: "a \<in> set (set_insert addr_less a xs)"
    using address_order.set_set_insert [OF xs, of a] addr_less_total [of a]
    by (auto simp: equiv_key_def split: if_splits)
  show "set_find addr_less a (set_insert addr_less a xs) = Some a"
    using address_order.set_find_None [OF s, of a] address_order.set_find_Some [of a _] mem addr_less_total s
    by (metis address_order.equiv_refl equiv_key_def not_None_eq)
qed

lemma address_order_total_witness:
  "addr_less (addr_bytes Little_endian (IPv4Address (mk_IPv4 Little_endian 1 80))) (addr_bytes Little_endian (IPv4Address (mk_IPv4 Little_endian 2 80)))
   \<and> set_find addr_less [1] (set_insert addr_less [1] [[0], [2 :: byte]]) = Some [1]"
proof
  show "addr_less (addr_bytes Little_endian (IPv4Address (mk_IPv4 Little_endian 1 80))) (addr_bytes Little_endian (IPv4Address (mk_IPv4 Little_endian 2 80)))"
    by code_simp
  show "set_find addr_less [1] (set_insert addr_less [1] [[0], [2 :: byte]]) = Some [1]"
    using address_order_total [of "[1]" "[2]" "[2]" "[[0], [2]]"] by simp
qed

lemma net32:
  "byteswapOnLittleEndian host (byteswapOnLittleEndian host (v :: uint32)) = v"
  "byteswapOnLittleEndian host (v OR w) = byteswapOnLittleEndian host v OR byteswapOnLittleEndian host w"
  "byteswapOnLittleEndian host (v AND w) = byteswapOnLittleEndian host v AND byteswapOnLittleEndian host w"
  "byteswapOnLittleEndian host (NOT v) = NOT (byteswapOnLittleEndian host v)"
  by (simp_all add: net_order)

lemma CountBytes_prefix:
  assumes "p \<le> 32" and "\<And>k. k < 32 \<Longrightarrow> bit (v :: uint32) k \<longleftrightarrow> 32 - p \<le> k"
  shows "CountBytes v = p"
proof -
  have "{k. bit v k} = {32 - p..<32}"
    using assms(2) bit_imp_le_length [of v] by (auto simp del: diff_le_eq diff_le_mono) blast+
  then show ?thesis using assms(1) by (simp add: CountBytes_card bits_of_unat)
qed

text \<open>
  IPv4 masks on any host. For a prefix of 1 to 32 bits the three operations succeed and, read in host
  order, the broadcast address sets exactly the bits below the prefix, the subnet mask has exactly the prefix bits (so
  counting its bits, as the interface list does, gives the prefix back), and the network address keeps the bits
  \<^emph>\<open>below\<close> the prefix and clears the prefix: the host part, where the network part is wanted.
\<close>

theorem ipv4_masks:
  fixes host :: endian
  assumes "0 < p" and "p \<le> 32"
  defines "val \<equiv> \<lambda>x. byteswapOnLittleEndian host (s_addr x)"
  shows "\<exists>b n m. IPv4_broadcastAddress host a p = Inr (Some b) \<and> IPv4_networkAddress host a p = Inr (Some n)
     \<and> IPv4_subnetMask host p = Inr m
     \<and> (\<forall>k. bit (val b) k \<longleftrightarrow> k < 32 - p \<or> bit (val a) k)
     \<and> (\<forall>k. bit (val n) k \<longleftrightarrow> k < 32 - p \<and> bit (val a) k)
     \<and> (\<forall>k < 32. bit (val m) k \<longleftrightarrow> 32 - p \<le> k)
     \<and> CountBytes (s_addr m) = p"
proof -
  obtain w where w: "CreateMask 32 p = Inr w" "\<And>n. bit w n \<longleftrightarrow> n < 32 - p"
    using CreateMask_bits [of 32 p] assms(1,2) by auto
  let ?s = "byteswapOnLittleEndian host"
  have m: "\<And>k. k < 32 \<Longrightarrow> bit (NOT w) k \<longleftrightarrow> 32 - p \<le> k" by (auto simp: bit_not_iff w(2))
  have "CountBytes (NOT (?s w)) = CountBytes (NOT w)"
    using CountBytes_net [of host "NOT w"] by (simp add: net32)
  with m have c: "CountBytes (NOT (?s w)) = p" using CountBytes_prefix [OF assms(2)] by metis
  show ?thesis
    using assms(2) c m
    by (simp add: IPv4_broadcastAddress_def IPv4_networkAddress_def IPv4_subnetMask_def w val_def net32
        bit_or_iff bit_and_iff disj_commute conj_commute)
qed

lemma ipv4_masks_witness:
  "\<exists>b. IPv4_broadcastAddress Little_endian (mk_IPv4 Little_endian 0xC0A80A05 80) 24 = Inr (Some b)
     \<and> (\<forall>k. bit (byteswapOnLittleEndian Little_endian (s_addr b)) k \<longleftrightarrow> k < 8 \<or> bit (0xC0A80A05 :: uint32) k)"
  using ipv4_masks [of 24 Little_endian "mk_IPv4 Little_endian 0xC0A80A05 80"] by (auto simp: mk_IPv4_def net32)

section \<open>Splitting host and service\<close>

lemma split_at_char_None: "split_at_char c s = None \<longleftrightarrow> c \<notin> set s"
  by (induction s) auto

lemma split_at_char_append: "c \<notin> set a \<Longrightarrow> split_at_char c (a @ c # b) = Some (a, c # b)"
  by (induction a) auto

lemma lookup_bracket_plain: "hd s \<noteq> CHR ''['' \<Longrightarrow> lookup_bracket s = ([], None)"
  by (cases s) (auto simp: lookup_bracket_def split: char.splits bool.splits)

text \<open>
  What \<^verbatim>\<open>Lookup\<close> hands to the resolver. A name without a colon is the node alone; \<^verbatim>\<open>name:service\<close> is split at its
  one colon; \<^verbatim>\<open>[v6]:service\<close> and \<^verbatim>\<open>[v6]\<close> are split at the bracket. A bare address with two or more colons is passed as
  the node with its own tail, from the first colon on, as the service.
\<close>

theorem lookup_split_outcome:
  assumes "CHR '':'' \<notin> set name" and "CHR ''['' \<notin> set name" and "name \<noteq> []"
    and "CHR '':'' \<notin> set service" and "CHR '']'' \<notin> set v6" and "v6 \<noteq> []"
  shows "lookup_split name = (name, None)
    \<and> lookup_split (name @ '':'' @ service) = (name, Some service)
    \<and> lookup_split (''['' @ v6 @ '']:'' @ service) = (v6, Some service)
    \<and> lookup_split (''['' @ v6 @ '']'') = (v6, None)
    \<and> lookup_split (name @ '':'' @ service @ '':'' @ rest)
        = (name @ '':'' @ service @ '':'' @ rest, Some ('':'' @ service @ '':'' @ rest))"
proof (intro conjI)
  have hd: "hd (name @ t) \<noteq> CHR ''[''" for t using assms(2,3) by (cases name) auto
  note plain = lookup_bracket_plain [OF hd]
  show "lookup_split name = (name, None)"
    using plain [of "[]"] assms(1) by (simp add: lookup_split_def split_at_char_None [THEN iffD2])
  show "lookup_split (name @ '':'' @ service) = (name, Some service)"
    using plain [of "'':'' @ service"] assms(1,3,4)
    by (simp add: lookup_split_def split_at_char_append split_at_char_None [THEN iffD2])
  show "lookup_split (''['' @ v6 @ '']:'' @ service) = (v6, Some service)"
    using split_at_char_append [OF assms(5), of "'':'' @ service"] assms(6)
    by (simp add: lookup_split_def lookup_bracket_def)
  show "lookup_split (''['' @ v6 @ '']'') = (v6, None)"
    using split_at_char_append [OF assms(5), of "[]"] assms(6)
    by (simp add: lookup_split_def lookup_bracket_def)
  show "lookup_split (name @ '':'' @ service @ '':'' @ rest)
      = (name @ '':'' @ service @ '':'' @ rest, Some ('':'' @ service @ '':'' @ rest))"
    using plain [of "'':'' @ service @ '':'' @ rest"] assms(1,4)
    by (simp add: lookup_split_def split_at_char_append)
qed

lemma lookup_split_outcome_witness:
  "lookup_split ''www.baidu.com:http'' = (''www.baidu.com'', Some ''http'')
   \<and> lookup_split ''fe80::1'' = (''fe80::1'', Some ''::1'')"
  using lookup_split_outcome [of "''www.baidu.com''" "''http''" "''x''"]
    lookup_split_outcome [of "''fe80''" "[]" "''x''" "''1''"] by simp

section \<open>Other outcomes\<close>

lemma mask_undefined: "CreateMask 32 0 = Inl Undefined_shift" "IPv4_broadcastAddress host a 0 = Inl Undefined_shift"
  by (simp_all add: CreateMask_def IPv4_broadcastAddress_def)

lemma ipv6_full_prefix: "length (s6_addr a) = 16 \<Longrightarrow> IPv6_networkAddress a 128 = Inl Bad_index"
  by (simp add: IPv6_networkAddress_def CreateMask_def s6_set_def)

lemma interface_without_address:
  "ifa_addr i = None \<Longrightarrow> GetInterfaceAddresses family (Some (i # is)) = Inl Null_dereference"
  by (simp add: GetInterfaceAddresses_def)

lemma port_roundtrip:
  "IPv4_getPort host (IPv4_setPort host p a) = p" "IPv6_getPort host (IPv6_setPort host p a6) = p"
  by (simp_all add: IPv4_getPort_def IPv4_setPort_def IPv6_getPort_def IPv6_setPort_def net_order)

end
