(* ===== verification/FdManagers.thy ===== *)
theory FdManagers
  imports Prelude "HOL-Library.Word"
begin

unbundle bit_operations_syntax

text \<open>
  The table of descriptors the hooks consult (\<^verbatim>\<open>dwframe/fd_manager.h\<close>, \<^verbatim>\<open>dwframe/fd_manager.cc\<close>). The kernel's
  view of descriptors is a parameter of the operations: \<open>k_stat\<close> says which descriptors \<^verbatim>\<open>fstat\<close> knows
  and which of them are sockets, \<open>k_flags\<close> holds the file status flags that \<^verbatim>\<open>F_GETFL\<close> reads and
  \<^verbatim>\<open>F_SETFL\<close> replaces.
\<close>

section \<open>State\<close>

abbreviation (input) O_NONBLOCK :: uint32 where "O_NONBLOCK \<equiv> 0x800"

record fd_ctx =
  m_isInit :: bool
  m_isSocket :: bool
  m_sysNonblock :: bool
  m_userNonBlock :: bool
  m_isClosed :: bool
  m_fd :: int
  m_recvTimeout :: uint64
  m_sendTimeout :: uint64

record kern =
  k_stat :: "int \<Rightarrow> bool option"
  k_flags :: "int \<Rightarrow> uint32"

record fd_table =
  m_datas :: "fd_ctx option list"
  the_kernel :: kern

datatype timeout_so = SO_RCVTIMEO | SO_SNDTIMEO

definition fcntl_getfl :: "kern \<Rightarrow> int \<Rightarrow> uint32" where
  "fcntl_getfl k fd = k_flags k fd"

definition fcntl_setfl :: "kern \<Rightarrow> int \<Rightarrow> uint32 \<Rightarrow> kern" where
  "fcntl_setfl k fd flags = k\<lparr>k_flags := (k_flags k)(fd := flags)\<rparr>"

section \<open>Descriptor contexts\<close>

definition FdCtx_init :: "kern \<Rightarrow> fd_ctx \<Rightarrow> bool \<times> fd_ctx \<times> kern" where
  "FdCtx_init k c =
     (if m_isInit c then (True, c, k)
      else let c1 = c\<lparr>m_recvTimeout := -1, m_sendTimeout := -1\<rparr>;
               c2 = (case k_stat k (m_fd c) of
                       None \<Rightarrow> c1\<lparr>m_isInit := False, m_isSocket := False\<rparr>
                     | Some sock \<Rightarrow> c1\<lparr>m_isInit := True, m_isSocket := sock\<rparr>);
               flags = fcntl_getfl k (m_fd c);
               k' = (if m_isSocket c2 \<and> flags AND O_NONBLOCK = 0
                     then fcntl_setfl k (m_fd c) (flags OR O_NONBLOCK) else k);
               c3 = c2\<lparr>m_sysNonblock := m_isSocket c2, m_userNonBlock := False, m_isClosed := False\<rparr>
           in (m_isInit c3, c3, k'))"

definition mk_FdCtx :: "kern \<Rightarrow> int \<Rightarrow> fd_ctx \<times> kern" where
  "mk_FdCtx k fd = snd (FdCtx_init k
     \<lparr>m_isInit = False, m_isSocket = False, m_sysNonblock = False, m_userNonBlock = False,
      m_isClosed = False, m_fd = fd, m_recvTimeout = -1, m_sendTimeout = -1\<rparr>)"

fun setTimeout :: "timeout_so \<Rightarrow> uint64 \<Rightarrow> fd_ctx \<Rightarrow> fd_ctx" where
  "setTimeout SO_RCVTIMEO v c = c\<lparr>m_recvTimeout := v\<rparr>"
| "setTimeout SO_SNDTIMEO v c = c\<lparr>m_sendTimeout := v\<rparr>"

fun getTimeout :: "timeout_so \<Rightarrow> fd_ctx \<Rightarrow> uint64" where
  "getTimeout SO_RCVTIMEO c = m_recvTimeout c"
| "getTimeout SO_SNDTIMEO c = m_sendTimeout c"

definition setUserNonblock :: "bool \<Rightarrow> fd_ctx \<Rightarrow> fd_ctx" where
  "setUserNonblock v c = c\<lparr>m_userNonBlock := v\<rparr>"

section \<open>The table\<close>

definition mk_FdManager :: "kern \<Rightarrow> fd_table" where
  "mk_FdManager k = \<lparr>m_datas = replicate 64 None, the_kernel = k\<rparr>"

text \<open>\<^verbatim>\<open>m_datas.resize(n)\<close>\<close>

definition datas_resize :: "nat \<Rightarrow> fd_ctx option list \<Rightarrow> fd_ctx option list" where
  "datas_resize n ds = take n ds @ replicate (n - length ds) None"

text \<open>A negative descriptor passes the size check and indexes the vector out of range.\<close>

definition fd_get :: "int \<Rightarrow> bool \<Rightarrow> fd_table \<Rightarrow> (fd_ctx option \<times> fd_table) result" where
  "fd_get fd auto_create t =
     (let create = (let (ctx, k) = mk_FdCtx (the_kernel t) fd;
                        ds = (if fd \<ge> int (length (m_datas t)) then datas_resize (nat (fd * 3 div 2)) (m_datas t)
                              else m_datas t)
                    in if nat fd < length ds then Inr (Some ctx, t\<lparr>m_datas := ds[nat fd := Some ctx], the_kernel := k\<rparr>)
                       else Inl Bad_index)
      in if int (length (m_datas t)) \<le> fd then
           (if \<not> auto_create then Inr (None, t) else create)
         else if fd < 0 then Inl Bad_index
         else if m_datas t ! nat fd \<noteq> None \<or> \<not> auto_create then Inr (m_datas t ! nat fd, t)
         else create)"

definition fd_del :: "int \<Rightarrow> fd_table \<Rightarrow> fd_table result" where
  "fd_del fd t =
     (if int (length (m_datas t)) \<le> fd then Inr t
      else if fd < 0 then Inl Bad_index
      else Inr (t\<lparr>m_datas := (m_datas t)[nat fd := None]\<rparr>))"

text \<open>Contexts are shared: a change through the pointer is seen in the table.\<close>

definition fd_put :: "int \<Rightarrow> fd_ctx \<Rightarrow> fd_table \<Rightarrow> fd_table" where
  "fd_put fd c t = t\<lparr>m_datas := (m_datas t)[nat fd := Some c]\<rparr>"

section \<open>Laws\<close>

text \<open>What the table holds for a descriptor.\<close>

definition fd_lookup :: "fd_table \<Rightarrow> int \<Rightarrow> fd_ctx option" where
  "fd_lookup t fd = (if 0 \<le> fd \<and> nat fd < length (m_datas t) then m_datas t ! nat fd else None)"

lemma fd_lookup_kernel [simp]: "fd_lookup (t\<lparr>the_kernel := k\<rparr>) fd = fd_lookup t fd"
  by (simp add: fd_lookup_def)

definition fd_inv :: "fd_table \<Rightarrow> bool" where
  "fd_inv t \<longleftrightarrow> 64 \<le> length (m_datas t)
     \<and> (\<forall>fd c. fd_lookup t fd = Some c \<longrightarrow> m_fd c = fd \<and> m_sysNonblock c = m_isSocket c)"

lemma mk_FdCtx_fields:
  "mk_FdCtx k fd = (c, k') \<Longrightarrow> m_fd c = fd \<and> m_sysNonblock c = m_isSocket c
     \<and> m_isSocket c = (k_stat k fd = Some True) \<and> \<not> m_userNonBlock c \<and> \<not> m_isClosed c
     \<and> m_recvTimeout c = -1 \<and> m_sendTimeout c = -1"
  by (auto simp: mk_FdCtx_def FdCtx_init_def Let_def split: option.splits)

lemma fd_inv_init: "fd_inv (mk_FdManager k)"
  by (simp add: fd_inv_def mk_FdManager_def fd_lookup_def)

lemma fd_get_lookup: "0 \<le> fd \<Longrightarrow> fd_get fd False t = Inr (fd_lookup t fd, t)"
  by (auto simp: fd_get_def fd_lookup_def)

lemma fd_put_lookup:
  "fd_lookup t fd \<noteq> None \<Longrightarrow> fd_lookup (fd_put fd c t) fd' = (if fd' = fd then Some c else fd_lookup t fd')"
  by (auto simp: fd_lookup_def fd_put_def nth_list_update split: if_splits)

lemma fd_del_lookup:
  "0 \<le> fd \<Longrightarrow> \<exists>t'. fd_del fd t = Inr t' \<and> length (m_datas t') = length (m_datas t)
     \<and> (\<forall>fd'. fd_lookup t' fd' = (if fd' = fd then None else fd_lookup t fd'))"
  by (auto simp: fd_del_def fd_lookup_def nth_list_update)

lemma fd_create_lookup:
  assumes "fd_inv t" and "0 \<le> fd" and "fd_lookup t fd = None"
  shows "\<exists>c t'. fd_get fd True t = Inr (Some c, t') \<and> fd_inv t'
     \<and> fst (mk_FdCtx (the_kernel t) fd) = c \<and> the_kernel t' = snd (mk_FdCtx (the_kernel t) fd)
     \<and> (\<forall>fd'. fd_lookup t' fd' = (if fd' = fd then Some c else fd_lookup t fd'))"
proof -
  obtain c k where ck: "mk_FdCtx (the_kernel t) fd = (c, k)" by fastforce
  define ds where "ds = (if fd \<ge> int (length (m_datas t)) then datas_resize (nat (fd * 3 div 2)) (m_datas t) else m_datas t)"
  have len: "64 \<le> length (m_datas t)" using assms(1) by (simp add: fd_inv_def)
  have l: "nat fd < length ds" "length (m_datas t) \<le> length ds"
    using assms(2) len by (auto simp: ds_def datas_resize_def)
  have old: "ds ! i = (if i < length (m_datas t) then m_datas t ! i else None)" if "i < length ds" for i
    using that l(2) by (auto simp: ds_def datas_resize_def nth_append)
  define t' where "t' = t\<lparr>m_datas := ds[nat fd := Some c], the_kernel := k\<rparr>"
  have run: "fd_get fd True t = Inr (Some c, t')"
    using assms(2,3) l ck by (auto simp: fd_get_def fd_lookup_def ds_def t'_def Let_def split: if_splits)
  have look: "fd_lookup t' fd' = (if fd' = fd then Some c else fd_lookup t fd')" for fd'
    using assms(2) l old [of "nat fd'"] by (auto simp: fd_lookup_def t'_def nth_list_update)
  have "fd_inv t'" using assms(1) len l mk_FdCtx_fields [OF ck] look
    by (auto simp: fd_inv_def t'_def split: if_splits)
  with run look ck show ?thesis by (auto simp: t'_def)
qed

section \<open>Properties\<close>

text \<open>The descriptor table never indexes out of range for a descriptor that is not negative: creating
  a context for any such descriptor succeeds (the table grows to one and a half times the
  descriptor), gives exactly that descriptor a context and leaves all others; deleting it
  removes exactly that context.\<close>

theorem fd_table_create_delete:
  assumes "fd_inv t" and "0 \<le> fd" and "fd_lookup t fd = None"
  shows "\<exists>c t1 t2. fd_get fd True t = Inr (Some c, t1) \<and> fd_get fd False t1 = Inr (Some c, t1)
     \<and> m_fd c = fd \<and> m_isSocket c = (k_stat (the_kernel t) fd = Some True)
     \<and> (\<forall>fd' \<ge> 0. fd' \<noteq> fd \<longrightarrow> fd_get fd' False t1 = Inr (fd_lookup t fd', t1))
     \<and> fd_del fd t1 = Inr t2 \<and> (\<forall>fd'. fd_lookup t2 fd' = fd_lookup t fd')"
proof -
  obtain c t1 where c: "fd_get fd True t = Inr (Some c, t1)" "fst (mk_FdCtx (the_kernel t) fd) = c"
      "\<forall>fd'. fd_lookup t1 fd' = (if fd' = fd then Some c else fd_lookup t fd')"
    using fd_create_lookup [OF assms] by blast
  have f: "m_fd c = fd \<and> m_isSocket c = (k_stat (the_kernel t) fd = Some True)"
    using c(2) mk_FdCtx_fields [of "the_kernel t" fd] by (metis prod.collapse)
  obtain t2 where "fd_del fd t1 = Inr t2" "\<forall>fd'. fd_lookup t2 fd' = (if fd' = fd then None else fd_lookup t1 fd')"
    using fd_del_lookup [OF assms(2)] by blast
  then show ?thesis using c f assms(2,3) by (auto simp: fd_get_lookup)
qed

theorem fd_table_create_delete_witness:
  "\<exists>c t1. fd_get 100 True (mk_FdManager \<lparr>k_stat = \<lambda>_. Some True, k_flags = \<lambda>_. 0\<rparr>) = Inr (Some c, t1) \<and> m_isSocket c"
  using fd_table_create_delete [OF fd_inv_init, of 100 "\<lparr>k_stat = \<lambda>_. Some True, k_flags = \<lambda>_. 0\<rparr>"]
  by (auto simp: fd_lookup_def mk_FdManager_def)

end
