(* ===== verification/Hooks.thy ===== *)
theory Hooks
  imports FdManagers "HOL-Library.Signed_Division"
begin

unbundle bit_operations_syntax

text \<open>
  The replaced system calls (\<^verbatim>\<open>dwframe/hook.h\<close>, \<^verbatim>\<open>dwframe/hook.cc\<close>). What the kernel and the event loop
  answer is an input: \<open>calls\<close> are the successive results of the real system call with their \<^verbatim>\<open>errno\<close>,
  \<open>waits\<close> the successive outcomes of waiting: the result of \<^verbatim>\<open>addEvent\<close>, the \<^verbatim>\<open>errno\<close> it leaves, and
  \<^verbatim>\<open>tinfo->cacelled\<close> when the fiber runs again. The result \<open>None\<close> means that the inputs end before
  the call returns. Beside the return value and \<^verbatim>\<open>errno\<close> a call yields what it did, in order.
\<close>

section \<open>System call results\<close>

abbreviation (input) EINTR :: int where "EINTR \<equiv> 4"
abbreviation (input) EBADF :: int where "EBADF \<equiv> 9"
abbreviation (input) EAGAIN :: int where "EAGAIN \<equiv> 11"
abbreviation (input) ETIMEDOUT :: int where "ETIMEDOUT \<equiv> 110"
abbreviation (input) EINPROGRESS :: int where "EINPROGRESS \<equiv> 115"

type_synonym sys_ret = "int \<times> int"

record wait_outcome =
  add_rt :: int
  add_errno :: int
  cacelled :: int

datatype io_action =
    Act_call
  | Act_timer uint64
  | Act_addEvent uint32
  | Act_yield
  | Act_timer_cancel

type_synonym io_outcome = "(sys_ret \<times> io_action list) result option"

definition then_do :: "io_action list \<Rightarrow> io_outcome \<Rightarrow> io_outcome" where
  "then_do acts r = map_option (\<lambda>x. bindE x (\<lambda>(v, rest). Inr (v, acts @ rest))) r"

text \<open>The timer callback of a wait: \<open>None\<close> when the \<^verbatim>\<open>timer_info\<close> is gone. The result says what
  \<^verbatim>\<open>cacelled\<close> becomes when the event is cancelled.\<close>

definition on_wait_timeout :: "int option \<Rightarrow> int option" where
  "on_wait_timeout t = (case t of None \<Rightarrow> None | Some c \<Rightarrow> if c \<noteq> 0 then None else Some ETIMEDOUT)"

section \<open>Reading and writing\<close>

definition arm :: "uint64 \<Rightarrow> io_action list" where
  "arm to = (if to \<noteq> -1 then [Act_timer to] else [])"

definition disarm :: "uint64 \<Rightarrow> io_action list" where
  "disarm to = (if to \<noteq> -1 then [Act_timer_cancel] else [])"

text \<open>From the label \<^verbatim>\<open>retry\<close> on; \<open>iom\<close> says that the thread has an \<^verbatim>\<open>IOManager\<close>.\<close>

fun do_io_retry :: "bool \<Rightarrow> uint64 \<Rightarrow> uint32 \<Rightarrow> sys_ret list \<Rightarrow> wait_outcome list \<Rightarrow> io_outcome" where
  "do_io_retry iom to ev [] ws = None"
| "do_io_retry iom to ev ((n, err) # calls) ws =
     (if n = -1 \<and> err = EINTR then then_do [Act_call] (do_io_retry iom to ev calls ws)
      else if n = -1 \<and> err = EAGAIN then
        (if \<not> iom then Some (Inl Null_dereference)
         else case ws of [] \<Rightarrow> None
         | x # ws' \<Rightarrow>
           if add_rt x \<noteq> 0 then Some (Inr ((-1, add_errno x), Act_call # arm to @ [Act_addEvent ev] @ disarm to))
           else let acts = Act_call # arm to @ [Act_addEvent ev, Act_yield] @ disarm to in
             if cacelled x \<noteq> 0 then Some (Inr ((-1, cacelled x), acts))
             else then_do acts (do_io_retry iom to ev calls ws'))
      else Some (Inr ((n, err), [Act_call])))"

definition direct_call :: "sys_ret list \<Rightarrow> io_outcome" where
  "direct_call calls = (case calls of [] \<Rightarrow> None | c # _ \<Rightarrow> Some (Inr (c, [Act_call])))"

definition do_io ::
  "bool \<Rightarrow> fd_ctx option \<Rightarrow> bool \<Rightarrow> uint32 \<Rightarrow> timeout_so \<Rightarrow> sys_ret list \<Rightarrow> wait_outcome list \<Rightarrow> io_outcome" where
  "do_io hook_enable ctx iom ev so calls ws =
     (if \<not> hook_enable then direct_call calls
      else case ctx of
        None \<Rightarrow> direct_call calls
      | Some c \<Rightarrow>
        if m_isClosed c then Some (Inr ((-1, EBADF), []))
        else if \<not> m_isSocket c \<or> m_userNonBlock c then direct_call calls
        else do_io_retry iom (getTimeout so c) ev calls ws)"

datatype io_fun = Read | Readv | Recv | Recvfrom | Recvmsg | Write | Writev | Send | Sendto | Sendmsg

fun io_event :: "io_fun \<Rightarrow> uint32" where
  "io_event Read = 1" | "io_event Readv = 1" | "io_event Recv = 1" | "io_event Recvfrom = 1" | "io_event Recvmsg = 1"
| "io_event Write = 4" | "io_event Writev = 4" | "io_event Send = 4" | "io_event Sendto = 4" | "io_event Sendmsg = 4"

fun io_timeout :: "io_fun \<Rightarrow> timeout_so" where
  "io_timeout Read = SO_RCVTIMEO" | "io_timeout Readv = SO_RCVTIMEO" | "io_timeout Recv = SO_RCVTIMEO"
| "io_timeout Recvfrom = SO_RCVTIMEO" | "io_timeout Recvmsg = SO_RCVTIMEO"
| "io_timeout Write = SO_SNDTIMEO" | "io_timeout Writev = SO_SNDTIMEO" | "io_timeout Send = SO_SNDTIMEO"
| "io_timeout Sendto = SO_SNDTIMEO" | "io_timeout Sendmsg = SO_SNDTIMEO"

definition hooked_io :: "io_fun \<Rightarrow> bool \<Rightarrow> fd_ctx option \<Rightarrow> bool \<Rightarrow> sys_ret list \<Rightarrow> wait_outcome list \<Rightarrow> io_outcome" where
  "hooked_io f hook_enable ctx iom calls ws = do_io hook_enable ctx iom (io_event f) (io_timeout f) calls ws"

text \<open>\<^verbatim>\<open>accept\<close> enters the new descriptor into the table.\<close>

definition hooked_accept ::
  "bool \<Rightarrow> fd_ctx option \<Rightarrow> bool \<Rightarrow> sys_ret list \<Rightarrow> wait_outcome list \<Rightarrow> fd_table \<Rightarrow> (sys_ret \<times> fd_table) result option" where
  "hooked_accept hook_enable ctx iom calls ws t =
     map_option (\<lambda>r. bindE r (\<lambda>((fd, err), _).
       if fd \<ge> 0 then bindE (fd_get fd True t) (\<lambda>(_, t'). Inr ((fd, err), t')) else Inr ((fd, err), t)))
       (do_io hook_enable ctx iom 1 SO_RCVTIMEO calls ws)"

section \<open>Connecting\<close>

text \<open>\<open>sock_error\<close> is what \<^verbatim>\<open>getsockopt(SO_ERROR)\<close> answers: its result, its \<^verbatim>\<open>errno\<close> and the pending error.\<close>

definition connect_status :: "int \<times> int \<times> int \<Rightarrow> sys_ret" where
  "connect_status e = (case e of (rt, err, pend) \<Rightarrow>
     if rt = -1 then (-1, err) else if pend = 0 then (0, err) else (-1, pend))"

definition connect_with_timeout ::
  "bool \<Rightarrow> fd_ctx option \<Rightarrow> bool \<Rightarrow> uint64 \<Rightarrow> sys_ret \<Rightarrow> wait_outcome \<Rightarrow> int \<times> int \<times> int
     \<Rightarrow> (sys_ret \<times> io_action list) result" where
  "connect_with_timeout hook_enable ctx iom timeout_ms call x sock_error =
     (if \<not> hook_enable then Inr (call, [Act_call])
      else case ctx of
        None \<Rightarrow> Inr ((-1, EBADF), [])
      | Some c \<Rightarrow>
        if m_isClosed c then Inr ((-1, EBADF), [])
        else if \<not> m_isSocket c then Inr (call, [Act_call])
        else if m_userNonBlock c then Inr (call, [Act_call])
        else if fst call = 0 then Inr ((0, snd call), [Act_call])
        else if fst call \<noteq> -1 \<or> snd call \<noteq> EINPROGRESS then Inr (call, [Act_call])
        else if \<not> iom then Inl Null_dereference
        else if add_rt x = 0 then
          let acts = Act_call # arm timeout_ms @ [Act_addEvent 4, Act_yield] @ disarm timeout_ms in
          if cacelled x \<noteq> 0 then Inr ((-1, cacelled x), acts) else Inr (connect_status sock_error, acts)
        else Inr (connect_status sock_error, Act_call # arm timeout_ms @ [Act_addEvent 4] @ disarm timeout_ms))"

section \<open>Sleeping\<close>

text \<open>The milliseconds the timer is set to; \<open>unsigned int\<close>, \<open>useconds_t\<close> and the \<open>int\<close> of \<^verbatim>\<open>nanosleep\<close> have 32 bits.\<close>

definition sleep_ms :: "uint32 \<Rightarrow> uint64" where
  "sleep_ms seconds = ucast (seconds * 1000)"

definition usleep_ms :: "uint32 \<Rightarrow> uint64" where
  "usleep_ms usec = ucast (usec div 1000)"

definition nanosleep_ms :: "int \<Rightarrow> int \<Rightarrow> uint64" where
  "nanosleep_ms tv_sec tv_nsec =
     scast (word_of_int (tv_sec * 1000 + (tv_nsec sdiv 1000) sdiv 1000) :: uint32)"

text \<open>The timer wakes the calling fiber; the call itself returns 0.\<close>

definition hooked_sleep :: "bool \<Rightarrow> uint64 \<Rightarrow> int \<Rightarrow> int \<times> io_action list" where
  "hooked_sleep hook_enable ms real = (if \<not> hook_enable then (real, [Act_call]) else (0, [Act_timer ms, Act_yield]))"

section \<open>Sockets and their options\<close>

definition hooked_socket :: "bool \<Rightarrow> int \<Rightarrow> fd_table \<Rightarrow> (int \<times> fd_table) result" where
  "hooked_socket hook_enable fd t =
     (if \<not> hook_enable then Inr (fd, t)
      else if fd = -1 then Inr (fd, t)
      else bindE (fd_get fd True t) (\<lambda>(_, t'). Inr (fd, t')))"

text \<open>The flag says that \<^verbatim>\<open>cancelALL(fd)\<close> was called.\<close>

definition hooked_close :: "bool \<Rightarrow> bool \<Rightarrow> int \<Rightarrow> fd_table \<Rightarrow> (bool \<times> fd_table) result" where
  "hooked_close hook_enable iom fd t =
     (if \<not> hook_enable then Inr (False, t)
      else bindE (fd_get fd False t) (\<lambda>(ctx, t1).
        if ctx = None then Inr (False, t1)
        else bindE (fd_del fd t1) (\<lambda>t2. Inr (iom, t2))))"

definition unmanaged :: "fd_ctx option \<Rightarrow> bool" where
  "unmanaged ctx = (case ctx of None \<Rightarrow> True | Some c \<Rightarrow> m_isClosed c \<or> \<not> m_isSocket c)"

definition hooked_setfl :: "int \<Rightarrow> uint32 \<Rightarrow> fd_table \<Rightarrow> fd_table result" where
  "hooked_setfl fd arg t =
     bindE (fd_get fd False t) (\<lambda>(ctx, t1).
     if unmanaged ctx then Inr (t1\<lparr>the_kernel := fcntl_setfl (the_kernel t1) fd arg\<rparr>)
     else let c = the ctx;
              t2 = fd_put fd (setUserNonblock (arg AND O_NONBLOCK \<noteq> 0) c) t1;
              arg' = (if m_sysNonblock c then arg OR O_NONBLOCK else arg AND NOT O_NONBLOCK)
          in Inr (t2\<lparr>the_kernel := fcntl_setfl (the_kernel t2) fd arg'\<rparr>))"

definition hooked_getfl :: "int \<Rightarrow> fd_table \<Rightarrow> uint32 result" where
  "hooked_getfl fd t =
     (let arg = fcntl_getfl (the_kernel t) fd in
      bindE (fd_get fd False t) (\<lambda>(ctx, t1).
      if unmanaged ctx then Inr arg
      else if m_userNonBlock (the ctx) then Inr (arg OR O_NONBLOCK) else Inr (arg AND NOT O_NONBLOCK)))"

datatype fcntl_cmd = F_SETFL uint32 | F_GETFL | F_other

definition hooked_fcntl :: "int \<Rightarrow> fcntl_cmd \<Rightarrow> uint32 \<Rightarrow> fd_table \<Rightarrow> (uint32 \<times> fd_table) result" where
  "hooked_fcntl fd cmd real t = (case cmd of
      F_SETFL arg \<Rightarrow> bindE (hooked_setfl fd arg t) (\<lambda>t'. Inr (0, t'))
    | F_GETFL \<Rightarrow> bindE (hooked_getfl fd t) (\<lambda>v. Inr (v, t))
    | F_other \<Rightarrow> Inr (real, t))"

text \<open>\<^verbatim>\<open>ioctl(FIONBIO)\<close>: the kernel sets or clears its own flag as it is told.\<close>

definition kernel_fionbio :: "kern \<Rightarrow> int \<Rightarrow> bool \<Rightarrow> kern" where
  "kernel_fionbio k fd on = fcntl_setfl k fd
     (if on then k_flags k fd OR O_NONBLOCK else k_flags k fd AND NOT O_NONBLOCK)"

definition hooked_ioctl_fionbio :: "int \<Rightarrow> bool \<Rightarrow> fd_table \<Rightarrow> fd_table result" where
  "hooked_ioctl_fionbio fd on t =
     bindE (fd_get fd False t) (\<lambda>(ctx, t1).
     let t2 = (if unmanaged ctx then t1 else fd_put fd (setUserNonblock on (the ctx)) t1)
     in Inr (t2\<lparr>the_kernel := kernel_fionbio (the_kernel t2) fd on\<rparr>))"

text \<open>\<^verbatim>\<open>setsockopt\<close>: \<open>so\<close> is \<open>None\<close> for a level or an option other than the two timeouts.\<close>

definition hooked_setsockopt :: "bool \<Rightarrow> int \<Rightarrow> timeout_so option \<Rightarrow> uint64 \<Rightarrow> uint64 \<Rightarrow> fd_table \<Rightarrow> fd_table result" where
  "hooked_setsockopt hook_enable fd so tv_sec tv_usec t =
     (if \<not> hook_enable then Inr t
      else case so of None \<Rightarrow> Inr t
      | Some s \<Rightarrow> bindE (fd_get fd False t) (\<lambda>(ctx, t1).
          Inr (case ctx of None \<Rightarrow> t1 | Some c \<Rightarrow> fd_put fd (setTimeout s (tv_sec * 1000 + tv_usec div 1000) c) t1)))"

section \<open>Blocking calls\<close>

text \<open>An answer that makes the loop go on.\<close>

definition again :: "sys_ret \<Rightarrow> bool" where
  "again c \<longleftrightarrow> fst c = -1 \<and> (snd c = EINTR \<or> snd c = EAGAIN)"

definition waits_ok :: "wait_outcome list \<Rightarrow> bool" where
  "waits_ok ws \<longleftrightarrow> (\<forall>x \<in> set ws. add_rt x = 0 \<and> cacelled x = 0)"

definition count_act :: "io_action list \<Rightarrow> (io_action \<Rightarrow> bool) \<Rightarrow> nat" where
  "count_act acts P = length (filter P acts)"

lemma then_do_simps [simp]:
  "then_do acts None = None"
  "then_do acts (Some (Inl f)) = Some (Inl f)"
  "then_do acts (Some (Inr (v, rest))) = Some (Inr (v, acts @ rest))"
  by (simp_all add: then_do_def)

lemma then_do_Inr:
  "then_do acts r = Some (Inr (v, all)) \<longleftrightarrow> (\<exists>rest. r = Some (Inr (v, rest)) \<and> all = acts @ rest)"
  by (cases r; cases v) (auto simp: then_do_def bindE_eq_Inr)

lemma do_io_retry_answer:
  assumes "\<forall>c \<in> set pre. again c" and "\<not> again c" and "waits_ok ws"
    and "length (filter (\<lambda>c. snd c = EAGAIN) pre) \<le> length ws"
  shows "\<exists>acts. do_io_retry True to ev (pre @ c # rest) ws = Some (Inr (c, acts))"
  using assms
proof (induction pre arbitrary: ws)
  case Nil
  then show ?case by (cases c) (auto simp: again_def)
next
  case (Cons p pre)
  obtain n err where p: "p = (n, err)" by fastforce
  show ?case
  proof (cases "err = EINTR")
    case True
    have "\<exists>acts. do_io_retry True to ev (pre @ c # rest) ws = Some (Inr (c, acts))"
      using Cons.prems True by (intro Cons.IH) (auto simp: p)
    then show ?thesis using Cons.prems True by (auto simp: p again_def)
  next
    case False
    then have ag: "n = -1" "err = EAGAIN" using Cons.prems by (auto simp: p again_def)
    then obtain x ws' where ws: "ws = x # ws'" using Cons.prems(4) by (cases ws) (auto simp: p)
    have "\<exists>acts. do_io_retry True to ev (pre @ c # rest) ws' = Some (Inr (c, acts))"
      using Cons.prems ag ws by (intro Cons.IH) (auto simp: p waits_ok_def)
    then show ?thesis using Cons.prems ag ws by (auto simp: p waits_ok_def Let_def)
  qed
qed

lemma arm_disarm:
  "count_act (arm to) (\<lambda>a. \<exists>t. a = Act_timer t) = of_bool (to \<noteq> -1)"
  "count_act (disarm to) (\<lambda>a. \<exists>t. a = Act_timer t) = 0"
  "count_act (arm to) (\<lambda>a. a = Act_timer_cancel) = 0"
  "count_act (disarm to) (\<lambda>a. a = Act_timer_cancel) = of_bool (to \<noteq> -1)"
  by (auto simp: arm_def disarm_def count_act_def)

lemma count_act_simps [simp]:
  "count_act [] P = 0" "count_act (a # as) P = of_bool (P a) + count_act as P"
  "count_act (as @ bs) P = count_act as P + count_act bs P"
  by (auto simp: count_act_def)

lemma do_io_retry_outcome:
  "do_io_retry iom to ev calls ws = Some (Inr ((n, err), acts)) \<Longrightarrow>
     count_act acts (\<lambda>a. \<exists>t. a = Act_timer t) = count_act acts (\<lambda>a. a = Act_timer_cancel)
   \<and> (n = -1 \<longrightarrow> err = EINTR \<or> err = EAGAIN \<longrightarrow>
        (\<exists>x \<in> set ws. add_rt x \<noteq> 0 \<and> err = add_errno x \<or> cacelled x \<noteq> 0 \<and> err = cacelled x))"
proof (induction iom to ev calls ws arbitrary: acts rule: do_io_retry.induct)
  case (2 iom to ev m e calls ws)
  show ?case
  proof (cases "m = -1 \<and> e = EINTR")
    case True
    then obtain rest where "do_io_retry iom to ev calls ws = Some (Inr ((n, err), rest))" "acts = Act_call # rest"
      using "2.prems" by (auto simp: then_do_Inr)
    with "2.IH"(1) [OF True] show ?thesis by auto
  next
    case nint: False
    show ?thesis
    proof (cases "m = -1 \<and> e = EAGAIN")
      case True
      then obtain x ws' where ws: "ws = x # ws'" and iom using "2.prems" by (cases ws) (auto split: if_splits)
      show ?thesis
      proof (cases "add_rt x \<noteq> 0 \<or> cacelled x \<noteq> 0")
        case True
        then show ?thesis using "2.prems" nint \<open>m = -1 \<and> e = EAGAIN\<close> ws \<open>iom\<close>
          by (auto simp: arm_disarm Let_def split: if_splits)
      next
        case False
        then obtain rest where rest: "do_io_retry iom to ev calls ws' = Some (Inr ((n, err), rest))"
            "acts = Act_call # arm to @ [Act_addEvent ev, Act_yield] @ disarm to @ rest"
          using "2.prems" True ws \<open>iom\<close> by (auto simp: then_do_Inr Let_def)
        from "2.IH"(2) [OF nint True _ ws _ refl _ rest(1)] False \<open>iom\<close> show ?thesis
          using rest(2) ws by (auto simp: arm_disarm)
      qed
    next
      case False
      then show ?thesis using "2.prems" nint by (auto split: if_splits)
    qed
  qed
qed simp

section \<open>Properties\<close>

definition blocking_socket :: "fd_ctx \<Rightarrow> bool" where
  "blocking_socket c \<longleftrightarrow> m_isSocket c \<and> \<not> m_isClosed c \<and> \<not> m_userNonBlock c"

text \<open>C31: On a socket its owner uses in blocking mode, a hooked read or write behaves like a blocking
  call: it retries through interruptions and waits through \<^verbatim>\<open>EAGAIN\<close> until the first definite answer of
  the system call and returns that answer, provided waiting can be registered and does not time
  out, however many interruptions and waits there are.\<close>

theorem hooked_io_waits_for_answer:
  assumes "blocking_socket c" and "\<forall>r \<in> set pre. again r" and "\<not> again a" and "waits_ok ws"
    and "length (filter (\<lambda>r. snd r = EAGAIN) pre) \<le> length ws"
  shows "\<exists>acts. hooked_io f True (Some c) True (pre @ a # post) ws = Some (Inr (a, acts))"
  using assms(1) do_io_retry_answer [OF assms(2-5), of "getTimeout (io_timeout f) c" "io_event f" post]
  by (simp add: hooked_io_def do_io_def blocking_socket_def)

definition example_ctx :: fd_ctx where
  "example_ctx = \<lparr>m_isInit = True, m_isSocket = True, m_sysNonblock = True, m_userNonBlock = False,
     m_isClosed = False, m_fd = 5, m_recvTimeout = 100, m_sendTimeout = -1\<rparr>"

theorem hooked_io_waits_for_answer_witness:
  "\<exists>acts. hooked_io Read True (Some example_ctx) True [(-1, 4), (-1, 11), (17, 0)]
     [\<lparr>add_rt = 0, add_errno = 0, cacelled = 0\<rparr>] = Some (Inr ((17, 0), acts))"
  using hooked_io_waits_for_answer [of example_ctx "[(-1, 4), (-1, 11)]" "(17, 0)"
      "[\<lparr>add_rt = 0, add_errno = 0, cacelled = 0\<rparr>]" Read "[]"]
  by (simp add: blocking_socket_def example_ctx_def again_def waits_ok_def)



lemma bit_nonblock: "bit (0x800 :: uint32) n \<longleftrightarrow> n = 11"
proof -
  have b: "(0x800 :: uint32) = 2 ^ 11" by simp
  show ?thesis by (subst b, subst bit_exp_iff) (auto simp: possible_bit_def)
qed

lemma nonblock_bits:
  "(x OR 0x800) AND NOT 0x800 = x AND NOT (0x800 :: uint32)" "(x OR 0x800) OR 0x800 = x OR (0x800 :: uint32)"
  "x AND 0x800 \<noteq> 0 \<Longrightarrow> x OR 0x800 = (x :: uint32)" "x AND 0x800 = 0 \<Longrightarrow> x AND NOT 0x800 = (x :: uint32)"
proof -
  show "(x OR 0x800) AND NOT 0x800 = x AND NOT (0x800 :: uint32)"
    by (auto intro!: bit_word_eqI simp: bit_simps)
  show "(x OR 0x800) OR 0x800 = x OR (0x800 :: uint32)" by (simp add: or.assoc)
  have set: "x AND 0x800 \<noteq> 0 \<longleftrightarrow> bit x 11"
    using bit_word_eqI [of "x AND 0x800" 0] bit_and_iff [of x "0x800 :: uint32" 11]
    by (metis bit_0_eq bit_and_iff bit_nonblock bot_apply bot_bool_def)
  show "x AND 0x800 \<noteq> 0 \<Longrightarrow> x OR 0x800 = x"
    unfolding set by (intro bit_word_eqI) (auto simp only: bit_or_iff bit_nonblock)
  show "x AND NOT 0x800 = x" if "x AND 0x800 = 0"
  proof (rule bit_word_eqI)
    fix n assume "n < LENGTH(32)"
    moreover have "\<not> bit x 11" using that set by blast
    ultimately show "bit (x AND NOT 0x800) n = bit x n"
      by (auto simp only: bit_and_iff bit_not_iff bit_nonblock possible_bit_word)
  qed
qed

text \<open>On a managed socket \<^verbatim>\<open>fcntl(F_SETFL, arg)\<close> followed by \<^verbatim>\<open>fcntl(F_GETFL)\<close> gives back \<open>arg\<close>, while the
  kernel's own flags always keep \<^verbatim>\<open>O_NONBLOCK\<close>: the owner sees the mode it asked for and the hooks
  can still wait without blocking the thread.\<close>

theorem fcntl_roundtrip:
  assumes "fd_inv t" and "0 \<le> fd" and "fd_lookup t fd = Some c" and "m_isSocket c" and "\<not> m_isClosed c"
  shows "\<exists>t'. hooked_fcntl fd (F_SETFL arg) real t = Inr (0, t') \<and> hooked_fcntl fd F_GETFL real' t' = Inr (arg, t')
     \<and> fcntl_getfl (the_kernel t') fd = arg OR O_NONBLOCK"
proof -
  have sys: "m_sysNonblock c" using assms by (auto simp: fd_inv_def)
  let ?c = "setUserNonblock (arg AND O_NONBLOCK \<noteq> 0) c"
  let ?t2 = "fd_put fd ?c t"
  let ?t' = "?t2\<lparr>the_kernel := fcntl_setfl (the_kernel ?t2) fd (arg OR O_NONBLOCK)\<rparr>"
  have set: "hooked_setfl fd arg t = Inr ?t'"
    using assms sys by (simp add: hooked_setfl_def fd_get_lookup unmanaged_def Let_def)
  have look: "fd_lookup ?t' fd = Some ?c"
    using fd_put_lookup [of t fd ?c fd] assms(3) by simp
  have visible: "(if arg AND O_NONBLOCK \<noteq> 0 then (arg OR O_NONBLOCK) OR O_NONBLOCK
      else (arg OR O_NONBLOCK) AND NOT O_NONBLOCK) = arg"
    using nonblock_bits by metis
  have flags: "fcntl_getfl (the_kernel ?t') fd = arg OR O_NONBLOCK" by (simp add: fcntl_getfl_def fcntl_setfl_def)
  have get: "hooked_getfl fd ?t' = Inr arg"
    unfolding hooked_getfl_def flags Let_def fd_get_lookup [OF assms(2)] look
    using assms(4,5) visible by (simp add: unmanaged_def setUserNonblock_def split: if_splits)
  show ?thesis using set get by (simp add: hooked_fcntl_def fcntl_getfl_def fcntl_setfl_def)
qed

definition example_table :: fd_table where
  "example_table = \<lparr>m_datas = (replicate 64 None)[5 := Some example_ctx],
     the_kernel = \<lparr>k_stat = \<lambda>_. Some True, k_flags = \<lambda>_. 0x800\<rparr>\<rparr>"

lemma example_table_ok: "fd_inv example_table" "fd_lookup example_table 5 = Some example_ctx"
proof -
  show "fd_lookup example_table 5 = Some example_ctx" by (simp add: fd_lookup_def example_table_def)
  have "fd_lookup example_table fd = Some c \<Longrightarrow> fd = 5 \<and> c = example_ctx" for fd c
    by (auto simp: fd_lookup_def example_table_def nth_list_update split: if_splits)
  then show "fd_inv example_table" by (fastforce simp: fd_inv_def example_table_def example_ctx_def)
qed

theorem fcntl_roundtrip_witness:
  "\<exists>t'. hooked_fcntl 5 (F_SETFL 2) 0 example_table = Inr (0, t') \<and> hooked_fcntl 5 F_GETFL 0 t' = Inr (2, t')"
  using fcntl_roundtrip [OF example_table_ok(1) _ example_table_ok(2), of 2 0 0] by (auto simp: example_ctx_def)

text \<open>\<^verbatim>\<open>ioctl(FIONBIO)\<close> with 0 on a managed socket clears the kernel's \<^verbatim>\<open>O_NONBLOCK\<close> although the context
  still records the socket as non-blocking for the system (\<^verbatim>\<open>fcntl\<close> keeps the flag): afterwards a
  hooked read blocks the thread and every fiber on it.\<close>

theorem ioctl_loses_nonblock:
  assumes "0 \<le> fd" and "fd_lookup t fd = Some c" and "m_isSocket c" and "\<not> m_isClosed c" and "m_sysNonblock c"
  shows "\<exists>t' c'. hooked_ioctl_fionbio fd False t = Inr t' \<and> fd_lookup t' fd = Some c' \<and> m_sysNonblock c'
     \<and> blocking_socket c' \<and> fcntl_getfl (the_kernel t') fd AND O_NONBLOCK = 0"
proof -
  let ?c = "setUserNonblock False c"
  have "fd_lookup (fd_put fd ?c t) fd = Some ?c" using fd_put_lookup [of t fd ?c fd] assms(2) by simp
  moreover have "(x AND NOT 0x800) AND 0x800 = (0 :: uint32)" for x by (simp add: and.assoc)
  ultimately show ?thesis using assms
    by (simp add: hooked_ioctl_fionbio_def fd_get_lookup unmanaged_def kernel_fionbio_def fcntl_getfl_def
        fcntl_setfl_def setUserNonblock_def blocking_socket_def Let_def)
qed

theorem ioctl_loses_nonblock_witness:
  "\<exists>t' c'. hooked_ioctl_fionbio 5 False example_table = Inr t' \<and> fd_lookup t' 5 = Some c' \<and> m_sysNonblock c'
     \<and> fcntl_getfl (the_kernel t') 5 AND O_NONBLOCK = 0"
  using ioctl_loses_nonblock [OF _ example_table_ok(2)] by (auto simp: example_ctx_def)


end
