(* ===== verification/Sockets.thy ===== *)
theory Sockets
  imports Addresses Hooks "HOL-Library.Multiset"
begin

text \<open>
  Sockets (\<^verbatim>\<open>dwframe/socket.h\<close>, \<^verbatim>\<open>dwframe/socket.cc\<close>). A socket holds the descriptor and the cached addresses; the
  descriptor table of the hooks and the life of the descriptors are the world around it. What the kernel answers to a system
  call is an argument of the operation. Socket options other than the timeouts have no effect on this state; they are in \<open>Socket_Controls\<close>.
\<close>

section \<open>State\<close>

record sock =
  m_sock :: int
  m_family :: uint16
  m_type :: int
  m_protocol :: int
  m_isConnected :: bool
  m_localAddress :: "address option"
  m_remoteAddress :: "address option"

text \<open>The descriptors opened and closed so far, in order; the hooks are on; the calling thread has an IO manager.\<close>

record world =
  fds :: fd_table
  opened :: "int list"
  closed :: "int list"
  hook_on :: bool
  iom_on :: bool

abbreviation (input) TCP :: int where "TCP \<equiv> 1"
abbreviation (input) UDP :: int where "UDP \<equiv> 2"

definition mk_Socket :: "uint16 \<Rightarrow> int \<Rightarrow> int \<Rightarrow> sock" where
  "mk_Socket family type protocol = \<lparr>m_sock = -1, m_family = family, m_type = type, m_protocol = protocol,
     m_isConnected = False, m_localAddress = None, m_remoteAddress = None\<rparr>"

fun getFamily :: "address \<Rightarrow> uint16" where
  "getFamily (IPv4Address a) = sin_family a"
| "getFamily (IPv6Address a) = sin6_family a"
| "getFamily (UnixAddress a) = sun_family a"
| "getFamily (UnknowAddress a) = sa_family a"

definition isVaild :: "sock \<Rightarrow> bool" where
  "isVaild s \<longleftrightarrow> m_sock s \<noteq> -1"

section \<open>Addresses of a socket\<close>

definition unknown_address :: "uint16 \<Rightarrow> address" where
  "unknown_address family = UnknowAddress \<lparr>sa_family = family, sa_data = replicate 14 0\<rparr>"

text \<open>
  \<open>answer\<close> is what \<^verbatim>\<open>getpeername\<close> or \<^verbatim>\<open>getsockname\<close> stores in the address object of the family and the length it reports;
  \<open>None\<close> if it fails.
\<close>

definition address_answer :: "uint16 \<Rightarrow> (address \<times> nat) option \<Rightarrow> address option" where
  "address_answer family answer = (case answer of
      None \<Rightarrow> None
    | Some (a, len) \<Rightarrow> Some (if family = AF_UNIX
        then (case a of UnixAddress u \<Rightarrow> UnixAddress (setAddrlen len u) | _ \<Rightarrow> a) else a))"

definition getRemoteAddress :: "(address \<times> nat) option \<Rightarrow> sock \<Rightarrow> address \<times> sock" where
  "getRemoteAddress answer s = (case m_remoteAddress s of
      Some a \<Rightarrow> (a, s)
    | None \<Rightarrow> (case address_answer (m_family s) answer of
          None \<Rightarrow> (unknown_address (m_family s), s)
        | Some a \<Rightarrow> (a, s\<lparr>m_remoteAddress := Some a\<rparr>)))"

definition getLocalAddress :: "(address \<times> nat) option \<Rightarrow> sock \<Rightarrow> address \<times> sock" where
  "getLocalAddress answer s = (case m_localAddress s of
      Some a \<Rightarrow> (a, s)
    | None \<Rightarrow> (case address_answer (m_family s) answer of
          None \<Rightarrow> (unknown_address (m_family s), s)
        | Some a \<Rightarrow> (a, s\<lparr>m_localAddress := Some a\<rparr>)))"

section \<open>Life of the descriptor\<close>

text \<open>\<open>fd\<close> is what \<^verbatim>\<open>socket\<close> returns.\<close>

definition newSock :: "int \<Rightarrow> sock \<Rightarrow> world \<Rightarrow> (sock \<times> world) result" where
  "newSock fd s w = bindE (hooked_socket (hook_on w) fd (fds w)) (\<lambda>(fd, t).
     Inr (s\<lparr>m_sock := fd\<rparr>, w\<lparr>fds := t, opened := opened w @ (if fd = -1 then [] else [fd])\<rparr>))"

definition CreateTCP :: "uint16 \<Rightarrow> sock" where
  "CreateTCP family = mk_Socket family TCP 0"

definition CreateUDP :: "uint16 \<Rightarrow> int \<Rightarrow> world \<Rightarrow> (sock \<times> world) result" where
  "CreateUDP family fd w = bindE (newSock fd (mk_Socket family UDP 0) w) (\<lambda>(s, w). Inr (s\<lparr>m_isConnected := True\<rparr>, w))"

definition CreateUnixUDPSocket :: sock where
  "CreateUnixUDPSocket = mk_Socket AF_UNIX UDP 0"

definition sock_close :: "sock \<Rightarrow> world \<Rightarrow> (bool \<times> sock \<times> world) result" where
  "sock_close s w =
     (if \<not> m_isConnected s \<and> m_sock s = -1 then Inr (True, s, w)
      else let s1 = s\<lparr>m_isConnected := False\<rparr> in
        if m_sock s1 \<noteq> -1 then
          bindE (hooked_close (hook_on w) (iom_on w) (m_sock s1) (fds w)) (\<lambda>(_, t).
          Inr (False, s1\<lparr>m_sock := -1\<rparr>, w\<lparr>fds := t, closed := closed w @ [m_sock s1]\<rparr>))
        else Inr (False, s1, w))"

definition sock_init :: "int \<Rightarrow> (address \<times> nat) option \<Rightarrow> (address \<times> nat) option \<Rightarrow> sock \<Rightarrow> world \<Rightarrow> (bool \<times> sock) result" where
  "sock_init fd local remote s w = bindE (fd_get fd False (fds w)) (\<lambda>(ctx, _).
     case ctx of
       None \<Rightarrow> Inr (False, s)
     | Some c \<Rightarrow> if m_isSocket c \<and> \<not> m_isClosed c
         then Inr (True, snd (getRemoteAddress remote (snd (getLocalAddress local (s\<lparr>m_sock := fd, m_isConnected := True\<rparr>)))))
         else Inr (False, s))"

text \<open>
  \<open>fd\<close> is what the kernel's \<^verbatim>\<open>accept\<close> returns; the hook adds it to the table. A descriptor that \<^verbatim>\<open>init\<close> refuses is neither
  kept nor closed.
\<close>

definition sock_accept :: "int \<Rightarrow> (address \<times> nat) option \<Rightarrow> (address \<times> nat) option \<Rightarrow> sock \<Rightarrow> world \<Rightarrow> (sock option \<times> world) result" where
  "sock_accept fd local remote s w =
     (let new = mk_Socket (m_family s) (m_type s) (m_protocol s) in
      if fd = -1 then Inr (None, w)
      else bindE (if hook_on w then bindE (fd_get fd True (fds w)) (\<lambda>(_, t). Inr t) else Inr (fds w)) (\<lambda>t.
        let w1 = w\<lparr>fds := t, opened := opened w @ [fd]\<rparr> in
        bindE (sock_init fd local remote new w1) (\<lambda>(ok, new). Inr (if ok then Some new else None, w1))))"

section \<open>Binding and connecting\<close>

definition sock_ensure :: "int \<Rightarrow> sock \<Rightarrow> world \<Rightarrow> (bool \<times> sock \<times> world) result" where
  "sock_ensure fd s w = (if isVaild s then Inr (True, s, w)
     else bindE (newSock fd s w) (\<lambda>(s, w). Inr (isVaild s, s, w)))"

definition sock_bind :: "int \<Rightarrow> bool \<Rightarrow> (address \<times> nat) option \<Rightarrow> address \<Rightarrow> sock \<Rightarrow> world \<Rightarrow> (bool \<times> sock \<times> world) result" where
  "sock_bind fd bind_ok local addr s w = bindE (sock_ensure fd s w) (\<lambda>(ok, s, w).
     if \<not> ok then Inr (False, s, w)
     else if getFamily addr \<noteq> m_family s then Inr (False, s, w)
     else if \<not> bind_ok then Inr (False, s, w)
     else Inr (True, snd (getLocalAddress local s), w))"

text \<open>\<open>rt\<close> is the result of \<^verbatim>\<open>connect\<close> or of \<^verbatim>\<open>connect_with_timeout\<close>, whichever the timeout selects.\<close>

definition sock_connect :: "int \<Rightarrow> int \<Rightarrow> (address \<times> nat) option \<Rightarrow> (address \<times> nat) option \<Rightarrow> address \<Rightarrow> sock \<Rightarrow> world
    \<Rightarrow> (bool \<times> sock \<times> world) result" where
  "sock_connect fd rt local remote addr s w = bindE (sock_ensure fd s w) (\<lambda>(ok, s, w).
     if \<not> ok then Inr (False, s, w)
     else if getFamily addr \<noteq> m_family s then Inr (False, s, w)
     else if rt \<noteq> 0 then bindE (sock_close s w) (\<lambda>(_, s, w). Inr (False, s, w))
     else Inr (True, snd (getLocalAddress local (snd (getRemoteAddress remote (s\<lparr>m_isConnected := True\<rparr>)))), w))"

definition sock_listen :: "bool \<Rightarrow> sock \<Rightarrow> bool" where
  "sock_listen listen_ok s = (if \<not> isVaild s then False else listen_ok)"

section \<open>Timeouts\<close>

text \<open>\<^verbatim>\<open>int\<close> values made from an \<^verbatim>\<open>int64_t\<close>.\<close>

definition to_int :: "int \<Rightarrow> int" where
  "to_int v = sint (word_of_int v :: uint32)"

definition getSockTimeout :: "timeout_so \<Rightarrow> sock \<Rightarrow> world \<Rightarrow> int result" where
  "getSockTimeout so s w = bindE (fd_get (m_sock s) False (fds w)) (\<lambda>(ctx, _).
     Inr (case ctx of None \<Rightarrow> -1 | Some c \<Rightarrow> sint (getTimeout so c)))"

definition setSockTimeout :: "timeout_so \<Rightarrow> int \<Rightarrow> sock \<Rightarrow> world \<Rightarrow> world result" where
  "setSockTimeout so v s w =
     bindE (hooked_setsockopt (hook_on w) (m_sock s) (Some so)
       (word_of_int (to_int (v sdiv 1000))) (word_of_int (to_int (v smod 1000 * 1000))) (fds w)) (\<lambda>t. Inr (w\<lparr>fds := t\<rparr>))"

section \<open>Transfer\<close>

text \<open>
  Sending and receiving: the kernel's result, an \<^verbatim>\<open>ssize_t\<close> returned as \<^verbatim>\<open>int\<close>, or -1 without a call when the socket is not
  connected.
\<close>

definition sock_io :: "(int \<Rightarrow> 'k \<Rightarrow> int \<times> 'r \<times> 'k) \<Rightarrow> 'r \<Rightarrow> sock \<Rightarrow> 'k \<Rightarrow> int \<times> 'r \<times> 'k" where
  "sock_io call none s k = (if m_isConnected s then (case call (m_sock s) k of (r, x, k') \<Rightarrow> (to_int r, x, k'))
     else (-1, none, k))"

definition sock_getError :: "bool \<Rightarrow> int \<Rightarrow> int \<Rightarrow> int" where
  "sock_getError option_ok error errno = (if option_ok then error else errno)"

fun addr_text :: "endian \<Rightarrow> address \<Rightarrow> string" where
  "addr_text host (IPv4Address a) = IPv4_insert host a"
| "addr_text host (IPv6Address a) = IPv6_insert host a"
| "addr_text host (UnixAddress a) = map (\<lambda>b. char_of (unat b)) (Unix_insert a)"
| "addr_text host (UnknowAddress a) = Unknow_insert a"

definition sock_dump :: "endian \<Rightarrow> sock \<Rightarrow> string" where
  "sock_dump host s = ''[Socket sock='' @ show_int (m_sock s) @ '' is_connected='' @ (if m_isConnected s then ''1'' else ''0'')
     @ '' family='' @ show_base 10 (unat (m_family s)) @ '' type='' @ show_int (m_type s) @ '' protocol='' @ show_int (m_protocol s)
     @ (case m_localAddress s of None \<Rightarrow> [] | Some a \<Rightarrow> '' local_address='' @ addr_text host a)
     @ (case m_remoteAddress s of None \<Rightarrow> [] | Some a \<Rightarrow> '' remote_address='' @ addr_text host a) @ '']''"

section \<open>Descriptors are neither leaked nor closed twice\<close>

definition balanced :: "sock \<Rightarrow> world \<Rightarrow> bool" where
  "balanced s w \<longleftrightarrow> mset (opened w) = mset (closed w) + (if m_sock s = -1 then {#} else {#m_sock s#})"

lemma address_keeps [simp]:
  "m_sock (snd (getLocalAddress a s)) = m_sock s" "m_sock (snd (getRemoteAddress a s)) = m_sock s"
  "m_isConnected (snd (getLocalAddress a s)) = m_isConnected s" "m_isConnected (snd (getRemoteAddress a s)) = m_isConnected s"
  by (auto simp: getLocalAddress_def getRemoteAddress_def split: option.splits)

lemma balanced_ensure:
  "balanced s w \<Longrightarrow> sock_ensure fd s w = Inr (ok, s', w') \<Longrightarrow> balanced s' w' \<and> ok = isVaild s'"
  by (auto simp: sock_ensure_def newSock_def balanced_def isVaild_def hooked_socket_def bindE_def
      split: if_splits sum.splits prod.splits)

lemma balanced_close:
  "balanced s w \<Longrightarrow> sock_close s w = Inr (r, s', w') \<Longrightarrow> balanced s' w' \<and> m_sock s' = -1 \<and> \<not> m_isConnected s'"
  by (auto simp: sock_close_def balanced_def bindE_def Let_def split: if_splits sum.splits prod.splits)

text \<open>A socket's life: the operations of its owner in any order.\<close>

inductive sock_life :: "sock \<Rightarrow> world \<Rightarrow> sock \<Rightarrow> world \<Rightarrow> bool" where
  live_refl: "sock_life s w s w"
| live_bind: "sock_life s w s1 w1 \<Longrightarrow> sock_bind fd ok local addr s1 w1 = Inr (r, s2, w2) \<Longrightarrow> sock_life s w s2 w2"
| live_connect: "sock_life s w s1 w1 \<Longrightarrow> sock_connect fd rt local remote addr s1 w1 = Inr (r, s2, w2) \<Longrightarrow> sock_life s w s2 w2"
| live_local: "sock_life s w s1 w1 \<Longrightarrow> sock_life s w (snd (getLocalAddress a s1)) w1"
| live_remote: "sock_life s w s1 w1 \<Longrightarrow> sock_life s w (snd (getRemoteAddress a s1)) w1"
| live_timeout: "sock_life s w s1 w1 \<Longrightarrow> setSockTimeout so v s1 w1 = Inr w2 \<Longrightarrow> sock_life s w s1 w2"
| live_close: "sock_life s w s1 w1 \<Longrightarrow> sock_close s1 w1 = Inr (r, s2, w2) \<Longrightarrow> sock_life s w s2 w2"

lemma sock_bind_balanced: "balanced s w \<Longrightarrow> sock_bind fd ok local addr s w = Inr (r, s', w') \<Longrightarrow> balanced s' w'"
proof -
  assume b: "balanced s w" and c: "sock_bind fd ok local addr s w = Inr (r, s', w')"
  then obtain ok' s1 w1 where e: "sock_ensure fd s w = Inr (ok', s1, w1)"
    by (auto simp: sock_bind_def bindE_def split: sum.splits)
  then show ?thesis using balanced_ensure [OF b e] c by (auto simp: sock_bind_def balanced_def split: if_splits)
qed

lemma sock_connect_balanced: "balanced s w \<Longrightarrow> sock_connect fd rt local remote addr s w = Inr (r, s', w') \<Longrightarrow> balanced s' w'"
proof -
  assume b: "balanced s w" and c: "sock_connect fd rt local remote addr s w = Inr (r, s', w')"
  then obtain ok s1 w1 where e: "sock_ensure fd s w = Inr (ok, s1, w1)"
    by (auto simp: sock_connect_def bindE_def split: sum.splits)
  have b1: "balanced s1 w1" using balanced_ensure [OF b e] by simp
  show ?thesis
  proof (cases "ok \<and> getFamily addr = m_family s1 \<and> rt \<noteq> 0")
    case True
    then obtain q where "sock_close s1 w1 = Inr (q, s', w')"
      using c e by (auto simp: sock_connect_def bindE_def split: sum.splits)
    then show ?thesis using balanced_close [OF b1] by blast
  next
    case False
    then show ?thesis using c e b1 by (auto simp: sock_connect_def balanced_def split: if_splits)
  qed
qed

lemma setSockTimeout_keeps: "setSockTimeout so v s w = Inr w' \<Longrightarrow> opened w' = opened w \<and> closed w' = closed w"
  by (auto simp: setSockTimeout_def bindE_def split: sum.splits)

lemma sock_life_balanced: "sock_life s w s' w' \<Longrightarrow> balanced s w \<Longrightarrow> balanced s' w'"
proof (induction rule: sock_life.induct)
  case (live_bind s w s1 w1 fd ok local addr r s2 w2)
  then show ?case using sock_bind_balanced by blast
next
  case (live_connect s w s1 w1 fd rt local remote addr r s2 w2)
  then show ?case using sock_connect_balanced by blast
next
  case (live_timeout s w s1 w1 so v w2)
  then show ?case using setSockTimeout_keeps by (auto simp: balanced_def)
next
  case (live_close s w s1 w1 r s2 w2)
  then show ?case using balanced_close by blast
qed (auto simp: balanced_def)

text \<open>
  C36: A socket neither leaks nor closes twice. Whatever a new socket is used for (binding, connecting with success or failure,
  closing, being opened again), once it is closed, as its destructor does, every descriptor it opened has been closed exactly once.
\<close>

theorem socket_descriptors_balanced:
  assumes "sock_life (mk_Socket family type protocol) w s w'" and "opened w = []" and "closed w = []"
    and "sock_close s w' = Inr (r, s2, w2)"
  shows "mset (closed w2) = mset (opened w2) \<and> m_sock s2 = -1 \<and> \<not> m_isConnected s2"
proof -
  have "balanced (mk_Socket family type protocol) w" using assms(2,3) by (simp add: balanced_def mk_Socket_def)
  from balanced_close [OF sock_life_balanced [OF assms(1) this] assms(4)] show ?thesis by (simp add: balanced_def)
qed

definition quiet_world :: world where
  "quiet_world = \<lparr>fds = example_table, opened = [], closed = [], hook_on = False, iom_on = False\<rparr>"

lemma socket_descriptors_balanced_witness:
  "\<exists>s w2 s2. sock_life (mk_Socket AF_INET TCP 0) quiet_world s (quiet_world\<lparr>opened := [7]\<rparr>)
     \<and> sock_close s (quiet_world\<lparr>opened := [7]\<rparr>) = Inr (False, s2, w2) \<and> closed w2 = [7] \<and> mset (closed w2) = mset (opened w2)"
proof -
  let ?a = "IPv4Address (mk_IPv4 Little_endian 0 80)"
  let ?s = "(mk_Socket AF_INET TCP 0)\<lparr>m_sock := 7\<rparr>" and ?w = "quiet_world\<lparr>opened := [7]\<rparr>"
  have "sock_bind 7 False None ?a (mk_Socket AF_INET TCP 0) quiet_world = Inr (False, ?s, ?w)"
    by (simp add: sock_bind_def sock_ensure_def isVaild_def newSock_def hooked_socket_def mk_Socket_def quiet_world_def mk_IPv4_def)
  then have life: "sock_life (mk_Socket AF_INET TCP 0) quiet_world ?s ?w" by (rule live_bind [OF live_refl])
  have close: "sock_close ?s ?w = Inr (False, ?s\<lparr>m_sock := -1\<rparr>, ?w\<lparr>closed := [7]\<rparr>)"
    by (simp add: sock_close_def hooked_close_def quiet_world_def mk_Socket_def)
  have "mset (closed (?w\<lparr>closed := [7]\<rparr>)) = mset (opened (?w\<lparr>closed := [7]\<rparr>))"
    using socket_descriptors_balanced [OF life _ _ close] by (simp add: quiet_world_def)
  with life close show ?thesis by (intro exI [of _ ?s] exI [of _ "?w\<lparr>closed := [7]\<rparr>"] exI [of _ "?s\<lparr>m_sock := -1\<rparr>"]) simp
qed

lemma accept_leaks:
  "fd \<noteq> -1 \<Longrightarrow> 0 \<le> fd \<Longrightarrow> \<not> hook_on w \<Longrightarrow> fd_lookup (fds w) fd = None \<Longrightarrow>
     sock_accept fd local remote s w = Inr (None, w\<lparr>opened := opened w @ [fd]\<rparr>)"
  by (simp add: sock_accept_def sock_init_def fd_get_lookup Let_def)

lemma timeout_of_closed_socket: "m_datas (fds w) \<noteq> [] \<Longrightarrow> getSockTimeout so (mk_Socket family type protocol) w = Inl Bad_index"
  by (auto simp: getSockTimeout_def mk_Socket_def fd_get_def Let_def)

lemma udp_connected_without_descriptor:
  "CreateUDP family (-1) w = Inr (s, w') \<Longrightarrow> m_isConnected s \<and> m_sock s = -1"
  by (auto simp: CreateUDP_def newSock_def hooked_socket_def split: if_splits)

section \<open>Timeouts\<close>

lemma to_int_small: "- (2 ^ 31) \<le> v \<Longrightarrow> v < 2 ^ 31 \<Longrightarrow> to_int v = v"
  by (simp add: to_int_def sint_sbintrunc' signed_take_bit_int_eq_self)

lemma timeout_ms:
  assumes "0 \<le> v" and "v < 2 ^ 31 * 1000"
  shows "sint (word_of_int (to_int (v sdiv 1000)) * 1000 + word_of_int (to_int (v smod 1000 * 1000)) div 1000 :: uint64) = v"
proof -
  have d: "v sdiv 1000 = v div 1000" "v smod 1000 = v mod 1000"
    using assms(1) by (cases "v = 0"; simp add: signed_divide_int_def signed_modulo_int_def)+
  have i: "to_int (v div 1000) = v div 1000" "to_int (v mod 1000 * 1000) = v mod 1000 * 1000"
    using assms pos_mod_bound [of 1000 v] by (auto intro!: to_int_small)
  have "(word_of_int (v mod 1000 * 1000) div 1000 :: uint64) = word_of_int (v mod 1000)"
  proof -
    have "uint (word_of_int (v mod 1000 * 1000) :: uint64) = v mod 1000 * 1000"
      using pos_mod_bound [of 1000 v] pos_mod_sign [of 1000 v] by (subst uint_word_of_int, intro mod_pos_pos_trivial) simp_all
    then have "uint (word_of_int (v mod 1000 * 1000) div 1000 :: uint64) = v mod 1000" by (simp add: uint_div)
    then show ?thesis by (metis word_of_int_uint)
  qed
  then have "word_of_int (v div 1000) * 1000 + word_of_int (v mod 1000 * 1000) div 1000
      = (word_of_int (v div 1000) * word_of_int 1000 + word_of_int (v mod 1000) :: uint64)"
    by (simp only: word_of_int_numeral)
  also have "\<dots> = word_of_int (v div 1000 * 1000 + v mod 1000)" by (simp only: wi_hom_mult wi_hom_add)
  also have "\<dots> = word_of_int v" by (simp only: div_mult_mod_eq)
  finally show ?thesis unfolding d i using assms by (simp add: sint_sbintrunc' signed_take_bit_int_eq_self)
qed

text \<open>
  The timeouts of a socket read back. With the hooks on, a timeout of 0 up to 2147483647999 milliseconds set on a managed
  socket is stored as seconds and microseconds and read back as the same number of milliseconds.
\<close>

theorem socket_timeout_roundtrip:
  assumes "hook_on w" and "0 \<le> m_sock s" and "fd_lookup (fds w) (m_sock s) = Some c" and "0 \<le> v" and "v < 2 ^ 31 * 1000"
  shows "\<exists>w'. setSockTimeout so v s w = Inr w' \<and> getSockTimeout so s w' = Inr v"
proof -
  let ?v = "word_of_int (to_int (v sdiv 1000)) * 1000 + word_of_int (to_int (v smod 1000 * 1000)) div 1000 :: uint64"
  have "setSockTimeout so v s w = Inr (w\<lparr>fds := fd_put (m_sock s) (setTimeout so ?v c) (fds w)\<rparr>)"
    using assms(1-3) by (simp add: setSockTimeout_def hooked_setsockopt_def fd_get_lookup)
  moreover have "getTimeout so (setTimeout so ?v c) = ?v" by (cases so) simp_all
  ultimately show ?thesis
    using assms(2,3) timeout_ms [OF assms(4,5)] by (simp add: getSockTimeout_def fd_get_lookup fd_put_lookup)
qed

lemma socket_timeout_roundtrip_witness:
  "\<exists>w'. setSockTimeout SO_RCVTIMEO 120000 ((mk_Socket AF_INET TCP 0)\<lparr>m_sock := 5\<rparr>) (quiet_world\<lparr>hook_on := True\<rparr>) = Inr w'
     \<and> getSockTimeout SO_RCVTIMEO ((mk_Socket AF_INET TCP 0)\<lparr>m_sock := 5\<rparr>) w' = Inr 120000"
  using socket_timeout_roundtrip [of "quiet_world\<lparr>hook_on := True\<rparr>" "(mk_Socket AF_INET TCP 0)\<lparr>m_sock := 5\<rparr>" example_ctx 120000]
  by (simp add: quiet_world_def example_table_def fd_lookup_def)

end
