(* ===== verification/Streams.thy ===== *)
theory Streams
  imports Sockets ByteArray_IO
begin

text \<open>
  Streams (\<^verbatim>\<open>dwframe/stream.h\<close>, \<^verbatim>\<open>dwframe/stream.cc\<close>, \<^verbatim>\<open>dwframe/socket_stream.h\<close>,
  \<^verbatim>\<open>dwframe/socket_stream.cc\<close>). The fixed size transfers of the base class are loops over a virtual \<^verbatim>\<open>read\<close> or
  \<^verbatim>\<open>write\<close>, which is an argument here; \<open>SocketStream\<close> provides them over the kernel's \<^verbatim>\<open>recv\<close> and \<^verbatim>\<open>send\<close>. A read
  yields its result, the bytes it stored and the state of the connection afterwards; a write yields its result and the
  state. The bytes of a memory buffer may be of any type, the bytes of a \<^verbatim>\<open>ByteArray\<close> are words.
\<close>

section \<open>Fixed size transfers\<close>

text \<open>\<^verbatim>\<open>int64_t left = length\<close>, where \<^verbatim>\<open>length\<close> is a \<^verbatim>\<open>size_t\<close>.\<close>

definition to_int64 :: "nat \<Rightarrow> int" where
  "to_int64 n = sint (of_nat n :: uint64)"

text \<open>The loops return \<open>Some len\<close> if they leave with the result of a failed call, and \<open>None\<close> if nothing is left.\<close>

function readFixSize_loop :: "(nat \<Rightarrow> 'k \<Rightarrow> int \<times> 'b list \<times> 'k) \<Rightarrow> int \<Rightarrow> 'k \<Rightarrow> int option \<times> 'b list \<times> 'k" where
  "readFixSize_loop rd left k =
     (if left > 0 then
        case rd (nat left) k of (len, bs, k1) \<Rightarrow>
          if len \<le> 0 then (Some len, bs, k1)
          else case readFixSize_loop rd (left - len) k1 of (r, cs, k2) \<Rightarrow> (r, bs @ cs, k2)
      else (None, [], k))"
  by pat_completeness auto
termination by (relation "measure (\<lambda>(rd, left, k). nat left)") auto

declare readFixSize_loop.simps [simp del]

definition readFixSize :: "(nat \<Rightarrow> 'k \<Rightarrow> int \<times> 'b list \<times> 'k) \<Rightarrow> nat \<Rightarrow> 'k \<Rightarrow> int \<times> 'b list \<times> 'k" where
  "readFixSize rd n k = (case readFixSize_loop rd (to_int64 n) k of (r, bs, k1) \<Rightarrow>
     (to_int (case r of Some len \<Rightarrow> len | None \<Rightarrow> int n), bs, k1))"

function writeFixSize_loop :: "('b list \<Rightarrow> 'k \<Rightarrow> int \<times> 'k) \<Rightarrow> int \<Rightarrow> 'b list \<Rightarrow> 'k \<Rightarrow> int option \<times> 'k" where
  "writeFixSize_loop wr left buffer k =
     (if left > 0 then
        case wr buffer k of (len, k1) \<Rightarrow>
          if len \<le> 0 then (Some len, k1)
          else writeFixSize_loop wr (left - len) (drop (nat len) buffer) k1
      else (None, k))"
  by pat_completeness auto
termination by (relation "measure (\<lambda>(wr, left, buffer, k). nat left)") auto

declare writeFixSize_loop.simps [simp del]

definition writeFixSize :: "('b list \<Rightarrow> 'k \<Rightarrow> int \<times> 'k) \<Rightarrow> 'b list \<Rightarrow> 'k \<Rightarrow> int \<times> 'k" where
  "writeFixSize wr buffer k = (case writeFixSize_loop wr (to_int64 (length buffer)) buffer k of (r, k1) \<Rightarrow>
     (to_int (case r of Some len \<Rightarrow> len | None \<Rightarrow> int (length buffer)), k1))"

text \<open>Reading into and writing from a byte array have the same loop.\<close>

function fixSize_ba_loop :: "(byte_array \<Rightarrow> nat \<Rightarrow> 'k \<Rightarrow> (int \<times> byte_array \<times> 'k) result) \<Rightarrow> int \<Rightarrow> byte_array \<Rightarrow> 'k
    \<Rightarrow> (int option \<times> byte_array \<times> 'k) result" where
  "fixSize_ba_loop io left ba k =
     (if left > 0 then
        case io ba (nat left) k of
          Inl e \<Rightarrow> Inl e
        | Inr (len, ba1, k1) \<Rightarrow>
            if len \<le> 0 then Inr (Some len, ba1, k1)
            else fixSize_ba_loop io (left - len) ba1 k1
      else Inr (None, ba, k))"
  by pat_completeness auto
termination by (relation "measure (\<lambda>(io, left, ba, k). nat left)") auto

declare fixSize_ba_loop.simps [simp del]

definition fixSize_ba :: "(byte_array \<Rightarrow> nat \<Rightarrow> 'k \<Rightarrow> (int \<times> byte_array \<times> 'k) result) \<Rightarrow> byte_array \<Rightarrow> nat \<Rightarrow> 'k
    \<Rightarrow> (int \<times> byte_array \<times> 'k) result" where
  "fixSize_ba io ba n k = bindE (fixSize_ba_loop io (to_int64 n) ba k) (\<lambda>(r, ba1, k1).
     Inr (to_int (case r of Some len \<Rightarrow> len | None \<Rightarrow> int n), ba1, k1))"

section \<open>The socket stream\<close>

record socket_stream =
  m_socket :: "sock option"
  m_owner :: bool

definition mk_SocketStream :: "sock option \<Rightarrow> bool \<Rightarrow> socket_stream" where
  "mk_SocketStream sock owner = \<lparr>m_socket = sock, m_owner = owner\<rparr>"

definition stream_isConnected :: "socket_stream \<Rightarrow> bool" where
  "stream_isConnected ss \<longleftrightarrow> (case m_socket ss of None \<Rightarrow> False | Some s \<Rightarrow> m_isConnected s)"

definition stream_close :: "socket_stream \<Rightarrow> world \<Rightarrow> (socket_stream \<times> world) result" where
  "stream_close ss w = (case m_socket ss of None \<Rightarrow> Inr (ss, w)
     | Some s \<Rightarrow> bindE (sock_close s w) (\<lambda>(_, s1, w1). Inr (ss\<lparr>m_socket := Some s1\<rparr>, w1)))"

definition stream_destroy :: "socket_stream \<Rightarrow> world \<Rightarrow> world result" where
  "stream_destroy ss w = (if m_owner ss \<and> m_socket ss \<noteq> None
     then bindE (stream_close ss w) (\<lambda>(_, w1). Inr w1) else Inr w)"

text \<open>\<open>recv fd n k\<close> and \<open>send fd bs k\<close> are the system calls on the state \<open>k\<close> of the connection.\<close>

type_synonym ('b, 'k) recv_call = "int \<Rightarrow> nat \<Rightarrow> 'k \<Rightarrow> int \<times> 'b list \<times> 'k"
type_synonym ('b, 'k) send_call = "int \<Rightarrow> 'b list \<Rightarrow> 'k \<Rightarrow> int \<times> 'k"

definition sock_recv :: "('b, 'k) recv_call \<Rightarrow> sock \<Rightarrow> nat \<Rightarrow> 'k \<Rightarrow> int \<times> 'b list \<times> 'k" where
  "sock_recv recv s n k = sock_io (\<lambda>fd. recv fd n) [] s k"

definition sock_send :: "('b, 'k) send_call \<Rightarrow> sock \<Rightarrow> 'b list \<Rightarrow> 'k \<Rightarrow> int \<times> 'k" where
  "sock_send send s bs k = (case sock_io (\<lambda>fd k. case send fd bs k of (r, k1) \<Rightarrow> (r, (), k1)) () s k of (r, _, k1) \<Rightarrow> (r, k1))"

definition stream_read :: "('b, 'k) recv_call \<Rightarrow> socket_stream \<Rightarrow> nat \<Rightarrow> 'k \<Rightarrow> int \<times> 'b list \<times> 'k" where
  "stream_read recv ss n k = (case m_socket ss of None \<Rightarrow> (-1, [], k)
     | Some s \<Rightarrow> if \<not> m_isConnected s then (-1, [], k) else sock_recv recv s n k)"

definition stream_write :: "('b, 'k) send_call \<Rightarrow> socket_stream \<Rightarrow> 'b list \<Rightarrow> 'k \<Rightarrow> int \<times> 'k" where
  "stream_write send ss bs k = (case m_socket ss of None \<Rightarrow> (-1, k)
     | Some s \<Rightarrow> if \<not> m_isConnected s then (-1, k) else sock_send send s bs k)"

text \<open>The kernel stores the bytes in the segments before the result is looked at.\<close>

definition stream_read_ba :: "(byte, 'k) recv_call \<Rightarrow> socket_stream \<Rightarrow> byte_array \<Rightarrow> nat \<Rightarrow> 'k \<Rightarrow> (int \<times> byte_array \<times> 'k) result" where
  "stream_read_ba recv ss ba n k = (case m_socket ss of None \<Rightarrow> Inr (-1, ba, k)
     | Some s \<Rightarrow> if \<not> m_isConnected s then Inr (-1, ba, k)
         else bindE (getWriteBuffers ba n) (\<lambda>(_, iovs, ba1).
           case sock_recv recv s (iov_total iovs) k of (rt, bs, k1) \<Rightarrow>
             let ba2 = ba1\<lparr>m_nodes := scatter (m_nodes ba1) iovs bs\<rparr> in
             if rt > 0 then bindE (setPosition ba2 (m_position ba2 + nat rt)) (\<lambda>ba3. Inr (rt, ba3, k1))
             else Inr (rt, ba2, k1)))"

definition stream_write_ba :: "(byte, 'k) send_call \<Rightarrow> socket_stream \<Rightarrow> byte_array \<Rightarrow> nat \<Rightarrow> 'k \<Rightarrow> (int \<times> byte_array \<times> 'k) result" where
  "stream_write_ba send ss ba n k = (case m_socket ss of None \<Rightarrow> Inr (-1, ba, k)
     | Some s \<Rightarrow> if \<not> m_isConnected s then Inr (-1, ba, k)
         else bindE (getReadBuffers ba n) (\<lambda>(_, iovs).
           case sock_send send s (gather (m_nodes ba) iovs) k of (rt, k1) \<Rightarrow>
             if rt > 0 then bindE (setPosition ba (m_position ba + nat rt)) (\<lambda>ba1. Inr (rt, ba1, k1))
             else Inr (rt, ba, k1)))"

definition stream_getRemoteAddress :: "(address \<times> nat) option \<Rightarrow> socket_stream \<Rightarrow> address option \<times> socket_stream" where
  "stream_getRemoteAddress answer ss = (case m_socket ss of None \<Rightarrow> (None, ss)
     | Some s \<Rightarrow> case getRemoteAddress answer s of (a, s1) \<Rightarrow> (Some a, ss\<lparr>m_socket := Some s1\<rparr>))"

definition stream_getLocalAddress :: "(address \<times> nat) option \<Rightarrow> socket_stream \<Rightarrow> address option \<times> socket_stream" where
  "stream_getLocalAddress answer ss = (case m_socket ss of None \<Rightarrow> (None, ss)
     | Some s \<Rightarrow> case getLocalAddress answer s of (a, s1) \<Rightarrow> (Some a, ss\<lparr>m_socket := Some s1\<rparr>))"

definition getRemoteAddressString :: "endian \<Rightarrow> (address \<times> nat) option \<Rightarrow> socket_stream \<Rightarrow> string \<times> socket_stream" where
  "getRemoteAddressString host answer ss = (case stream_getRemoteAddress answer ss of (a, ss1) \<Rightarrow>
     (case a of None \<Rightarrow> '''' | Some a \<Rightarrow> addr_text host a, ss1))"

definition getLocalAddressString :: "endian \<Rightarrow> (address \<times> nat) option \<Rightarrow> socket_stream \<Rightarrow> string \<times> socket_stream" where
  "getLocalAddressString host answer ss = (case stream_getLocalAddress answer ss of (a, ss1) \<Rightarrow>
     (case a of None \<Rightarrow> '''' | Some a \<Rightarrow> addr_text host a, ss1))"

section \<open>Contracts\<close>

lemma to_int64_small: "n < 2 ^ 63 \<Longrightarrow> to_int64 n = int n"
  using sint_sbintrunc' [of "int n", where 'a = 64]
  by (simp add: to_int64_def signed_take_bit_int_eq_self)

text \<open>Writing on at the end of what was just written.\<close>

lemma overwrite_continued:
  "i \<le> length xs \<Longrightarrow> overwrite (i + length as) bs (overwrite i as xs) = overwrite i (as @ bs) xs"
  by (simp add: overwrite_def ac_simps)

lemma position_written: "ba_inv ba \<Longrightarrow> m_position ba \<le> length (written ba)"
  by (simp add: written_def ba_inv_def length_contents)

text \<open>A result that ends a transfer; it is an \<^verbatim>\<open>int\<close>.\<close>

definition failed :: "int \<Rightarrow> bool" where
  "failed len \<longleftrightarrow> - (2 ^ 31) \<le> len \<and> len \<le> 0"

lemma to_int_failed: "failed len \<Longrightarrow> to_int len = len \<and> len \<le> 0"
  by (simp add: failed_def to_int_small)

lemma failed_to_int: "\<not> 0 < to_int r \<Longrightarrow> failed (to_int r)"
  using sint_greater_eq [of "word_of_int r :: uint32"] by (simp add: failed_def to_int_def)

lemma failed_minus_one [simp]: "failed (-1)"
  by (simp add: failed_def)

text \<open>
  The contract of a source of bytes: a positive result is the number of bytes stored, at most what was asked for, and they are the
  next bytes of the connection; nothing is consumed otherwise. \<open>live_source\<close> is one that delivers while bytes are pending.
\<close>

locale byte_source =
  fixes rd :: "nat \<Rightarrow> 'k \<Rightarrow> int \<times> 'b list \<times> 'k" and pending :: "'k \<Rightarrow> 'b list"
  assumes read_next: "rd n k = (r, bs, k1) \<Longrightarrow> (failed r \<or> 0 < r) \<and> r \<le> int n \<and> length bs = nat r \<and> pending k = bs @ pending k1"
begin

lemma loop_outcome:
  "readFixSize_loop rd left k = (r, bs, k1) \<Longrightarrow>
     pending k = bs @ pending k1 \<and>
     (case r of None \<Rightarrow> int (length bs) = max 0 left | Some len \<Rightarrow> failed len \<and> int (length bs) < left)"
proof (induction "nat left" arbitrary: left k r bs k1 rule: less_induct)
  case less
  show ?case
  proof (cases "left > 0")
    case True
    obtain len cs k2 where rd: "rd (nat left) k = (len, cs, k2)" by (metis surj_pair)
    note next1 = read_next [OF rd]
    show ?thesis
    proof (cases "len \<le> 0")
      case True
      with \<open>left > 0\<close> less.prems rd next1 show ?thesis by (auto simp: readFixSize_loop.simps [of rd left])
    next
      case False
      obtain r2 ds k3 where rest: "readFixSize_loop rd (left - len) k2 = (r2, ds, k3)" by (metis surj_pair)
      have eq: "r = r2" "bs = cs @ ds" "k1 = k3"
        using True False rd rest less.prems by (simp_all add: readFixSize_loop.simps [of rd left])
      show ?thesis
        using less.hyps [OF _ rest] next1 False True unfolding eq
        by (auto simp: max_def split: option.splits)
    qed
  next
    case False
    with less.prems show ?thesis by (simp add: readFixSize_loop.simps [of rd left])
  qed
qed

lemma fixed_outcome:
  assumes "readFixSize rd n k = (r, bs, k1)" and "n < 2 ^ 31"
  shows "pending k = bs @ pending k1 \<and> (r = int n \<and> length bs = n \<or> r \<le> 0 \<and> length bs < n)"
proof -
  obtain q where q: "readFixSize_loop rd (int n) k = (q, bs, k1)" "r = to_int (case q of Some len \<Rightarrow> len | None \<Rightarrow> int n)"
    using assms by (auto simp: readFixSize_def to_int64_small split: prod.splits)
  note out = loop_outcome [OF q(1)]
  show ?thesis
  proof (cases q)
    case None
    with q(2) out assms(2) show ?thesis by (simp add: to_int_small)
  next
    case (Some len)
    with q(2) out to_int_failed [of len] show ?thesis by simp
  qed
qed

end

locale live_source = byte_source +
  assumes read_delivers: "0 < n \<Longrightarrow> pending k \<noteq> [] \<Longrightarrow> 0 < fst (rd n k)"
begin

lemma loop_delivers:
  "left \<le> int (length (pending k)) \<Longrightarrow> fst (readFixSize_loop rd left k) = None"
proof (induction "nat left" arbitrary: left k rule: less_induct)
  case less
  show ?case
  proof (cases "left > 0")
    case True
    obtain len cs k2 where rd: "rd (nat left) k = (len, cs, k2)" by (metis surj_pair)
    have "0 < len" using read_delivers [of "nat left" k] rd True less.prems by fastforce
    moreover from this read_next [OF rd] less.prems have "left - len \<le> int (length (pending k2))" by simp
    ultimately show ?thesis
      using less.hyps [of "left - len" k2] True rd
      by (auto simp: readFixSize_loop.simps [of rd left] split: prod.splits)
  next
    case False
    then show ?thesis by (simp add: readFixSize_loop.simps [of rd left])
  qed
qed

lemma fixed_delivers:
  assumes "n \<le> length (pending k)" and "n < 2 ^ 31"
  shows "\<exists>k1. readFixSize rd n k = (int n, take n (pending k), k1) \<and> pending k1 = drop n (pending k)"
proof -
  obtain bs k1 where loop: "readFixSize_loop rd (int n) k = (None, bs, k1)"
    using loop_delivers [of "int n" k] assms(1) by (metis of_nat_le_iff prod.collapse)
  have "pending k = bs @ pending k1" "length bs = n" using loop_outcome [OF loop] by simp_all
  with loop assms(2) show ?thesis by (simp add: readFixSize_def to_int64_small to_int_small)
qed

end

locale byte_sink =
  fixes wr :: "'b list \<Rightarrow> 'k \<Rightarrow> int \<times> 'k" and sent :: "'k \<Rightarrow> 'b list"
  assumes write_next: "wr bs k = (r, k1) \<Longrightarrow> (failed r \<or> 0 < r) \<and> r \<le> int (length bs) \<and> sent k1 = sent k @ take (nat r) bs"
begin

lemma loop_sends:
  "writeFixSize_loop wr left buf k = (r, k1) \<Longrightarrow> left = int (length buf) \<Longrightarrow>
     \<exists>n \<le> length buf. sent k1 = sent k @ take n buf \<and> (case r of None \<Rightarrow> n = length buf | Some len \<Rightarrow> failed len \<and> n < length buf)"
proof (induction "nat left" arbitrary: left buf k rule: less_induct)
  case less
  show ?case
  proof (cases "left > 0")
    case True
    obtain len k2 where wr: "wr buf k = (len, k2)" by (metis surj_pair)
    note next1 = write_next [OF wr]
    show ?thesis
    proof (cases "len \<le> 0")
      case True
      with \<open>left > 0\<close> less.prems(1) wr have "r = Some len" "k1 = k2" by (simp_all add: writeFixSize_loop.simps [of wr left])
      with \<open>len \<le> 0\<close> \<open>left > 0\<close> less.prems(2) next1 show ?thesis by (intro exI [of _ 0]) auto
    next
      case False
      have rest: "writeFixSize_loop wr (left - len) (drop (nat len) buf) k2 = (r, k1)"
        using True False wr less.prems(1) by (simp add: writeFixSize_loop.simps [of wr left])
      have "\<exists>n \<le> length (drop (nat len) buf). sent k1 = sent k2 @ take n (drop (nat len) buf) \<and>
          (case r of None \<Rightarrow> n = length (drop (nat len) buf) | Some len' \<Rightarrow> failed len' \<and> n < length (drop (nat len) buf))"
        by (rule less.hyps [OF _ rest]) (use next1 False True less.prems(2) in auto)
      then obtain n where n: "n \<le> length buf - nat len" "sent k1 = sent k2 @ take n (drop (nat len) buf)"
          "case r of None \<Rightarrow> n = length buf - nat len | Some len' \<Rightarrow> failed len' \<and> n < length buf - nat len"
        unfolding length_drop by blast
      with next1 False show ?thesis
        by (intro exI [of _ "nat len + n"]) (auto simp: take_add split: option.splits)
    qed
  next
    case False
    with less.prems(1) have "r = None" "k1 = k" by (simp_all add: writeFixSize_loop.simps [of wr left])
    moreover have "buf = []" using False less.prems(2) by simp
    ultimately show ?thesis by simp
  qed
qed

end

locale live_sink = byte_sink +
  assumes write_accepts: "bs \<noteq> [] \<Longrightarrow> 0 < fst (wr bs k)"
begin

lemma loop_accepts: "left = int (length buf) \<Longrightarrow> fst (writeFixSize_loop wr left buf k) = None"
proof (induction "nat left" arbitrary: left buf k rule: less_induct)
  case less
  show ?case
  proof (cases "left > 0")
    case True
    obtain len k2 where wr: "wr buf k = (len, k2)" by (metis surj_pair)
    have "0 < len" using write_accepts [of buf k] wr True less.prems by fastforce
    moreover from this True write_next [OF wr] less.prems
    have "fst (writeFixSize_loop wr (left - len) (drop (nat len) buf) k2) = None" by (intro less.hyps) auto
    ultimately show ?thesis using True wr by (simp add: writeFixSize_loop.simps [of wr left])
  next
    case False
    then show ?thesis by (simp add: writeFixSize_loop.simps [of wr left])
  qed
qed

lemma fixed_accepts:
  assumes "length buf < 2 ^ 31"
  shows "\<exists>k1. writeFixSize wr buf k = (int (length buf), k1) \<and> sent k1 = sent k @ buf"
proof -
  obtain k1 where loop: "writeFixSize_loop wr (int (length buf)) buf k = (None, k1)"
    using loop_accepts [of "int (length buf)" buf k] by (metis prod.collapse)
  with loop_sends [OF loop refl] assms show ?thesis by (auto simp: writeFixSize_def to_int64_small to_int_small)
qed

end

text \<open>
  The contract of a transfer between a byte array and a connection. \<open>moves ba k bs ba1 k1\<close> says that the bytes \<open>bs\<close> went from
  one to the other.
\<close>

locale ba_transfer =
  fixes io :: "byte_array \<Rightarrow> nat \<Rightarrow> 'k \<Rightarrow> (int \<times> byte_array \<times> 'k) result"
    and moves :: "byte_array \<Rightarrow> 'k \<Rightarrow> byte list \<Rightarrow> byte_array \<Rightarrow> 'k \<Rightarrow> bool"
  assumes moves_refl: "ba_inv ba \<Longrightarrow> moves ba k [] ba k"
    and moves_trans: "moves ba k bs ba1 k1 \<Longrightarrow> moves ba1 k1 cs ba2 k2 \<Longrightarrow> moves ba k (bs @ cs) ba2 k2"
    and moves_inv: "moves ba k bs ba1 k1 \<Longrightarrow> ba_inv ba1"
    and io_moves: "ba_inv ba \<Longrightarrow> 0 < n \<Longrightarrow>
      \<exists>r bs ba1 k1. io ba n k = Inr (r, ba1, k1) \<and> (failed r \<or> 0 < r) \<and> r \<le> int n \<and> length bs = nat r \<and> moves ba k bs ba1 k1"
begin

lemma ba_loop_step:
  assumes "ba_inv ba" and "left > 0"
  obtains r bs ba1 k1 where "io ba (nat left) k = Inr (r, ba1, k1)" "failed r \<or> 0 < r" "r \<le> left" "length bs = nat r" "moves ba k bs ba1 k1"
    "fixSize_ba_loop io left ba k = (if r \<le> 0 then Inr (Some r, ba1, k1) else fixSize_ba_loop io (left - r) ba1 k1)"
proof -
  obtain r bs ba1 k1 where 1: "io ba (nat left) k = Inr (r, ba1, k1)" "failed r \<or> 0 < r" "r \<le> left" "length bs = nat r" "moves ba k bs ba1 k1"
    using io_moves [OF assms(1), of "nat left" k] assms(2) by auto
  then show ?thesis using assms(2) by (intro that [OF 1]) (simp add: fixSize_ba_loop.simps [of io left])
qed

lemma ba_loop_outcome:
  "ba_inv ba \<Longrightarrow> \<exists>r bs ba1 k1. fixSize_ba_loop io left ba k = Inr (r, ba1, k1) \<and> moves ba k bs ba1 k1
      \<and> (case r of None \<Rightarrow> int (length bs) = max 0 left | Some len \<Rightarrow> failed len \<and> int (length bs) < left)"
proof (induction "nat left" arbitrary: left ba k rule: less_induct)
  case less
  show ?case
  proof (cases "left > 0")
    case True
    obtain r bs ba1 k1 where 1: "failed r \<or> 0 < r" "r \<le> left" "length bs = nat r" "moves ba k bs ba1 k1"
        "fixSize_ba_loop io left ba k = (if r \<le> 0 then Inr (Some r, ba1, k1) else fixSize_ba_loop io (left - r) ba1 k1)"
      by (rule ba_loop_step [OF less.prems True, of k])
    show ?thesis
    proof (cases "r \<le> 0")
      case True
      with 1 \<open>left > 0\<close> show ?thesis by (intro exI [of _ "Some r"] exI [of _ bs] exI [of _ ba1] exI [of _ k1]) simp
    next
      case False
      obtain q cs ba2 k2 where 2: "fixSize_ba_loop io (left - r) ba1 k1 = Inr (q, ba2, k2)" "moves ba1 k1 cs ba2 k2"
          "case q of None \<Rightarrow> int (length cs) = max 0 (left - r) | Some len \<Rightarrow> failed len \<and> int (length cs) < left - r"
        using less.hyps [OF _ moves_inv [OF 1(4)], of "left - r" k1] True False by auto
      with 1 False show ?thesis
        by (intro exI [of _ q] exI [of _ "bs @ cs"] exI [of _ ba2] exI [of _ k2])
           (auto intro: moves_trans split: option.splits)
    qed
  next
    case False
    with less.prems show ?thesis
      by (intro exI [of _ None] exI [of _ "[]"] exI [of _ ba] exI [of _ k])
         (simp add: fixSize_ba_loop.simps [of io left] moves_refl)
  qed
qed

end

locale live_ba_transfer = ba_transfer +
  fixes available :: "byte_array \<Rightarrow> 'b \<Rightarrow> nat"
  assumes moves_available: "moves ba k bs ba1 k1 \<Longrightarrow> available ba k = length bs + available ba1 k1"
    and io_progress: "ba_inv ba \<Longrightarrow> 0 < n \<Longrightarrow> 0 < available ba k \<Longrightarrow> io ba n k = Inr (r, ba1, k1) \<Longrightarrow> 0 < r"
begin

lemma ba_loop_delivers:
  "ba_inv ba \<Longrightarrow> left \<le> int (available ba k) \<Longrightarrow> \<exists>ba1 k1. fixSize_ba_loop io left ba k = Inr (None, ba1, k1)"
proof (induction "nat left" arbitrary: left ba k rule: less_induct)
  case less
  show ?case
  proof (cases "left > 0")
    case True
    obtain r bs ba1 k1 where 1: "io ba (nat left) k = Inr (r, ba1, k1)" "failed r \<or> 0 < r" "r \<le> left" "length bs = nat r" "moves ba k bs ba1 k1"
        "fixSize_ba_loop io left ba k = (if r \<le> 0 then Inr (Some r, ba1, k1) else fixSize_ba_loop io (left - r) ba1 k1)"
      by (rule ba_loop_step [OF less.prems(1) True, of k])
    have "0 < r" using io_progress [OF less.prems(1) _ _ 1(1)] True less.prems(2) by simp
    with 1 less.prems(2) moves_available [OF 1(5)] True less.hyps [OF _ moves_inv [OF 1(5)], of "left - r" k1]
    show ?thesis by simp
  next
    case False
    then show ?thesis by (simp add: fixSize_ba_loop.simps [of io left])
  qed
qed

end

section \<open>Receiving less than asked for\<close>

lemma scatter_Nil [simp]: "scatter ns vs [] = ns"
  by (induction vs arbitrary: ns) simp_all

lemma iov_loop_short:
  "iov_loop nodes cur npos ncap n = Inr vs \<Longrightarrow> length bs \<le> n \<Longrightarrow>
     \<exists>us. iov_loop nodes cur npos ncap (length bs) = Inr us \<and> (\<forall>ns. scatter ns vs bs = scatter ns us bs)"
proof (induction nodes cur npos ncap n arbitrary: vs bs rule: iov_loop.induct)
  case (1 nodes cur npos ncap n)
  show ?case
  proof (cases "bs = []")
    case True
    then show ?thesis by (simp add: iov_loop.simps [of _ _ _ _ 0])
  next
    case False
    with "1.prems" have n: "n \<noteq> 0" by (cases bs) auto
    with "1.prems"(1) obtain i where i: "cur = Some i" "i < length nodes"
      by (subst (asm) iov_loop.simps) (auto split: option.splits if_splits)
    show ?thesis
    proof (cases "n \<le> ncap")
      case True
      with n i "1.prems" False show ?thesis by (auto simp: iov_loop.simps [of nodes])
    next
      case short: False
      then obtain c k ws where c: "node_next nodes cur = Inr c" "node_size nodes c = Inr k"
          "iov_loop nodes c 0 k (n - ncap) = Inr ws" and vs: "vs = \<lparr>iov_node = i, iov_off = npos, iov_len = ncap\<rparr> # ws"
        using n i "1.prems"(1) by (subst (asm) iov_loop.simps) (auto simp: bindE_eq_Inr)
      show ?thesis
      proof (cases "length bs \<le> ncap")
        case True
        then show ?thesis using i False vs by (simp add: iov_loop.simps [of nodes])
      next
        case more: False
        obtain us where "iov_loop nodes c 0 k (length (drop ncap bs)) = Inr us" "\<forall>ns. scatter ns ws (drop ncap bs) = scatter ns us (drop ncap bs)"
          using "1.IH" [OF n i(1) _ short c(1,2) c(3), of "drop ncap bs"] i diff_le_mono [OF "1.prems"(2), of ncap] by auto
        with more i False vs c show ?thesis by (simp add: iov_loop.simps [of nodes "Some i"])
      qed
    qed
  qed
qed

lemma getWriteBuffers_total:
  assumes "ba_inv ba" and "0 < n"
  obtains vs where "getWriteBuffers ba n = Inr (n, vs, addCapacity ba n)" "iov_total vs = n"
  using getWriteBuffers_scatter [OF assms(1), of "replicate n 0"] assms(2)
  by (auto simp: getWriteBuffers_def Let_def bindE_eq_Inr)

lemma addCapacity_again: "ba_inv ba \<Longrightarrow> m \<le> n \<Longrightarrow> addCapacity (addCapacity ba n) m = addCapacity ba n"
  using addCapacity_enough [of ba n] by (simp add: addCapacity_def [of "addCapacity ba n"] Let_def)

text \<open>Filling the first segments only and moving the position behind the stored bytes writes just these bytes.\<close>

lemma getWriteBuffers_partial:
  assumes "ba_inv ba" and "getWriteBuffers ba n = Inr (m, vs, ba1)" and "bs \<noteq> []" and "length bs \<le> n"
  shows "\<exists>ba2. setPosition (ba1\<lparr>m_nodes := scatter (m_nodes ba1) vs bs\<rparr>) (m_position ba1 + length bs) = Inr ba2
     \<and> ba_inv ba2 \<and> m_position ba2 = m_position ba + length bs \<and> written ba2 = overwrite (m_position ba) bs (written ba)"
proof -
  have n: "n \<noteq> 0" using assms(3,4) by (cases bs) auto
  with assms(2) have ba1: "ba1 = addCapacity ba n" by (auto simp: getWriteBuffers_def Let_def bindE_eq_Inr)
  have inv1: "ba_inv ba1" by (simp add: ba1 ba_inv_addCapacity assms(1))
  have same: "addCapacity ba1 (length bs) = ba1" using addCapacity_again [OF assms(1,4)] ba1 by simp
  obtain npos sz where pos: "offset_in_node ba1 (m_position ba1) = Inr npos" "node_size (m_nodes ba1) (m_cur ba1) = Inr sz"
      and vs: "iov_loop (m_nodes ba1) (m_cur ba1) npos (sz - npos) n = Inr vs"
    using assms(2) n ba1 by (auto simp: getWriteBuffers_def Let_def bindE_eq_Inr)
  obtain us where us: "iov_loop (m_nodes ba1) (m_cur ba1) npos (sz - npos) (length bs) = Inr us"
      "scatter (m_nodes ba1) vs bs = scatter (m_nodes ba1) us bs"
    using iov_loop_short [OF vs assms(4)] by blast
  have "getWriteBuffers ba1 (length bs) = Inr (length bs, us, ba1)"
    using same pos us(1) assms(3) by (simp add: getWriteBuffers_def Let_def)
  then have "setPosition (ba1\<lparr>m_nodes := scatter (m_nodes ba1) vs bs\<rparr>) (m_position ba1 + length bs) = ba_write ba1 bs"
    using getWriteBuffers_scatter [OF inv1 assms(3)] us(2) by auto
  with ba_write_refines [OF inv1, of bs] show ?thesis
    by (auto simp: ba1 frame_simps assms(1))
qed

section \<open>The socket stream keeps the contracts\<close>

text \<open>
  What the manual pages of \<^verbatim>\<open>recv\<close> and \<^verbatim>\<open>send\<close> promise for a stream socket: the result is -1 or a number of bytes, no more than
  asked for and less than 2 GiB, and the bytes are the next ones of the connection. \<open>recv_delivers\<close> and \<open>send_accepts\<close> say that the
  connection does not fail.
\<close>

definition recv_contract :: "('b, 'k) recv_call \<Rightarrow> ('k \<Rightarrow> 'b list) \<Rightarrow> bool" where
  "recv_contract recv pending \<longleftrightarrow> (\<forall>fd n k r bs k1. recv fd n k = (r, bs, k1) \<longrightarrow>
     -1 \<le> r \<and> r \<le> int n \<and> r < 2 ^ 31 \<and> length bs = nat r \<and> pending k = bs @ pending k1)"

definition recv_delivers :: "('b, 'k) recv_call \<Rightarrow> ('k \<Rightarrow> 'b list) \<Rightarrow> bool" where
  "recv_delivers recv pending \<longleftrightarrow> (\<forall>fd n k. 0 < n \<longrightarrow> pending k \<noteq> [] \<longrightarrow> 0 < fst (recv fd n k))"

definition send_contract :: "('b, 'k) send_call \<Rightarrow> ('k \<Rightarrow> 'b list) \<Rightarrow> bool" where
  "send_contract send sent \<longleftrightarrow> (\<forall>fd bs k r k1. send fd bs k = (r, k1) \<longrightarrow>
     -1 \<le> r \<and> r \<le> int (length bs) \<and> r < 2 ^ 31 \<and> sent k1 = sent k @ take (nat r) bs)"

definition send_accepts :: "('b, 'k) send_call \<Rightarrow> bool" where
  "send_accepts send \<longleftrightarrow> (\<forall>fd bs k. bs \<noteq> [] \<longrightarrow> 0 < fst (send fd bs k))"

lemma recv_contractD:
  "recv_contract recv pending \<Longrightarrow> recv fd n k = (r, bs, k1) \<Longrightarrow>
     to_int r = r \<and> r \<le> int n \<and> length bs = nat r \<and> pending k = bs @ pending k1"
  unfolding recv_contract_def by (metis to_int_small linorder_le_cases order_trans one_le_numeral one_le_power neg_le_iff_le)

lemma send_contractD:
  "send_contract send sent \<Longrightarrow> send fd bs k = (r, k1) \<Longrightarrow> to_int r = r \<and> r \<le> int (length bs) \<and> sent k1 = sent k @ take (nat r) bs"
  unfolding send_contract_def by (metis to_int_small linorder_le_cases order_trans one_le_numeral one_le_power neg_le_iff_le)

lemma sock_recv_contract:
  assumes "recv_contract recv pending" and "sock_recv recv s n k = (r, bs, k1)"
  shows "(failed r \<or> 0 < r) \<and> r \<le> int n \<and> length bs = nat r \<and> pending k = bs @ pending k1"
  using assms by (auto simp: sock_recv_def sock_io_def dest: recv_contractD intro: failed_to_int split: if_splits prod.splits)

lemma sock_send_contract:
  assumes "send_contract send sent" and "sock_send send s bs k = (r, k1)"
  shows "(failed r \<or> 0 < r) \<and> r \<le> int (length bs) \<and> sent k1 = sent k @ take (nat r) bs"
  using assms by (auto simp: sock_send_def sock_io_def dest: send_contractD intro: failed_to_int split: if_splits prod.splits)

lemma sock_recv_positive:
  assumes "recv_contract recv pending" and "recv_delivers recv pending" and "m_isConnected s" and "0 < n" and "pending k \<noteq> []"
  shows "0 < fst (sock_recv recv s n k)"
proof -
  obtain r bs k1 where r: "recv (m_sock s) n k = (r, bs, k1)" by (metis surj_pair)
  have "0 < fst (recv (m_sock s) n k)" using assms(2,4,5) unfolding recv_delivers_def by blast
  with recv_contractD [OF assms(1) r] r assms(3) show ?thesis by (simp add: sock_recv_def sock_io_def)
qed

lemma sock_send_positive:
  assumes "send_contract send sent" and "send_accepts send" and "m_isConnected s" and "bs \<noteq> []"
  shows "0 < fst (sock_send send s bs k)"
proof -
  obtain r k1 where r: "send (m_sock s) bs k = (r, k1)" by (metis surj_pair)
  have "0 < fst (send (m_sock s) bs k)" using assms(2,4) unfolding send_accepts_def by blast
  with send_contractD [OF assms(1) r] r assms(3) show ?thesis by (simp add: sock_send_def sock_io_def)
qed

lemma stream_source: "recv_contract recv pending \<Longrightarrow> byte_source (stream_read recv ss) pending"
  by unfold_locales (auto simp: stream_read_def sock_recv_contract split: option.splits if_splits)

lemma stream_live_source:
  "recv_contract recv pending \<Longrightarrow> recv_delivers recv pending \<Longrightarrow> stream_isConnected ss \<Longrightarrow> live_source (stream_read recv ss) pending"
  by (intro live_source.intro stream_source live_source_axioms.intro)
     (auto simp: stream_read_def stream_isConnected_def sock_recv_positive split: option.splits)

lemma stream_sink: "send_contract send sent \<Longrightarrow> byte_sink (stream_write send ss) sent"
  by unfold_locales (auto simp: stream_write_def sock_send_contract split: option.splits if_splits)

lemma stream_live_sink:
  "send_contract send sent \<Longrightarrow> send_accepts send \<Longrightarrow> stream_isConnected ss \<Longrightarrow> live_sink (stream_write send ss) sent"
  by (intro live_sink.intro stream_sink live_sink_axioms.intro)
     (auto simp: stream_write_def stream_isConnected_def sock_send_positive split: option.splits)

subsection \<open>Byte arrays\<close>

definition ba_receives :: "('k \<Rightarrow> byte list) \<Rightarrow> byte_array \<Rightarrow> 'k \<Rightarrow> byte list \<Rightarrow> byte_array \<Rightarrow> 'k \<Rightarrow> bool" where
  "ba_receives pending ba k bs ba1 k1 \<longleftrightarrow> ba_inv ba \<and> ba_inv ba1 \<and> pending k = bs @ pending k1
     \<and> m_position ba1 = m_position ba + length bs \<and> written ba1 = overwrite (m_position ba) bs (written ba)"

definition ba_sends :: "('k \<Rightarrow> byte list) \<Rightarrow> byte_array \<Rightarrow> 'k \<Rightarrow> byte list \<Rightarrow> byte_array \<Rightarrow> 'k \<Rightarrow> bool" where
  "ba_sends sent ba k bs ba1 k1 \<longleftrightarrow> ba_inv ba1 \<and> sent k1 = sent k @ bs \<and> readable ba = bs @ readable ba1 \<and> written ba1 = written ba"

lemma stream_read_ba_receives:
  assumes "recv_contract recv pending" and "ba_inv ba" and "0 < n"
  shows "\<exists>r bs ba1 k1. stream_read_ba recv ss ba n k = Inr (r, ba1, k1) \<and> (failed r \<or> 0 < r) \<and> r \<le> int n \<and> length bs = nat r
     \<and> ba_receives pending ba k bs ba1 k1
     \<and> (recv_delivers recv pending \<longrightarrow> stream_isConnected ss \<longrightarrow> pending k \<noteq> [] \<longrightarrow> 0 < r)"
proof (cases "stream_isConnected ss")
  case False
  with assms(2) show ?thesis
    by (intro exI [of _ "-1"] exI [of _ "[]"] exI [of _ ba] exI [of _ k])
       (auto simp: stream_read_ba_def stream_isConnected_def ba_receives_def split: option.splits)
next
  case True
  then obtain s where s: "m_socket ss = Some s" "m_isConnected s" by (auto simp: stream_isConnected_def split: option.splits)
  obtain vs where vs: "getWriteBuffers ba n = Inr (n, vs, addCapacity ba n)" "iov_total vs = n"
    using getWriteBuffers_total [OF assms(2,3)] .
  obtain r bs k1 where r: "sock_recv recv s n k = (r, bs, k1)" by (metis surj_pair)
  note contract = sock_recv_contract [OF assms(1) r]
  have positive: "recv_delivers recv pending \<longrightarrow> pending k \<noteq> [] \<longrightarrow> 0 < r"
    using sock_recv_positive [OF assms(1) _ s(2) assms(3), of k] r by simp
  show ?thesis
  proof (cases "0 < r")
    case True
    then have bs: "bs \<noteq> []" "length bs \<le> n" using contract by auto
    obtain ba2 where "setPosition ((addCapacity ba n)\<lparr>m_nodes := scatter (m_nodes (addCapacity ba n)) vs bs\<rparr>)
          (m_position (addCapacity ba n) + length bs) = Inr ba2"
        "ba_inv ba2" "m_position ba2 = m_position ba + length bs" "written ba2 = overwrite (m_position ba) bs (written ba)"
      using getWriteBuffers_partial [OF assms(2) vs(1) bs] by blast
    with True contract s vs r assms(2) positive show ?thesis
      by (intro exI [of _ r] exI [of _ bs] exI [of _ ba2] exI [of _ k1]) (simp add: stream_read_ba_def ba_receives_def Let_def)
  next
    case False
    with contract s vs r assms(2) positive show ?thesis
      by (intro exI [of _ r] exI [of _ "[]"] exI [of _ "addCapacity ba n"] exI [of _ k1])
         (simp add: stream_read_ba_def ba_receives_def Let_def ba_inv_addCapacity frame_simps)
  qed
qed

lemma stream_write_ba_sends:
  assumes "send_contract send sent" and "ba_inv ba" and "0 < n"
  shows "\<exists>r bs ba1 k1. stream_write_ba send ss ba n k = Inr (r, ba1, k1) \<and> (failed r \<or> 0 < r) \<and> r \<le> int n \<and> length bs = nat r
     \<and> ba_sends sent ba k bs ba1 k1
     \<and> (send_accepts send \<longrightarrow> stream_isConnected ss \<longrightarrow> readable ba \<noteq> [] \<longrightarrow> 0 < r)"
proof (cases "stream_isConnected ss")
  case False
  with assms(2) show ?thesis
    by (intro exI [of _ "-1"] exI [of _ "[]"] exI [of _ ba] exI [of _ k])
       (auto simp: stream_write_ba_def stream_isConnected_def ba_sends_def split: option.splits)
next
  case True
  then obtain s where s: "m_socket ss = Some s" "m_isConnected s" by (auto simp: stream_isConnected_def split: option.splits)
  obtain vs where vs: "getReadBuffers ba n = Inr (min n (length (readable ba)), vs)" "gather (m_nodes ba) vs = take n (readable ba)"
    using getReadBuffers_gather [OF assms(2)] by blast
  obtain r k1 where r: "sock_send send s (take n (readable ba)) k = (r, k1)" by (metis surj_pair)
  note contract = sock_send_contract [OF assms(1) r]
  have positive: "send_accepts send \<longrightarrow> readable ba \<noteq> [] \<longrightarrow> 0 < r"
    using sock_send_positive [OF assms(1) _ s(2), of "take n (readable ba)" k] r assms(3) by simp
  show ?thesis
  proof (cases "0 < r")
    case True
    have fit: "nat r \<le> length (readable ba)" "nat r \<le> n" using contract True by auto
    then have "m_position ba + nat r \<le> m_size ba"
      using assms(2) length_readable [OF assms(2)] unfolding getReadSize_def ba_inv_def by linarith
    then obtain ba1 where "setPosition ba (m_position ba + nat r) = Inr ba1" "ba_inv ba1"
        "readable ba1 = drop (m_position ba + nat r) (written ba)" "written ba1 = written ba"
      using setPosition_readable [OF assms(2)] by blast
    moreover have "drop (m_position ba + nat r) (written ba) = drop (nat r) (readable ba)" by (simp add: readable_def add.commute)
    ultimately show ?thesis using True contract s vs r fit positive
      by (intro exI [of _ r] exI [of _ "take (nat r) (readable ba)"] exI [of _ ba1] exI [of _ k1])
         (simp add: stream_write_ba_def ba_sends_def min_def)
  next
    case False
    with contract s vs r assms(2) positive show ?thesis
      by (intro exI [of _ r] exI [of _ "[]"] exI [of _ ba] exI [of _ k1]) (simp add: stream_write_ba_def ba_sends_def)
  qed
qed

lemma stream_receiver:
  assumes "recv_contract recv pending"
  shows "ba_transfer (stream_read_ba recv ss) (ba_receives pending)"
proof
  fix ba k bs ba1 k1 cs ba2 k2
  assume "ba_receives pending ba k bs ba1 k1" "ba_receives pending ba1 k1 cs ba2 k2"
  then show "ba_receives pending ba k (bs @ cs) ba2 k2"
    by (auto simp: ba_receives_def overwrite_continued position_written)
next
  fix ba :: byte_array and n k assume "ba_inv ba" "0 < (n :: nat)"
  then show "\<exists>r bs ba1 k1. stream_read_ba recv ss ba n k = Inr (r, ba1, k1) \<and> (failed r \<or> 0 < r) \<and> r \<le> int n \<and> length bs = nat r
      \<and> ba_receives pending ba k bs ba1 k1"
    using stream_read_ba_receives [OF assms] by meson
qed (simp_all add: ba_receives_def)

lemma stream_live_receiver:
  assumes "recv_contract recv pending" and "recv_delivers recv pending" and "stream_isConnected ss"
  shows "live_ba_transfer (stream_read_ba recv ss) (ba_receives pending) (\<lambda>ba k. length (pending k))"
proof (intro live_ba_transfer.intro stream_receiver assms(1) live_ba_transfer_axioms.intro)
  fix ba :: byte_array and n k r ba1 k1
  assume "ba_inv ba" "0 < (n :: nat)" "0 < length (pending k)" "stream_read_ba recv ss ba n k = Inr (r, ba1, k1)"
  then show "0 < r" using stream_read_ba_receives [OF assms(1), of ba n ss k] assms(2,3) by auto
qed (simp add: ba_receives_def)

lemma stream_sender:
  assumes "send_contract send sent"
  shows "ba_transfer (stream_write_ba send ss) (ba_sends sent)"
proof
  fix ba :: byte_array and n k assume "ba_inv ba" "0 < (n :: nat)"
  then show "\<exists>r bs ba1 k1. stream_write_ba send ss ba n k = Inr (r, ba1, k1) \<and> (failed r \<or> 0 < r) \<and> r \<le> int n \<and> length bs = nat r
      \<and> ba_sends sent ba k bs ba1 k1"
    using stream_write_ba_sends [OF assms] by meson
qed (simp_all add: ba_sends_def)

lemma stream_live_sender:
  assumes "send_contract send sent" and "send_accepts send" and "stream_isConnected ss"
  shows "live_ba_transfer (stream_write_ba send ss) (ba_sends sent) (\<lambda>ba k. length (readable ba))"
proof (intro live_ba_transfer.intro stream_sender assms(1) live_ba_transfer_axioms.intro)
  fix ba :: byte_array and n k r ba1 k1
  assume "ba_inv ba" "0 < (n :: nat)" "0 < length (readable ba)" "stream_write_ba send ss ba n k = Inr (r, ba1, k1)"
  then show "0 < r" using stream_write_ba_sends [OF assms(1), of ba n ss k] assms(2,3) by auto
qed (simp add: ba_sends_def)

section \<open>A connection\<close>

text \<open>
  A connection as the segments that arrive and the bytes sent so far. A \<^verbatim>\<open>recv\<close> takes from the first segment that is not empty, up
  to the limit of the Linux system call; a \<^verbatim>\<open>send\<close> accepts up to 1460 bytes.
\<close>

record 'b link =
  segments :: "'b list list"
  outgoing :: "'b list"

definition link_recv :: "('b, 'b link) recv_call" where
  "link_recv fd n l = (case dropWhile (\<lambda>s. s = []) (segments l) of [] \<Rightarrow> (0, [], l)
     | s # ss \<Rightarrow> let m = min (min n 0x7ffff000) (length s) in (int m, take m s, l\<lparr>segments := drop m s # ss\<rparr>))"

definition link_send :: "('b, 'b link) send_call" where
  "link_send fd bs l = (let m = min 1460 (length bs) in (int m, l\<lparr>outgoing := outgoing l @ take m bs\<rparr>))"

abbreviation arriving :: "'b link \<Rightarrow> 'b list" where
  "arriving l \<equiv> concat (segments l)"

lemma concat_dropWhile_Nil: "concat (dropWhile (\<lambda>s. s = []) xs) = concat xs"
  by (induction xs) auto

lemma take_drop_append [simp]: "take n xs @ drop n xs @ ys = xs @ ys"
  by (metis append_assoc append_take_drop_id)

lemma link_recv_contract: "recv_contract link_recv arriving"
  unfolding recv_contract_def
proof (intro allI impI)
  fix fd n l r bs l1 assume eq: "link_recv fd n l = (r, bs, l1)"
  note c = concat_dropWhile_Nil [of "segments l"]
  show "-1 \<le> r \<and> r \<le> int n \<and> r < 2 ^ 31 \<and> length bs = nat r \<and> arriving l = bs @ arriving l1"
    using eq c by (auto simp: link_recv_def Let_def min_def split: list.splits if_splits)
qed

lemma link_recv_delivers: "recv_delivers link_recv arriving"
  unfolding recv_delivers_def
proof (intro allI impI)
  fix fd n l assume "0 < (n :: nat)" "arriving l \<noteq> []"
  then obtain s ss where "dropWhile (\<lambda>s. s = []) (segments l) = s # ss"
    using concat_dropWhile_Nil [of "segments l"] by (cases "dropWhile (\<lambda>s. s = []) (segments l)") auto
  moreover from this have "s \<noteq> []" by (metis (full_types) dropWhile_eq_Cons_conv)
  ultimately show "0 < fst (link_recv fd n l)" using \<open>0 < n\<close> by (simp add: link_recv_def Let_def)
qed

lemma link_send_contract: "send_contract link_send outgoing"
  by (auto simp: send_contract_def link_send_def Let_def)

lemma link_send_accepts: "send_accepts link_send"
  by (simp add: send_accepts_def link_send_def Let_def)

lemmas link_laws = link_recv_contract link_recv_delivers link_send_contract link_send_accepts

text \<open>A connected stream, on which the contracts are interpreted.\<close>

definition open_stream :: socket_stream where
  "open_stream = mk_SocketStream (Some ((mk_Socket AF_INET TCP 0)\<lparr>m_sock := 5, m_isConnected := True\<rparr>)) True"

lemma open_stream_connected [simp]: "stream_isConnected open_stream"
  by (simp add: open_stream_def mk_SocketStream_def stream_isConnected_def)

interpretation link_source: live_source "stream_read link_recv open_stream" arriving
  by (intro stream_live_source link_laws open_stream_connected)

interpretation link_sink: live_sink "stream_write link_send open_stream" outgoing
  by (intro stream_live_sink link_laws open_stream_connected)

interpretation link_receiver: live_ba_transfer "stream_read_ba link_recv open_stream" "ba_receives arriving" "\<lambda>ba l. length (arriving l)"
  by (intro stream_live_receiver link_laws open_stream_connected)

interpretation link_sender: live_ba_transfer "stream_write_ba link_send open_stream" "ba_sends outgoing" "\<lambda>ba l. length (readable ba)"
  by (intro stream_live_sender link_laws open_stream_connected)

section \<open>Properties\<close>

text \<open>
  A fixed size read is all or nothing to its caller, and exact about the connection. Over any connection whose \<^verbatim>\<open>recv\<close>
  keeps its documented contract, \<^verbatim>\<open>readFixSize\<close> of \<open>n\<close> bytes (less than 2 GiB) either returns \<open>n\<close> with \<open>n\<close> bytes in the buffer, or
  returns zero or less with fewer; in both cases the bytes in the buffer are exactly the bytes taken from the connection, in
  order, however the kernel cut them.
\<close>

theorem readFixSize_exact:
  assumes "recv_contract recv pending" and "n < 2 ^ 31" and "readFixSize (stream_read recv ss) n k = (r, bs, k1)"
  shows "pending k = bs @ pending k1 \<and> (r = int n \<and> length bs = n \<or> r \<le> 0 \<and> length bs < n)"
  by (rule byte_source.fixed_outcome [OF stream_source [OF assms(1)] assms(3,2)])

lemma readFixSize_exact_witness:
  "\<exists>r bs l1. readFixSize (stream_read link_recv open_stream) 4 \<lparr>segments = [''ab'', ''c''], outgoing = ''''\<rparr> = (r, bs, l1)
     \<and> ''abc'' = bs @ arriving l1 \<and> (r = 4 \<and> length bs = 4 \<or> r \<le> 0 \<and> length bs < 4)"
proof -
  let ?l = "\<lparr>segments = [''ab'', ''c''], outgoing = ''''\<rparr>"
  obtain r bs l1 where eq: "readFixSize (stream_read link_recv open_stream) 4 ?l = (r, bs, l1)" by (metis surj_pair)
  show ?thesis using readFixSize_exact [OF link_recv_contract _ eq] eq by simp
qed



text \<open>A length of 2 GiB is returned as a negative number, which the callers take for a failure.\<close>

lemma readFixSize_2GiB:
  "readFixSize_loop rd (2 ^ 31) k = (None, bs, k1) \<Longrightarrow> readFixSize rd (2 ^ 31) k = (- (2 ^ 31), bs, k1)"
proof -
  assume loop: "readFixSize_loop rd (2 ^ 31) k = (None, bs, k1)"
  have "to_int64 (2 ^ 31) = 2 ^ 31" using to_int64_small [of "2 ^ 31"] by (simp only: of_nat_power of_nat_numeral) simp
  moreover have "to_int (int (2 ^ 31)) = - (2 ^ 31)" by (simp add: to_int_def)
  ultimately show ?thesis using loop by (simp only: readFixSize_def prod.case option.case)
qed

lemma fixSize_ba_delivers:
  assumes "live_ba_transfer io moves available" and "ba_inv ba" and "n \<le> available ba k" and "n < 2 ^ 31"
  shows "\<exists>bs ba1 k1. fixSize_ba io ba n k = Inr (int n, ba1, k1) \<and> moves ba k bs ba1 k1 \<and> length bs = n"
proof -
  obtain ba1 k1 where loop: "fixSize_ba_loop io (int n) ba k = Inr (None, ba1, k1)"
    using live_ba_transfer.ba_loop_delivers [OF assms(1,2), of "int n" k] assms(3) by auto
  moreover obtain bs where "moves ba k bs ba1 k1" "length bs = n"
    using ba_transfer.ba_loop_outcome [OF live_ba_transfer.axioms(1) [OF assms(1)] assms(2), of "int n" k] loop by auto
  ultimately show ?thesis using assms(4) by (auto simp: fixSize_ba_def to_int64_small to_int_small)
qed


text \<open>Five bytes from nodes of two bytes.\<close>

definition five_bytes :: byte_array where
  "five_bytes = (case ba_write (mk_ByteArray 2) [1, 2, 3, 4, 5] of Inr b \<Rightarrow> b\<lparr>m_position := 0, m_cur := Some 0\<rparr> | Inl _ \<Rightarrow> mk_ByteArray 2)"

lemma five_bytes_ok: "ba_inv five_bytes" "readable five_bytes = [1, 2, 3, 4, 5]"
  by code_simp+


end
