(* ===== verification/Http_Sessions.thy ===== *)
theory Http_Sessions
  imports Http_Parse_Props Streams
begin

text \<open>
  The server side of an HTTP connection (\<^verbatim>\<open>dwframe/http/http_session.h\<close>, \<^verbatim>\<open>dwframe/http/http_session.cc\<close>): receiving a
  request through the parser and sending a response. A session is a socket stream. The buffer is modelled by its contents in
  use; \<open>buff_size\<close> is the configured size, \<open>memory\<close> what the memory of the parser held, \<open>cast\<close> is \<^verbatim>\<open>boost::lexical_cast\<close> and
  \<open>max_size\<close> the longest string that can be allocated.
\<close>

section \<open>Receiving\<close>

text \<open>
  The loop of \<^verbatim>\<open>recvRequest\<close>: \<open>None\<close> as its value means that the connection is closed and no request returned, otherwise
  the parser and the unparsed rest. It has no bound of its own, so its definition leaves open whether it ends.
\<close>

partial_function (option) recv_loop ::
  "(nat \<Rightarrow> 'k \<Rightarrow> int \<times> string \<times> 'k) \<Rightarrow> nat \<Rightarrow> request_parser \<Rightarrow> string \<Rightarrow> 'k
     \<Rightarrow> ((request_parser \<times> string) option \<times> 'k) result option" where
  "recv_loop rd buff_size parser rest k =
     (case rd (buff_size - length rest) k of (len, bs, k1) \<Rightarrow>
        if len \<le> 0 then Some (Inr (None, k1))
        else (case parser_execute (rest @ bs) parser of
          Inl e \<Rightarrow> Some (Inl e)
        | Inr (nparse, rest1, parser1) \<Rightarrow>
            if hasError parser1 then Some (Inr (None, k1))
            else if int (length rest1) = to_int (int buff_size) then Some (Inr (None, k1))
            else if isFinished parser1 \<noteq> 0 then Some (Inr (Some (parser1, rest1), k1))
            else recv_loop rd buff_size parser1 rest1 k1))"

text \<open>
  The body: as many bytes of the rest as the length allows, then a fixed size read for what is missing. The string is
  allocated in full first. \<open>None\<close> means that the read failed.
\<close>

definition recv_body :: "(nat \<Rightarrow> 'k \<Rightarrow> int \<times> string \<times> 'k) \<Rightarrow> nat \<Rightarrow> int \<Rightarrow> string \<Rightarrow> 'k \<Rightarrow> (string option \<times> 'k) result" where
  "recv_body rd max_size len rest k =
     (if nat len > max_size then Inl Length_error
      else let body = replicate (nat len) (CHR 0x00);
               n = (if len \<ge> int (length rest) then length rest else nat len);
               body = overwrite 0 (take n rest) body;
               left = len - int (length rest) in
        if left > 0 then
          case readFixSize rd (nat left) k of (r, bs, k1) \<Rightarrow>
            if r \<le> 0 then Inr (None, k1) else Inr (Some (overwrite n bs body), k1)
        else Inr (Some body, k))"

definition recvRequest :: "(char, 'k) recv_call \<Rightarrow> (string \<Rightarrow> uint64 option) \<Rightarrow> nat \<Rightarrow> nat \<Rightarrow> http_parser
    \<Rightarrow> socket_stream \<Rightarrow> world \<Rightarrow> 'k \<Rightarrow> (HttpRequest option \<times> socket_stream \<times> world \<times> 'k) result option" where
  "recvRequest recv cast max_size buff_size memory ss w k =
     (let refuse = (\<lambda>k. bindE (stream_close ss w) (\<lambda>(ss1, w1). Inr (None, ss1, w1, k))) in
      case recv_loop (stream_read recv ss) buff_size (mk_HttpRequestParser memory) [] k of
        None \<Rightarrow> None
      | Some (Inl e) \<Rightarrow> Some (Inl e)
      | Some (Inr (None, k1)) \<Rightarrow> Some (refuse k1)
      | Some (Inr (Some (parser, rest), k1)) \<Rightarrow>
          let len = sint (getContentLength cast parser) in
          Some (if len > 0 then
              bindE (recv_body (stream_read recv ss) max_size len rest k1) (\<lambda>(body, k2).
                case body of
                  None \<Rightarrow> refuse k2
                | Some body \<Rightarrow> Inr (Some (request_init ((m_data parser)\<lparr>m_body := body\<rparr>)), ss, w, k2))
            else Inr (Some (request_init (m_data parser)), ss, w, k1)))"

section \<open>Sending\<close>

definition sendResponse :: "(char, 'k) send_call \<Rightarrow> HttpResponse \<Rightarrow> socket_stream \<Rightarrow> 'k \<Rightarrow> int \<times> 'k" where
  "sendResponse send rsp ss k = writeFixSize (stream_write send ss) (response_dump rsp) k"

section \<open>The loop ends\<close>

text \<open>Every round takes at least one byte from the connection, or ends the loop.\<close>

lemma recv_loop_returns:
  assumes "byte_source rd pending"
  shows "\<exists>out. recv_loop rd buff_size parser rest k = Some out"
proof (induction "length (pending k)" arbitrary: parser rest k rule: less_induct)
  case less
  obtain len bs k1 where rd: "rd (buff_size - length rest) k = (len, bs, k1)" by (metis surj_pair)
  note step = byte_source.read_next [OF assms rd]
  have "\<exists>out. recv_loop rd buff_size parser1 rest1 k1 = Some out" if "0 < len" for parser1 rest1
    using less.hyps [of k1 parser1 rest1] step that by auto
  then show ?case
    by (subst recv_loop.simps) (auto simp: rd split: sum.splits)
qed

lemma overwrite_all: "length xs = length ys \<Longrightarrow> overwrite 0 xs ys = xs"
  by (simp add: overwrite_def)

text \<open>The body is the next bytes of the rest and the connection; what the rest holds behind it is dropped.\<close>

lemma recv_body_inside:
  assumes "0 < len" and "len \<le> int (length rest)" and "nat len \<le> max_size"
  shows "recv_body rd max_size len rest k = Inr (Some (take (nat len) rest), k)"
proof -
  have "(if len \<ge> int (length rest) then length rest else nat len) = nat len" using assms(2) by auto
  with assms show ?thesis by (simp add: recv_body_def Let_def overwrite_all)
qed

lemma recv_body_beyond:
  assumes "live_source rd pending" and "int (length rest) < len" and "nat len \<le> max_size" and "len < 2 ^ 31"
    and "nat len \<le> length rest + length (pending k)"
  shows "\<exists>k1. recv_body rd max_size len rest k = Inr (Some (take (nat len) (rest @ pending k)), k1)
     \<and> pending k1 = drop (nat len) (rest @ pending k)"
proof -
  let ?left = "nat (len - int (length rest))"
  have left: "?left = nat len - length rest" "0 < ?left" using assms(2) by auto
  obtain k1 where k1: "readFixSize rd ?left k = (int ?left, take ?left (pending k), k1)" "pending k1 = drop ?left (pending k)"
  proof -
    have "?left \<le> length (pending k)" using assms(5) left by linarith
    moreover have "?left < 2 ^ 31" using assms(4) by (simp add: nat_less_iff)
    ultimately show thesis using live_source.fixed_delivers [OF assms(1), of ?left k] that by blast
  qed
  have "overwrite (0 + length rest) (take ?left (pending k)) (overwrite 0 rest (replicate (nat len) (CHR 0x00)))
      = rest @ take ?left (pending k)"
    using assms(2,5) left by (subst overwrite_continued) (auto intro!: overwrite_all)
  with k1 assms(2,3) left show ?thesis
    by (intro exI [of _ k1]) (simp add: recv_body_def Let_def)
qed

section \<open>The headers of a received request\<close>

lemma headers_received:
  "m_headers (fold (\<lambda>h. setHeader (fst h) (snd h)) hs r) = fold (\<lambda>h. hassign (fst h) (snd h)) hs (m_headers r)"
  by (induction hs arbitrary: r) (simp_all add: setHeader_def)

lemma setHeader_fold_keeps:
  "m_method (fold (\<lambda>h. setHeader (fst h) (snd h)) hs r) = m_method r \<and> m_path (fold (\<lambda>h. setHeader (fst h) (snd h)) hs r) = m_path r
   \<and> m_query (fold (\<lambda>h. setHeader (fst h) (snd h)) hs r) = m_query r \<and> m_version (fold (\<lambda>h. setHeader (fst h) (snd h)) hs r) = m_version r
   \<and> m_fragment (fold (\<lambda>h. setHeader (fst h) (snd h)) hs r) = m_fragment r \<and> m_body (fold (\<lambda>h. setHeader (fst h) (snd h)) hs r) = m_body r"
  by (induction hs arbitrary: r) (simp_all add: setHeader_def)

lemma fold_key_connection: "skip_header False h \<longleftrightarrow> fold_key (fst h) = fold_key ''connection''"
  using strcasecmp_zero [OF nonzero_c_str nonzero_c_str, of "fst h" "''connection''"]
  by (simp add: skip_header_def fold_key_def c_str_def)

lemma fold_key_distinct: "fold_key ''connection'' \<noteq> fold_key ''content-length''"
  by (simp add: fold_key_def c_str_def lower_code_def Let_def)

text \<open>What a receiver finds in the headers of a printed request.\<close>

lemma printed_headers_found:
  assumes "map_sorted CaseInsensitiveLess (m_headers q)" and "\<not> m_websocket q"
  shows "hfind key (fold (\<lambda>h. hassign (fst h) (snd h)) (printed_headers q) [])
    = (if fold_key key = fold_key ''connection'' then Some (if m_close q then ''close'' else ''keep-alive'')
       else if fold_key key = fold_key ''content-length'' \<and> m_body q \<noteq> [] then Some (show_base 10 (length (m_body q)))
       else hfind key (m_headers q))"
proof -
  let ?mid = "filter (\<lambda>h. \<not> skip_header False h) (m_headers q)"
  let ?c = "[(''connection'', if m_close q then ''close'' else ''keep-alive'')]"
  have sorted: "map_sorted CaseInsensitiveLess ?mid"
    using assms(1) unfolding map_sorted_def by (induction "m_headers q") (auto simp: sorted_wrt_map intro: sorted_wrt_filter)
  have mid: "hfind key ?mid = (if fold_key key = fold_key ''connection'' then None else hfind key (m_headers q))"
  proof (cases "fold_key key = fold_key ''connection''")
    case True
    then have "find (\<lambda>h. equiv_key CaseInsensitiveLess (fst h) key) ?mid = None"
      by (auto simp: find_None_iff CaseInsensitiveLess_equiv fold_key_connection)
    with True sorted show ?thesis by (simp add: header_order.map_find_find)
  next
    case False
    then show ?thesis using header_order.map_find_filter [OF assms(1), of key "\<lambda>h. \<not> skip_header False h"]
      by (simp add: CaseInsensitiveLess_equiv fold_key_connection)
  qed
  have c: "map_sorted CaseInsensitiveLess ?c" "hfind key ?c = (if fold_key key = fold_key ''connection''
      then Some (if m_close q then ''close'' else ''keep-alive'') else None)"
    using CaseInsensitiveLess_equiv [of key "''connection''"] by (auto simp: equiv_key_def)
  note all = header_order.map_find_assign_all [OF sorted c(1), of key]
  have pr: "printed_headers q = ?c @ ?mid @ (if m_body q = [] then [] else [(''content-length'', show_base 10 (length (m_body q)))])"
    using assms(2) by (simp add: printed_headers_def)
  show ?thesis unfolding pr using all mid c(2) fold_key_distinct
    by (auto simp: header_order.map_find_assign CaseInsensitiveLess_equiv split: option.splits)
qed

section \<open>Receiving a printed request\<close>

text \<open>What \<^verbatim>\<open>boost::lexical_cast\<close> does with the digits of a number.\<close>

definition cast_contract :: "(string \<Rightarrow> uint64 option) \<Rightarrow> bool" where
  "cast_contract cast \<longleftrightarrow> (\<forall>n < 2 ^ 64. cast (show_base 10 n) = Some (of_nat n))"

text \<open>A request that the grammar can carry: a printable one, without a content-length of its own.\<close>

definition sendable :: "HttpRequest \<Rightarrow> bool" where
  "sendable q \<longleftrightarrow> m_method q \<noteq> INVALID_METHOD \<and> m_method q \<noteq> MSEARCH \<and> (m_version q = 0x10 \<or> m_version q = 0x11)
     \<and> target_ok q \<and> list_all header_ok (m_headers q) \<and> map_sorted CaseInsensitiveLess (m_headers q)
     \<and> \<not> m_websocket q \<and> hfind ''content-length'' (m_headers q) = None"

lemma recv_loop_head:
  assumes "sendable q" and "rd buff_size k = (len, request_head q @ tail, k1)" and "0 < len"
    and "int (length tail) \<noteq> to_int (int buff_size)"
  shows "\<exists>t. recv_loop rd buff_size (mk_HttpRequestParser memory) [] k = Some (Inr (Some (t, tail), k1))
     \<and> m_data t = fold (\<lambda>h. setHeader (fst h) (snd h)) (printed_headers q)
          ((mk_HttpRequest (m_version q) True)\<lparr>m_method := m_method q, m_path := m_path q, m_query := m_query q,
             m_fragment := m_fragment q\<rparr>)"
proof -
  obtain n t where t: "parser_execute (request_head q @ tail) (mk_HttpRequestParser memory) = Inr (n, tail, t)" "\<not> hasError t"
      "isFinished t = 1" "m_data t = fold (\<lambda>h. setHeader (fst h) (snd h)) (printed_headers q)
          ((mk_HttpRequest (m_version q) True)\<lparr>m_method := m_method q, m_path := m_path q, m_query := m_query q,
             m_fragment := m_fragment q\<rparr>)"
    using parse_head [of q tail memory] assms(1) unfolding sendable_def by blast
  have "recv_loop rd buff_size (mk_HttpRequestParser memory) [] k = Some (Inr (Some (t, tail), k1))"
    by (subst recv_loop.simps) (use assms t(1-3) in simp)
  with t(4) show ?thesis by blast
qed

lemma content_length_received:
  assumes "sendable q" and "cast_contract cast" and "length (m_body q) < 2 ^ 63"
    and "m_headers (m_data t) = fold (\<lambda>h. hassign (fst h) (snd h)) (printed_headers q) []"
  shows "sint (getContentLength cast t) = int (length (m_body q))"
proof -
  note found = printed_headers_found [of q "''content-length''"]
  show ?thesis
  proof (cases "m_body q = []")
    case True
    then show ?thesis using found assms(1,4) fold_key_distinct
      by (simp add: getContentLength_def getAs_def sendable_def)
  next
    case False
    then have "getContentLength cast t = of_nat (length (m_body q))"
      using found assms fold_key_distinct
      by (simp add: getContentLength_def getAs_def sendable_def cast_contract_def)
    then show ?thesis using to_int64_small [OF assms(3)] by (simp add: to_int64_def)
  qed
qed

text \<open>What a received request agrees on with the request that was sent.\<close>

definition same_request :: "HttpRequest \<Rightarrow> HttpRequest \<Rightarrow> bool" where
  "same_request r q \<longleftrightarrow> m_method r = m_method q \<and> m_path r = m_path q \<and> m_query r = m_query q \<and> m_fragment r = m_fragment q
     \<and> m_version r = m_version q \<and> m_close r = m_close q \<and> m_body r = m_body q
     \<and> (\<forall>key. fold_key key \<noteq> fold_key ''connection'' \<longrightarrow> fold_key key \<noteq> fold_key ''content-length'' \<longrightarrow>
          hfind key (m_headers r) = hfind key (m_headers q))"

lemma received_same:
  assumes "sendable q"
    and "d = fold (\<lambda>h. setHeader (fst h) (snd h)) (printed_headers q)
          ((mk_HttpRequest (m_version q) True)\<lparr>m_method := m_method q, m_path := m_path q, m_query := m_query q,
             m_fragment := m_fragment q\<rparr>)"
  shows "same_request (request_init (d\<lparr>m_body := m_body q\<rparr>)) q"
proof -
  have h: "m_headers d = fold (\<lambda>h. hassign (fst h) (snd h)) (printed_headers q) []"
    by (simp add: assms(2) headers_received mk_HttpRequest_def)
  note found = printed_headers_found [of q, folded h]
  have "getHeader ''connection'' [] (d\<lparr>m_body := m_body q\<rparr>) = (if m_close q then ''close'' else ''keep-alive'')"
    using found assms(1) by (simp add: getHeader_def sendable_def)
  then have init: "request_init (d\<lparr>m_body := m_body q\<rparr>) = d\<lparr>m_body := m_body q, m_close := m_close q\<rparr>"
    by (simp add: request_init_def Let_def c_str_def lower_code_def)
  show ?thesis
    unfolding init same_request_def using found assms(1)
    by (auto simp: assms(2) setHeader_fold_keeps mk_HttpRequest_def sendable_def)
qed

section \<open>Properties\<close>

lemma recvRequest_some:
  assumes "recv_contract recv pending"
  shows "\<exists>out. recvRequest recv cast max_size buff_size memory ss w k = Some out"
  using recv_loop_returns [OF stream_source [OF assms], of ss buff_size "mk_HttpRequestParser memory" "[]" k]
  by (auto simp: recvRequest_def Let_def split: sum.splits option.splits prod.splits)


lemma receive_printed:
  assumes "sendable q" and "recv_contract recv pending" and "recv_delivers recv pending" and "stream_isConnected ss"
    and "cast_contract cast" and "pending k = request_dump q"
    and "int (length (request_head q)) \<le> fst (stream_read recv ss buff_size k)"
    and "buff_size < 2 ^ 31" and "length (m_body q) \<le> max_size" and "length (m_body q) < 2 ^ 31"
  shows "\<exists>r k1. recvRequest recv cast max_size buff_size memory ss w k = Some (Inr (Some r, ss, w, k1))
     \<and> same_request r q \<and> pending k1 = []"
proof -
  let ?rd = "stream_read recv ss" and ?h = "request_head q" and ?b = "m_body q"
  note live = stream_live_source [OF assms(2-4)]
  obtain len bs k0 where rd: "?rd buff_size k = (len, bs, k0)" by (metis surj_pair)
  note step = byte_source.read_next [OF stream_source [OF assms(2)] rd]
  define tail where "tail = drop (length ?h) bs"
  have hlen: "length ?h \<le> length bs" "0 < length ?h" using assms(7) rd step by (auto simp: request_head_def)
  have "?h @ ?b = bs @ pending k0" using step assms(6) by (simp add: request_dump_parts)
  then have "?h = take (length ?h) bs" and parts2: "?b = tail @ pending k0"
    using hlen(1) by (simp_all add: tail_def append_eq_append_conv_if)
  then have parts1: "bs = ?h @ tail" unfolding tail_def by (metis append_take_drop_id)
  note parts = parts1 parts2
  have "length bs \<le> buff_size" using step by linarith
  then have "length tail < buff_size" using hlen(2) unfolding parts1 length_append by linarith
  then have "int (length tail) \<noteq> to_int (int buff_size)" using assms(8) by (simp add: to_int_small)
  moreover have "0 < len" using step hlen by linarith
  ultimately obtain t where loop: "recv_loop ?rd buff_size (mk_HttpRequestParser memory) [] k = Some (Inr (Some (t, tail), k0))"
      and data: "m_data t = fold (\<lambda>h. setHeader (fst h) (snd h)) (printed_headers q)
          ((mk_HttpRequest (m_version q) True)\<lparr>m_method := m_method q, m_path := m_path q, m_query := m_query q, m_fragment := m_fragment q\<rparr>)"
    using recv_loop_head [where rd = ?rd, OF assms(1) rd [unfolded parts(1)]] by blast
  have cl: "sint (getContentLength cast t) = int (length ?b)"
    using content_length_received [OF assms(1,5)] assms(10) by (simp add: data headers_received mk_HttpRequest_def)
  note same = received_same [OF assms(1) data]
  show ?thesis
  proof (cases "?b = []")
    case True
    then have "request_init (m_data t) = request_init ((m_data t)\<lparr>m_body := ?b\<rparr>)"
      using data by (intro arg_cong [of _ _ request_init]) (simp add: setHeader_fold_keeps mk_HttpRequest_def)
    with True loop cl same parts(2) show ?thesis by (simp add: recvRequest_def Let_def)
  next
    case False
    have "\<exists>k1. recv_body ?rd max_size (int (length ?b)) tail k0 = Inr (Some ?b, k1) \<and> pending k1 = []"
    proof (cases "length ?b \<le> length tail")
      case True
      then have "pending k0 = []" "tail = ?b" using parts(2) by auto
      then show ?thesis using recv_body_inside [of "int (length ?b)" tail max_size ?rd k0] False assms(9) by simp
    next
      case short: False
      then show ?thesis using recv_body_beyond [OF live, of tail "int (length ?b)" max_size k0] assms(9,10) parts(2) by simp
    qed
    with False loop cl same show ?thesis by (auto simp: recvRequest_def Let_def)
  qed
qed

text \<open>
  C2: A request sent is the request received. If a printable request arrives with its head in one piece and its body cut in any
  way, \<^verbatim>\<open>recvRequest\<close> returns a request with the same method, target, version, body, connection choice and headers, leaves
  the session open and the connection empty. The body must be shorter than 2 GiB.
\<close>

theorem request_received:
  assumes "sendable q" and "recv_contract recv pending" and "recv_delivers recv pending" and "stream_isConnected ss"
    and "cast_contract cast" and "pending k = request_dump q"
    and "int (length (request_head q)) \<le> fst (stream_read recv ss buff_size k)"
    and "buff_size < 2 ^ 31" and "length (m_body q) \<le> max_size" and "length (m_body q) < 2 ^ 31"
  shows "\<exists>r k1. recvRequest recv cast max_size buff_size memory ss w k = Some (Inr (Some r, ss, w, k1))
     \<and> same_request r q \<and> pending k1 = []"
  by (rule receive_printed [OF assms])

definition example_request :: HttpRequest where
  "example_request = (mk_HttpRequest 0x11 False)\<lparr>m_method := POST, m_path := ''/a'', m_body := ''hi''\<rparr>"

definition decimal_cast :: "string \<Rightarrow> uint64 option" where
  "decimal_cast t = Some (of_nat (read_base 10 t))"

lemma decimal_cast_contract: "cast_contract decimal_cast"
  by (simp add: cast_contract_def decimal_cast_def read_show_base)

lemma example_sendable: "sendable example_request"
  by (simp add: sendable_def example_request_def mk_HttpRequest_def target_ok_def path_ok_def path_char_def signed_char_def)

lemma example_dump_short: "0 < length (request_dump example_request)" "length (request_dump example_request) \<le> 4096"
  by (simp_all add: request_dump_def example_request_def mk_HttpRequest_def HttpMethodToString_def HTTP_METHOD_MAP_def show_version_def
      connection_line_def body_text_def show_base_rec digit_char_def)

lemma open_stream_reads:
  assumes "s \<noteq> []" and "length s \<le> n" and "n \<le> 4096"
  shows "stream_read link_recv open_stream n \<lparr>segments = s # ss, outgoing = out\<rparr>
    = (int (length s), s, \<lparr>segments = [] # ss, outgoing = out\<rparr>)"
proof -
  have "min (min n 0x7ffff000) (length s) = length s" using assms(2,3) by simp
  then show ?thesis using assms
    by (simp add: stream_read_def open_stream_def mk_SocketStream_def sock_recv_def sock_io_def link_recv_def to_int_small Let_def)
qed

lemma request_received_witness:
  "\<exists>r k1. recvRequest link_recv decimal_cast 100 4096 blank_memory open_stream quiet_world
       \<lparr>segments = [request_dump example_request], outgoing = []\<rparr> = Some (Inr (Some r, open_stream, quiet_world, k1))
     \<and> same_request r example_request \<and> arriving k1 = []"
proof (rule request_received [OF example_sendable link_recv_contract link_recv_delivers open_stream_connected decimal_cast_contract])
  have "request_dump example_request \<noteq> []" "length (request_dump example_request) \<le> 4096" using example_dump_short by auto
  then show "int (length (request_head example_request))
      \<le> fst (stream_read link_recv open_stream 4096 \<lparr>segments = [request_dump example_request], outgoing = []\<rparr>)"
    by (subst open_stream_reads) (simp_all add: request_dump_parts)
qed (simp_all add: example_request_def)


text \<open>
  Bytes that arrive together with a request are lost. A second request that is read into the buffer with the end of the first
  one, as a pipelining client sends it, is taken from the connection and dropped when the first one is returned.
\<close>

theorem pipelined_request_lost:
  assumes "sendable q" and "m_body q = []" and "recv_contract recv pending" and "cast_contract cast"
    and "stream_read recv ss buff_size k = (len, request_head q @ tail, k1)" and "buff_size < 2 ^ 31"
  shows "pending k = request_head q @ tail @ pending k1
     \<and> (\<exists>r. recvRequest recv cast max_size buff_size memory ss w k = Some (Inr (Some r, ss, w, k1)) \<and> same_request r q)"
proof -
  note step = byte_source.read_next [OF stream_source [OF assms(3)] assms(5)]
  have h: "0 < length (request_head q)" by (simp add: request_head_def)
  have "length (request_head q @ tail) \<le> buff_size" using step by linarith
  then have "length tail < buff_size" using h unfolding length_append by linarith
  then have "int (length tail) \<noteq> to_int (int buff_size)" using assms(6) by (simp add: to_int_small)
  moreover have "0 < len" using step h unfolding length_append by linarith
  ultimately obtain t where loop: "recv_loop (stream_read recv ss) buff_size (mk_HttpRequestParser memory) [] k = Some (Inr (Some (t, tail), k1))"
      and data: "m_data t = fold (\<lambda>h. setHeader (fst h) (snd h)) (printed_headers q)
          ((mk_HttpRequest (m_version q) True)\<lparr>m_method := m_method q, m_path := m_path q, m_query := m_query q, m_fragment := m_fragment q\<rparr>)"
    using recv_loop_head [where rd = "stream_read recv ss", OF assms(1,5)] by blast
  have "sint (getContentLength cast t) = 0"
    using content_length_received [OF assms(1,4)] assms(2) by (simp add: data headers_received mk_HttpRequest_def)
  moreover have "request_init (m_data t) = request_init ((m_data t)\<lparr>m_body := m_body q\<rparr>)"
    using data assms(2) by (intro arg_cong [of _ _ request_init]) (simp add: setHeader_fold_keeps mk_HttpRequest_def)
  ultimately show ?thesis using loop step received_same [OF assms(1) data] by (simp add: recvRequest_def Let_def)
qed

definition example_get :: HttpRequest where
  "example_get = (mk_HttpRequest 0x11 False)\<lparr>m_path := ''/a''\<rparr>"

lemma pipelined_request_lost_witness:
  "\<exists>r k1. recvRequest link_recv decimal_cast 100 4096 blank_memory open_stream quiet_world
       \<lparr>segments = [request_head example_get @ ''GET /b HTTP/1.1''], outgoing = []\<rparr> = Some (Inr (Some r, open_stream, quiet_world, k1))
     \<and> arriving k1 = []"
proof -
  let ?s = "request_head example_get @ ''GET /b HTTP/1.1''"
  have q: "sendable example_get" "m_body example_get = []"
    by (simp_all add: sendable_def example_get_def mk_HttpRequest_def target_ok_def path_ok_def path_char_def signed_char_def)
  have "?s \<noteq> []" "length ?s \<le> 4096"
    by (simp_all add: request_head_def example_get_def mk_HttpRequest_def HttpMethodToString_def HTTP_METHOD_MAP_def show_version_def
        printed_headers_def header_line_def request_target_def show_base_rec digit_char_def)
  from pipelined_request_lost [OF q link_recv_contract decimal_cast_contract open_stream_reads [OF this order_refl, of "[]" "[]"],
      of 100 blank_memory quiet_world]
  show ?thesis by auto
qed

end
