(* ===== verification/Servlets.thy ===== *)
theory Servlets
  imports Http_Messages
begin

text \<open>
  Servlets and their dispatch (\<^verbatim>\<open>dwframe/http/servlet.h\<close>, \<^verbatim>\<open>dwframe/http/servlet.cc\<close>). A servlet handles a request and a
  response, both of which it may change through its pointers, and a session, whose type is left open here. \<open>fnmatch\<close> is the
  matcher of the C library, an argument; a null pointer is \<open>None\<close>.
\<close>

section \<open>Servlets\<close>

type_synonym 's handler = "HttpRequest \<Rightarrow> HttpResponse \<Rightarrow> 's \<Rightarrow> int \<times> HttpRequest \<times> HttpResponse \<times> 's"

datatype 's servlet =
    FunctionServlet "'s handler"
  | NotFoundServlet string string

fun servlet_getName :: "'s servlet \<Rightarrow> string" where
  "servlet_getName (FunctionServlet cb) = ''FunctionServlet''"
| "servlet_getName (NotFoundServlet name content) = ''NotFoundServlet''"

definition mk_NotFoundServlet :: "string \<Rightarrow> 's servlet" where
  "mk_NotFoundServlet name = NotFoundServlet name (''<html><head><title>404 Not Found''
     @ ''</title></head><body><center><h1>404 Not Found</h1></center>''
     @ ''<hr><center>'' @ name @ ''</center></body></html>'')"

definition NotFoundServlet_handle :: "string \<Rightarrow> 's handler" where
  "NotFoundServlet_handle content request response session =
     (0, request, (rsp_setHeader ''Content-Type'' ''text/html''
        (rsp_setHeader ''Server'' ''dwframe/1.0.0'' (response\<lparr>r_status := 404\<rparr>)))\<lparr>r_body := content\<rparr>, session)"

fun servlet_handle :: "'s servlet \<Rightarrow> 's handler" where
  "servlet_handle (FunctionServlet cb) = cb"
| "servlet_handle (NotFoundServlet name content) = NotFoundServlet_handle content"

section \<open>Creators\<close>

text \<open>\<^verbatim>\<open>HoldServletCreator\<close> with its servlet, \<^verbatim>\<open>ServletCreator\<close> with the name of the class and what a new object of it is.\<close>

datatype 's creator =
    HoldServletCreator "'s servlet option"
  | ServletCreator string "'s servlet"

fun creator_get :: "'s creator \<Rightarrow> 's servlet option" where
  "creator_get (HoldServletCreator slt) = slt"
| "creator_get (ServletCreator name slt) = Some slt"

fun creator_getName :: "'s creator \<Rightarrow> string result" where
  "creator_getName (HoldServletCreator None) = Inl Null_dereference"
| "creator_getName (HoldServletCreator (Some slt)) = Inr (servlet_getName slt)"
| "creator_getName (ServletCreator name slt) = Inr name"

section \<open>Dispatch\<close>

record 's dispatch =
  d_datas :: "string \<Rightarrow> 's creator option"
  d_globs :: "(string \<times> 's creator) list"
  d_default :: "'s servlet option"

definition mk_ServletDispatch :: "'s dispatch" where
  "mk_ServletDispatch = \<lparr>d_datas = Map.empty, d_globs = [], d_default = Some (mk_NotFoundServlet ''dwframe/1.0'')\<rparr>"

text \<open>The search loop that removes the first entry of a uri.\<close>

fun glob_erase :: "string \<Rightarrow> (string \<times> 'c) list \<Rightarrow> (string \<times> 'c) list" where
  "glob_erase uri [] = []"
| "glob_erase uri (g # gs) = (if fst g = uri then gs else g # glob_erase uri gs)"

definition addServletCreator :: "string \<Rightarrow> 's creator \<Rightarrow> 's dispatch \<Rightarrow> 's dispatch" where
  "addServletCreator uri creator d = d\<lparr>d_datas := (d_datas d)(uri \<mapsto> creator)\<rparr>"

definition addServlet :: "string \<Rightarrow> 's servlet option \<Rightarrow> 's dispatch \<Rightarrow> 's dispatch" where
  "addServlet uri slt d = d\<lparr>d_datas := (d_datas d)(uri \<mapsto> HoldServletCreator slt)\<rparr>"

definition addServlet_cb :: "string \<Rightarrow> 's handler \<Rightarrow> 's dispatch \<Rightarrow> 's dispatch" where
  "addServlet_cb uri cb d = d\<lparr>d_datas := (d_datas d)(uri \<mapsto> HoldServletCreator (Some (FunctionServlet cb)))\<rparr>"

definition addGlobServletCreator :: "string \<Rightarrow> 's creator \<Rightarrow> 's dispatch \<Rightarrow> 's dispatch" where
  "addGlobServletCreator uri creator d = d\<lparr>d_globs := glob_erase uri (d_globs d) @ [(uri, creator)]\<rparr>"

definition addGlobServlet :: "string \<Rightarrow> 's servlet option \<Rightarrow> 's dispatch \<Rightarrow> 's dispatch" where
  "addGlobServlet uri slt d = d\<lparr>d_globs := glob_erase uri (d_globs d) @ [(uri, HoldServletCreator slt)]\<rparr>"

definition addGlobServlet_cb :: "string \<Rightarrow> 's handler \<Rightarrow> 's dispatch \<Rightarrow> 's dispatch" where
  "addGlobServlet_cb uri cb d = addGlobServlet uri (Some (FunctionServlet cb)) d"

definition delServlet :: "string \<Rightarrow> 's dispatch \<Rightarrow> 's dispatch" where
  "delServlet uri d = d\<lparr>d_datas := (d_datas d)(uri := None)\<rparr>"

definition delGlobServlet :: "string \<Rightarrow> 's dispatch \<Rightarrow> 's dispatch" where
  "delGlobServlet uri d = d\<lparr>d_globs := glob_erase uri (d_globs d)\<rparr>"

definition setDefault :: "'s servlet option \<Rightarrow> 's dispatch \<Rightarrow> 's dispatch" where
  "setDefault v d = d\<lparr>d_default := v\<rparr>"

definition getServlet :: "string \<Rightarrow> 's dispatch \<Rightarrow> 's servlet option" where
  "getServlet uri d = (case d_datas d uri of None \<Rightarrow> None | Some c \<Rightarrow> creator_get c)"

fun glob_find :: "(string \<Rightarrow> bool) \<Rightarrow> (string \<times> 's creator) list \<Rightarrow> 's creator option" where
  "glob_find hit [] = None"
| "glob_find hit (g # gs) = (if hit (fst g) then Some (snd g) else glob_find hit gs)"

definition getGlobServlet :: "string \<Rightarrow> 's dispatch \<Rightarrow> 's servlet option" where
  "getGlobServlet uri d = (case glob_find (\<lambda>u. u = uri) (d_globs d) of None \<Rightarrow> None | Some c \<Rightarrow> creator_get c)"

definition getMatchedServlet :: "(string \<Rightarrow> string \<Rightarrow> bool) \<Rightarrow> string \<Rightarrow> 's dispatch \<Rightarrow> 's servlet option" where
  "getMatchedServlet fnmatch uri d = (case d_datas d uri of
      Some c \<Rightarrow> creator_get c
    | None \<Rightarrow> (case glob_find (\<lambda>u. fnmatch (c_str u) (c_str uri)) (d_globs d) of
          Some c \<Rightarrow> creator_get c
        | None \<Rightarrow> d_default d))"

text \<open>Listing adds the entries to the map of the caller, later entries over earlier ones.\<close>

definition listAllServletCreator :: "'s dispatch \<Rightarrow> (string \<Rightarrow> 's creator option) \<Rightarrow> (string \<Rightarrow> 's creator option)" where
  "listAllServletCreator d infos = infos ++ d_datas d"

definition listAllGlobServletCreator :: "'s dispatch \<Rightarrow> (string \<Rightarrow> 's creator option) \<Rightarrow> (string \<Rightarrow> 's creator option)" where
  "listAllGlobServletCreator d infos = fold (\<lambda>g m. m(fst g \<mapsto> snd g)) (d_globs d) infos"

definition dispatch_handle :: "(string \<Rightarrow> string \<Rightarrow> bool) \<Rightarrow> 's dispatch \<Rightarrow> 's handler" where
  "dispatch_handle fnmatch d request response session =
     (case getMatchedServlet fnmatch (m_path request) d of
        None \<Rightarrow> (0, request, response, session)
      | Some slt \<Rightarrow> (case servlet_handle slt request response session of (_, out) \<Rightarrow> (0, out)))"

section \<open>Laws\<close>

text \<open>The invariant: a pattern is registered once.\<close>

definition dispatch_wf :: "'s dispatch \<Rightarrow> bool" where
  "dispatch_wf d \<longleftrightarrow> distinct (map fst (d_globs d))"

lemma glob_erase_filter: "distinct (map fst gs) \<Longrightarrow> glob_erase uri gs = filter (\<lambda>g. fst g \<noteq> uri) gs"
proof (induction gs)
  case (Cons g gs)
  have "filter (\<lambda>h. fst h \<noteq> fst g) gs = gs" using Cons.prems by (intro filter_True) (metis distinct.simps(2) image_eqI list.map(2) list.set_map)
  with Cons show ?case by auto
qed simp

lemma glob_erase_keys: "set (map fst (glob_erase uri gs)) \<subseteq> set (map fst gs)"
  by (induction gs) auto

lemma glob_erase_distinct: "distinct (map fst gs) \<Longrightarrow> distinct (map fst (glob_erase uri gs)) \<and> uri \<notin> fst ` set (glob_erase uri gs)"
  by (auto simp: glob_erase_filter distinct_map_filter)

lemma glob_find_append: "glob_find hit (gs @ hs) = (case glob_find hit gs of Some c \<Rightarrow> Some c | None \<Rightarrow> glob_find hit hs)"
  by (induction gs) auto

lemma glob_find_none: "glob_find hit gs = None \<longleftrightarrow> (\<forall>g \<in> set gs. \<not> hit (fst g))"
  by (induction gs) auto

lemma dispatch_wf_init [inv_intros]: "dispatch_wf mk_ServletDispatch"
  by (simp add: dispatch_wf_def mk_ServletDispatch_def)

lemma dispatch_wf_ops [inv_intros]:
  "dispatch_wf d \<Longrightarrow> dispatch_wf (addServletCreator uri c d)" "dispatch_wf d \<Longrightarrow> dispatch_wf (addServlet uri s d)"
  "dispatch_wf d \<Longrightarrow> dispatch_wf (delServlet uri d)" "dispatch_wf d \<Longrightarrow> dispatch_wf (setDefault s d)"
  "dispatch_wf d \<Longrightarrow> dispatch_wf (addGlobServletCreator uri c d)" "dispatch_wf d \<Longrightarrow> dispatch_wf (addGlobServlet uri s d)"
  "dispatch_wf d \<Longrightarrow> dispatch_wf (delGlobServlet uri d)"
  using glob_erase_distinct [of "d_globs d" uri]
  by (auto simp: dispatch_wf_def addServletCreator_def addServlet_def delServlet_def setDefault_def
      addGlobServletCreator_def addGlobServlet_def delGlobServlet_def)

text \<open>
  Which servlet answers a path. Registering a path changes the answer to this path only, and removing it gives it back to the
  patterns. A pattern that is registered, or registered again, stands behind all others: it answers the paths it matches
  that have no servlet of their own and that no other pattern matches. Removing it gives these paths to the default servlet.
  Every pattern stays registered once.
\<close>

theorem servlet_dispatch:
  assumes "dispatch_wf d"
  shows "getMatchedServlet fnmatch v (addServlet u s d) = (if v = u then s else getMatchedServlet fnmatch v d)
     \<and> getMatchedServlet fnmatch v (delServlet u d)
         = getMatchedServlet fnmatch v (if v = u then d\<lparr>d_datas := Map.empty\<rparr> else d)
     \<and> getMatchedServlet fnmatch v (addGlobServlet u s d)
         = (if d_datas d v = None \<and> fnmatch (c_str u) (c_str v) \<and> (\<forall>g \<in> set (d_globs d). fst g \<noteq> u \<longrightarrow> \<not> fnmatch (c_str (fst g)) (c_str v))
            then s else getMatchedServlet fnmatch v (delGlobServlet u d))
     \<and> ((\<forall>g \<in> set (d_globs d). fst g \<noteq> u \<longrightarrow> \<not> fnmatch (c_str (fst g)) (c_str v)) \<longrightarrow>
          getMatchedServlet fnmatch v (delGlobServlet u d) = (case d_datas d v of Some c \<Rightarrow> creator_get c | None \<Rightarrow> d_default d))
     \<and> dispatch_wf (addGlobServlet u s d) \<and> dispatch_wf (delGlobServlet u d)"
proof -
  let ?hit = "\<lambda>u. fnmatch (c_str u) (c_str v)" and ?rest = "glob_erase u (d_globs d)"
  have none: "glob_find ?hit ?rest = None \<longleftrightarrow> (\<forall>g \<in> set (d_globs d). fst g \<noteq> u \<longrightarrow> \<not> ?hit (fst g))"
    using assms by (auto simp: dispatch_wf_def glob_erase_filter glob_find_none)
  have glob: "glob_find ?hit (?rest @ [(u, HoldServletCreator s)]) = (case glob_find ?hit ?rest of Some c \<Rightarrow> Some c
      | None \<Rightarrow> if ?hit u then Some (HoldServletCreator s) else None)"
    by (cases "glob_find ?hit ?rest") (simp_all add: glob_find_append)
  show ?thesis
  proof (intro conjI impI)
    show "getMatchedServlet fnmatch v (addGlobServlet u s d)
         = (if d_datas d v = None \<and> ?hit u \<and> (\<forall>g \<in> set (d_globs d). fst g \<noteq> u \<longrightarrow> \<not> ?hit (fst g))
            then s else getMatchedServlet fnmatch v (delGlobServlet u d))"
      unfolding none [symmetric]
      by (cases "d_datas d v"; cases "glob_find ?hit ?rest")
         (simp_all add: getMatchedServlet_def addGlobServlet_def delGlobServlet_def glob)
  next
    assume "\<forall>g \<in> set (d_globs d). fst g \<noteq> u \<longrightarrow> \<not> ?hit (fst g)"
    with none have "glob_find ?hit ?rest = None" by blast
    then show "getMatchedServlet fnmatch v (delGlobServlet u d) = (case d_datas d v of Some c \<Rightarrow> creator_get c | None \<Rightarrow> d_default d)"
      by (cases "d_datas d v") (simp_all add: getMatchedServlet_def delGlobServlet_def)
  next
    show "getMatchedServlet fnmatch v (addServlet u s d) = (if v = u then s else getMatchedServlet fnmatch v d)"
      by (cases "d_datas d v"; cases "glob_find ?hit (d_globs d)") (simp_all add: getMatchedServlet_def addServlet_def)
    show "getMatchedServlet fnmatch v (delServlet u d) = getMatchedServlet fnmatch v (if v = u then d\<lparr>d_datas := Map.empty\<rparr> else d)"
      by (cases "d_datas d v"; cases "glob_find ?hit (d_globs d)") (auto simp: getMatchedServlet_def delServlet_def)
  qed (simp_all add: dispatch_wf_ops assms)
qed

lemma servlet_dispatch_witness:
  "getMatchedServlet (=) ''/a'' (addGlobServlet ''/a'' (Some (mk_NotFoundServlet ''x'')) (mk_ServletDispatch :: nat dispatch))
     = Some (mk_NotFoundServlet ''x'')"
  using servlet_dispatch [OF dispatch_wf_init, of "(=)" "''/a''" "''/a''" "Some (mk_NotFoundServlet ''x'') :: nat servlet option"]
  by (simp add: mk_ServletDispatch_def)

end
