(* ===== verification/Fibers.thy ===== *)
theory Fibers
  imports Prelude "HOL-Library.Word"
begin

text \<open>
  Fibers (\<^verbatim>\<open>dwframe/fiber.h\<close>, \<^verbatim>\<open>dwframe/fiber.cc\<close>). \<^verbatim>\<open>Fiber\<close> objects live in \<open>objs\<close> under their
  addresses. A \<^verbatim>\<open>ucontext_t\<close> holds a saved point of execution; the model records whose code that
  point belongs to (\<open>m_ctx\<close>, the fiber's own address after \<^verbatim>\<open>makecontext\<close>), and \<open>on_cpu\<close> whose code the
  thread executes. \<^verbatim>\<open>swapcontext(from, to)\<close> stores the code on the processor in \<open>from\<close> and goes on
  with what \<open>to\<close> holds. The thread-local variables are a record per thread; \<open>t_main\<close> is the
  \<^verbatim>\<open>t_Fiber\<close> of \<^verbatim>\<open>scheduler.cc\<close>, which \<^verbatim>\<open>Scheduler::GetMainFiber\<close> returns.
\<close>

section \<open>State\<close>

datatype fiber_state = INIT | HOLD | EXEC | Term | READY | EXCEPT

record 'f fiber =
  m_id :: uint64
  m_stacksize :: uint32
  m_state :: fiber_state
  m_ctx :: "nat option"
  m_stack :: bool
  m_cb :: "'f option"

record thread_locals =
  t_fiber :: "nat option"
  t_threadFiber :: "nat option"
  t_main :: "nat option"
  on_cpu :: "nat option"

record 'f fiber_world =
  objs :: "nat \<rightharpoonup> 'f fiber"
  s_fiber_id :: uint64
  s_fiber_count :: uint64

type_synonym 'f fctx = "'f fiber_world \<times> thread_locals"

definition fiber_at :: "'f fiber_world \<Rightarrow> nat option \<Rightarrow> 'f fiber result" where
  "fiber_at w p = (case p of None \<Rightarrow> Inl Null_dereference
     | Some a \<Rightarrow> (case objs w a of None \<Rightarrow> Inl Null_dereference | Some f \<Rightarrow> Inr f))"

definition put_fiber :: "'f fiber_world \<Rightarrow> nat \<Rightarrow> 'f fiber \<Rightarrow> 'f fiber_world" where
  "put_fiber w a f = w\<lparr>objs := (objs w)(a \<mapsto> f)\<rparr>"

definition SetThis :: "nat option \<Rightarrow> thread_locals \<Rightarrow> thread_locals" where
  "SetThis f loc = loc\<lparr>t_fiber := f\<rparr>"

definition swapcontext :: "nat \<Rightarrow> nat \<Rightarrow> 'f fctx \<Rightarrow> 'f fctx result" where
  "swapcontext src dst c = (case c of (w, loc) \<Rightarrow>
     bindE (fiber_at w (Some src)) (\<lambda>fs.
     let w' = put_fiber w src (fs\<lparr>m_ctx := on_cpu loc\<rparr>) in
     bindE (fiber_at w' (Some dst)) (\<lambda>fd.
     Inr (w', loc\<lparr>on_cpu := m_ctx fd\<rparr>))))"

section \<open>Construction and destruction\<close>

text \<open>The fiber of a thread that was not yet one: no stack, running.\<close>

definition Fiber_main :: "nat \<Rightarrow> 'f fctx \<Rightarrow> 'f fctx" where
  "Fiber_main a c = (case c of (w, loc) \<Rightarrow>
     (put_fiber (w\<lparr>s_fiber_count := s_fiber_count w + 1\<rparr>) a
        \<lparr>m_id = 0, m_stacksize = 0, m_state = EXEC, m_ctx = Some a, m_stack = False, m_cb = None\<rparr>,
      (SetThis (Some a) loc)\<lparr>on_cpu := Some a\<rparr>))"

text \<open>\<open>configured\<close> is the value of \<^verbatim>\<open>fiber.stack_size\<close>.\<close>

definition Fiber_new :: "uint32 \<Rightarrow> nat \<Rightarrow> 'f option \<Rightarrow> uint64 \<Rightarrow> 'f fiber_world \<Rightarrow> 'f fiber_world" where
  "Fiber_new configured a cb stackize w =
     put_fiber (w\<lparr>s_fiber_id := s_fiber_id w + 1, s_fiber_count := s_fiber_count w + 1\<rparr>) a
       \<lparr>m_id = s_fiber_id w + 1, m_stacksize = (if stackize \<noteq> 0 then ucast stackize else configured),
        m_state = INIT, m_ctx = Some a, m_stack = True, m_cb = cb\<rparr>"

definition Fiber_delete :: "nat \<Rightarrow> 'f fctx \<Rightarrow> 'f fctx result" where
  "Fiber_delete a c = (case c of (w, loc) \<Rightarrow>
     bindE (fiber_at w (Some a)) (\<lambda>f.
     let w' = w\<lparr>s_fiber_count := s_fiber_count w - 1, objs := (objs w)(a := None)\<rparr> in
     if m_stack f then
       if m_state f = Term \<or> m_state f = EXCEPT \<or> m_state f = INIT then Inr (w', loc)
       else Inl Assertion_failed
     else if m_cb f \<noteq> None then Inl Assertion_failed
     else if m_state f \<noteq> EXEC then Inl Assertion_failed
     else Inr (w', if t_fiber loc = Some a then SetThis None loc else loc)))"

definition Fiber_reset :: "nat \<Rightarrow> 'f option \<Rightarrow> 'f fiber_world \<Rightarrow> 'f fiber_world result" where
  "Fiber_reset a cb w =
     bindE (fiber_at w (Some a)) (\<lambda>f.
     if \<not> m_stack f then Inl Assertion_failed
     else if \<not> (m_state f = Term \<or> m_state f = EXCEPT \<or> m_state f = INIT) then Inl Assertion_failed
     else Inr (put_fiber w a (f\<lparr>m_cb := cb, m_ctx := Some a, m_state := INIT\<rparr>)))"

section \<open>Switching\<close>

definition setState :: "nat \<Rightarrow> fiber_state \<Rightarrow> 'f fiber_world \<Rightarrow> 'f fiber_world result" where
  "setState a s w = bindE (fiber_at w (Some a)) (\<lambda>f. Inr (put_fiber w a (f\<lparr>m_state := s\<rparr>)))"

definition getState :: "'f fiber_world \<Rightarrow> nat \<Rightarrow> fiber_state result" where
  "getState w a = bindE (fiber_at w (Some a)) (\<lambda>f. Inr (m_state f))"

definition swapIn :: "nat \<Rightarrow> 'f fctx \<Rightarrow> 'f fctx result" where
  "swapIn a c = (case c of (w, loc) \<Rightarrow>
     bindE (getState w a) (\<lambda>s.
     if s = EXEC then Inl Assertion_failed
     else bindE (setState a EXEC w) (\<lambda>w'.
       case t_main loc of None \<Rightarrow> Inl Null_dereference
       | Some main \<Rightarrow> swapcontext main a (w', SetThis (Some a) loc))))"

definition swapOut :: "nat \<Rightarrow> 'f fctx \<Rightarrow> 'f fctx result" where
  "swapOut a c = (case c of (w, loc) \<Rightarrow>
     case t_main loc of None \<Rightarrow> Inl Null_dereference
     | Some main \<Rightarrow> swapcontext a main (w, SetThis (Some main) loc))"

definition fiber_call :: "nat \<Rightarrow> 'f fctx \<Rightarrow> 'f fctx result" where
  "fiber_call a c = (case c of (w, loc) \<Rightarrow>
     bindE (setState a EXEC w) (\<lambda>w'.
     case t_threadFiber loc of None \<Rightarrow> Inl Null_dereference
     | Some tf \<Rightarrow> swapcontext tf a (w', SetThis (Some a) loc)))"

definition fiber_back :: "nat \<Rightarrow> 'f fctx \<Rightarrow> 'f fctx result" where
  "fiber_back a c = (case c of (w, loc) \<Rightarrow>
     case t_threadFiber loc of None \<Rightarrow> Inl Null_dereference
     | Some tf \<Rightarrow> swapcontext a tf (w, SetThis (Some tf) loc))"

text \<open>\<^verbatim>\<open>GetThis\<close>; \<open>a\<close> is the address of the thread's own fiber, should it have to be made.\<close>

definition Fiber_GetThis :: "nat \<Rightarrow> 'f fctx \<Rightarrow> nat \<times> 'f fctx" where
  "Fiber_GetThis a c = (case c of (w, loc) \<Rightarrow>
     case t_fiber loc of
       Some f \<Rightarrow> (f, (w, loc))
     | None \<Rightarrow> (case Fiber_main a (w, loc) of (w', loc') \<Rightarrow> (a, (w', loc'\<lparr>t_threadFiber := Some a\<rparr>))))"

definition YieldToReady :: "nat \<Rightarrow> 'f fctx \<Rightarrow> 'f fctx result" where
  "YieldToReady fresh c = (case Fiber_GetThis fresh c of (cur, (w, loc)) \<Rightarrow>
     bindE (setState cur READY w) (\<lambda>w'. swapOut cur (w', loc)))"

definition YieldToHold :: "nat \<Rightarrow> 'f fctx \<Rightarrow> 'f fctx result" where
  "YieldToHold fresh c = (case Fiber_GetThis fresh c of (cur, c') \<Rightarrow> swapOut cur c')"

definition TotalFibers :: "'f fiber_world \<Rightarrow> uint64" where
  "TotalFibers w = s_fiber_count w"

definition GetFiberId :: "'f fctx \<Rightarrow> uint64 result" where
  "GetFiberId c = (case c of (w, loc) \<Rightarrow>
     if t_fiber loc = None then Inr 0 else bindE (fiber_at w (t_fiber loc)) (\<lambda>f. Inr (m_id f)))"

text \<open>
  The end of a fiber's function: \<open>threw\<close> says that the callback left by an exception. The
  callback itself runs between \<^verbatim>\<open>swapIn\<close> and this step.
\<close>

definition finish :: "bool \<Rightarrow> nat \<Rightarrow> 'f fiber_world \<Rightarrow> 'f fiber_world result" where
  "finish threw a w = bindE (fiber_at w (Some a)) (\<lambda>f.
     Inr (put_fiber w a (if threw then f\<lparr>m_state := EXCEPT\<rparr> else f\<lparr>m_cb := None, m_state := Term\<rparr>)))"

definition MainFunc_end :: "bool \<Rightarrow> 'f fctx \<Rightarrow> 'f fctx result" where
  "MainFunc_end threw c = (case c of (w, loc) \<Rightarrow>
     case t_fiber loc of None \<Rightarrow> Inl Assertion_failed
     | Some a \<Rightarrow> bindE (finish threw a w) (\<lambda>w'. swapOut a (w', loc)))"

definition CallerMainFunc_end :: "bool \<Rightarrow> 'f fctx \<Rightarrow> 'f fctx result" where
  "CallerMainFunc_end threw c = (case c of (w, loc) \<Rightarrow>
     case t_fiber loc of None \<Rightarrow> Inl Assertion_failed
     | Some a \<Rightarrow> bindE (finish threw a w) (\<lambda>w'. fiber_back a (w', loc)))"

section \<open>What the processor executes is what the thread-local pointer names\<close>

lemmas fiber_defs = fiber_at_def put_fiber_def SetThis_def swapcontext_def setState_def getState_def

text \<open>Every saved context holds its own fiber's code, and \<open>t_fiber\<close> names the code that runs.\<close>

definition ctx_ok :: "'f fctx \<Rightarrow> bool" where
  "ctx_ok c = (case c of (w, loc) \<Rightarrow> t_fiber loc = on_cpu loc
     \<and> (\<forall>a f. objs w a = Some f \<longrightarrow> m_ctx f = Some a))"

definition state_of :: "'f fiber_world \<Rightarrow> nat \<Rightarrow> fiber_state option" where
  "state_of w a = map_option m_state (objs w a)"

lemma swapIn_ok:
  assumes "ctx_ok (w, loc)" and "t_main loc = Some main" and "on_cpu loc = Some main"
    and "main \<in> dom (objs w)" and "objs w a = Some f" and "m_state f \<noteq> EXEC"
  shows "\<exists>w'. swapIn a (w, loc) = Inr (w', loc\<lparr>t_fiber := Some a, on_cpu := Some a\<rparr>)
     \<and> ctx_ok (w', loc\<lparr>t_fiber := Some a, on_cpu := Some a\<rparr>)
     \<and> (\<forall>b. state_of w' b = (if b = a then Some EXEC else state_of w b)) \<and> dom (objs w') = dom (objs w)
     \<and> s_fiber_count w' = s_fiber_count w"
  using assms
  by (auto simp: swapIn_def fiber_defs Let_def ctx_ok_def state_of_def split: option.splits)

lemma swapOut_ok:
  assumes "ctx_ok (w, loc)" and "t_main loc = Some main" and "on_cpu loc = Some a"
    and "main \<in> dom (objs w)" and "a \<in> dom (objs w)"
  shows "swapOut a (w, loc) = Inr (w, loc\<lparr>t_fiber := Some main, on_cpu := Some main\<rparr>)
     \<and> ctx_ok (w, loc\<lparr>t_fiber := Some main, on_cpu := Some main\<rparr>)"
proof -
  obtain f where f: "objs w a = Some f" "m_ctx f = Some a" using assms by (auto simp: ctx_ok_def)
  have "w\<lparr>objs := (objs w)(a \<mapsto> f\<lparr>m_ctx := Some a\<rparr>)\<rparr> = w" using f by (simp add: fun_upd_idem)
  then show ?thesis using assms f
    by (auto simp: swapOut_def fiber_defs Let_def ctx_ok_def split: option.splits)
qed

lemma finish_ok:
  assumes "objs w a = Some f"
  shows "\<exists>w'. finish threw a w = Inr w' \<and> dom (objs w') = dom (objs w)
     \<and> (\<forall>b. state_of w' b = (if b = a then Some (if threw then EXCEPT else Term) else state_of w b))
     \<and> (ctx_ok (w, loc) \<longrightarrow> ctx_ok (w', loc))"
  using assms by (auto simp: finish_def fiber_defs state_of_def ctx_ok_def)

text \<open>How the code of a running fiber can give the processor back.\<close>

datatype leave = Leave_ready | Leave_hold | Leave_term | Leave_except

fun leave_fiber :: "leave \<Rightarrow> 'f fctx \<Rightarrow> 'f fctx result" where
  "leave_fiber Leave_ready c = YieldToReady 0 c"
| "leave_fiber Leave_hold c = YieldToHold 0 c"
| "leave_fiber Leave_term c = MainFunc_end False c"
| "leave_fiber Leave_except c = MainFunc_end True c"

fun left_state :: "leave \<Rightarrow> fiber_state" where
  "left_state Leave_ready = READY"
| "left_state Leave_hold = EXEC"
| "left_state Leave_term = Term"
| "left_state Leave_except = EXCEPT"

lemma setState_ok:
  assumes "objs w a = Some f"
  shows "\<exists>w'. setState a s w = Inr w' \<and> dom (objs w') = dom (objs w)
     \<and> (\<forall>b. state_of w' b = (if b = a then Some s else state_of w b))
     \<and> (ctx_ok (w, loc) \<longrightarrow> ctx_ok (w', loc))"
  using assms by (auto simp: fiber_defs state_of_def ctx_ok_def)

lemma leave_fiber_ok:
  assumes "ctx_ok (w, loc)" and "t_main loc = Some main" and "on_cpu loc = Some a"
    and "main \<in> dom (objs w)" and "a \<in> dom (objs w)" and "state_of w a = Some EXEC"
  shows "\<exists>w'. leave_fiber l (w, loc) = Inr (w', loc\<lparr>t_fiber := Some main, on_cpu := Some main\<rparr>)
     \<and> ctx_ok (w', loc\<lparr>t_fiber := Some main, on_cpu := Some main\<rparr>)
     \<and> (\<forall>b. state_of w' b = (if b = a then Some (left_state l) else state_of w b))
     \<and> dom (objs w') = dom (objs w)"
proof -
  have tf: "t_fiber loc = Some a" using assms by (simp add: ctx_ok_def)
  obtain f where f: "objs w a = Some f" using assms(5) by auto
  note out = swapOut_ok [OF _ assms(2,3)]
  show ?thesis
  proof (cases l)
    case Leave_ready
    obtain w' where "setState a READY w = Inr w'" "dom (objs w') = dom (objs w)" "ctx_ok (w', loc)"
        "\<forall>b. state_of w' b = (if b = a then Some READY else state_of w b)"
      using setState_ok [OF f, of READY loc] assms(1) by blast
    then show ?thesis using out [of w'] assms tf
      by (simp add: Leave_ready YieldToReady_def Fiber_GetThis_def)
  next
    case Leave_hold
    then show ?thesis using out [of w] assms tf by (auto simp: YieldToHold_def Fiber_GetThis_def)
  next
    case Leave_term
    obtain w' where "finish False a w = Inr w'" "dom (objs w') = dom (objs w)" "ctx_ok (w', loc)"
        "\<forall>b. state_of w' b = (if b = a then Some Term else state_of w b)"
      using finish_ok [OF f, of False loc] assms(1) by auto
    then show ?thesis using out [of w'] assms tf by (simp add: Leave_term MainFunc_end_def)
  next
    case Leave_except
    obtain w' where "finish True a w = Inr w'" "dom (objs w') = dom (objs w)" "ctx_ok (w', loc)"
        "\<forall>b. state_of w' b = (if b = a then Some EXCEPT else state_of w b)"
      using finish_ok [OF f, of True loc] assms(1) by auto
    then show ?thesis using out [of w'] assms tf by (simp add: Leave_except MainFunc_end_def)
  qed
qed

end
