(* ===== verification/Schedulers.thy ===== *)
theory Schedulers
  imports Fibers "HOL-Library.Multiset"
begin

text \<open>
  The N:M scheduler (\<^verbatim>\<open>dwframe/scheduler.h\<close>, \<^verbatim>\<open>dwframe/scheduler.cc\<close>): a queue of tasks, each a fiber or
  a callback with an optional thread, and worker threads that run \<^verbatim>\<open>Scheduler::run\<close>. The loop body of
  \<^verbatim>\<open>run\<close> is cut where other threads can interfere: the part under \<^verbatim>\<open>m_mutex\<close> that picks a task
  (\<open>run_pick\<close>), the dispatch up to the \<^verbatim>\<open>swapIn\<close> (\<open>run_dispatch\<close>), and what follows when the fiber
  gives the processor back (\<open>run_back\<close>). Workers interleave these parts in any order.
\<close>

section \<open>Tasks and scheduler state\<close>

record 'f task =
  ft_fiber :: "nat option"
  ft_cb :: "'f option"
  ft_thread :: int

datatype 'f fiber_or_cb = Fc_fiber "nat option" | Fc_cb "'f option"

fun mk_task :: "'f fiber_or_cb \<Rightarrow> int \<Rightarrow> 'f task" where
  "mk_task (Fc_fiber f) thr = \<lparr>ft_fiber = f, ft_cb = None, ft_thread = thr\<rparr>"
| "mk_task (Fc_cb c) thr = \<lparr>ft_fiber = None, ft_cb = c, ft_thread = thr\<rparr>"

definition task_reset :: "'f task" where
  "task_reset = \<lparr>ft_fiber = None, ft_cb = None, ft_thread = -1\<rparr>"

record 'f scheduler =
  m_name :: string
  m_fibers :: "'f task list"
  m_threads :: "int list"
  m_threadIds :: "int list"
  m_threadCount :: nat
  m_activeThreadCount :: nat
  m_idleThreadCount :: nat
  m_stoping :: bool
  m_autoStop :: bool
  m_rootThread :: int
  m_rootFiber :: "nat option"
  tickles :: nat

text \<open>\<open>tid\<close> is the constructing thread, \<open>root\<close> the address of the root fiber, \<open>other\<close> says that the
  thread already has a scheduler.\<close>

definition mk_Scheduler :: "nat \<Rightarrow> bool \<Rightarrow> string \<Rightarrow> int \<Rightarrow> nat \<Rightarrow> bool \<Rightarrow> 'f scheduler result" where
  "mk_Scheduler threads use_caller name tid root other =
     (if threads = 0 then Inl Assertion_failed
      else if use_caller \<and> other then Inl Assertion_failed
      else Inr \<lparr>m_name = name, m_fibers = [], m_threads = [],
             m_threadIds = (if use_caller then [tid] else []),
             m_threadCount = (if use_caller then threads - 1 else threads),
             m_activeThreadCount = 0, m_idleThreadCount = 0, m_stoping = True, m_autoStop = False,
             m_rootThread = (if use_caller then tid else -1),
             m_rootFiber = (if use_caller then Some root else None), tickles = 0\<rparr>)"

definition tickle :: "'f scheduler \<Rightarrow> 'f scheduler" where
  "tickle s = s\<lparr>tickles := tickles s + 1\<rparr>"

definition stopping :: "'f scheduler \<Rightarrow> bool" where
  "stopping s \<longleftrightarrow> m_autoStop s \<and> m_stoping s \<and> m_fibers s = [] \<and> m_activeThreadCount s = 0"

definition hasIdleThreads :: "'f scheduler \<Rightarrow> bool" where
  "hasIdleThreads s \<longleftrightarrow> m_idleThreadCount s > 0"

section \<open>Scheduling\<close>

definition scheduleNolock :: "'f fiber_or_cb \<Rightarrow> int \<Rightarrow> 'f scheduler \<Rightarrow> bool \<times> 'f scheduler" where
  "scheduleNolock fc thr s =
     (let need_tickle = (m_fibers s = []); ft = mk_task fc thr in
      (need_tickle,
       if ft_fiber ft \<noteq> None \<or> ft_cb ft \<noteq> None then s\<lparr>m_fibers := m_fibers s @ [ft]\<rparr> else s))"

definition schedule :: "'f fiber_or_cb \<Rightarrow> int \<Rightarrow> 'f scheduler \<Rightarrow> 'f scheduler" where
  "schedule fc thr s =
     (let (need_tickle, s') = scheduleNolock fc thr s in if need_tickle then tickle s' else s')"

fun schedule_range_loop :: "'f fiber_or_cb list \<Rightarrow> bool \<Rightarrow> 'f scheduler \<Rightarrow> bool \<times> 'f scheduler" where
  "schedule_range_loop [] need s = (need, s)"
| "schedule_range_loop (fc # fcs) need s =
     (let (n, s') = scheduleNolock fc (-1) s in schedule_range_loop fcs (n \<or> need) s')"

definition schedule_range :: "'f fiber_or_cb list \<Rightarrow> 'f scheduler \<Rightarrow> 'f scheduler" where
  "schedule_range fcs s =
     (let (need_tickle, s') = schedule_range_loop fcs False s in if need_tickle then tickle s' else s')"

section \<open>Start and stop\<close>

text \<open>\<open>tids\<close> are the ids of the threads the kernel creates, one per entry of \<^verbatim>\<open>m_threads\<close>.\<close>

definition start :: "int list \<Rightarrow> 'f scheduler \<Rightarrow> 'f scheduler result" where
  "start tids s =
     (if \<not> m_stoping s then Inr s
      else if m_threads s \<noteq> [] then Inl Assertion_failed
      else Inr (s\<lparr>m_stoping := False, m_threads := take (m_threadCount s) tids,
                  m_threadIds := m_threadIds s @ take (m_threadCount s) tids\<rparr>))"

datatype stop_action = Stop_return | Stop_call_root | Stop_join "int list"

fun tickle_times :: "nat \<Rightarrow> 'f scheduler \<Rightarrow> 'f scheduler" where
  "tickle_times 0 s = s"
| "tickle_times (Suc n) s = tickle_times n (tickle s)"

text \<open>The part of \<^verbatim>\<open>stop\<close> after the root fiber has run.\<close>

definition stop_leave :: "'f scheduler \<Rightarrow> stop_action \<times> 'f scheduler" where
  "stop_leave s = (if stopping s then (Stop_return, s)
     else (Stop_join (m_threads s), s\<lparr>m_threads := []\<rparr>))"

text \<open>\<open>root_state\<close> is the state of the root fiber, \<open>is_this\<close> says that the caller's scheduler is this one.\<close>

definition stop_enter :: "fiber_state \<Rightarrow> bool \<Rightarrow> 'f scheduler \<Rightarrow> (stop_action \<times> 'f scheduler) result" where
  "stop_enter root_state is_this s =
     (let s1 = s\<lparr>m_autoStop := True\<rparr>;
          early = (m_rootFiber s1 \<noteq> None \<and> m_threadCount s1 = 0 \<and> (root_state = Term \<or> root_state = INIT));
          s2 = (if early then s1\<lparr>m_stoping := True\<rparr> else s1)
      in if early \<and> stopping s2 then Inr (Stop_return, s2)
      else if (if m_rootThread s2 \<noteq> -1 then \<not> is_this else is_this) then Inl Assertion_failed
      else let s3 = tickle_times (m_threadCount s2) (s2\<lparr>m_stoping := True\<rparr>);
               s4 = (if m_rootFiber s3 \<noteq> None then tickle s3 else s3)
           in if m_rootFiber s4 \<noteq> None \<and> \<not> stopping s4 then Inr (Stop_call_root, s4)
              else Inr (stop_leave s4))"

section \<open>The worker loop\<close>

text \<open>The search under the lock: the task taken, the queue without it, and \<^verbatim>\<open>tickle_me\<close>.\<close>

fun pick_loop :: "'f fiber_world \<Rightarrow> int \<Rightarrow> 'f task list \<Rightarrow> ('f task option \<times> 'f task list \<times> bool) result" where
  "pick_loop w tid [] = Inr (None, [], False)"
| "pick_loop w tid (it # q) =
     (if ft_thread it \<noteq> -1 \<and> ft_thread it \<noteq> tid then
        bindE (pick_loop w tid q) (\<lambda>(r, q', tickle_me). Inr (r, it # q', True))
      else if ft_fiber it = None \<and> ft_cb it = None then Inl Assertion_failed
      else bindE (case ft_fiber it of None \<Rightarrow> Inr False
                  | Some f \<Rightarrow> bindE (getState w f) (\<lambda>st. Inr (st = EXEC))) (\<lambda>executing.
        if executing then bindE (pick_loop w tid q) (\<lambda>(r, q', tickle_me). Inr (r, it # q', tickle_me))
        else Inr (Some it, q, q \<noteq> [])))"

datatype pc = Top | Picked | In_fiber nat | In_cb nat | In_idle
  | Back_fiber nat | Back_cb nat | Back_idle | Exited

record 'f worker =
  w_pc :: pc
  w_ft :: "'f task"
  w_active :: bool
  w_cb_fiber :: "nat option"
  w_idle :: nat
  w_loc :: thread_locals

record 'f sys =
  sched :: "'f scheduler"
  world :: "'f fiber_world"

definition run_pick :: "int \<Rightarrow> 'f sys \<Rightarrow> 'f worker \<Rightarrow> ('f sys \<times> 'f worker) result" where
  "run_pick tid y k =
     bindE (pick_loop (world y) tid (m_fibers (sched y))) (\<lambda>(r, q, tickle_me).
     let s1 = (sched y)\<lparr>m_fibers := q\<rparr>;
         s2 = (if r \<noteq> None then s1\<lparr>m_activeThreadCount := m_activeThreadCount s1 + 1\<rparr> else s1);
         s3 = (if tickle_me then tickle s2 else s2)
     in Inr (y\<lparr>sched := s3\<rparr>,
             k\<lparr>w_pc := Picked, w_ft := (case r of None \<Rightarrow> task_reset | Some ft \<Rightarrow> ft), w_active := (r \<noteq> None)\<rparr>))"

definition swap_in_worker :: "nat \<Rightarrow> pc \<Rightarrow> 'f sys \<Rightarrow> 'f worker \<Rightarrow> ('f sys \<times> 'f worker) result" where
  "swap_in_worker a p y k =
     bindE (swapIn a (world y, w_loc k)) (\<lambda>(w, loc). Inr (y\<lparr>world := w\<rparr>, k\<lparr>w_pc := p, w_loc := loc\<rparr>))"

text \<open>\<open>fresh\<close> is the address of a new callback fiber, \<open>cfg\<close> the configured stack size.\<close>

definition run_dispatch :: "uint32 \<Rightarrow> nat \<Rightarrow> 'f sys \<Rightarrow> 'f worker \<Rightarrow> ('f sys \<times> 'f worker) result" where
  "run_dispatch cfg fresh y k =
     bindE (case ft_fiber (w_ft k) of None \<Rightarrow> Inr False
            | Some f \<Rightarrow> bindE (getState (world y) f) (\<lambda>st. Inr (st \<noteq> Term \<and> st \<noteq> EXCEPT))) (\<lambda>runnable.
     if runnable then swap_in_worker (the (ft_fiber (w_ft k))) (In_fiber (the (ft_fiber (w_ft k)))) y k
     else if ft_cb (w_ft k) \<noteq> None then
       (case w_cb_fiber k of
          Some a \<Rightarrow> bindE (Fiber_reset a (ft_cb (w_ft k)) (world y)) (\<lambda>w.
            swap_in_worker a (In_cb a) (y\<lparr>world := w\<rparr>) (k\<lparr>w_ft := task_reset\<rparr>))
        | None \<Rightarrow> swap_in_worker fresh (In_cb fresh)
            (y\<lparr>world := Fiber_new cfg fresh (ft_cb (w_ft k)) 0 (world y)\<rparr>)
            (k\<lparr>w_ft := task_reset, w_cb_fiber := Some fresh\<rparr>))
     else if w_active k then
       Inr (y\<lparr>sched := (sched y)\<lparr>m_activeThreadCount := m_activeThreadCount (sched y) - 1\<rparr>\<rparr>,
            k\<lparr>w_pc := Top, w_active := False\<rparr>)
     else bindE (getState (world y) (w_idle k)) (\<lambda>st.
       if st = Term then Inr (y, k\<lparr>w_pc := Exited\<rparr>)
       else swap_in_worker (w_idle k) In_idle
              (y\<lparr>sched := (sched y)\<lparr>m_idleThreadCount := m_idleThreadCount (sched y) + 1\<rparr>\<rparr>) k))"

text \<open>The fiber on the processor gives it back (\<^verbatim>\<open>YieldToReady\<close>, \<^verbatim>\<open>YieldToHold\<close> or the end of its function).
  The idle fiber's function is \<^verbatim>\<open>Scheduler::idle\<close>: it ends when \<^verbatim>\<open>stopping()\<close> and yields otherwise.\<close>

fun back_pc :: "pc \<Rightarrow> pc" where
  "back_pc (In_fiber a) = Back_fiber a"
| "back_pc (In_cb a) = Back_cb a"
| "back_pc In_idle = Back_idle"
| "back_pc p = p"

definition idle_leave :: "'f scheduler \<Rightarrow> leave" where
  "idle_leave s = (if stopping s then Leave_term else Leave_hold)"

definition worker_leave :: "leave \<Rightarrow> 'f sys \<Rightarrow> 'f worker \<Rightarrow> ('f sys \<times> 'f worker) result" where
  "worker_leave l y k =
     bindE (leave_fiber (if w_pc k = In_idle then idle_leave (sched y) else l) (world y, w_loc k)) (\<lambda>(w, loc).
     Inr (y\<lparr>world := w\<rparr>, k\<lparr>w_pc := back_pc (w_pc k), w_loc := loc\<rparr>))"

definition run_back :: "'f sys \<Rightarrow> 'f worker \<Rightarrow> ('f sys \<times> 'f worker) result" where
  "run_back y k = (case w_pc k of
     Back_fiber a \<Rightarrow>
       let s = (sched y)\<lparr>m_activeThreadCount := m_activeThreadCount (sched y) - 1\<rparr>;
           k' = k\<lparr>w_pc := Top, w_ft := task_reset, w_active := False\<rparr> in
       bindE (getState (world y) a) (\<lambda>st.
       if st = READY then Inr (y\<lparr>sched := schedule (Fc_fiber (Some a)) (-1) s\<rparr>, k')
       else if st \<noteq> Term \<and> st \<noteq> EXCEPT then
         bindE (setState a HOLD (world y)) (\<lambda>w. Inr (y\<lparr>sched := s, world := w\<rparr>, k'))
       else Inr (y\<lparr>sched := s\<rparr>, k'))
   | Back_cb a \<Rightarrow>
       let s = (sched y)\<lparr>m_activeThreadCount := m_activeThreadCount (sched y) - 1\<rparr>;
           k' = k\<lparr>w_pc := Top, w_active := False\<rparr> in
       bindE (getState (world y) a) (\<lambda>st.
       if st = READY then Inr (y\<lparr>sched := schedule (Fc_fiber (Some a)) (-1) s\<rparr>, k'\<lparr>w_cb_fiber := None\<rparr>)
       else if st = EXCEPT \<or> st = Term then
         bindE (Fiber_reset a None (world y)) (\<lambda>w. Inr (y\<lparr>sched := s, world := w\<rparr>, k'))
       else bindE (setState a HOLD (world y)) (\<lambda>w.
         Inr (y\<lparr>sched := s, world := w\<rparr>, k'\<lparr>w_cb_fiber := None\<rparr>)))
   | Back_idle \<Rightarrow>
       let s = (sched y)\<lparr>m_idleThreadCount := m_idleThreadCount (sched y) - 1\<rparr> in
       bindE (getState (world y) (w_idle k)) (\<lambda>st.
       if st \<noteq> Term \<and> st \<noteq> EXCEPT then
         bindE (setState (w_idle k) HOLD (world y)) (\<lambda>w. Inr (y\<lparr>sched := s, world := w\<rparr>, k\<lparr>w_pc := Top\<rparr>))
       else Inr (y\<lparr>sched := s\<rparr>, k\<lparr>w_pc := Top\<rparr>))
   | _ \<Rightarrow> Inr (y, k))"

section \<open>Picking a task\<close>

definition task_ok :: "'f task \<Rightarrow> bool" where
  "task_ok t \<longleftrightarrow> ft_fiber t \<noteq> None \<or> ft_cb t \<noteq> None"

definition foreign :: "int \<Rightarrow> 'f task \<Rightarrow> bool" where
  "foreign tid t \<longleftrightarrow> ft_thread t \<noteq> -1 \<and> ft_thread t \<noteq> tid"

definition eligible :: "'f fiber_world \<Rightarrow> int \<Rightarrow> 'f task \<Rightarrow> bool" where
  "eligible w tid t \<longleftrightarrow> \<not> foreign tid t \<and> (\<forall>f. ft_fiber t = Some f \<longrightarrow> state_of w f \<noteq> Some EXEC)"

definition queue_ok :: "'f fiber_world \<Rightarrow> 'f task list \<Rightarrow> bool" where
  "queue_ok w q \<longleftrightarrow> (\<forall>t \<in> set q. task_ok t \<and> (\<forall>f. ft_fiber t = Some f \<longrightarrow> f \<in> dom (objs w)))"

lemma executing_check:
  assumes "\<forall>f. ft_fiber t = Some f \<longrightarrow> f \<in> dom (objs w)"
  shows "(case ft_fiber t of None \<Rightarrow> Inr False | Some f \<Rightarrow> bindE (getState w f) (\<lambda>st. Inr (st = EXEC)))
     = (Inr (\<exists>f. ft_fiber t = Some f \<and> state_of w f = Some EXEC) :: bool result)"
  using assms by (auto simp: getState_def fiber_at_def state_of_def split: option.splits)

text \<open>What the search must deliver: the first eligible task of the queue, taken out, or none if there
  is none; and a tickle when work is left for others.\<close>

fun pick_result :: "'f fiber_world \<Rightarrow> int \<Rightarrow> 'f task list \<Rightarrow> 'f task option \<Rightarrow> 'f task list \<Rightarrow> bool \<Rightarrow> bool" where
  "pick_result w tid q None q' b \<longleftrightarrow>
     q' = q \<and> (\<forall>t \<in> set q. \<not> eligible w tid t) \<and> (b \<longleftrightarrow> (\<exists>t \<in> set q. foreign tid t))"
| "pick_result w tid q (Some t) q' b \<longleftrightarrow>
     (\<exists>pre post. q = pre @ t # post \<and> q' = pre @ post \<and> eligible w tid t
        \<and> (\<forall>x \<in> set pre. \<not> eligible w tid x) \<and> (b \<longleftrightarrow> post \<noteq> [] \<or> (\<exists>x \<in> set pre. foreign tid x)))"

lemma pick_result_skip:
  assumes "pick_result w tid q r q' b" and "\<not> eligible w tid it"
  shows "pick_result w tid (it # q) r (it # q') (foreign tid it \<or> b)"
proof (cases r)
  case None
  then show ?thesis using assms by auto
next
  case (Some t)
  then obtain pre post where "q = pre @ t # post" "q' = pre @ post" "eligible w tid t"
      "\<forall>x \<in> set pre. \<not> eligible w tid x" "b \<longleftrightarrow> post \<noteq> [] \<or> (\<exists>x \<in> set pre. foreign tid x)"
    using assms(1) by auto
  then show ?thesis using assms(2) Some
    by (simp, intro exI [of _ "it # pre"] exI [of _ post]) auto
qed

lemma pick_loop_spec:
  "queue_ok w q \<Longrightarrow> \<exists>r q' b. pick_loop w tid q = Inr (r, q', b) \<and> pick_result w tid q r q' b"
proof (induction q)
  case (Cons it q)
  have ok: "task_ok it" "\<forall>f. ft_fiber it = Some f \<longrightarrow> f \<in> dom (objs w)" "queue_ok w q"
    using Cons.prems by (auto simp: queue_ok_def)
  obtain r q' b where IH: "pick_loop w tid q = Inr (r, q', b)" "pick_result w tid q r q' b"
    using Cons.IH [OF ok(3)] by blast
  show ?case
  proof (cases "eligible w tid it")
    case True
    then have "pick_loop w tid (it # q) = Inr (Some it, q, q \<noteq> [])"
      using ok by (auto simp: executing_check eligible_def foreign_def task_ok_def)
    moreover have "pick_result w tid (it # q) (Some it) q (q \<noteq> [])"
      using True by (simp, intro exI [of _ "[]"] exI [of _ q]) simp
    ultimately show ?thesis by blast
  next
    case False
    have "pick_loop w tid (it # q) = Inr (r, it # q', foreign tid it \<or> b)"
      using ok IH(1) False by (auto simp: executing_check eligible_def foreign_def task_ok_def)
    then show ?thesis using pick_result_skip [OF IH(2) False] by blast
  qed
qed auto

section \<open>The counters\<close>

text \<open>A worker owes a decrement of \<^verbatim>\<open>m_activeThreadCount\<close> from the pick to the end of the task, and
  one of \<^verbatim>\<open>m_idleThreadCount\<close> while it is in its idle fiber.\<close>

fun owes_pc :: "bool \<Rightarrow> pc \<Rightarrow> bool" where
  "owes_pc act Picked = act"
| "owes_pc act (In_fiber _) = True"
| "owes_pc act (In_cb _) = True"
| "owes_pc act (Back_fiber _) = True"
| "owes_pc act (Back_cb _) = True"
| "owes_pc act _ = False"

definition owes :: "'f worker \<Rightarrow> bool" where
  "owes k = owes_pc (w_active k) (w_pc k)"

definition idles :: "'f worker \<Rightarrow> bool" where
  "idles k \<longleftrightarrow> w_pc k = In_idle \<or> w_pc k = Back_idle"

definition worker_ok :: "'f worker \<Rightarrow> bool" where
  "worker_ok k \<longleftrightarrow> (w_pc k = Picked \<longrightarrow> (w_active k \<longleftrightarrow> task_ok (w_ft k)))"

text \<open>The effect of one part of the loop on the counters and the queue.\<close>

definition counts_kept :: "'f sys \<Rightarrow> 'f worker \<Rightarrow> 'f sys \<Rightarrow> 'f worker \<Rightarrow> bool" where
  "counts_kept y k y' k' \<longleftrightarrow>
     m_activeThreadCount (sched y') + of_bool (owes k) = m_activeThreadCount (sched y) + of_bool (owes k')
   \<and> m_idleThreadCount (sched y') + of_bool (idles k) = m_idleThreadCount (sched y) + of_bool (idles k')
   \<and> worker_ok k'
   \<and> ((\<forall>t \<in> set (m_fibers (sched y)). task_ok t) \<longrightarrow> (\<forall>t \<in> set (m_fibers (sched y')). task_ok t))"

lemma schedule_frame [simp]:
  "m_activeThreadCount (schedule fc thr s) = m_activeThreadCount s"
  "m_idleThreadCount (schedule fc thr s) = m_idleThreadCount s"
  by (simp_all add: schedule_def scheduleNolock_def tickle_def Let_def)

lemma schedule_queue:
  "m_fibers (schedule fc thr s) = m_fibers s @ (if task_ok (mk_task fc thr) then [mk_task fc thr] else [])"
  by (simp add: schedule_def scheduleNolock_def tickle_def Let_def task_ok_def)

lemma swap_in_worker_frame:
  "swap_in_worker a p y k = Inr (y', k') \<Longrightarrow> sched y' = sched y \<and> w_pc k' = p \<and> w_active k' = w_active k"
  by (auto simp: swap_in_worker_def bindE_eq_Inr)

lemma bindE_cases:
  assumes "bindE m f = Inr y"
  obtains x where "m = Inr x" and "f x = Inr y"
  using assms by (auto simp: bindE_eq_Inr)

lemma pick_loop_Cons:
  assumes "pick_loop w tid (it # q) = Inr (r, q', b)"
  shows "(\<exists>q1 b1. pick_loop w tid q = Inr (r, q1, b1) \<and> q' = it # q1)
     \<or> (q' = q \<and> r = Some it \<and> task_ok it)"
proof (cases "ft_thread it \<noteq> -1 \<and> ft_thread it \<noteq> tid")
  case True
  then show ?thesis using assms by (auto elim!: bindE_cases)
next
  case False
  then have ok: "task_ok it" using assms by (auto simp: task_ok_def split: if_splits)
  let ?e = "(case ft_fiber it of None \<Rightarrow> Inr False
      | Some f \<Rightarrow> bindE (getState w f) (\<lambda>st. Inr (st = EXEC))) :: bool result"
  have "bindE ?e (\<lambda>executing.
        if executing then bindE (pick_loop w tid q) (\<lambda>(r, q', tickle_me). Inr (r, it # q', tickle_me))
        else Inr (Some it, q, q \<noteq> [])) = Inr (r, q', b)"
    using assms False ok unfolding pick_loop.simps task_ok_def by (simp only: if_False) (auto split: if_splits)
  then obtain e where "(if e then bindE (pick_loop w tid q) (\<lambda>(r, q', tickle_me). Inr (r, it # q', tickle_me))
        else Inr (Some it, q, q \<noteq> [])) = Inr (r, q', b)" by (rule bindE_cases)
  then show ?thesis using ok by (cases e) (auto elim!: bindE_cases)
qed

lemma pick_loop_subset:
  "pick_loop w tid q = Inr (r, q', b) \<Longrightarrow>
     set q' \<subseteq> set q \<and> (case r of None \<Rightarrow> True | Some t \<Rightarrow> task_ok t)"
proof (induction q arbitrary: q' b)
  case (Cons it q)
  from pick_loop_Cons [OF Cons.prems] show ?case using Cons.IH by fastforce
qed simp

lemma run_pick_frame:
  assumes "run_pick tid y k = Inr (y', k')"
  obtains r q b where "pick_loop (world y) tid (m_fibers (sched y)) = Inr (r, q, b)"
    and "m_fibers (sched y') = q" "m_idleThreadCount (sched y') = m_idleThreadCount (sched y)"
    and "m_activeThreadCount (sched y') = m_activeThreadCount (sched y) + of_bool (r \<noteq> None)"
    and "w_pc k' = Picked" "w_active k' = (r \<noteq> None)" "w_ft k' = (case r of None \<Rightarrow> task_reset | Some t \<Rightarrow> t)"
proof -
  obtain r q b where p: "pick_loop (world y) tid (m_fibers (sched y)) = Inr (r, q, b)"
    using assms by (auto simp: run_pick_def bindE_eq_Inr)
  show ?thesis
    by (rule that [OF p]) (use assms in \<open>cases r; auto simp: run_pick_def p Let_def tickle_def\<close>)+
qed

lemma run_pick_counts:
  assumes "run_pick tid y k = Inr (y', k')" and "w_pc k = Top"
  shows "counts_kept y k y' k'"
  using assms(1)
proof (rule run_pick_frame)
  fix r q b
  assume p: "pick_loop (world y) tid (m_fibers (sched y)) = Inr (r, q, b)"
    and "m_fibers (sched y') = q" "m_idleThreadCount (sched y') = m_idleThreadCount (sched y)"
      "m_activeThreadCount (sched y') = m_activeThreadCount (sched y) + of_bool (r \<noteq> None)"
      "w_pc k' = Picked" "w_active k' = (r \<noteq> None)" "w_ft k' = (case r of None \<Rightarrow> task_reset | Some t \<Rightarrow> t)"
  then show ?thesis using pick_loop_subset [OF p] assms(2)
    by (cases r) (auto simp: counts_kept_def owes_def idles_def worker_ok_def task_ok_def task_reset_def)
qed

lemma run_dispatch_counts:
  assumes "run_dispatch cfg fresh y k = Inr (y', k')" and "w_pc k = Picked" and "worker_ok k"
    and "owes k \<longrightarrow> m_activeThreadCount (sched y) > 0"
  shows "counts_kept y k y' k'"
proof -
  obtain runnable where r: "(case ft_fiber (w_ft k) of None \<Rightarrow> Inr False
      | Some f \<Rightarrow> bindE (getState (world y) f) (\<lambda>st. Inr (st \<noteq> Term \<and> st \<noteq> EXCEPT))) = Inr runnable"
      "runnable \<longrightarrow> ft_fiber (w_ft k) \<noteq> None"
    using assms(1) by (auto simp: run_dispatch_def bindE_eq_Inr split: option.splits)
  consider "runnable" | "\<not> runnable" "ft_cb (w_ft k) \<noteq> None" "w_cb_fiber k = None"
    | a where "\<not> runnable" "ft_cb (w_ft k) \<noteq> None" "w_cb_fiber k = Some a"
    | "\<not> runnable" "ft_cb (w_ft k) = None" "w_active k"
    | "\<not> runnable" "ft_cb (w_ft k) = None" "\<not> w_active k" by (cases "w_cb_fiber k") blast+
  then show ?thesis
  proof cases
    case 1
    then show ?thesis using assms r swap_in_worker_frame [of _ _ y k y' k']
      by (auto simp: run_dispatch_def counts_kept_def owes_def idles_def worker_ok_def task_ok_def)
  next
    case 2
    then show ?thesis using assms r(1)
      by (auto simp: run_dispatch_def counts_kept_def owes_def idles_def worker_ok_def task_ok_def
          dest!: swap_in_worker_frame)
  next
    case 3
    then show ?thesis using assms r(1)
      by (auto simp: run_dispatch_def counts_kept_def owes_def idles_def worker_ok_def task_ok_def
          bindE_eq_Inr dest!: swap_in_worker_frame)
  next
    case 4
    then show ?thesis using assms r(1)
      by (auto simp: run_dispatch_def counts_kept_def owes_def idles_def worker_ok_def)
  next
    case 5
    then show ?thesis using assms r(1)
      by (auto simp: run_dispatch_def counts_kept_def owes_def idles_def worker_ok_def
          bindE_eq_Inr split: if_splits dest!: swap_in_worker_frame)
  qed
qed

lemma worker_leave_counts:
  assumes "worker_leave l y k = Inr (y', k')" and "w_pc k \<in> range In_fiber \<union> range In_cb \<union> {In_idle}"
  shows "counts_kept y k y' k'"
  using assms by (auto simp: worker_leave_def bindE_eq_Inr counts_kept_def owes_def idles_def worker_ok_def)

lemma run_back_counts:
  assumes "run_back y k = Inr (y', k')" and "w_pc k \<in> range Back_fiber \<union> range Back_cb \<union> {Back_idle}"
    and "owes k \<longrightarrow> m_activeThreadCount (sched y) > 0" and "idles k \<longrightarrow> m_idleThreadCount (sched y) > 0"
  shows "counts_kept y k y' k'"
proof -
  have "w_pc k' = Top \<and> (if idles k
      then m_idleThreadCount (sched y') = m_idleThreadCount (sched y) - 1
         \<and> m_activeThreadCount (sched y') = m_activeThreadCount (sched y)
      else m_idleThreadCount (sched y') = m_idleThreadCount (sched y)
         \<and> m_activeThreadCount (sched y') = m_activeThreadCount (sched y) - 1)
     \<and> (\<forall>t \<in> set (m_fibers (sched y')). t \<in> set (m_fibers (sched y)) \<or> task_ok t)"
    using assms(1,2)
    by (cases "w_pc k") (auto simp: run_back_def idles_def schedule_queue bindE_eq_Inr Let_def split: if_splits)
  then show ?thesis using assms(2-4)
    by (auto simp: counts_kept_def worker_ok_def owes_def idles_def split: if_splits)
qed

section \<open>Interleaved workers\<close>

type_synonym 'f config = "'f sys \<times> (int \<rightharpoonup> 'f worker)"

text \<open>
  One step of the whole system: a worker performs the next part of its loop, the fiber it runs
  leaves, some thread schedules a task, or the stop flags are set.
\<close>

inductive sched_step :: "'f config \<Rightarrow> 'f config \<Rightarrow> bool" where
  pick: "ws tid = Some k \<Longrightarrow> w_pc k = Top \<Longrightarrow> run_pick tid y k = Inr (y', k') \<Longrightarrow>
     sched_step (y, ws) (y', ws(tid \<mapsto> k'))"
| dispatch: "ws tid = Some k \<Longrightarrow> w_pc k = Picked \<Longrightarrow> fresh \<notin> dom (objs (world y)) \<Longrightarrow>
     run_dispatch cfg fresh y k = Inr (y', k') \<Longrightarrow> sched_step (y, ws) (y', ws(tid \<mapsto> k'))"
| leave: "ws tid = Some k \<Longrightarrow> w_pc k \<in> range In_fiber \<union> range In_cb \<union> {In_idle} \<Longrightarrow>
     worker_leave l y k = Inr (y', k') \<Longrightarrow> sched_step (y, ws) (y', ws(tid \<mapsto> k'))"
| came_back: "ws tid = Some k \<Longrightarrow> w_pc k \<in> range Back_fiber \<union> range Back_cb \<union> {Back_idle} \<Longrightarrow>
     run_back y k = Inr (y', k') \<Longrightarrow> sched_step (y, ws) (y', ws(tid \<mapsto> k'))"
| submit: "sched_step (y, ws) (y\<lparr>sched := schedule fc thr (sched y)\<rparr>, ws)"
| stop_flags: "sched_step (y, ws) (y\<lparr>sched := (sched y)\<lparr>m_autoStop := True, m_stoping := True\<rparr>\<rparr>, ws)"

definition sched_init :: "'f config \<Rightarrow> bool" where
  "sched_init c = (case c of (y, ws) \<Rightarrow> finite (dom ws) \<and> (\<forall>k \<in> ran ws. w_pc k = Top)
     \<and> m_fibers (sched y) = [] \<and> m_activeThreadCount (sched y) = 0 \<and> m_idleThreadCount (sched y) = 0)"

inductive sched_reachable :: "'f config \<Rightarrow> bool" where
  initial: "sched_init c \<Longrightarrow> sched_reachable c"
| step: "sched_reachable c \<Longrightarrow> sched_step c c' \<Longrightarrow> sched_reachable c'"

definition how_many :: "(int \<rightharpoonup> 'w) \<Rightarrow> ('w \<Rightarrow> bool) \<Rightarrow> nat" where
  "how_many ws P = card {tid. \<exists>k. ws tid = Some k \<and> P k}"

lemma finite_workers: "finite (dom ws) \<Longrightarrow> finite {tid. \<exists>k. ws tid = Some k \<and> P k}"
  by (rule finite_subset [of _ "dom ws"]) auto

lemma how_many_upd:
  assumes "finite (dom ws)" and "ws tid = Some k"
  shows "how_many (ws(tid \<mapsto> k')) P + of_bool (P k) = how_many ws P + of_bool (P k')"
proof -
  let ?A = "{t. t \<noteq> tid \<and> (\<exists>k. ws t = Some k \<and> P k)}"
  have fin: "finite ?A" using finite_workers [OF assms(1), of P] by (rule rev_finite_subset) auto
  have 1: "{t. \<exists>k. ws t = Some k \<and> P k} = (if P k then insert tid ?A else ?A)"
    using assms(2) by (auto split: if_splits)
  have 2: "{t. \<exists>k. (ws(tid \<mapsto> k')) t = Some k \<and> P k} = (if P k' then insert tid ?A else ?A)"
    by (auto split: if_splits)
  show ?thesis unfolding how_many_def 1 2 using fin by simp
qed

lemma how_many_pos:
  assumes "finite (dom ws)" and "ws tid = Some k" and "P k"
  shows "0 < how_many ws P"
  using assms finite_workers [OF assms(1), of P] by (auto simp: how_many_def card_gt_0_iff)

definition sched_inv :: "'f config \<Rightarrow> bool" where
  "sched_inv c = (case c of (y, ws) \<Rightarrow> finite (dom ws)
     \<and> m_activeThreadCount (sched y) = how_many ws owes
     \<and> m_idleThreadCount (sched y) = how_many ws idles
     \<and> (\<forall>k \<in> ran ws. worker_ok k) \<and> (\<forall>t \<in> set (m_fibers (sched y)). task_ok t))"

lemma sched_inv_counts:
  assumes "sched_inv (y, ws)" and "ws tid = Some k" and "counts_kept y k y' k'"
  shows "sched_inv (y', ws(tid \<mapsto> k'))"
proof -
  have fin: "finite (dom ws)" and act: "m_activeThreadCount (sched y) = how_many ws owes"
    and idl: "m_idleThreadCount (sched y) = how_many ws idles"
    and ok: "\<forall>k \<in> ran ws. worker_ok k" and q: "\<forall>t \<in> set (m_fibers (sched y)). task_ok t"
    using assms(1) by (auto simp: sched_inv_def)
  have "m_activeThreadCount (sched y') = how_many (ws(tid \<mapsto> k')) owes"
    using how_many_upd [OF fin assms(2), of k' owes] assms(3) act by (simp add: counts_kept_def)
  moreover have "m_idleThreadCount (sched y') = how_many (ws(tid \<mapsto> k')) idles"
    using how_many_upd [OF fin assms(2), of k' idles] assms(3) idl by (simp add: counts_kept_def)
  moreover have "\<forall>x \<in> ran (ws(tid \<mapsto> k')). worker_ok x"
    using ok assms(3) by (auto simp: ran_def counts_kept_def)
  ultimately show ?thesis using fin q assms(3) by (auto simp: sched_inv_def counts_kept_def)
qed

lemma sched_step_inv: "sched_step c c' \<Longrightarrow> sched_inv c \<Longrightarrow> sched_inv c'"
proof (induction rule: sched_step.induct)
  case (pick ws tid k y y' k')
  then show ?case using sched_inv_counts run_pick_counts by blast
next
  case (dispatch ws tid k fresh y cfg y' k')
  have "worker_ok k" using dispatch by (auto simp: sched_inv_def ran_def)
  moreover have "owes k \<longrightarrow> m_activeThreadCount (sched y) > 0"
    using dispatch how_many_pos [of ws tid k owes] by (auto simp: sched_inv_def)
  ultimately show ?case using dispatch sched_inv_counts run_dispatch_counts by blast
next
  case (leave ws tid k l y y' k')
  then show ?case using sched_inv_counts worker_leave_counts by blast
next
  case (came_back ws tid k y y' k')
  have "owes k \<longrightarrow> m_activeThreadCount (sched y) > 0" "idles k \<longrightarrow> m_idleThreadCount (sched y) > 0"
    using came_back how_many_pos [of ws tid k owes] how_many_pos [of ws tid k idles] by (auto simp: sched_inv_def)
  then show ?case using came_back sched_inv_counts run_back_counts by blast
next
  case (submit y ws fc thr)
  then show ?case by (auto simp: sched_inv_def schedule_queue)
next
  case (stop_flags y ws)
  then show ?case by (simp add: sched_inv_def)
qed

lemma sched_reachable_inv: "sched_reachable c \<Longrightarrow> sched_inv c"
proof (induction rule: sched_reachable.induct)
  case (initial c)
  obtain y ws where c: "c = (y, ws)" by fastforce
  have "\<forall>k \<in> ran ws. \<not> owes k \<and> \<not> idles k \<and> worker_ok k"
    using initial by (auto simp: c sched_init_def owes_def idles_def worker_ok_def)
  then have "{tid. \<exists>k. ws tid = Some k \<and> owes k} = {}" "{tid. \<exists>k. ws tid = Some k \<and> idles k} = {}"
    "\<forall>k \<in> ran ws. worker_ok k" by (auto simp: ran_def)
  then have "how_many ws owes = 0" "how_many ws idles = 0" "\<forall>k \<in> ran ws. worker_ok k"
    by (simp_all only: how_many_def card.empty)
  then show ?case using initial by (simp add: c sched_init_def sched_inv_def)
next
  case (step c c')
  then show ?case using sched_step_inv by blast
qed

lemma pick_result_mset:
  "pick_result w tid q r q' b \<Longrightarrow> mset q = mset q' + (case r of None \<Rightarrow> {#} | Some t \<Rightarrow> {#t#})"
  by (cases r) auto

section \<open>Properties\<close>


definition example_worker :: "'f worker" where
  "example_worker = \<lparr>w_pc = Top, w_ft = task_reset, w_active = False, w_cb_fiber = None, w_idle = 5,
     w_loc = \<lparr>t_fiber = Some 4, t_threadFiber = Some 4, t_main = Some 4, on_cpu = Some 4\<rparr>\<rparr>"

definition example_sched :: "string scheduler" where
  "example_sched = \<lparr>m_name = ''s'', m_fibers = [], m_threads = [1, 2], m_threadIds = [1, 2],
     m_threadCount = 2, m_activeThreadCount = 0, m_idleThreadCount = 0, m_stoping = False,
     m_autoStop = False, m_rootThread = -1, m_rootFiber = None, tickles = 0\<rparr>"

definition example_world :: "string fiber_world" where
  "example_world = Fiber_new 1024 7 (Some ''job'') 0
     (fst (Fiber_main 4 (\<lparr>objs = Map.empty, s_fiber_id = 0, s_fiber_count = 0\<rparr>, w_loc (example_worker :: string worker))))"


text \<open>The search in \<^verbatim>\<open>run\<close> takes the first task of the queue that is not bound to another thread and
  is not a fiber in execution, removes exactly that task and keeps the order of the others; it
  takes nothing only if there is no such task, and never runs into the assertion that a task is
  empty. It asks for a tickle when the task it took had successors or a task it passed is bound
  to another thread.\<close>

theorem pick_first_eligible:
  assumes "queue_ok w q"
  shows "\<exists>r q' b. pick_loop w tid q = Inr (r, q', b) \<and> pick_result w tid q r q' b
     \<and> mset q = mset q' + (case r of None \<Rightarrow> {#} | Some t \<Rightarrow> {#t#})"
  using pick_loop_spec [OF assms, of tid] pick_result_mset by blast

theorem pick_first_eligible_witness:
  "\<exists>r q' b. pick_loop example_world 1 [mk_task (Fc_cb (Some ''a'')) 2, mk_task (Fc_fiber (Some 7)) (-1)] = Inr (r, q', b)
     \<and> pick_result example_world 1 [mk_task (Fc_cb (Some ''a'')) 2, mk_task (Fc_fiber (Some 7)) (-1)] r q' b"
  using pick_first_eligible [of example_world
      "[mk_task (Fc_cb (Some ''a'')) 2, mk_task (Fc_fiber (Some 7)) (-1)]" 1]
  by (simp add: queue_ok_def task_ok_def example_world_def Fiber_new_def put_fiber_def) blast

text \<open>A fiber that the main fiber of a thread switches to runs on that thread with \<^verbatim>\<open>GetThis\<close> naming
  it, and however it leaves (yielding, ending, or by an exception) control is back in the main
  fiber, \<^verbatim>\<open>GetThis\<close> names the main fiber, every saved context still belongs to its fiber, and the
  state says how it left; the states of all other fibers are as before.\<close>

theorem swap_roundtrip:
  assumes "ctx_ok (w, loc)" and "t_main loc = Some main" and "on_cpu loc = Some main"
    and "main \<in> dom (objs w)" and "objs w a = Some f" and "m_state f \<noteq> EXEC"
  shows "\<exists>w1 w2. swapIn a (w, loc) = Inr (w1, loc\<lparr>t_fiber := Some a, on_cpu := Some a\<rparr>)
     \<and> leave_fiber l (w1, loc\<lparr>t_fiber := Some a, on_cpu := Some a\<rparr>)
         = Inr (w2, loc\<lparr>t_fiber := Some main, on_cpu := Some main\<rparr>)
     \<and> ctx_ok (w2, loc\<lparr>t_fiber := Some main, on_cpu := Some main\<rparr>)
     \<and> (\<forall>b. state_of w2 b = (if b = a then Some (left_state l) else state_of w b))"
proof -
  let ?in = "loc\<lparr>t_fiber := Some a, on_cpu := Some a\<rparr>"
  obtain w1 where w1: "swapIn a (w, loc) = Inr (w1, ?in)" "ctx_ok (w1, ?in)"
      "\<forall>b. state_of w1 b = (if b = a then Some EXEC else state_of w b)" "dom (objs w1) = dom (objs w)"
    using swapIn_ok [OF assms] by blast
  have dom: "main \<in> dom (objs w1)" "a \<in> dom (objs w1)" using w1(4) assms by auto
  obtain w2 where "leave_fiber l (w1, ?in) = Inr (w2, ?in\<lparr>t_fiber := Some main, on_cpu := Some main\<rparr>)"
      "ctx_ok (w2, ?in\<lparr>t_fiber := Some main, on_cpu := Some main\<rparr>)"
      "\<forall>b. state_of w2 b = (if b = a then Some (left_state l) else state_of w1 b)"
    using leave_fiber_ok [OF w1(2) _ _ dom, of l] assms(2) w1(3) by auto
  then show ?thesis using w1 by auto
qed

theorem swap_roundtrip_witness:
  "\<exists>w1 w2. swapIn 7 (example_world, w_loc (example_worker :: string worker))
       = Inr (w1, (w_loc (example_worker :: string worker))\<lparr>t_fiber := Some 7, on_cpu := Some 7\<rparr>)
     \<and> leave_fiber Leave_ready (w1, (w_loc (example_worker :: string worker))\<lparr>t_fiber := Some 7, on_cpu := Some 7\<rparr>)
       = Inr (w2, (w_loc (example_worker :: string worker))\<lparr>t_fiber := Some 4, on_cpu := Some 4\<rparr>)
     \<and> state_of w2 7 = Some READY"
proof -
  let ?w = "example_world" and ?l = "w_loc (example_worker :: string worker)"
  have "ctx_ok (?w, ?l)" "t_main ?l = Some 4" "on_cpu ?l = Some 4" "4 \<in> dom (objs ?w)"
    "objs ?w 7 = Some (the (objs ?w 7))" "m_state (the (objs ?w 7)) \<noteq> EXEC"
    by (auto simp: ctx_ok_def example_world_def example_worker_def Fiber_new_def Fiber_main_def
        put_fiber_def SetThis_def)
  from swap_roundtrip [OF this, of Leave_ready] show ?thesis
    by (elim exE conjE) (drule spec [of _ 7], intro exI conjI, simp_all)
qed

text \<open>A fiber that is queued twice can be taken by two workers before either has switched to it, since
  its state becomes \<open>EXEC\<close> only in \<^verbatim>\<open>swapIn\<close>, after the lock is released: the second worker's
  \<^verbatim>\<open>swapIn\<close> fails its assertion.\<close>

theorem queued_twice_taken_twice:
  "bindE (run_pick 1 \<lparr>sched = schedule (Fc_fiber (Some 7)) (-1) (schedule (Fc_fiber (Some 7)) (-1) example_sched),
        world = example_world\<rparr> example_worker) (\<lambda>(y1, k1).
     bindE (run_pick 2 y1 example_worker) (\<lambda>(y2, k2).
     bindE (run_dispatch 1024 9 y2 k1) (\<lambda>(y3, k1').
     Inr (w_pc k1', run_dispatch 1024 9 y3 k2))))
   = Inr (In_fiber 7, Inl Assertion_failed)"
  by (simp add: run_pick_def run_dispatch_def schedule_def scheduleNolock_def example_sched_def
      example_world_def example_worker_def tickle_def Let_def Fiber_new_def Fiber_main_def
      fiber_defs swap_in_worker_def swapIn_def task_reset_def)

end
