(* ===== verification/Timers.thy ===== *)
theory Timers
  imports Ordered_Containers "HOL-Library.Word"
begin

text \<open>
  Timers and their manager (\<^verbatim>\<open>dwframe/timer.h\<close>, \<^verbatim>\<open>dwframe/timer.cc\<close>). \<^verbatim>\<open>Timer\<close> objects live in
  \<open>m_objects\<close> under their addresses, \<open>m_timers\<close> is the \<^verbatim>\<open>std::set\<close> of addresses in the order of
  \<^verbatim>\<open>Timer::Comparator\<close>. Every operation runs under \<^verbatim>\<open>m_mutex\<close> and is one step; \<open>now\<close> is what
  \<^verbatim>\<open>GetCurrentMS\<close> answers, the address of a new object is the allocator's choice. Times keep their
  widths: 64 bits, and 32 for \<^verbatim>\<open>m_next\<close>. The flag some operations return beside the state says
  that they called \<^verbatim>\<open>onTimerInsertedAtFront\<close>.
\<close>

section \<open>State\<close>

datatype 'f callback = Callback 'f | Bound_Ontimer nat 'f

record 'f timer =
  m_recurring :: bool
  m_ms :: uint64
  m_next :: uint32
  m_cb :: "'f callback option"

record 'f timer_manager =
  m_objects :: "nat \<rightharpoonup> 'f timer"
  m_timers :: "nat list"
  m_tickled :: bool
  m_previousTime :: uint64

definition mk_Timer :: "uint64 \<Rightarrow> 'f callback option \<Rightarrow> bool \<Rightarrow> uint64 \<Rightarrow> 'f timer" where
  "mk_Timer ms cb recurring now =
     \<lparr>m_recurring = recurring, m_ms = ms, m_next = ucast (now + ms), m_cb = cb\<rparr>"

definition mk_Timer_at :: "uint64 \<Rightarrow> 'f timer" where
  "mk_Timer_at next = \<lparr>m_recurring = False, m_ms = 0, m_next = ucast next, m_cb = None\<rparr>"

definition mk_TimerManager :: "uint64 \<Rightarrow> 'f timer_manager" where
  "mk_TimerManager now =
     \<lparr>m_objects = Map.empty, m_timers = [], m_tickled = False, m_previousTime = now\<rparr>"

section \<open>The order of the set\<close>

definition next_of :: "(nat \<rightharpoonup> 'f timer) \<Rightarrow> nat \<Rightarrow> uint32" where
  "next_of h a = (case h a of None \<Rightarrow> 0 | Some t \<Rightarrow> m_next t)"

fun Comparator :: "(nat \<rightharpoonup> 'f timer) \<Rightarrow> nat option \<Rightarrow> nat option \<Rightarrow> bool" where
  "Comparator h None None = False"
| "Comparator h None (Some _) = True"
| "Comparator h (Some _) None = False"
| "Comparator h (Some l) (Some r) =
     (if next_of h l < next_of h r then True
      else if next_of h r < next_of h l then False else l < r)"

definition timer_less :: "(nat \<rightharpoonup> 'f timer) \<Rightarrow> nat \<Rightarrow> nat \<Rightarrow> bool" where
  "timer_less h l r = Comparator h (Some l) (Some r)"

section \<open>Operations\<close>

definition Timer_cancel :: "'f timer_manager \<Rightarrow> nat \<Rightarrow> (bool \<times> 'f timer_manager) result" where
  "Timer_cancel m a = (case m_objects m a of
      None \<Rightarrow> Inl Null_dereference
    | Some t \<Rightarrow>
        if m_cb t \<noteq> None then
          let h = (m_objects m)(a \<mapsto> t\<lparr>m_cb := None\<rparr>) in
          if set_find (timer_less h) a (m_timers m) = None then Inl Invalid_iterator
          else Inr (True, m\<lparr>m_objects := h, m_timers := set_erase (timer_less h) a (m_timers m)\<rparr>)
        else Inr (False, m))"

definition Timer_refresh :: "uint64 \<Rightarrow> 'f timer_manager \<Rightarrow> nat \<Rightarrow> (bool \<times> 'f timer_manager) result" where
  "Timer_refresh now m a = (case m_objects m a of
      None \<Rightarrow> Inl Null_dereference
    | Some t \<Rightarrow>
        if m_cb t = None then Inr (False, m)
        else if set_find (timer_less (m_objects m)) a (m_timers m) = None then Inr (False, m)
        else let ts = set_erase (timer_less (m_objects m)) a (m_timers m);
                 h = (m_objects m)(a \<mapsto> t\<lparr>m_next := ucast (now + m_ms t)\<rparr>)
             in Inr (True, m\<lparr>m_objects := h, m_timers := set_insert (timer_less h) a ts\<rparr>))"

text \<open>The shared insertion: \<^verbatim>\<open>addTimer(val, lock)\<close>, also the body of \<^verbatim>\<open>addtimer\<close>.\<close>

definition addTimer :: "'f timer_manager \<Rightarrow> nat \<Rightarrow> 'f timer_manager \<times> bool" where
  "addTimer m a =
     (let ts = set_insert (timer_less (m_objects m)) a (m_timers m);
          at_front = (hd ts = a \<and> \<not> m_tickled m)
      in (m\<lparr>m_timers := ts, m_tickled := (m_tickled m \<or> at_front)\<rparr>, at_front))"

definition Timer_reset ::
  "uint64 \<Rightarrow> 'f timer_manager \<Rightarrow> nat \<Rightarrow> uint64 \<Rightarrow> bool \<Rightarrow> (bool \<times> bool \<times> 'f timer_manager) result" where
  "Timer_reset now m a ms form_now = (case m_objects m a of
      None \<Rightarrow> Inl Null_dereference
    | Some t \<Rightarrow>
        if ms = m_ms t \<and> \<not> form_now then Inr (True, False, m)
        else if m_cb t = None then Inr (False, False, m)
        else if set_find (timer_less (m_objects m)) a (m_timers m) = None then Inr (False, False, m)
        else let ts = set_erase (timer_less (m_objects m)) a (m_timers m);
                 start = (if form_now then now else ucast (m_next t) - m_ms t);
                 h = (m_objects m)(a \<mapsto> t\<lparr>m_ms := ms, m_next := ucast (start + ms)\<rparr>);
                 (m', front) = addTimer (m\<lparr>m_objects := h, m_timers := ts\<rparr>) a
             in Inr (True, front, m'\<lparr>m_timers := set_insert (timer_less h) a (m_timers m')\<rparr>))"

definition addtimer ::
  "uint64 \<Rightarrow> nat \<Rightarrow> 'f timer_manager \<Rightarrow> uint64 \<Rightarrow> 'f callback option \<Rightarrow> bool \<Rightarrow> 'f timer_manager \<times> bool" where
  "addtimer now a m ms cb recurring =
     addTimer (m\<lparr>m_objects := (m_objects m)(a \<mapsto> mk_Timer ms cb recurring now)\<rparr>) a"

text \<open>\<open>alive\<close> says which weak pointers can still be locked when the callback runs.\<close>

definition Ontimer :: "(nat \<Rightarrow> bool) \<Rightarrow> nat \<Rightarrow> 'f \<Rightarrow> 'f option" where
  "Ontimer alive weak_cond cb = (if alive weak_cond then Some cb else None)"

fun run_callback :: "(nat \<Rightarrow> bool) \<Rightarrow> 'f callback option \<Rightarrow> 'f option result" where
  "run_callback alive None = Inl Empty_function"
| "run_callback alive (Some (Callback f)) = Inr (Some f)"
| "run_callback alive (Some (Bound_Ontimer w f)) = Inr (Ontimer alive w f)"

definition addConditionTimer ::
  "uint64 \<Rightarrow> nat \<Rightarrow> 'f timer_manager \<Rightarrow> uint64 \<Rightarrow> 'f \<Rightarrow> nat \<Rightarrow> bool \<Rightarrow> 'f timer_manager \<times> bool" where
  "addConditionTimer now a m ms cb weak_cond recurring =
     addtimer now a m ms (Some (Bound_Ontimer weak_cond cb)) recurring"

definition getNextTimer :: "uint64 \<Rightarrow> 'f timer_manager \<Rightarrow> uint64 \<times> 'f timer_manager" where
  "getNextTimer now m =
     (let m' = m\<lparr>m_tickled := False\<rparr> in
      case m_timers m of
        [] \<Rightarrow> (NOT 0, m')
      | a # _ \<Rightarrow> let nx = ucast (next_of (m_objects m) a) :: uint64
                in (if now \<ge> nx then 0 else nx - now, m'))"

fun listExpired_loop ::
  "uint64 \<Rightarrow> nat list \<Rightarrow> 'f timer_manager \<Rightarrow> 'f callback option list \<times> 'f timer_manager" where
  "listExpired_loop now [] m = ([], m)"
| "listExpired_loop now (a # as) m = (case m_objects m a of
      None \<Rightarrow> listExpired_loop now as m
    | Some t \<Rightarrow>
      let m' = (if m_recurring t then
                  let h = (m_objects m)(a \<mapsto> t\<lparr>m_next := ucast (now + m_ms t)\<rparr>)
                  in m\<lparr>m_objects := h, m_timers := set_insert (timer_less h) a (m_timers m)\<rparr>
                else m\<lparr>m_objects := (m_objects m)(a \<mapsto> t\<lparr>m_cb := None\<rparr>)\<rparr>);
          (cbs, m'') = listExpired_loop now as m'
      in (m_cb t # cbs, m''))"

text \<open>\<open>b\<close> is the address of the temporary \<^verbatim>\<open>now_timer\<close>.\<close>

definition listExpiredCb ::
  "uint64 \<Rightarrow> nat \<Rightarrow> 'f timer_manager \<Rightarrow> 'f callback option list \<times> 'f timer_manager" where
  "listExpiredCb now b m =
     (if m_timers m = [] then ([], m)
      else let h = (m_objects m)(b \<mapsto> mk_Timer_at now);
               expired = before_upper (timer_less h) b (m_timers m)
           in listExpired_loop now expired
                (m\<lparr>m_timers := from_upper (timer_less h) b (m_timers m)\<rparr>))"

definition detectClockRollover :: "uint64 \<Rightarrow> 'f timer_manager \<Rightarrow> bool \<times> 'f timer_manager" where
  "detectClockRollover now_ms m =
     (now_ms < m_previousTime m \<and> now_ms < m_previousTime m - 60 * 60 * 1000,
      m\<lparr>m_previousTime := now_ms\<rparr>)"

definition hasTimer :: "'f timer_manager \<Rightarrow> bool" where
  "hasTimer m \<longleftrightarrow> m_timers m \<noteq> []"

section \<open>The comparator is a strict total order\<close>

lemma timer_less_iff:
  "timer_less h l r \<longleftrightarrow> next_of h l < next_of h r \<or> next_of h l = next_of h r \<and> l < r"
  by (auto simp: timer_less_def)

lemma equiv_timer [simp]: "equiv_key (timer_less h) a b \<longleftrightarrow> a = b"
  by (auto simp: equiv_key_def timer_less_iff)

interpretation timer_order: strict_weak_order "timer_less h" for h :: "nat \<rightharpoonup> 'f timer"
  by unfold_locales (auto simp: timer_less_iff)

text \<open>An update of an object outside the set leaves the order of the set alone.\<close>

lemma timer_less_upd: "x \<noteq> a \<Longrightarrow> y \<noteq> a \<Longrightarrow> timer_less (h(a := t)) x y = timer_less h x y"
  by (simp add: timer_less_iff next_of_def)

lemma timer_less_same:
  "next_of h' = next_of h \<Longrightarrow> timer_less h' = timer_less h"
  by (intro ext) (simp add: timer_less_iff)

lemma sorted_timers_upd:
  "a \<notin> set xs \<Longrightarrow> sorted_wrt (timer_less (h(a := t))) xs = sorted_wrt (timer_less h) xs"
  by (induction xs) (auto simp: timer_less_iff next_of_def split: if_splits)

lemma next_of_cb [simp]: "h a = Some t \<Longrightarrow> next_of (h(a \<mapsto> t\<lparr>m_cb := c\<rparr>)) = next_of h"
  by (auto simp: next_of_def)

lemmas set_of_insert = timer_order.set_set_insert and set_of_erase = timer_order.set_set_erase
  and find_absent = timer_order.set_find_None

section \<open>The invariant\<close>

definition armed :: "'f timer_manager \<Rightarrow> nat \<Rightarrow> bool" where
  "armed m a \<longleftrightarrow> (\<exists>t. m_objects m a = Some t \<and> m_cb t \<noteq> None)"

definition tm_inv :: "'f timer_manager \<Rightarrow> bool" where
  "tm_inv m \<longleftrightarrow> sorted_wrt (timer_less (m_objects m)) (m_timers m)
     \<and> set (m_timers m) \<subseteq> dom (m_objects m)
     \<and> (\<forall>a. armed m a \<longrightarrow> a \<in> set (m_timers m))"

lemma tm_inv_init: "tm_inv (mk_TimerManager now)"
  by (simp add: tm_inv_def mk_TimerManager_def armed_def)

lemma tm_inv_upd_insert:
  assumes "tm_inv m" and "m_timers m' = set_insert (timer_less (m_objects m')) a ts"
    and "m_objects m' = (m_objects m)(a \<mapsto> t)" and "a \<notin> set ts"
    and "sorted_wrt (timer_less (m_objects m)) ts"
    and "set (m_timers m) \<subseteq> insert a (set ts)" and "set ts \<subseteq> dom (m_objects m)"
  shows "tm_inv m' \<and> set (m_timers m') = insert a (set ts)"
proof -
  have s: "sorted_wrt (timer_less (m_objects m')) ts" using assms by (simp add: sorted_timers_upd)
  have st: "set (m_timers m') = insert a (set ts)"
    using set_of_insert [OF s, of a] assms(2,4) by auto
  have "armed m' x \<longrightarrow> x \<in> set (m_timers m')" for x
    using assms(1,3,6) st unfolding tm_inv_def armed_def by (cases "x = a") fastforce+
  then show ?thesis
    using timer_order.set_insert_sorted [OF s, of a] assms st by (auto simp: tm_inv_def)
qed

lemma addtimer_inv:
  assumes "tm_inv m" and "a \<notin> dom (m_objects m)"
  shows "tm_inv (fst (addtimer now a m ms cb rec))
     \<and> set (m_timers (fst (addtimer now a m ms cb rec))) = insert a (set (m_timers m))"
  using assms by (intro tm_inv_upd_insert [where m = m and ts = "m_timers m" and t = "mk_Timer ms cb rec now"])
    (auto simp: addtimer_def addTimer_def Let_def tm_inv_def)

lemma sorted_timers: "tm_inv m \<Longrightarrow> sorted_wrt (timer_less (m_objects m)) (m_timers m)"
  by (simp add: tm_inv_def)

lemma armed_found:
  assumes "tm_inv m" and "armed m a"
  shows "set_find (timer_less (m_objects m)) a (m_timers m) \<noteq> None"
  using assms find_absent [OF sorted_timers [OF assms(1)], of a] by (auto simp: tm_inv_def)

text \<open>\<^verbatim>\<open>cancel\<close>: the iterator is never the end of the set.\<close>

lemma cancel_cases:
  assumes "tm_inv m" and "m_objects m a = Some t"
  shows "if m_cb t = None then Timer_cancel m a = Inr (False, m)
     else Timer_cancel m a = Inr (True, m\<lparr>m_objects := (m_objects m)(a \<mapsto> t\<lparr>m_cb := None\<rparr>),
            m_timers := set_erase (timer_less (m_objects m)) a (m_timers m)\<rparr>)"
proof -
  let ?h = "(m_objects m)(a \<mapsto> t\<lparr>m_cb := None\<rparr>)"
  have "timer_less ?h = timer_less (m_objects m)" using assms(2) by (intro timer_less_same) simp
  moreover have "m_cb t \<noteq> None \<Longrightarrow> set_find (timer_less (m_objects m)) a (m_timers m) \<noteq> None"
    using armed_found [OF assms(1), of a] assms(2) by (simp add: armed_def)
  ultimately show ?thesis using assms(2) by (cases "m_cb t") (auto simp: Timer_cancel_def Let_def)
qed

lemma cancel_inv:
  assumes "tm_inv m" and "Timer_cancel m a = Inr (r, m')"
  shows "tm_inv m' \<and> \<not> armed m' a"
proof -
  obtain t where t: "m_objects m a = Some t" using assms(2) by (auto simp: Timer_cancel_def split: option.splits)
  let ?h = "(m_objects m)(a \<mapsto> t\<lparr>m_cb := None\<rparr>)"
  have same: "timer_less ?h = timer_less (m_objects m)" using t by (intro timer_less_same) simp
  note srt = sorted_timers [OF assms(1)]
  show ?thesis
  proof (cases "m_cb t = None")
    case True
    then show ?thesis using cancel_cases [OF assms(1) t] assms t by (auto simp: armed_def)
  next
    case False
    then have m': "m' = m\<lparr>m_objects := ?h, m_timers := set_erase (timer_less (m_objects m)) a (m_timers m)\<rparr>"
      using cancel_cases [OF assms(1) t] assms(2) by auto
    have "set (m_timers m') = set (m_timers m) - {a}" using set_of_erase [OF srt, of a] by (auto simp: m')
    then show ?thesis
      using assms(1) timer_order.set_erase_sorted [OF srt, of a] same unfolding tm_inv_def m' armed_def
      by (auto split: if_splits)
  qed
qed

lemma refresh_inv:
  assumes "tm_inv m" and "Timer_refresh now m a = Inr (r, m')"
  shows "tm_inv m' \<and> set (m_timers m') = set (m_timers m)"
proof (cases "m' = m")
  case False
  note srt = sorted_timers [OF assms(1)]
  from False assms(2) obtain t where t: "m_objects m a = Some t"
      "set_find (timer_less (m_objects m)) a (m_timers m) \<noteq> None"
    and m': "m' = m\<lparr>m_objects := (m_objects m)(a \<mapsto> t\<lparr>m_next := ucast (now + m_ms t)\<rparr>),
       m_timers := set_insert (timer_less ((m_objects m)(a \<mapsto> t\<lparr>m_next := ucast (now + m_ms t)\<rparr>))) a
          (set_erase (timer_less (m_objects m)) a (m_timers m))\<rparr>"
    by (auto simp: Timer_refresh_def Let_def split: option.splits if_splits)
  have a: "a \<in> set (m_timers m)" using t(2) find_absent [OF srt, of a] by auto
  have e: "set (set_erase (timer_less (m_objects m)) a (m_timers m)) = set (m_timers m) - {a}"
    using set_of_erase [OF srt, of a] by auto
  have "tm_inv m' \<and> set (m_timers m') = insert a (set (m_timers m) - {a})"
    unfolding e [symmetric] using assms(1) e
    by (intro tm_inv_upd_insert [OF assms(1)]) (auto simp: m' tm_inv_def timer_order.set_erase_sorted)
  then show ?thesis using a by auto
qed (use assms in auto)

lemma set_insert_again:
  "sorted_wrt (timer_less h) ts \<Longrightarrow> a \<in> set ts \<Longrightarrow> set_insert (timer_less h) a ts = ts"
  using find_absent [of h ts a] by (auto simp: set_insert_def)

lemma reset_inv:
  assumes "tm_inv m" and "Timer_reset now m a ms form_now = Inr (r, front, m')"
  shows "tm_inv m' \<and> set (m_timers m') = set (m_timers m)"
proof (cases "m' = m")
  case False
  note srt = sorted_timers [OF assms(1)]
  from False assms(2) obtain t where t: "m_objects m a = Some t"
      "set_find (timer_less (m_objects m)) a (m_timers m) \<noteq> None"
    by (auto simp: Timer_reset_def Let_def split: option.splits if_splits)
  define start where "start = (if form_now then now else ucast (m_next t) - m_ms t)"
  define h where "h = (m_objects m)(a \<mapsto> t\<lparr>m_ms := ms, m_next := ucast (start + ms)\<rparr>)"
  let ?ts = "set_erase (timer_less (m_objects m)) a (m_timers m)"
  let ?m1 = "m\<lparr>m_objects := h, m_timers := set_insert (timer_less h) a ?ts\<rparr>"
  have a: "a \<in> set (m_timers m)" using t(2) find_absent [OF srt, of a] by auto
  have e: "set ?ts = set (m_timers m) - {a}" using set_of_erase [OF srt, of a] by auto
  have "tm_inv ?m1 \<and> set (m_timers ?m1) = insert a (set (m_timers m) - {a})"
    unfolding e [symmetric] using assms(1) e
    by (intro tm_inv_upd_insert [OF assms(1)]) (auto simp: h_def tm_inv_def timer_order.set_erase_sorted)
  then have inv: "tm_inv ?m1" and st: "set (m_timers ?m1) = set (m_timers m)" using a by auto
  have "set_insert (timer_less h) a (m_timers ?m1) = m_timers ?m1"
    using sorted_timers [OF inv] st a by (intro set_insert_again) auto
  then have "m_timers m' = m_timers ?m1 \<and> m_objects m' = h"
    using assms(2) t False unfolding start_def h_def
    by (auto simp: Timer_reset_def addTimer_def Let_def split: if_splits)
  with inv st show ?thesis by (simp add: tm_inv_def armed_def)
qed (use assms in auto)

section \<open>Expiry\<close>

definition recurs :: "'f timer_manager \<Rightarrow> nat \<Rightarrow> bool" where
  "recurs m a \<longleftrightarrow> (\<exists>t. m_objects m a = Some t \<and> m_recurring t)"

text \<open>What expiry at \<open>now\<close> makes of a timer object.\<close>

definition expire_object :: "uint64 \<Rightarrow> 'f timer \<Rightarrow> 'f timer" where
  "expire_object now t = (if m_recurring t then t\<lparr>m_next := ucast (now + m_ms t)\<rparr> else t\<lparr>m_cb := None\<rparr>)"

lemma listExpired_loop_spec:
  assumes "sorted_wrt (timer_less (m_objects m)) (m_timers m)" and "distinct as"
    and "set as \<inter> set (m_timers m) = {}" and "set as \<union> set (m_timers m) \<subseteq> dom (m_objects m)"
    and "\<forall>a. armed m a \<longrightarrow> a \<in> set (m_timers m) \<union> set as"
    and "listExpired_loop now as m = (cbs, m')"
  shows "tm_inv m' \<and> set (m_timers m') = set (m_timers m) \<union> {a \<in> set as. recurs m a}
     \<and> cbs = map (\<lambda>a. m_cb (the (m_objects m a))) as
     \<and> (\<forall>a. m_objects m' a = (if a \<in> set as then map_option (expire_object now) (m_objects m a)
                               else m_objects m a))"
  using assms
proof (induction as arbitrary: m cbs)
  case Nil
  then show ?case by (auto simp: tm_inv_def)
next
  case (Cons a as)
  obtain t where t: "m_objects m a = Some t" using Cons.prems(4) by auto
  let ?h = "(m_objects m)(a \<mapsto> expire_object now t)"
  define m1 where "m1 = m\<lparr>m_objects := ?h, m_timers := (if m_recurring t
      then set_insert (timer_less ?h) a (m_timers m) else m_timers m)\<rparr>"
  obtain cbs1 where loop: "listExpired_loop now as m1 = (cbs1, m')" and cbs: "cbs = m_cb t # cbs1"
    using Cons.prems(6) t
    by (cases "listExpired_loop now as m1") (simp add: m1_def expire_object_def Let_def split: if_splits)
  have a: "a \<notin> set (m_timers m)" "a \<notin> set as" using Cons.prems by auto
  have srt: "sorted_wrt (timer_less ?h) (m_timers m)" using Cons.prems(1) a by (simp add: sorted_timers_upd)
  have st: "set (m_timers m1) = set (m_timers m) \<union> {x. x = a \<and> m_recurring t}"
    using set_of_insert [OF srt, of a] a by (auto simp: m1_def)
  have rec: "x \<in> set as \<Longrightarrow> recurs m1 x = recurs m x" for x using a by (auto simp: recurs_def m1_def)
  have obj: "x \<noteq> a \<Longrightarrow> m_objects m1 x = m_objects m x" for x by (simp add: m1_def)
  have obj_as: "x \<in> set as \<Longrightarrow> m_objects m1 x = m_objects m x" for x using obj a by metis
  have "tm_inv m' \<and> set (m_timers m') = set (m_timers m1) \<union> {x \<in> set as. recurs m1 x}
     \<and> cbs1 = map (\<lambda>x. m_cb (the (m_objects m1 x))) as
     \<and> (\<forall>x. m_objects m' x = (if x \<in> set as then map_option (expire_object now) (m_objects m1 x)
                               else m_objects m1 x))"
  proof (rule Cons.IH [OF _ _ _ _ _ loop])
    show "sorted_wrt (timer_less (m_objects m1)) (m_timers m1)"
      using srt timer_order.set_insert_sorted [OF srt, of a] by (simp add: m1_def)
    show "distinct as" using Cons.prems(2) by simp
    show "set as \<inter> set (m_timers m1) = {}" using Cons.prems(3) a st by auto
    show "set as \<union> set (m_timers m1) \<subseteq> dom (m_objects m1)"
      using Cons.prems(4) st by (auto simp: m1_def)
    show "\<forall>x. armed m1 x \<longrightarrow> x \<in> set (m_timers m1) \<union> set as"
    proof (intro allI impI)
      fix x assume "armed m1 x"
      then show "x \<in> set (m_timers m1) \<union> set as"
        using Cons.prems(5) st by (cases "x = a") (auto simp: armed_def m1_def expire_object_def split: if_splits)
    qed
  qed
  moreover have "recurs m a = m_recurring t" using t by (simp add: recurs_def)
  moreover have "map (\<lambda>x. m_cb (the (m_objects m1 x))) as = map (\<lambda>x. m_cb (the (m_objects m x))) as"
    using obj_as by simp
  moreover have "m_objects m1 a = Some (expire_object now t)" by (simp add: m1_def)
  ultimately show ?case using t cbs st rec obj obj_as a by auto
qed

text \<open>Which timers are due: those ordered before the \<^verbatim>\<open>now_timer\<close> at address \<open>b\<close>.\<close>

definition due :: "uint64 \<Rightarrow> nat \<Rightarrow> 'f timer_manager \<Rightarrow> nat \<Rightarrow> bool" where
  "due now b m a \<longleftrightarrow> next_of (m_objects m) a < ucast now
     \<or> next_of (m_objects m) a = ucast now \<and> a < b"

lemma listExpiredCb_spec:
  assumes "tm_inv m" and "b \<notin> dom (m_objects m)" and "listExpiredCb now b m = (cbs, m')"
  shows "tm_inv m' \<and> cbs = map (\<lambda>a. m_cb (the (m_objects m a))) (filter (due now b m) (m_timers m))
     \<and> set (m_timers m') = {a \<in> set (m_timers m). due now b m a \<longrightarrow> recurs m a}
     \<and> (\<forall>a. m_objects m' a = (if a \<in> set (m_timers m) \<and> due now b m a
           then map_option (expire_object now) (m_objects m a) else m_objects m a))"
proof (cases "m_timers m = []")
  case True
  then show ?thesis using assms by (auto simp: listExpiredCb_def)
next
  case False
  let ?h = "(m_objects m)(b \<mapsto> mk_Timer_at now)"
  note srt = sorted_timers [OF assms(1)]
  have b: "b \<notin> set (m_timers m)" using assms(1,2) by (auto simp: tm_inv_def)
  have srt': "sorted_wrt (timer_less ?h) (m_timers m)" using srt b by (simp add: sorted_timers_upd)
  have lt: "timer_less ?h b x = (\<not> due now b m x)" if "x \<in> set (m_timers m)" for x
  proof -
    have "x \<noteq> b" using that b by auto
    then show ?thesis by (auto simp: timer_less_iff next_of_def mk_Timer_at_def due_def)
  qed
  define ex where "ex = filter (due now b m) (m_timers m)"
  define un where "un = filter (\<lambda>a. \<not> due now b m a) (m_timers m)"
  have ex: "before_upper (timer_less ?h) b (m_timers m) = ex"
    unfolding timer_order.before_upper_filter [OF srt'] ex_def using lt by (intro filter_cong) auto
  have un: "from_upper (timer_less ?h) b (m_timers m) = un"
    unfolding timer_order.from_upper_filter [OF srt'] un_def using lt by (intro filter_cong) auto
  let ?m1 = "m\<lparr>m_timers := un\<rparr>"
  have loop: "listExpired_loop now ex ?m1 = (cbs, m')"
    using assms(3) False ex un by (simp add: listExpiredCb_def Let_def)
  have "tm_inv m' \<and> set (m_timers m') = set (m_timers ?m1) \<union> {a \<in> set ex. recurs ?m1 a}
     \<and> cbs = map (\<lambda>a. m_cb (the (m_objects ?m1 a))) ex
     \<and> (\<forall>a. m_objects m' a = (if a \<in> set ex then map_option (expire_object now) (m_objects ?m1 a)
                               else m_objects ?m1 a))"
  proof (rule listExpired_loop_spec [OF _ _ _ _ _ loop])
    show "sorted_wrt (timer_less (m_objects ?m1)) (m_timers ?m1)"
      using srt by (simp add: un_def sorted_wrt_filter)
    show "distinct ex" using timer_order.sorted_lt_distinct [OF srt] by (simp add: ex_def)
    show "set ex \<inter> set (m_timers ?m1) = {}" by (auto simp: ex_def un_def)
    show "set ex \<union> set (m_timers ?m1) \<subseteq> dom (m_objects ?m1)"
      using assms(1) by (auto simp: ex_def un_def tm_inv_def)
    show "\<forall>a. armed ?m1 a \<longrightarrow> a \<in> set (m_timers ?m1) \<union> set ex"
      using assms(1) by (auto simp: ex_def un_def tm_inv_def armed_def)
  qed
  then show ?thesis by (auto simp: ex_def un_def recurs_def)
qed

section \<open>Reachable states\<close>

text \<open>A client may drop its last pointer to a timer that is not in the set: the address is free again.\<close>

inductive timer_reachable :: "'f timer_manager \<Rightarrow> bool" where
  init: "timer_reachable (mk_TimerManager now)"
| add: "timer_reachable m \<Longrightarrow> a \<notin> dom (m_objects m) \<Longrightarrow>
     timer_reachable (fst (addtimer now a m ms cb rec))"
| cancel: "timer_reachable m \<Longrightarrow> Timer_cancel m a = Inr (r, m') \<Longrightarrow> timer_reachable m'"
| refresh: "timer_reachable m \<Longrightarrow> Timer_refresh now m a = Inr (r, m') \<Longrightarrow> timer_reachable m'"
| reset: "timer_reachable m \<Longrightarrow> Timer_reset now m a ms form_now = Inr (r, f, m') \<Longrightarrow> timer_reachable m'"
| next_timer: "timer_reachable m \<Longrightarrow> timer_reachable (snd (getNextTimer now m))"
| expire: "timer_reachable m \<Longrightarrow> b \<notin> dom (m_objects m) \<Longrightarrow>
     timer_reachable (snd (listExpiredCb now b m))"
| rollover: "timer_reachable m \<Longrightarrow> timer_reachable (snd (detectClockRollover now m))"
| release: "timer_reachable m \<Longrightarrow> a \<notin> set (m_timers m) \<Longrightarrow>
     timer_reachable (m\<lparr>m_objects := (m_objects m)(a := None)\<rparr>)"

lemma tm_inv_cong:
  "m_objects m' = m_objects m \<Longrightarrow> m_timers m' = m_timers m \<Longrightarrow> tm_inv m' = tm_inv m"
  by (simp add: tm_inv_def armed_def)

lemma getNextTimer_frame [simp]:
  "m_objects (snd (getNextTimer now m)) = m_objects m" "m_timers (snd (getNextTimer now m)) = m_timers m"
  by (simp_all add: getNextTimer_def Let_def split: list.splits)

lemma timer_reachable_inv: "timer_reachable m \<Longrightarrow> tm_inv m"
proof (induction rule: timer_reachable.induct)
  case (init now)
  then show ?case by (rule tm_inv_init)
next
  case (add m a now ms cb rec)
  then show ?case using addtimer_inv by blast
next
  case (cancel m a r m')
  then show ?case using cancel_inv by blast
next
  case (refresh m now a r m')
  then show ?case using refresh_inv by blast
next
  case (reset m now a ms form_now r f m')
  then show ?case using reset_inv by blast
next
  case (next_timer m now)
  then show ?case using tm_inv_cong [of "snd (getNextTimer now m)" m] by simp
next
  case (expire m b now)
  then show ?case using listExpiredCb_spec [of m b now] by (metis prod.collapse)
next
  case (rollover m now)
  then show ?case using tm_inv_cong [of "snd (detectClockRollover now m)" m] by (simp add: detectClockRollover_def)
next
  case (release m a)
  then show ?case by (auto simp: tm_inv_def armed_def sorted_timers_upd)
qed

lemma getNextTimer_none:
  assumes "fst (getNextTimer now m) = NOT 0"
  shows "m_timers m = []"
proof (rule ccontr)
  assume "m_timers m \<noteq> []"
  then obtain a as where "m_timers m = a # as" by (cases "m_timers m") auto
  then obtain x :: uint32 where "(if ucast x \<le> now then 0 else ucast x - now) = (- 1 :: uint64)"
    using assms by (auto simp: getNextTimer_def Let_def)
  then have lt: "now < ucast x" and eq: "ucast x - now = (- 1 :: uint64)" by (auto split: if_splits)
  have now: "now = ucast x + 1" using eq by (simp add: diff_eq_eq)
  have "unat (ucast x :: uint64) < 2 ^ 32"
    using unsigned_less [of x, where 'a = nat] by (simp add: unsigned_ucast_eq take_bit_nat_eq_self)
  then have "unat (ucast x + 1 :: uint64) = unat (ucast x :: uint64) + 1"
    by (subst unat_add_lem [THEN iffD1]) simp_all
  then show False using lt now by (simp add: word_less_nat_alt)
qed

section \<open>Properties\<close>

text \<open>C16: In every reachable state of the timer manager the set is strictly ordered by due time, holds
  live timers only and holds every timer that still has a callback. So \<^verbatim>\<open>cancel\<close> of a live timer
  never erases the end iterator: it answers whether the timer had a callback and, if so, leaves
  the timer without one and outside the set.\<close>

theorem timer_cancel_safe:
  assumes "timer_reachable m" and "m_objects m a = Some t"
  shows "tm_inv m \<and> (\<exists>m'. Timer_cancel m a = Inr (m_cb t \<noteq> None, m') \<and> tm_inv m' \<and> \<not> armed m' a
     \<and> (m_cb t \<noteq> None \<longrightarrow> set (m_timers m') = set (m_timers m) - {a}))"
proof -
  note inv = timer_reachable_inv [OF assms(1)]
  obtain m' where c: "Timer_cancel m a = Inr (m_cb t \<noteq> None, m')"
      "m_cb t \<noteq> None \<longrightarrow> m_timers m' = set_erase (timer_less (m_objects m)) a (m_timers m)"
    using cancel_cases [OF inv assms(2)] by (cases "m_cb t") auto
  then show ?thesis
    using inv cancel_inv [OF inv c(1)] set_of_erase [OF sorted_timers [OF inv], of a] by auto
qed

theorem timer_cancel_safe_witness:
  "\<exists>m'. Timer_cancel (fst (addtimer 5 8 (mk_TimerManager 5) 10 (Some (Callback ''f'')) False)) 8 = Inr (True, m')
     \<and> m_timers m' = []"
proof -
  let ?m = "fst (addtimer 5 8 (mk_TimerManager 5) 10 (Some (Callback ''f'')) False)"
  have "timer_reachable ?m" by (intro timer_reachable.add timer_reachable.init) (simp add: mk_TimerManager_def)
  moreover have "m_objects ?m 8 = Some (mk_Timer 10 (Some (Callback ''f'')) False 5)"
    by (simp add: addtimer_def addTimer_def Let_def)
  moreover have "set (m_timers ?m) = {8}"
    using addtimer_inv [OF tm_inv_init, of 8 5 5 10 "Some (Callback ''f'')" False]
    by (simp add: mk_TimerManager_def)
  ultimately show ?thesis
    using timer_cancel_safe [of ?m 8 "mk_Timer 10 (Some (Callback ''f'')) False 5"]
    by (auto simp: mk_Timer_def)
qed

text \<open>C18: \<^verbatim>\<open>listExpiredCb\<close> hands out the callbacks of exactly the due timers, in the order of their
  due times; a due one-shot timer leaves the set without its callback, a due recurring timer stays
  with its next time one period after now, and no other timer changes.\<close>

theorem expiry_exact:
  assumes "timer_reachable m" and "b \<notin> dom (m_objects m)" and "listExpiredCb now b m = (cbs, m')"
  shows "cbs = map (\<lambda>a. m_cb (the (m_objects m a))) (filter (due now b m) (m_timers m))
     \<and> sorted_wrt (timer_less (m_objects m)) (filter (due now b m) (m_timers m))
     \<and> set (m_timers m') = {a \<in> set (m_timers m). due now b m a \<longrightarrow> recurs m a}
     \<and> (\<forall>a. m_objects m' a = (if a \<in> set (m_timers m) \<and> due now b m a
           then map_option (expire_object now) (m_objects m a) else m_objects m a))"
  using listExpiredCb_spec [OF timer_reachable_inv [OF assms(1)] assms(2,3)]
    sorted_timers [OF timer_reachable_inv [OF assms(1)]] by (simp add: sorted_wrt_filter)

theorem expiry_exact_witness:
  "fst (listExpiredCb 16 9 (fst (addtimer 5 8 (mk_TimerManager 5) 10 (Some (Callback ''f'')) False)))
     = [Some (Callback ''f'')]"
proof -
  let ?m = "fst (addtimer 5 8 (mk_TimerManager 5) 10 (Some (Callback ''f'')) False)"
  have "timer_reachable ?m" by (intro timer_reachable.add timer_reachable.init) (simp add: mk_TimerManager_def)
  moreover have m: "m_timers ?m = [8]" "m_objects ?m = [8 \<mapsto> mk_Timer 10 (Some (Callback ''f'')) False 5]"
    by (simp_all add: addtimer_def addTimer_def Let_def mk_TimerManager_def set_insert_def set_find_def
        before_lower_def from_lower_def)
  ultimately show ?thesis using expiry_exact [of ?m 9 16, OF _ _ surjective_pairing]
    by (simp add: due_def next_of_def mk_Timer_def)
qed

text \<open>As long as times fit into 32 bits, a timer armed for \<open>ms\<close> milliseconds is never due before
  they have passed, and is due as soon as more than that have passed.\<close>

theorem timer_due_on_time:
  assumes "unat now0 + unat ms < 2 ^ 32" and "unat now < 2 ^ 32"
  shows "(due now b (fst (addtimer now0 a m ms cb rec)) a \<longrightarrow> unat now0 + unat ms \<le> unat now)
     \<and> (unat now0 + unat ms < unat now \<longrightarrow> due now b (fst (addtimer now0 a m ms cb rec)) a)"
proof -
  have sum: "unat (now0 + ms) = unat now0 + unat ms"
    using assms(1) by (intro unat_add_lem [THEN iffD1]) simp
  have nx: "unat (next_of (m_objects (fst (addtimer now0 a m ms cb rec))) a) = unat now0 + unat ms"
    using assms(1) sum
    by (simp add: addtimer_def addTimer_def Let_def next_of_def mk_Timer_def unsigned_ucast_eq take_bit_nat_eq_self)
  have "unat (ucast now :: uint32) = unat now"
    using assms(2) by (simp add: unsigned_ucast_eq take_bit_nat_eq_self)
  then show ?thesis unfolding due_def word_less_nat_alt word_unat_eq_iff nx by auto
qed

theorem timer_due_on_time_witness:
  "due 16 9 (fst (addtimer 5 8 (mk_TimerManager 5) 10 (Some (Callback ''f'')) False)) 8"
  using timer_due_on_time [of 5 10 16 9 8 "mk_TimerManager 5" "Some (Callback ''f'')" False] by simp

text \<open>\<^verbatim>\<open>getNextTimer\<close> compares the 64-bit clock with the 32-bit \<^verbatim>\<open>m_next\<close>: as soon as the clock has
  reached \<open>2 ^ 32\<close> milliseconds it answers 0 whenever there is a timer, however far in the future
  that timer is; with no timer it answers the largest value.\<close>

theorem getNextTimer_always_due:
  assumes "2 ^ 32 \<le> unat now"
  shows "fst (getNextTimer now m) = (if hasTimer m then 0 else NOT 0)"
proof -
  have "(ucast (x :: uint32) :: uint64) \<le> now" for x
  proof -
    have "unat (ucast x :: uint64) < 2 ^ 32"
      using unsigned_less [of x, where 'a = nat] by (simp add: unsigned_ucast_eq take_bit_nat_eq_self)
    then show ?thesis using assms by (simp add: word_le_nat_alt)
  qed
  then show ?thesis by (simp add: getNextTimer_def hasTimer_def Let_def split: list.splits)
qed

theorem getNextTimer_always_due_witness:
  "fst (getNextTimer 1700000000000 (mk_TimerManager 0 :: string timer_manager)) = NOT 0"
  using getNextTimer_always_due [of 1700000000000 "mk_TimerManager 0"]
  by (simp add: hasTimer_def mk_TimerManager_def)

end
