(* ===== verification/IoManagers.thy ===== *)
theory IoManagers
  imports Schedulers Timers
begin

unbundle bit_operations_syntax

text \<open>
  The event loop (\<^verbatim>\<open>dwframe/IoManager.h\<close>, \<^verbatim>\<open>dwframe/IoManager.cc\<close>): a scheduler and a timer manager
  with, per file descriptor, the fiber or callback that waits for it to become readable or
  writable. The kernel is present through its answers (\<open>rt\<close> of \<^verbatim>\<open>epoll_ctl\<close>, the events of
  \<^verbatim>\<open>epoll_wait\<close>) and through its interest list \<open>epoll_set\<close>, which a successful \<^verbatim>\<open>epoll_ctl\<close> changes as
  documented. Each operation runs under the locks it takes and is one step. Waking a waiter hands
  it to the scheduler it registered with: this one's queue, or \<open>outbox\<close> for another scheduler.
\<close>

section \<open>State\<close>

abbreviation (input) NONE :: uint32 where "NONE \<equiv> 0"
abbreviation (input) READ :: uint32 where "READ \<equiv> 1"
abbreviation (input) WRITE :: uint32 where "WRITE \<equiv> 4"
abbreviation (input) EPOLLIN :: uint32 where "EPOLLIN \<equiv> 1"
abbreviation (input) EPOLLOUT :: uint32 where "EPOLLOUT \<equiv> 4"
abbreviation (input) EPOLLERR :: uint32 where "EPOLLERR \<equiv> 8"
abbreviation (input) EPOLLHUP :: uint32 where "EPOLLHUP \<equiv> 16"
abbreviation (input) EPOLLET :: uint32 where "EPOLLET \<equiv> 0x80000000"

record 'f event_context =
  ec_scheduler :: "nat option"
  ec_fiber :: "nat option"
  ec_cb :: "'f callback option"

record 'f fd_context =
  read_ctx :: "'f event_context"
  write_ctx :: "'f event_context"
  ctx_fd :: int
  events :: uint32

datatype epoll_op = EPOLL_CTL_ADD | EPOLL_CTL_MOD | EPOLL_CTL_DEL

record 'f io_manager =
  io_id :: nat
  io_sched :: "'f callback scheduler"
  io_timers :: "'f timer_manager"
  m_fdContexts :: "'f fd_context list"
  m_pendingEventCount :: nat
  epoll_set :: "int \<rightharpoonup> uint32"
  outbox :: "(nat \<times> 'f callback fiber_or_cb) list"

definition empty_context :: "'f event_context" where
  "empty_context = \<lparr>ec_scheduler = None, ec_fiber = None, ec_cb = None\<rparr>"

definition mk_FdContext :: "nat \<Rightarrow> 'f fd_context" where
  "mk_FdContext i = \<lparr>read_ctx = empty_context, write_ctx = empty_context, ctx_fd = int i, events = NONE\<rparr>"

section \<open>A descriptor's contexts\<close>

definition getContext :: "'f fd_context \<Rightarrow> uint32 \<Rightarrow> 'f event_context result" where
  "getContext c ev = (if ev = READ then Inr (read_ctx c)
     else if ev = WRITE then Inr (write_ctx c) else Inl Assertion_failed)"

definition setContext :: "'f fd_context \<Rightarrow> uint32 \<Rightarrow> 'f event_context \<Rightarrow> 'f fd_context" where
  "setContext c ev x = (if ev = READ then c\<lparr>read_ctx := x\<rparr> else c\<lparr>write_ctx := x\<rparr>)"

definition resetContext :: "'f event_context \<Rightarrow> 'f event_context" where
  "resetContext ctx = ctx\<lparr>ec_scheduler := None, ec_fiber := None, ec_cb := None\<rparr>"

definition hand_over :: "nat \<Rightarrow> 'f callback fiber_or_cb \<Rightarrow> 'f io_manager \<Rightarrow> 'f io_manager" where
  "hand_over sid fc m = (if sid = io_id m then m\<lparr>io_sched := schedule fc (-1) (io_sched m)\<rparr>
     else m\<lparr>outbox := outbox m @ [(sid, fc)]\<rparr>)"

text \<open>\<^verbatim>\<open>schedule(&ctx.cb)\<close> takes the callback out of the context, \<^verbatim>\<open>schedule(&ctx.fiber)\<close> the fiber.\<close>

definition triggerEvent :: "uint32 \<Rightarrow> 'f fd_context \<Rightarrow> 'f io_manager \<Rightarrow> ('f fd_context \<times> 'f io_manager) result" where
  "triggerEvent ev c m =
     (if events c AND ev = 0 then Inl Assertion_failed
      else let c1 = c\<lparr>events := events c AND NOT ev\<rparr> in
        bindE (getContext c1 ev) (\<lambda>ctx.
        case ec_scheduler ctx of None \<Rightarrow> Inl Null_dereference
        | Some sid \<Rightarrow>
          if ec_cb ctx \<noteq> None then
            Inr (setContext c1 ev (ctx\<lparr>ec_cb := None, ec_scheduler := None\<rparr>),
                 hand_over sid (Fc_cb (ec_cb ctx)) m)
          else
            Inr (setContext c1 ev (ctx\<lparr>ec_fiber := None, ec_scheduler := None\<rparr>),
                 hand_over sid (Fc_fiber (ec_fiber ctx)) m)))"

section \<open>The table of descriptors\<close>

definition contextResize :: "nat \<Rightarrow> 'f fd_context list \<Rightarrow> 'f fd_context list" where
  "contextResize n cs = take n cs @ map mk_FdContext [length cs ..< n]"

text \<open>\<^verbatim>\<open>m_fdContexts[fd]\<close> after the check \<^verbatim>\<open>(int)m_fdContexts.size() > fd\<close>: a negative descriptor passes it.\<close>

definition context_at :: "'f io_manager \<Rightarrow> int \<Rightarrow> 'f fd_context result" where
  "context_at m fd = (if 0 \<le> fd \<and> nat fd < length (m_fdContexts m)
     then Inr (m_fdContexts m ! nat fd) else Inl Bad_index)"

definition put_context :: "int \<Rightarrow> 'f fd_context \<Rightarrow> 'f io_manager \<Rightarrow> 'f io_manager" where
  "put_context fd c m = m\<lparr>m_fdContexts := (m_fdContexts m)[nat fd := c]\<rparr>"

definition epoll_ctl :: "int \<Rightarrow> epoll_op \<Rightarrow> int \<Rightarrow> uint32 \<Rightarrow> 'f io_manager \<Rightarrow> 'f io_manager" where
  "epoll_ctl rt ctl fd emask m = (if rt \<noteq> 0 then m
     else m\<lparr>epoll_set := (case ctl of EPOLL_CTL_DEL \<Rightarrow> (epoll_set m)(fd := None)
                        | _ \<Rightarrow> (epoll_set m)(fd \<mapsto> emask))\<rparr>)"

section \<open>Registering and cancelling\<close>

text \<open>\<open>this\<close> is \<^verbatim>\<open>Scheduler::GetThis()\<close>, \<open>fib\<close> the current fiber with its state.\<close>

definition addEvent ::
  "int \<Rightarrow> nat option \<Rightarrow> nat \<times> fiber_state \<Rightarrow> int \<Rightarrow> uint32 \<Rightarrow> 'f callback option \<Rightarrow> 'f io_manager
     \<Rightarrow> (int \<times> 'f io_manager) result" where
  "addEvent rt this fib fd ev cb m =
     (let m1 = (if int (length (m_fdContexts m)) > fd then m
                else m\<lparr>m_fdContexts := contextResize (nat (fd * 3 div 2)) (m_fdContexts m)\<rparr>) in
      bindE (context_at m1 fd) (\<lambda>c.
      if events c AND ev \<noteq> 0 then Inl Assertion_failed
      else let ctl = (if events c \<noteq> 0 then EPOLL_CTL_MOD else EPOLL_CTL_ADD);
               m2 = epoll_ctl rt ctl fd (EPOLLET OR events c OR ev) m1
      in if rt \<noteq> 0 then Inr (-1, m2)
      else let m3 = m2\<lparr>m_pendingEventCount := m_pendingEventCount m2 + 1\<rparr>;
               c1 = c\<lparr>events := events c OR ev\<rparr> in
        bindE (getContext c1 ev) (\<lambda>ctx.
        if ec_scheduler ctx \<noteq> None \<or> ec_fiber ctx \<noteq> None \<or> ec_cb ctx \<noteq> None then Inl Assertion_failed
        else if cb \<noteq> None then
          Inr (0, put_context fd (setContext c1 ev (ctx\<lparr>ec_scheduler := this, ec_cb := cb\<rparr>)) m3)
        else if snd fib \<noteq> EXEC then Inl Assertion_failed
        else Inr (0, put_context fd (setContext c1 ev (ctx\<lparr>ec_scheduler := this, ec_fiber := Some (fst fib)\<rparr>)) m3))))"

definition delEvent :: "int \<Rightarrow> int \<Rightarrow> uint32 \<Rightarrow> 'f io_manager \<Rightarrow> (bool \<times> 'f io_manager) result" where
  "delEvent rt fd ev m =
     (if int (length (m_fdContexts m)) \<le> fd then Inr (False, m)
      else bindE (context_at m fd) (\<lambda>c.
      if events c AND ev = 0 then Inr (False, m)
      else let new_events = events c AND NOT ev;
               ctl = (if new_events \<noteq> 0 then EPOLL_CTL_MOD else EPOLL_CTL_DEL);
               m1 = epoll_ctl rt ctl fd (EPOLLET OR new_events) m
      in if rt \<noteq> 0 then Inr (False, m1)
      else let c1 = c\<lparr>events := new_events\<rparr> in
        bindE (getContext c1 ev) (\<lambda>ctx.
        Inr (True, put_context fd (setContext c1 ev (resetContext ctx))
                     (m1\<lparr>m_pendingEventCount := m_pendingEventCount m1 - 1\<rparr>)))))"

definition cancelEvent :: "int \<Rightarrow> int \<Rightarrow> uint32 \<Rightarrow> 'f io_manager \<Rightarrow> (bool \<times> 'f io_manager) result" where
  "cancelEvent rt fd ev m =
     (if int (length (m_fdContexts m)) \<le> fd then Inr (False, m)
      else bindE (context_at m fd) (\<lambda>c.
      if events c AND ev = 0 then Inr (False, m)
      else let new_events = events c AND NOT ev;
               ctl = (if new_events \<noteq> 0 then EPOLL_CTL_MOD else EPOLL_CTL_DEL);
               m1 = epoll_ctl rt ctl fd (EPOLLET OR new_events) m
      in if rt \<noteq> 0 then Inr (False, m1)
      else bindE (triggerEvent ev c m1) (\<lambda>(c1, m2).
        Inr (True, put_context fd c1 (m2\<lparr>m_pendingEventCount := m_pendingEventCount m2 - 1\<rparr>)))))"

text \<open>The part that \<^verbatim>\<open>cancelALL\<close> and \<^verbatim>\<open>idle\<close> repeat per event: trigger and count down.\<close>

definition fire :: "uint32 \<Rightarrow> 'f fd_context \<times> 'f io_manager \<Rightarrow> ('f fd_context \<times> 'f io_manager) result" where
  "fire ev s = bindE (triggerEvent ev (fst s) (snd s)) (\<lambda>(c, m).
     Inr (c, m\<lparr>m_pendingEventCount := m_pendingEventCount m - 1\<rparr>))"

definition cancelALL :: "int \<Rightarrow> int \<Rightarrow> 'f io_manager \<Rightarrow> (bool \<times> 'f io_manager) result" where
  "cancelALL rt fd m =
     (if int (length (m_fdContexts m)) \<le> fd then Inr (False, m)
      else bindE (context_at m fd) (\<lambda>c.
      if events c = 0 then Inr (False, m)
      else let m1 = epoll_ctl rt EPOLL_CTL_DEL fd 0 m
      in if rt \<noteq> 0 then Inr (False, m1)
      else bindE (if events c AND READ \<noteq> 0 then fire READ (c, m1) else Inr (c, m1)) (\<lambda>(c1, m2).
        bindE (if events c1 AND WRITE \<noteq> 0 then fire WRITE (c1, m2) else Inr (c1, m2)) (\<lambda>(c2, m3).
        if events c2 \<noteq> 0 then Inl Assertion_failed
        else Inr (True, put_context fd c2 m3)))))"

section \<open>The idle loop\<close>

definition io_stopping :: "uint64 \<Rightarrow> uint64 \<Rightarrow> 'f io_manager \<Rightarrow> bool \<times> 'f io_manager" where
  "io_stopping now timerout m =
     (let (t, tm) = getNextTimer now (io_timers m) in
      (stopping (io_sched m) \<and> m_pendingEventCount m = 0 \<and> t = NOT 0, m\<lparr>io_timers := tm\<rparr>))"

text \<open>The timeout \<^verbatim>\<open>epoll_wait\<close> is given for a value of \<^verbatim>\<open>next_timeout\<close>, a C \<^verbatim>\<open>int\<close>.\<close>

definition epoll_timeout :: "uint64 \<Rightarrow> int" where
  "epoll_timeout next_timeout =
     (let n = (if next_timeout \<noteq> NOT 0
               then (if sint (ucast next_timeout :: uint32) > 1000 then 1000 else next_timeout)
               else 1000)
      in sint (ucast n :: uint32))"

text \<open>One event of \<^verbatim>\<open>epoll_wait\<close> for the context of descriptor \<open>fd\<close>; \<open>rt2\<close> answers the \<^verbatim>\<open>epoll_ctl\<close>.\<close>

definition handle_event :: "int \<Rightarrow> int \<Rightarrow> uint32 \<Rightarrow> 'f io_manager \<Rightarrow> 'f io_manager result" where
  "handle_event rt2 fd ev0 m =
     bindE (context_at m fd) (\<lambda>c.
     let ev = (if events c AND (EPOLLERR OR EPOLLHUP) \<noteq> 0 then ev0 OR EPOLLIN OR EPOLLOUT else ev0);
         real_events = (if ev AND EPOLLIN \<noteq> 0 then READ else NONE) OR (if ev AND EPOLLOUT \<noteq> 0 then WRITE else NONE)
     in if events c AND real_events = NONE then Inr m
     else let left_events = events c AND NOT real_events;
              ctl = (if left_events \<noteq> 0 then EPOLL_CTL_MOD else EPOLL_CTL_DEL);
              m1 = epoll_ctl rt2 ctl (ctx_fd c) (EPOLLET OR left_events) m
     in if rt2 \<noteq> 0 then Inr m1
     else bindE (if real_events AND READ \<noteq> 0 then fire READ (c, m1) else Inr (c, m1)) (\<lambda>(c1, m2).
       bindE (if real_events AND WRITE \<noteq> 0 then fire WRITE (c1, m2) else Inr (c1, m2)) (\<lambda>(c2, m3).
       Inr (put_context fd c2 m3))))"

text \<open>What \<^verbatim>\<open>epoll_wait\<close> reports: the tickle pipe, which is drained, or a descriptor's context.\<close>

datatype reported = Tickle_pipe | Fd_event int int uint32

fun handle_events :: "reported list \<Rightarrow> 'f io_manager \<Rightarrow> 'f io_manager result" where
  "handle_events [] m = Inr m"
| "handle_events (Tickle_pipe # evs) m = handle_events evs m"
| "handle_events (Fd_event rt2 fd ev # evs) m = bindE (handle_event rt2 fd ev m) (handle_events evs)"

text \<open>
  One round of \<^verbatim>\<open>idle\<close> up to the \<^verbatim>\<open>swapOut\<close>: \<open>None\<close> when it leaves the loop, else the timeout given to
  \<^verbatim>\<open>epoll_wait\<close> and the new state. \<^verbatim>\<open>stopping(uint64_t timerout)\<close> takes \<^verbatim>\<open>next_timeout\<close> by value, so it
  is still 0 when \<^verbatim>\<open>epoll_wait\<close> is called. \<open>b\<close> is the address of the expiry's temporary timer.
\<close>

definition idle_round ::
  "uint64 \<Rightarrow> nat \<Rightarrow> reported list \<Rightarrow> 'f io_manager \<Rightarrow> (int \<times> 'f io_manager) option result" where
  "idle_round now b evs m =
     (let next_timeout = 0; (stop, m1) = io_stopping now next_timeout m in
      if stop then Inr None
      else let (cbs, tm) = listExpiredCb now b (io_timers m1);
               m2 = m1\<lparr>io_timers := tm\<rparr>;
               m3 = (if cbs \<noteq> [] then m2\<lparr>io_sched := schedule_range (map Fc_cb cbs) (io_sched m2)\<rparr> else m2)
      in bindE (handle_events evs m3) (\<lambda>m4. Inr (Some (epoll_timeout next_timeout, m4))))"

text \<open>\<open>rt\<close> is what \<^verbatim>\<open>write\<close> to the pipe returns; the result counts the bytes written.\<close>

definition io_tickle :: "int \<Rightarrow> 'f io_manager \<Rightarrow> nat result" where
  "io_tickle rt m = (if hasIdleThreads (io_sched m) then (if rt = 1 then Inr 1 else Inl Assertion_failed) else Inr 0)"

definition onTimerInsertedAtFront :: "int \<Rightarrow> 'f io_manager \<Rightarrow> nat result" where
  "onTimerInsertedAtFront rt m = io_tickle rt m"

text \<open>The constructor, after the checks of \<^verbatim>\<open>epoll_create\<close>, \<^verbatim>\<open>pipe\<close>, \<^verbatim>\<open>fcntl\<close> and \<^verbatim>\<open>epoll_ctl\<close>.\<close>

definition mk_IOManager ::
  "nat \<Rightarrow> 'f callback scheduler \<Rightarrow> 'f timer_manager \<Rightarrow> int list \<Rightarrow> int \<times> int \<times> int \<times> int \<Rightarrow> 'f io_manager result" where
  "mk_IOManager sid s tm tids answers = (case answers of (epfd, rt_pipe, rt_fcntl, rt_ctl) \<Rightarrow>
     if \<not> epfd > 0 then Inl Assertion_failed
     else if rt_pipe \<noteq> 0 then Inl Assertion_failed
     else if rt_fcntl \<noteq> 0 then Inl Assertion_failed
     else if rt_ctl \<noteq> 0 then Inl Assertion_failed
     else bindE (start tids s) (\<lambda>s'.
       Inr \<lparr>io_id = sid, io_sched = s', io_timers = tm, m_fdContexts = contextResize 32 [],
            m_pendingEventCount = 0, epoll_set = Map.empty, outbox = []\<rparr>))"

section \<open>The invariant\<close>

text \<open>A context is empty, or names a scheduler and exactly one of a fiber and a callback.\<close>

definition ctx_empty :: "'f event_context \<Rightarrow> bool" where
  "ctx_empty x \<longleftrightarrow> ec_scheduler x = None \<and> ec_fiber x = None \<and> ec_cb x = None"

definition ctx_waiting :: "'f event_context \<Rightarrow> bool" where
  "ctx_waiting x \<longleftrightarrow> ec_scheduler x \<noteq> None \<and> (ec_fiber x = None \<longleftrightarrow> ec_cb x \<noteq> None)"

definition event_masks :: "uint32 set" where
  "event_masks = {0, 1, 4, 5}"

definition ctx_matches :: "bool \<Rightarrow> 'f event_context \<Rightarrow> bool" where
  "ctx_matches b x \<longleftrightarrow> (if b then ctx_waiting x else ctx_empty x)"

definition fdc_ok :: "nat \<Rightarrow> 'f fd_context \<Rightarrow> bool" where
  "fdc_ok i c \<longleftrightarrow> ctx_fd c = int i \<and> events c \<in> event_masks
     \<and> ctx_matches (events c AND READ \<noteq> 0) (read_ctx c) \<and> ctx_matches (events c AND WRITE \<noteq> 0) (write_ctx c)"

definition n_events :: "uint32 \<Rightarrow> nat" where
  "n_events e = of_bool (e AND READ \<noteq> 0) + of_bool (e AND WRITE \<noteq> 0)"

definition io_inv :: "'f io_manager \<Rightarrow> bool" where
  "io_inv m \<longleftrightarrow> 32 \<le> length (m_fdContexts m)
     \<and> (\<forall>i < length (m_fdContexts m). fdc_ok i (m_fdContexts m ! i))
     \<and> m_pendingEventCount m = sum_list (map (\<lambda>c. n_events (events c)) (m_fdContexts m))
     \<and> (\<forall>i < length (m_fdContexts m). epoll_set m (int i) =
           (if events (m_fdContexts m ! i) = 0 then None else Some (EPOLLET OR events (m_fdContexts m ! i))))
     \<and> (\<forall>fd. fd < 0 \<or> int (length (m_fdContexts m)) \<le> fd \<longrightarrow> epoll_set m fd = None)"

lemma event_masks_cases:
  assumes "e \<in> event_masks"
  obtains "e = 0" | "e = 1" | "e = 4" | "e = 5"
  using assms by (auto simp: event_masks_def)

text \<open>Bits of the masks, computed once.\<close>

lemma mask_bits [simp]:
  "(1::uint32) AND 1 = 1" "(4::uint32) AND 1 = 0" "(5::uint32) AND 1 = 1"
  "(1::uint32) AND 4 = 0" "(4::uint32) AND 4 = 4" "(5::uint32) AND 4 = 4"
  "(1::uint32) AND 5 = 1" "(4::uint32) AND 5 = 4" "(5::uint32) AND 5 = 5"
  "(1::uint32) AND NOT 1 = 0" "(4::uint32) AND NOT 1 = 4" "(5::uint32) AND NOT 1 = 4"
  "(1::uint32) AND NOT 4 = 1" "(4::uint32) AND NOT 4 = 0" "(5::uint32) AND NOT 4 = 1"
  "(1::uint32) AND NOT 5 = 0" "(4::uint32) AND NOT 5 = 0" "(5::uint32) AND NOT 5 = 0"
  "(1::uint32) OR 4 = 5" "(4::uint32) OR 1 = 5"
  by (simp_all add: bit_eq_iff)

section \<open>Frames\<close>

lemma hand_over_frame [simp]:
  "m_fdContexts (hand_over sid fc m) = m_fdContexts m"
  "m_pendingEventCount (hand_over sid fc m) = m_pendingEventCount m"
  "epoll_set (hand_over sid fc m) = epoll_set m"
  "io_id (hand_over sid fc m) = io_id m"
  "io_timers (hand_over sid fc m) = io_timers m"
  by (simp_all add: hand_over_def)

lemma epoll_ctl_frame [simp]:
  "m_fdContexts (epoll_ctl rt ctl fd e m) = m_fdContexts m"
  "m_pendingEventCount (epoll_ctl rt ctl fd e m) = m_pendingEventCount m"
  "rt \<noteq> 0 \<Longrightarrow> epoll_ctl rt ctl fd e m = m"
  by (simp_all add: epoll_ctl_def hand_over_def)

lemma context_at_ok: "0 \<le> fd \<Longrightarrow> nat fd < length (m_fdContexts m) \<Longrightarrow> context_at m fd = Inr (m_fdContexts m ! nat fd)"
  by (simp add: context_at_def)

lemma context_at_Inr:
  "context_at m fd = Inr c \<longleftrightarrow> 0 \<le> fd \<and> nat fd < length (m_fdContexts m) \<and> c = m_fdContexts m ! nat fd"
  by (auto simp: context_at_def)

lemma sum_list_upd:
  assumes "i < length xs"
  shows "sum_list (map f (xs[i := y])) + f (xs ! i) = sum_list (map f xs) + (f y :: nat)"
proof -
  have "f (xs ! i) \<le> sum_list (map f xs)" using assms by (intro member_le_sum_list) auto
  then show ?thesis using assms by (simp add: map_update sum_list_update)
qed

lemma io_inv_upd:
  assumes "io_inv m" and "i < length (m_fdContexts m)" and "fdc_ok i c'"
    and "m_fdContexts m' = (m_fdContexts m)[i := c']"
    and "m_pendingEventCount m' + n_events (events (m_fdContexts m ! i))
       = m_pendingEventCount m + n_events (events c')"
    and "epoll_set m' = (epoll_set m)(int i := (if events c' = 0 then None else Some (EPOLLET OR events c')))"
  shows "io_inv m'"
proof -
  have "sum_list (map (\<lambda>c. n_events (events c)) (m_fdContexts m')) = m_pendingEventCount m'"
    using sum_list_upd [OF assms(2), of "\<lambda>c. n_events (events c)" c'] assms(1,4,5)
    by (simp add: io_inv_def)
  then show ?thesis using assms by (auto simp: io_inv_def nth_list_update)
qed

section \<open>Waking a waiter\<close>

definition waiter :: "'f event_context \<Rightarrow> nat \<times> 'f callback fiber_or_cb" where
  "waiter x = (the (ec_scheduler x), if ec_cb x \<noteq> None then Fc_cb (ec_cb x) else Fc_fiber (ec_fiber x))"

definition wake :: "'f event_context \<Rightarrow> 'f io_manager \<Rightarrow> 'f io_manager" where
  "wake x m = hand_over (fst (waiter x)) (snd (waiter x)) m"

lemma wake_frame [simp]:
  "m_fdContexts (wake x m) = m_fdContexts m" "m_pendingEventCount (wake x m) = m_pendingEventCount m"
  "epoll_set (wake x m) = epoll_set m" "io_id (wake x m) = io_id m" "io_timers (wake x m) = io_timers m"
  by (simp_all add: wake_def)

definition ctx_for :: "uint32 \<Rightarrow> 'f fd_context \<Rightarrow> 'f event_context" where
  "ctx_for ev c = (if ev = READ then read_ctx c else write_ctx c)"

lemma clear_event_ok:
  assumes "fdc_ok i c" and "ev = READ \<or> ev = WRITE" and "events c AND ev \<noteq> 0"
  shows "fdc_ok i (setContext (c\<lparr>events := events c AND NOT ev\<rparr>) ev empty_context)"
proof -
  have "events c \<in> event_masks" using assms(1) by (simp add: fdc_ok_def)
  then show ?thesis using assms
    by (elim event_masks_cases; elim disjE)
       (auto simp: fdc_ok_def setContext_def event_masks_def ctx_matches_def ctx_empty_def empty_context_def)
qed

lemma triggerEvent_ok:
  assumes "fdc_ok i c" and "ev = READ \<or> ev = WRITE" and "events c AND ev \<noteq> 0"
  shows "\<exists>c'. triggerEvent ev c m = Inr (c', wake (ctx_for ev c) m) \<and> fdc_ok i c'
     \<and> events c' = events c AND NOT ev
     \<and> (ev = READ \<longrightarrow> write_ctx c' = write_ctx c) \<and> (ev = WRITE \<longrightarrow> read_ctx c' = read_ctx c)"
proof -
  have w: "ctx_waiting (ctx_for ev c)" using assms by (auto simp: fdc_ok_def ctx_for_def ctx_matches_def)
  then obtain sid where sid: "ec_scheduler (ctx_for ev c) = Some sid" by (auto simp: ctx_waiting_def)
  define c' where "c' = setContext (c\<lparr>events := events c AND NOT ev\<rparr>) ev empty_context"
  have x: "ec_cb x \<noteq> None \<Longrightarrow> ctx_waiting x \<Longrightarrow> x\<lparr>ec_cb := None, ec_scheduler := None\<rparr> = empty_context"
    "ec_cb x = None \<Longrightarrow> x\<lparr>ec_fiber := None, ec_scheduler := None\<rparr> = empty_context" for x :: "'a event_context"
    by (cases x, auto simp: ctx_waiting_def empty_context_def)+
  have "triggerEvent ev c m = Inr (c', wake (ctx_for ev c) m)"
    using assms(2,3) sid w x [of "ctx_for ev c"]
    by (auto simp: triggerEvent_def Let_def getContext_def setContext_def c'_def wake_def waiter_def ctx_for_def)
  moreover have "fdc_ok i c'"
    unfolding c'_def using assms by (rule clear_event_ok)
  ultimately show ?thesis using assms(2) by (auto simp: c'_def setContext_def)
qed

lemma n_events_clear:
  "e \<in> event_masks \<Longrightarrow> ev = READ \<or> ev = WRITE \<Longrightarrow> e AND ev \<noteq> 0 \<Longrightarrow> n_events (e AND NOT ev) + 1 = n_events e"
  by (elim event_masks_cases; elim disjE) (auto simp: n_events_def)

lemma n_events_set:
  "e \<in> event_masks \<Longrightarrow> ev = READ \<or> ev = WRITE \<Longrightarrow> e AND ev = 0 \<Longrightarrow> n_events (e OR ev) = n_events e + 1"
  by (elim event_masks_cases; elim disjE) (auto simp: n_events_def)

lemma n_events_le_pending:
  assumes "io_inv m" and "i < length (m_fdContexts m)"
  shows "n_events (events (m_fdContexts m ! i)) \<le> m_pendingEventCount m"
proof -
  have "n_events (events (m_fdContexts m ! i)) \<le> sum_list (map (\<lambda>c. n_events (events c)) (m_fdContexts m))"
    using assms(2) by (intro member_le_sum_list) auto
  then show ?thesis using assms(1) by (simp add: io_inv_def)
qed

section \<open>Every operation keeps the invariant\<close>

lemma cancelEvent_ok:
  assumes "io_inv m" and "0 \<le> fd" and "ev = READ \<or> ev = WRITE"
  shows "\<exists>r m'. cancelEvent rt fd ev m = Inr (r, m') \<and> io_inv m'"
proof (cases "nat fd < length (m_fdContexts m)")
  case False
  then show ?thesis using assms by (auto simp: cancelEvent_def)
next
  case True
  define c where "c = m_fdContexts m ! nat fd"
  have c: "fdc_ok (nat fd) c" using assms(1) True by (simp add: io_inv_def c_def)
  have at: "context_at m fd = Inr c" using assms(2) True by (simp add: context_at_ok c_def)
  show ?thesis
  proof (cases "events c AND ev = 0 \<or> rt \<noteq> 0")
    case True
    then show ?thesis using assms at by (auto simp: cancelEvent_def Let_def)
  next
    case False
    let ?ctl = "if events c AND NOT ev \<noteq> 0 then EPOLL_CTL_MOD else EPOLL_CTL_DEL"
    let ?m1 = "epoll_ctl rt ?ctl fd (EPOLLET OR events c AND NOT ev) m"
    obtain c' where t: "triggerEvent ev c ?m1 = Inr (c', wake (ctx_for ev c) ?m1)"
        "fdc_ok (nat fd) c'" "events c' = events c AND NOT ev"
      using triggerEvent_ok [OF c assms(3), of ?m1] False by auto
    define m' where "m' = put_context fd c' ((wake (ctx_for ev c) ?m1)
        \<lparr>m_pendingEventCount := m_pendingEventCount m - 1\<rparr>)"
    have "cancelEvent rt fd ev m = Inr (True, m')"
      using True assms(2) at False t(1) by (auto simp: cancelEvent_def Let_def m'_def)
    moreover have "io_inv m'"
    proof (rule io_inv_upd [OF assms(1) True t(2)])
      show "m_fdContexts m' = (m_fdContexts m)[nat fd := c']" by (simp add: m'_def put_context_def)
      show "m_pendingEventCount m' + n_events (events (m_fdContexts m ! nat fd)) = m_pendingEventCount m + n_events (events c')"
        using n_events_clear [of "events c" ev] c assms(3) False n_events_le_pending [OF assms(1) True]
        by (simp add: m'_def put_context_def t(3) c_def [symmetric] fdc_ok_def)
      show "epoll_set m' = (epoll_set m)(int (nat fd) := (if events c' = 0 then None else Some (EPOLLET OR events c')))"
        using False assms(2) by (simp add: m'_def put_context_def t(3) epoll_ctl_def)
    qed
    ultimately show ?thesis by blast
  qed
qed

lemma events_fresh [simp]: "events (mk_FdContext i) = 0"
  by (simp add: mk_FdContext_def)

lemma fresh_fdc_ok: "fdc_ok i (mk_FdContext i)"
  by (simp add: fdc_ok_def mk_FdContext_def event_masks_def ctx_matches_def ctx_empty_def empty_context_def)

lemma grow_inv:
  assumes "io_inv m" and "int (length (m_fdContexts m)) \<le> fd"
  shows "io_inv (m\<lparr>m_fdContexts := contextResize (nat (fd * 3 div 2)) (m_fdContexts m)\<rparr>)
     \<and> nat fd < length (contextResize (nat (fd * 3 div 2)) (m_fdContexts m))"
proof -
  let ?cs = "m_fdContexts m" and ?n = "nat (fd * 3 div 2)"
  have len: "32 \<le> length ?cs" using assms(1) by (simp add: io_inv_def)
  then have n: "length ?cs \<le> ?n" "nat fd < ?n" using assms(2) by linarith+
  have cs: "contextResize ?n ?cs = ?cs @ map mk_FdContext [length ?cs ..< ?n]"
    using n by (simp add: contextResize_def)
  have nth: "contextResize ?n ?cs ! i = (if i < length ?cs then ?cs ! i else mk_FdContext i)" if "i < ?n" for i
    using that n by (auto simp: cs nth_append)
  have ln: "length (contextResize ?n ?cs) = ?n" using n by (simp add: cs)
  have sum: "sum_list (map (\<lambda>c. n_events (events c)) (contextResize ?n ?cs))
      = sum_list (map (\<lambda>c. n_events (events c)) ?cs)"
    by (simp add: cs o_def mk_FdContext_def n_events_def map_replicate_const)
  have "fdc_ok i (contextResize ?n ?cs ! i)" if "i < ?n" for i
    using nth [OF that] assms(1) fresh_fdc_ok by (auto simp: io_inv_def)
  moreover have "epoll_set m (int i) = (if events (contextResize ?n ?cs ! i) = 0 then None
      else Some (EPOLLET OR events (contextResize ?n ?cs ! i)))" if "i < ?n" for i
    using nth [OF that] assms(1) by (auto simp: io_inv_def mk_FdContext_def)
  ultimately show ?thesis using assms(1) n ln len sum by (auto simp: io_inv_def)
qed

lemma set_event_ok:
  assumes "fdc_ok i c" and "ctx_waiting x" and "ev = READ \<or> ev = WRITE" and "events c AND ev = 0"
  shows "fdc_ok i (setContext (c\<lparr>events := events c OR ev\<rparr>) ev x)"
proof -
  have "events c \<in> event_masks" using assms(1) by (simp add: fdc_ok_def)
  then show ?thesis using assms
    by (elim event_masks_cases; elim disjE)
       (auto simp: fdc_ok_def setContext_def event_masks_def ctx_matches_def)
qed

lemma set_event_nonzero:
  "e \<in> event_masks \<Longrightarrow> ev = READ \<or> ev = WRITE \<Longrightarrow> e AND ev = 0 \<Longrightarrow> e OR ev \<noteq> 0"
  by (elim event_masks_cases; elim disjE) auto

lemma addEvent_ok:
  assumes "io_inv m" and "0 \<le> fd" and "ev = READ \<or> ev = WRITE" and "this \<noteq> None"
    and "addEvent rt this fib fd ev cb m = Inr (r, m')"
  shows "io_inv m'"
proof -
  define m1 where "m1 = (if int (length (m_fdContexts m)) > fd then m
      else m\<lparr>m_fdContexts := contextResize (nat (fd * 3 div 2)) (m_fdContexts m)\<rparr>)"
  have inv1: "io_inv m1" and fd: "nat fd < length (m_fdContexts m1)"
    using assms(1,2) grow_inv [OF assms(1), of fd] by (auto simp: m1_def)
  define c where "c = m_fdContexts m1 ! nat fd"
  have at: "context_at m1 fd = Inr c" using assms(2) fd by (simp add: context_at_ok c_def)
  have c: "fdc_ok (nat fd) c" using inv1 fd by (simp add: io_inv_def c_def)
  note run = assms(5) [unfolded addEvent_def Let_def, folded m1_def, unfolded at bindE_simps]
  have free: "events c AND ev = 0" using run by (auto split: if_splits)
  show ?thesis
  proof (cases "rt = 0")
    case False
    then show ?thesis using run inv1 free by auto
  next
    case True
    let ?c1 = "c\<lparr>events := events c OR ev\<rparr>"
    let ?ctl = "if events c \<noteq> 0 then EPOLL_CTL_MOD else EPOLL_CTL_ADD"
    let ?m3 = "(epoll_ctl rt ?ctl fd (EPOLLET OR events c OR ev) m1)\<lparr>m_pendingEventCount := m_pendingEventCount m1 + 1\<rparr>"
    have ctx: "getContext ?c1 ev = Inr (ctx_for ev c)" using assms(3) by (auto simp: getContext_def ctx_for_def)
    have emp: "ctx_empty (ctx_for ev c)"
      using c free assms(3) by (auto simp: fdc_ok_def ctx_for_def ctx_matches_def)
    define x where "x = (if cb \<noteq> None then (ctx_for ev c)\<lparr>ec_scheduler := this, ec_cb := cb\<rparr>
        else (ctx_for ev c)\<lparr>ec_scheduler := this, ec_fiber := Some (fst fib)\<rparr>)"
    have x: "ctx_waiting x" "m' = put_context fd (setContext ?c1 ev x) ?m3"
      using run True free ctx emp assms(4)
      by (auto simp: ctx_empty_def ctx_waiting_def x_def split: if_splits)
    show ?thesis
    proof (rule io_inv_upd [OF inv1 fd])
      show "fdc_ok (nat fd) (setContext ?c1 ev x)"
        using c x(1) assms(3) free by (intro set_event_ok) auto
      show "m_fdContexts m' = (m_fdContexts m1)[nat fd := setContext ?c1 ev x]"
        by (simp add: x(2) put_context_def)
      show "m_pendingEventCount m' + n_events (events (m_fdContexts m1 ! nat fd))
          = m_pendingEventCount m1 + n_events (events (setContext ?c1 ev x))"
        using n_events_set [of "events c" ev] c assms(3) free
        by (auto simp: x(2) put_context_def setContext_def c_def [symmetric] fdc_ok_def)
      show "epoll_set m' = (epoll_set m1)(int (nat fd) :=
          (if events (setContext ?c1 ev x) = 0 then None else Some (EPOLLET OR events (setContext ?c1 ev x))))"
        using True assms(2,3) set_event_nonzero [of "events c" ev] c free fdc_ok_def
        by (auto simp: x(2) put_context_def setContext_def epoll_ctl_def or.assoc)
    qed
  qed
qed

lemma delEvent_ok:
  assumes "io_inv m" and "0 \<le> fd" and "ev = READ \<or> ev = WRITE"
  shows "\<exists>r m'. delEvent rt fd ev m = Inr (r, m') \<and> io_inv m'
     \<and> io_sched m' = io_sched m \<and> outbox m' = outbox m"
proof (cases "nat fd < length (m_fdContexts m)")
  case False
  then show ?thesis using assms by (auto simp: delEvent_def)
next
  case True
  define c where "c = m_fdContexts m ! nat fd"
  have c: "fdc_ok (nat fd) c" using assms(1) True by (simp add: io_inv_def c_def)
  have at: "context_at m fd = Inr c" using assms(2) True by (simp add: context_at_ok c_def)
  show ?thesis
  proof (cases "events c AND ev = 0 \<or> rt \<noteq> 0")
    case True
    then show ?thesis using assms at by (auto simp: delEvent_def Let_def)
  next
    case False
    let ?ctl = "if events c AND NOT ev \<noteq> 0 then EPOLL_CTL_MOD else EPOLL_CTL_DEL"
    let ?m1 = "epoll_ctl rt ?ctl fd (EPOLLET OR events c AND NOT ev) m"
    define c' where "c' = setContext (c\<lparr>events := events c AND NOT ev\<rparr>) ev empty_context"
    define m' where "m' = put_context fd c' (?m1\<lparr>m_pendingEventCount := m_pendingEventCount m - 1\<rparr>)"
    have emp: "resetContext x = empty_context" for x :: "'a event_context"
      by (cases x) (simp add: resetContext_def empty_context_def)
    have "delEvent rt fd ev m = Inr (True, m')"
      using True assms(2,3) at False emp by (auto simp: delEvent_def Let_def m'_def c'_def getContext_def)
    moreover have "io_inv m'"
    proof (rule io_inv_upd [OF assms(1) True])
      show ok: "fdc_ok (nat fd) c'" using c assms(3) False by (auto simp: c'_def clear_event_ok)
      have ev': "events c' = events c AND NOT ev" by (simp add: c'_def setContext_def)
      show "m_fdContexts m' = (m_fdContexts m)[nat fd := c']" by (simp add: m'_def put_context_def)
      show "m_pendingEventCount m' + n_events (events (m_fdContexts m ! nat fd)) = m_pendingEventCount m + n_events (events c')"
        using n_events_clear [of "events c" ev] c assms(3) False n_events_le_pending [OF assms(1) True]
        by (simp add: m'_def put_context_def ev' c_def [symmetric] fdc_ok_def)
      show "epoll_set m' = (epoll_set m)(int (nat fd) := (if events c' = 0 then None else Some (EPOLLET OR events c')))"
        using False assms(2) by (simp add: m'_def put_context_def ev' epoll_ctl_def)
    qed
    moreover have "io_sched m' = io_sched m \<and> outbox m' = outbox m"
      by (simp add: m'_def put_context_def epoll_ctl_def)
    ultimately show ?thesis by blast
  qed
qed

text \<open>Firing the events of a mask \<open>R\<close> that are all registered, reads first.\<close>

definition fire_mask :: "uint32 \<Rightarrow> 'f fd_context \<times> 'f io_manager \<Rightarrow> ('f fd_context \<times> 'f io_manager) result" where
  "fire_mask R s = bindE (if R AND READ \<noteq> 0 then fire READ s else Inr s) (\<lambda>s1.
     if R AND WRITE \<noteq> 0 then fire WRITE s1 else Inr s1)"

definition wake_mask :: "uint32 \<Rightarrow> 'f fd_context \<Rightarrow> 'f io_manager \<Rightarrow> 'f io_manager" where
  "wake_mask R c m = (let m1 = (if R AND READ \<noteq> 0 then wake (read_ctx c) m else m) in
     if R AND WRITE \<noteq> 0 then wake (write_ctx c) m1 else m1)"

lemma fire_ok:
  assumes "fdc_ok i c" and "ev = READ \<or> ev = WRITE" and "events c AND ev \<noteq> 0"
  shows "\<exists>c'. fire ev (c, m) = Inr (c', (wake (ctx_for ev c) m)\<lparr>m_pendingEventCount := m_pendingEventCount m - 1\<rparr>)
     \<and> fdc_ok i c' \<and> events c' = events c AND NOT ev
     \<and> (ev = READ \<longrightarrow> write_ctx c' = write_ctx c) \<and> (ev = WRITE \<longrightarrow> read_ctx c' = read_ctx c)"
  using triggerEvent_ok [OF assms, of m] by (auto simp: fire_def)

lemma wake_pending: "wake x (m\<lparr>m_pendingEventCount := p\<rparr>) = (wake x m)\<lparr>m_pendingEventCount := p\<rparr>"
  by (simp add: wake_def hand_over_def)

lemma fire_mask_ok:
  assumes "fdc_ok i c" and "R \<in> event_masks" and "events c AND R = R"
  shows "\<exists>c'. fire_mask R (c, m) = Inr (c', (wake_mask R c m)\<lparr>m_pendingEventCount := m_pendingEventCount m - n_events R\<rparr>)
     \<and> fdc_ok i c' \<and> events c' = events c AND NOT R"
proof -
  have e: "events c \<in> event_masks" using assms(1) by (simp add: fdc_ok_def)
  from assms(2) show ?thesis
  proof (cases rule: event_masks_cases)
    case 1
    then show ?thesis using assms(1) by (simp add: fire_mask_def wake_mask_def n_events_def)
  next
    case 2
    then show ?thesis using fire_ok [OF assms(1), of READ m] assms(3)
      by (auto simp: fire_mask_def wake_mask_def n_events_def ctx_for_def)
  next
    case 3
    then show ?thesis using fire_ok [OF assms(1), of WRITE m] assms(3)
      by (auto simp: fire_mask_def wake_mask_def n_events_def ctx_for_def)
  next
    case 4
    have e5: "events c = 5" using e assms(3) 4 by (auto elim!: event_masks_cases)
    let ?m1 = "(wake (read_ctx c) m)\<lparr>m_pendingEventCount := m_pendingEventCount m - 1\<rparr>"
    obtain c1 where c1: "fire READ (c, m) = Inr (c1, ?m1)" "fdc_ok i c1" "events c1 = 4" "write_ctx c1 = write_ctx c"
      using fire_ok [OF assms(1), of READ m] e5 by (auto simp: ctx_for_def)
    obtain c2 where "fire WRITE (c1, ?m1) = Inr (c2, (wake (write_ctx c) ?m1)\<lparr>m_pendingEventCount := m_pendingEventCount m - 1 - 1\<rparr>)"
        "fdc_ok i c2" "events c2 = 0"
      using fire_ok [OF c1(2), of WRITE ?m1] c1(3,4) by (auto simp: ctx_for_def)
    then show ?thesis using c1 4 e5
      by (auto simp: fire_mask_def wake_mask_def n_events_def wake_pending)
  qed
qed

text \<open>After the kernel's answer: unregister the events of \<open>R\<close> and wake their waiters.\<close>

definition retired :: "uint32 \<Rightarrow> nat \<Rightarrow> 'f io_manager \<Rightarrow> 'f io_manager \<Rightarrow> bool" where
  "retired R i m m' \<longleftrightarrow> (\<exists>c'. m' = (wake_mask R (m_fdContexts m ! i) m)
       \<lparr>m_fdContexts := (m_fdContexts m)[i := c'], m_pendingEventCount := m_pendingEventCount m - n_events R,
        epoll_set := (epoll_set m)(int i := (if events c' = 0 then None else Some (EPOLLET OR events c')))\<rparr>
     \<and> fdc_ok i c' \<and> events c' = events (m_fdContexts m ! i) AND NOT R)"

lemma n_events_clear_mask:
  "e \<in> event_masks \<Longrightarrow> R \<in> event_masks \<Longrightarrow> e AND R = R \<Longrightarrow> n_events (e AND NOT R) + n_events R = n_events e"
  by (elim event_masks_cases) (auto simp: n_events_def)

lemma wake_mask_frame [simp]:
  "m_fdContexts (wake_mask R c m) = m_fdContexts m" "epoll_set (wake_mask R c m) = epoll_set m"
  by (simp_all add: wake_mask_def Let_def)

lemma retired_inv:
  assumes "io_inv m" and "i < length (m_fdContexts m)" and "retired R i m m'"
    and "R \<in> event_masks" and "events (m_fdContexts m ! i) AND R = R"
  shows "io_inv m'"
proof -
  obtain c' where c': "fdc_ok i c'" "events c' = events (m_fdContexts m ! i) AND NOT R"
    and m': "m_fdContexts m' = (m_fdContexts m)[i := c']"
      "m_pendingEventCount m' = m_pendingEventCount m - n_events R"
      "epoll_set m' = (epoll_set m)(int i := (if events c' = 0 then None else Some (EPOLLET OR events c')))"
    using assms(3) by (auto simp: retired_def)
  have "events (m_fdContexts m ! i) \<in> event_masks" using assms(1,2) by (auto simp: io_inv_def fdc_ok_def)
  from n_events_clear_mask [OF this assms(4,5)] n_events_le_pending [OF assms(1,2)]
  show ?thesis by (intro io_inv_upd [OF assms(1,2) c'(1) m'(1) _ m'(3)]) (simp add: m'(2) c'(2))
qed

lemma wake_epoll: "wake x (m\<lparr>epoll_set := e\<rparr>) = (wake x m)\<lparr>epoll_set := e\<rparr>"
  by (simp add: wake_def hand_over_def)

lemma wake_mask_epoll: "wake_mask R c (m\<lparr>epoll_set := e\<rparr>) = (wake_mask R c m)\<lparr>epoll_set := e\<rparr>"
  by (simp add: wake_mask_def Let_def wake_epoll)

lemma fire_mask_retires:
  assumes "io_inv m" and "0 \<le> fd" and "nat fd < length (m_fdContexts m)"
    and "c = m_fdContexts m ! nat fd" and "R \<in> event_masks" and "events c AND R = R"
    and "ctl = (if events c AND NOT R \<noteq> 0 then EPOLL_CTL_MOD else EPOLL_CTL_DEL)"
    and "e = EPOLLET OR events c AND NOT R \<or> events c AND NOT R = 0"
  shows "\<exists>c2 m3. fire_mask R (c, epoll_ctl 0 ctl fd e m) = Inr (c2, m3)
     \<and> events c2 = events c AND NOT R \<and> retired R (nat fd) m (put_context fd c2 m3)"
proof -
  let ?m1 = "epoll_ctl 0 ctl fd e m"
  have c: "fdc_ok (nat fd) c" using assms(1,3,4) by (simp add: io_inv_def)
  obtain c2 where c2: "fire_mask R (c, ?m1) = Inr (c2,
       (wake_mask R c ?m1)\<lparr>m_pendingEventCount := m_pendingEventCount m - n_events R\<rparr>)"
      "fdc_ok (nat fd) c2" "events c2 = events c AND NOT R"
    using fire_mask_ok [OF c assms(5,6), of ?m1] by auto
  define E where "E = (epoll_set m)(fd := (if events c2 = 0 then None else Some (EPOLLET OR events c2)))"
  have m1: "?m1 = m\<lparr>epoll_set := E\<rparr>" using assms(7,8) c2(3) by (auto simp: epoll_ctl_def E_def)
  have "put_context fd c2 ((wake_mask R c ?m1)\<lparr>m_pendingEventCount := m_pendingEventCount m - n_events R\<rparr>)
     = (wake_mask R c m)\<lparr>m_fdContexts := (m_fdContexts m)[nat fd := c2],
          m_pendingEventCount := m_pendingEventCount m - n_events R, epoll_set := E\<rparr>"
    unfolding m1 wake_mask_epoll by (simp add: put_context_def)
  then have "retired R (nat fd) m
      (put_context fd c2 ((wake_mask R c ?m1)\<lparr>m_pendingEventCount := m_pendingEventCount m - n_events R\<rparr>))"
    unfolding retired_def using c2(2,3) assms(2,4) by (intro exI [of _ c2]) (simp add: E_def)
  with c2 show ?thesis by blast
qed

text \<open>\<^verbatim>\<open>cancelALL\<close> looks at what is left of the events before the second trigger.\<close>

lemma cancel_is_fire_mask:
  assumes "fdc_ok i c"
  shows "bindE (if events c AND READ \<noteq> 0 then fire READ (c, m) else Inr (c, m)) (\<lambda>(c1, m2).
       bindE (if events c1 AND WRITE \<noteq> 0 then fire WRITE (c1, m2) else Inr (c1, m2)) Inr)
     = fire_mask (events c) (c, m)"
proof -
  have e: "events c \<in> event_masks" using assms by (simp add: fdc_ok_def)
  have i: "bindE x Inr = x" for x :: "('b \<times> 'c) result" by (cases x) auto
  show ?thesis
  proof (cases "events c AND READ = 0")
    case True
    then show ?thesis by (simp add: fire_mask_def i)
  next
    case False
    obtain c1 m2 where f: "fire READ (c, m) = Inr (c1, m2)" "events c1 = events c AND NOT 1"
      using fire_ok [OF assms _ False, of m] by auto
    have "events c1 AND WRITE \<noteq> 0 \<longleftrightarrow> events c AND WRITE \<noteq> 0"
      using f(2) e by (elim event_masks_cases) auto
    with False f show ?thesis by (simp add: fire_mask_def i)
  qed
qed

lemma cancelALL_ok:
  assumes "io_inv m" and "0 \<le> fd"
  shows "\<exists>r m'. cancelALL rt fd m = Inr (r, m') \<and>
     (if r then nat fd < length (m_fdContexts m) \<and> retired (events (m_fdContexts m ! nat fd)) (nat fd) m m' else m' = m)"
proof (cases "nat fd < length (m_fdContexts m)")
  case False
  then have "int (length (m_fdContexts m)) \<le> fd" using assms(2) by linarith
  then show ?thesis by (intro exI [of _ False] exI [of _ m]) (simp add: cancelALL_def)
next
  case True
  define c where "c = m_fdContexts m ! nat fd"
  have e: "events c \<in> event_masks" using assms(1) True by (auto simp: io_inv_def c_def fdc_ok_def)
  have at: "context_at m fd = Inr c" using assms(2) True by (simp add: context_at_ok c_def)
  show ?thesis
  proof (cases "events c = 0 \<or> rt \<noteq> 0")
    case True
    then show ?thesis using assms at by (auto simp: cancelALL_def Let_def)
  next
    case False
    have none: "events c AND NOT (events c) = 0" by simp
    obtain c2 m3 where f: "fire_mask (events c) (c, epoll_ctl 0 EPOLL_CTL_DEL fd 0 m) = Inr (c2, m3)"
        "events c2 = 0" "retired (events c) (nat fd) m (put_context fd c2 m3)"
      using fire_mask_retires [OF assms True c_def e, of EPOLL_CTL_DEL 0] none by auto
    have run: "cancelALL rt fd m = Inr (True, put_context fd c2 m3)"
    proof -
      have "bindE (if events c AND READ \<noteq> 0 then fire READ (c, epoll_ctl 0 EPOLL_CTL_DEL fd 0 m)
             else Inr (c, epoll_ctl 0 EPOLL_CTL_DEL fd 0 m)) (\<lambda>(c1, m2).
           bindE (if events c1 AND WRITE \<noteq> 0 then fire WRITE (c1, m2) else Inr (c1, m2)) Inr) = Inr (c2, m3)"
        using cancel_is_fire_mask [of "nat fd" c "epoll_ctl 0 EPOLL_CTL_DEL fd 0 m"] f(1) assms(1) True
        by (simp add: io_inv_def c_def)
      then obtain c1 m2 where
          "(if events c AND READ \<noteq> 0 then fire READ (c, epoll_ctl 0 EPOLL_CTL_DEL fd 0 m)
             else Inr (c, epoll_ctl 0 EPOLL_CTL_DEL fd 0 m)) = Inr (c1, m2)"
          "(if events c1 AND WRITE \<noteq> 0 then fire WRITE (c1, m2) else Inr (c1, m2)) = Inr (c2, m3)"
        by (auto elim!: bindE_cases)
      then show ?thesis using False True at assms(2) f(2) by (simp add: cancelALL_def Let_def)
    qed
    with f(3) True show ?thesis by (auto simp: c_def)
  qed
qed

text \<open>What the kernel may report for a descriptor: events it is registered for, and errors.\<close>

definition real_mask :: "uint32 \<Rightarrow> uint32" where
  "real_mask ev = (if ev AND EPOLLIN \<noteq> 0 then READ else NONE) OR (if ev AND EPOLLOUT \<noteq> 0 then WRITE else NONE)"

lemma real_mask_masks: "real_mask ev \<in> event_masks"
  by (simp add: real_mask_def event_masks_def)

lemma no_error_bits: "e \<in> event_masks \<Longrightarrow> e AND (8 OR 16) = 0"
  by (elim event_masks_cases) simp_all

lemma handle_event_unfold:
  assumes "io_inv m" and "context_at m fd = Inr c"
  shows "handle_event rt2 fd ev m =
    (if events c AND real_mask ev = NONE then Inr m
     else if rt2 \<noteq> 0 then Inr m
     else bindE (fire_mask (real_mask ev) (c, epoll_ctl rt2
            (if events c AND NOT (real_mask ev) \<noteq> 0 then EPOLL_CTL_MOD else EPOLL_CTL_DEL) fd
            (EPOLLET OR events c AND NOT (real_mask ev)) m))
          (\<lambda>(c2, m3). Inr (put_context fd c2 m3)))"
proof -
  have c: "fdc_ok (nat fd) c" "0 \<le> fd" using assms by (auto simp: context_at_Inr io_inv_def)
  have e: "events c AND (8 OR 16) = 0" using c by (intro no_error_bits) (simp add: fdc_ok_def)
  have fd: "ctx_fd c = fd" using c by (simp add: fdc_ok_def)
  have b: "bindE (bindE x f) g = bindE x (\<lambda>y. bindE (f y) g)"
    for x :: "('a fd_context \<times> 'a io_manager) result" and f :: "_ \<Rightarrow> ('a fd_context \<times> 'a io_manager) result"
      and g :: "_ \<Rightarrow> 'a io_manager result"
    by (cases x) auto
  show ?thesis
    unfolding handle_event_def assms(2) bindE_simps Let_def e fire_mask_def b real_mask_def [symmetric] fd
    by (auto simp: bindE_def split: sum.splits prod.splits)
qed

lemma handle_event_ok:
  assumes "io_inv m" and "context_at m fd = Inr c" and "events c AND real_mask ev = real_mask ev"
  shows "\<exists>m'. handle_event rt2 fd ev m = Inr m' \<and> io_inv m' \<and>
     (if real_mask ev = 0 \<or> rt2 \<noteq> 0 then m' = m else retired (real_mask ev) (nat fd) m m')"
proof (cases "real_mask ev = 0 \<or> rt2 \<noteq> 0")
  case True
  then show ?thesis using assms(1) handle_event_unfold [OF assms(1,2), of rt2 ev] assms(3) by auto
next
  case False
  have fd: "0 \<le> fd" "nat fd < length (m_fdContexts m)" "c = m_fdContexts m ! nat fd"
    using assms(2) by (auto simp: context_at_Inr)
  let ?ctl = "if events c AND NOT (real_mask ev) \<noteq> 0 then EPOLL_CTL_MOD else EPOLL_CTL_DEL"
  let ?e = "EPOLLET OR events c AND NOT (real_mask ev)"
  obtain c2 m3 where f: "fire_mask (real_mask ev) (c, epoll_ctl 0 ?ctl fd ?e m) = Inr (c2, m3)"
      "retired (real_mask ev) (nat fd) m (put_context fd c2 m3)"
    using fire_mask_retires [OF assms(1) fd real_mask_masks assms(3) refl, of ?e] by auto
  have "handle_event rt2 fd ev m = Inr (put_context fd c2 m3)"
    using handle_event_unfold [OF assms(1,2), of rt2 ev] f(1) False assms(3) by simp
  moreover have "io_inv (put_context fd c2 m3)"
    using retired_inv [OF assms(1) fd(2) f(2) real_mask_masks] assms(3) fd(3) by simp
  ultimately show ?thesis using f(2) False by auto
qed

section \<open>Reachable states\<close>

text \<open>
  Operations in any order, with every answer the kernel may give. An event handled in \<^verbatim>\<open>idle\<close> is one
  whose bits are still registered when the context is locked.
\<close>

inductive io_reachable :: "'f io_manager \<Rightarrow> bool" where
  created: "mk_IOManager sid s tm tids answers = Inr m \<Longrightarrow> io_reachable m"
| added: "io_reachable m \<Longrightarrow> 0 \<le> fd \<Longrightarrow> ev = READ \<or> ev = WRITE \<Longrightarrow> this \<noteq> None \<Longrightarrow>
     addEvent rt this fib fd ev cb m = Inr (r, m') \<Longrightarrow> io_reachable m'"
| deleted: "io_reachable m \<Longrightarrow> 0 \<le> fd \<Longrightarrow> ev = READ \<or> ev = WRITE \<Longrightarrow>
     delEvent rt fd ev m = Inr (d, m') \<Longrightarrow> io_reachable m'"
| cancelled: "io_reachable m \<Longrightarrow> 0 \<le> fd \<Longrightarrow> ev = READ \<or> ev = WRITE \<Longrightarrow>
     cancelEvent rt fd ev m = Inr (d, m') \<Longrightarrow> io_reachable m'"
| cancelled_all: "io_reachable m \<Longrightarrow> 0 \<le> fd \<Longrightarrow> cancelALL rt fd m = Inr (d, m') \<Longrightarrow> io_reachable m'"
| handled: "io_reachable m \<Longrightarrow> context_at m fd = Inr c \<Longrightarrow> events c AND real_mask ev = real_mask ev \<Longrightarrow>
     handle_event rt2 fd ev m = Inr m' \<Longrightarrow> io_reachable m'"
| scheduled: "io_reachable m \<Longrightarrow> io_reachable (m\<lparr>io_sched := s'\<rparr>)"
| timed: "io_reachable m \<Longrightarrow> io_reachable (m\<lparr>io_timers := tm'\<rparr>)"

lemma created_inv:
  assumes "mk_IOManager sid s tm tids answers = Inr m"
  shows "io_inv m"
proof -
  have m: "m_fdContexts m = contextResize 32 []" "m_pendingEventCount m = 0" "epoll_set m = Map.empty"
    using assms by (auto simp: mk_IOManager_def bindE_eq_Inr split: if_splits prod.splits)
  have cs: "contextResize 32 [] = map mk_FdContext [0 ..< 32]" by (simp add: contextResize_def)
  have "sum_list (map (\<lambda>c. n_events (events c)) (map mk_FdContext [0 ..< 32])) = 0"
    by (simp add: o_def n_events_def map_replicate_const)
  then show ?thesis by (simp add: io_inv_def m cs fresh_fdc_ok)
qed

lemma io_inv_cong: "io_inv (m\<lparr>io_sched := s'\<rparr>) = io_inv m" "io_inv (m\<lparr>io_timers := tm'\<rparr>) = io_inv m"
  by (simp_all add: io_inv_def)

lemma cancelALL_inv:
  assumes "io_inv m" and "0 \<le> fd" and "cancelALL rt fd m = Inr (d, m')"
  shows "io_inv m'"
proof -
  have r: "if d then nat fd < length (m_fdContexts m) \<and> retired (events (m_fdContexts m ! nat fd)) (nat fd) m m' else m' = m"
    using cancelALL_ok [OF assms(1,2), of rt] assms(3) by auto
  show ?thesis
  proof (cases d)
    case True
    with r have l: "nat fd < length (m_fdContexts m)"
      and rt: "retired (events (m_fdContexts m ! nat fd)) (nat fd) m m'" by auto
    have "events (m_fdContexts m ! nat fd) \<in> event_masks" using assms(1) l by (auto simp: io_inv_def fdc_ok_def)
    then show ?thesis by (intro retired_inv [OF assms(1) l rt]) auto
  qed (use r assms(1) in auto)
qed

lemma io_reachable_inv: "io_reachable m \<Longrightarrow> io_inv m"
proof (induction rule: io_reachable.induct)
  case (created sid s tm tids answers m)
  then show ?case by (rule created_inv)
next
  case (added m fd ev this rt fib cb r m')
  then show ?case using addEvent_ok by blast
next
  case (deleted m fd ev rt d m')
  then show ?case using delEvent_ok [of m fd ev rt] by auto
next
  case (cancelled m fd ev rt d m')
  then show ?case using cancelEvent_ok [of m fd ev rt] by auto
next
  case (cancelled_all m fd rt d m')
  then show ?case using cancelALL_inv by blast
next
  case (handled m fd c ev rt2 m')
  then show ?case using handle_event_ok [of m fd c ev rt2] by auto
qed (simp_all add: io_inv_cong)

section \<open>Properties\<close>


definition example_io :: "string io_manager" where
  "example_io = \<lparr>io_id = 0, io_sched = \<lparr>m_name = ''io'', m_fibers = [], m_threads = [1], m_threadIds = [1],
       m_threadCount = 1, m_activeThreadCount = 0, m_idleThreadCount = 0, m_stoping = False,
       m_autoStop = False, m_rootThread = -1, m_rootFiber = None, tickles = 0\<rparr>,
     io_timers = mk_TimerManager 0, m_fdContexts = contextResize 32 [], m_pendingEventCount = 0,
     epoll_set = Map.empty, outbox = []\<rparr>"

lemma example_io_reachable: "io_reachable example_io"
  by (rule io_reachable.created [where sid = 0 and tids = "[1]" and answers = "(3, 0, 0, 0)" and tm = "mk_TimerManager 0"
        and s = "\<lparr>m_name = ''io'', m_fibers = [], m_threads = [], m_threadIds = [], m_threadCount = 1,
          m_activeThreadCount = 0, m_idleThreadCount = 0, m_stoping = True,
          m_autoStop = False, m_rootThread = -1, m_rootFiber = None, tickles = 0\<rparr>"])
     (simp add: mk_IOManager_def start_def example_io_def)


text \<open>\<^verbatim>\<open>cancelALL\<close> on a descriptor fails without a change, or it wakes every waiter of the descriptor
  exactly once (the reader first), leaves it with no registered event and takes it out of the
  kernel's interest list; its final assertion never fails.\<close>

theorem cancelALL_wakes_all:
  assumes "io_reachable m" and "0 \<le> fd"
  shows "\<exists>r m'. cancelALL rt fd m = Inr (r, m') \<and> (if r then
        nat fd < length (m_fdContexts m') \<and> events (m_fdContexts m' ! nat fd) = 0 \<and> epoll_set m' fd = None
      \<and> io_sched m' = io_sched (wake_mask (events (m_fdContexts m ! nat fd)) (m_fdContexts m ! nat fd) m)
      \<and> outbox m' = outbox (wake_mask (events (m_fdContexts m ! nat fd)) (m_fdContexts m ! nat fd) m)
     else m' = m)"
proof -
  note inv = io_reachable_inv [OF assms(1)]
  obtain r m' where c: "cancelALL rt fd m = Inr (r, m')"
      "if r then nat fd < length (m_fdContexts m) \<and> retired (events (m_fdContexts m ! nat fd)) (nat fd) m m' else m' = m"
    using cancelALL_ok [OF inv assms(2)] by blast
  show ?thesis
  proof (cases r)
    case True
    with c(2) have l: "nat fd < length (m_fdContexts m)"
      and ret: "retired (events (m_fdContexts m ! nat fd)) (nat fd) m m'" by auto
    from ret obtain c' where "events c' = 0"
      and "m' = (wake_mask (events (m_fdContexts m ! nat fd)) (m_fdContexts m ! nat fd) m)
        \<lparr>m_fdContexts := (m_fdContexts m)[nat fd := c'],
         m_pendingEventCount := m_pendingEventCount m - n_events (events (m_fdContexts m ! nat fd)),
         epoll_set := (epoll_set m)(int (nat fd) := None)\<rparr>"
      unfolding retired_def by (elim exE conjE) simp
    then show ?thesis using l c(1) True assms(2) by (intro exI [of _ True] exI [of _ m']) simp
  next
    case False
    then show ?thesis using c by (intro exI [of _ False] exI [of _ m]) simp
  qed
qed

theorem cancelALL_wakes_all_witness:
  "\<exists>r m'. cancelALL 0 3 example_io = Inr (r, m') \<and> (r \<longrightarrow> events (m_fdContexts m' ! 3) = 0)"
  using cancelALL_wakes_all [OF example_io_reachable, of 3 0] by (auto split: if_splits)

text \<open>C30: An event the kernel reports for registered bits wakes exactly the waiters of the reported
  bits and leaves the other waiter of the descriptor registered.\<close>

theorem event_wakes_reported:
  assumes "io_reachable m" and "context_at m fd = Inr c"
    and "events c AND real_mask ev = real_mask ev" and "real_mask ev \<noteq> 0"
  shows "\<exists>m'. handle_event 0 fd ev m = Inr m' \<and> events (m_fdContexts m' ! nat fd) = events c AND NOT (real_mask ev)
     \<and> io_sched m' = io_sched (wake_mask (real_mask ev) c m) \<and> outbox m' = outbox (wake_mask (real_mask ev) c m)
     \<and> m_pendingEventCount m' + n_events (real_mask ev) = m_pendingEventCount m"
proof -
  note inv = io_reachable_inv [OF assms(1)]
  have c: "nat fd < length (m_fdContexts m)" "c = m_fdContexts m ! nat fd" using assms(2) by (auto simp: context_at_Inr)
  obtain m' where m': "handle_event 0 fd ev m = Inr m'" "retired (real_mask ev) (nat fd) m m'"
    using handle_event_ok [OF inv assms(2,3), of 0] assms(4) by auto
  have "events c \<in> event_masks" using inv c by (auto simp: io_inv_def fdc_ok_def)
  then have "n_events (real_mask ev) \<le> m_pendingEventCount m"
    using n_events_clear_mask [OF _ real_mask_masks assms(3)] n_events_le_pending [OF inv c(1)] c(2) by auto
  then show ?thesis using m' c by (auto simp: retired_def)
qed

lemma example_io_simps:
  "io_id example_io = 0" "length (m_fdContexts example_io) = 32" "m_fdContexts example_io ! 3 = mk_FdContext 3"
  "m_fibers (io_sched example_io) = []"
  by (simp_all add: example_io_def contextResize_def)

definition example_waiting :: "string io_manager" where
  "example_waiting = put_context 3 (setContext ((mk_FdContext 3)\<lparr>events := 1\<rparr>) 1
     \<lparr>ec_scheduler = Some 0, ec_fiber = Some 7, ec_cb = None\<rparr>)
     ((epoll_ctl 0 EPOLL_CTL_ADD 3 (EPOLLET OR 1) example_io)\<lparr>m_pendingEventCount := m_pendingEventCount example_io + 1\<rparr>)"

lemma example_waiting_added: "addEvent 0 (Some 0) (7, EXEC) 3 1 None example_io = Inr (0, example_waiting)"
  by (simp add: addEvent_def context_at_def example_io_simps getContext_def example_waiting_def)
     (simp add: mk_FdContext_def empty_context_def)

theorem event_wakes_reported_witness:
  "\<exists>m'. handle_event 0 3 1 example_waiting = Inr m' \<and> map ft_fiber (m_fibers (io_sched m')) = [Some 7]"
proof -
  have r: "io_reachable example_waiting"
    by (rule io_reachable.added [OF example_io_reachable _ _ _ example_waiting_added]) simp_all
  define c where "c = (mk_FdContext 3 :: string fd_context)\<lparr>events := 1, read_ctx := \<lparr>ec_scheduler = Some 0, ec_fiber = Some 7, ec_cb = None\<rparr>\<rparr>"
  have at: "context_at example_waiting 3 = Inr c"
    by (simp add: context_at_def example_waiting_def put_context_def example_io_simps setContext_def c_def mk_FdContext_def)
  have s: "io_id example_waiting = 0" "m_fibers (io_sched example_waiting) = []"
    by (simp_all add: example_waiting_def put_context_def epoll_ctl_def example_io_simps)
  have rm: "real_mask 1 = 1" by (simp add: real_mask_def)
  obtain m' where "handle_event 0 3 1 example_waiting = Inr m'"
      "io_sched m' = io_sched (wake_mask 1 c example_waiting)"
    using event_wakes_reported [OF r at, of 1] by (auto simp: rm c_def)
  moreover have "map ft_fiber (m_fibers (io_sched (wake_mask 1 c example_waiting))) = [Some 7]"
    using s by (simp add: wake_mask_def wake_def waiter_def hand_over_def schedule_queue task_ok_def c_def)
  ultimately show ?thesis by auto
qed



text \<open>An error or a hang-up the kernel reports without read or write readiness wakes nobody: \<^verbatim>\<open>idle\<close> tests
  the error bits of the registered events, where they never are, instead of those of the
  reported event. The fiber that waits for the descriptor is not resumed.\<close>

theorem error_events_ignored:
  assumes "io_reachable m" and "context_at m fd = Inr c"
  shows "handle_event rt2 fd (EPOLLERR OR EPOLLHUP) m = Inr m"
proof -
  have "real_mask (8 OR 16) = 0" by (simp add: real_mask_def)
  then show ?thesis using handle_event_unfold [OF io_reachable_inv [OF assms(1)] assms(2), of rt2 "8 OR 16"] by simp
qed

theorem error_events_ignored_witness: "handle_event 0 3 (8 OR 16) example_waiting = Inr example_waiting"
  using error_events_ignored [OF _ context_at_ok, of example_waiting 3 0]
    io_reachable.added [OF example_io_reachable _ _ _ example_waiting_added]
  by (simp add: example_waiting_def put_context_def example_io_simps)

text \<open>If one of two reported events has been deleted between \<^verbatim>\<open>epoll_wait\<close> and the lock of the context,
  handling the event fails the assertion of \<^verbatim>\<open>triggerEvent\<close>: \<^verbatim>\<open>real_events\<close> is not restricted to what is
  still registered. Here descriptor 3 waits for reading only and a write is reported too.\<close>

theorem stale_event_asserts: "handle_event 0 3 (EPOLLIN OR EPOLLOUT) example_waiting = Inl Assertion_failed"
proof -
  define c where "c = (mk_FdContext 3 :: string fd_context)\<lparr>events := 1, read_ctx := \<lparr>ec_scheduler = Some 0, ec_fiber = Some 7, ec_cb = None\<rparr>\<rparr>"
  have r: "io_reachable example_waiting"
    by (rule io_reachable.added [OF example_io_reachable _ _ _ example_waiting_added]) simp_all
  have at: "context_at example_waiting 3 = Inr c"
    by (simp add: context_at_def example_waiting_def put_context_def example_io_simps setContext_def c_def mk_FdContext_def)
  have rm: "real_mask 5 = 5" by (simp add: real_mask_def)
  have "fire_mask 5 (c, m) = Inl Assertion_failed" for m
    by (simp add: fire_mask_def fire_def triggerEvent_def getContext_def setContext_def c_def Let_def)
  then show ?thesis
    using handle_event_unfold [OF io_reachable_inv [OF r] at, of 0 5] by (simp add: rm c_def)
qed

text \<open>\<^verbatim>\<open>idle\<close> never blocks in \<^verbatim>\<open>epoll_wait\<close>: the timeout it passes is 0 in every round, whatever the timers.\<close>

theorem idle_polls_without_timeout:
  assumes "idle_round now b evs m = Inr (Some (timeout, m'))"
  shows "timeout = 0"
  using assms by (auto simp: idle_round_def Let_def bindE_eq_Inr epoll_timeout_def split: prod.splits if_splits)

theorem idle_polls_without_timeout_witness:
  "\<exists>m'. idle_round 0 9 [] example_io = Inr (Some (0, m'))"
proof -
  obtain t m' where "idle_round 0 9 [] example_io = Inr (Some (t, m'))"
    by (simp add: idle_round_def io_stopping_def stopping_def example_io_def getNextTimer_def mk_TimerManager_def
        listExpiredCb_def)
  with idle_polls_without_timeout [OF this] show ?thesis by blast
qed

end
