(* ===== verification/Tcp_Servers.thy ===== *)
theory Tcp_Servers
  imports Sockets IoManagers "HOL-Library.Sublist"
begin

text \<open>
  The TCP server (\<^verbatim>\<open>dwframe/Tcp_server.h\<close>, \<^verbatim>\<open>dwframe/Tcp_server.cc\<close>): binding and listening, the accept loop, start and stop. What
  the server schedules on its workers is collected in two queues. The kernel's answers are arguments, one record per
  address or per accepted connection. A \<^verbatim>\<open>Socket\<close> is closed by its destructor where the last pointer to it goes away.
\<close>

section \<open>Configuration\<close>

record tcp_server_conf =
  c_address :: "string list"
  c_keepalive :: int
  c_timeout :: int
  c_ssl :: int
  c_id :: string
  c_type :: string
  c_name :: string
  c_cert_file :: string
  c_key_file :: string
  c_accept_worker :: string
  c_io_worker :: string
  c_process_worker :: string
  c_args :: "(string \<times> string) list"

definition default_conf :: tcp_server_conf where
  "default_conf = \<lparr>c_address = [], c_keepalive = 0, c_timeout = 1000 * 2 * 60, c_ssl = 0, c_id = [], c_type = ''http'', c_name = [],
     c_cert_file = [], c_key_file = [], c_accept_worker = [], c_io_worker = [], c_process_worker = [], c_args = []\<rparr>"

definition conf_isValid :: "tcp_server_conf \<Rightarrow> bool" where
  "conf_isValid c \<longleftrightarrow> c_address c \<noteq> []"

definition conf_eq :: "tcp_server_conf \<Rightarrow> tcp_server_conf \<Rightarrow> bool" where
  "conf_eq a b \<longleftrightarrow> c_address a = c_address b \<and> c_keepalive a = c_keepalive b \<and> c_timeout a = c_timeout b \<and> c_name a = c_name b
     \<and> c_ssl a = c_ssl b \<and> c_cert_file a = c_cert_file b \<and> c_key_file a = c_key_file b \<and> c_accept_worker a = c_accept_worker b
     \<and> c_io_worker a = c_io_worker b \<and> c_process_worker a = c_process_worker b \<and> c_args a = c_args b \<and> c_id a = c_id b
     \<and> c_type a = c_type b"

text \<open>The comparison leaves no field out: configurations that compare equal are equal.\<close>

lemma conf_eq_iff: "conf_eq a b \<longleftrightarrow> a = b"
  by (cases a; cases b) (auto simp: conf_eq_def)

section \<open>State\<close>

datatype tcp_task = Start_accept sock | Handle_client sock | Close_all

record tcp_server =
  t_conf :: "tcp_server_conf option"
  t_socks :: "sock list"
  t_recvTimeout :: uint64
  t_name :: string
  t_type :: string
  t_isStop :: bool
  t_ssl :: bool
  accept_queue :: "tcp_task list"
  io_queue :: "tcp_task list"

text \<open>\<open>timeout\<close> is the value of the configuration variable \<^verbatim>\<open>tcp_server.read_timeout\<close>.\<close>

definition mk_TcpServer :: "uint64 \<Rightarrow> tcp_server" where
  "mk_TcpServer timeout = \<lparr>t_conf = None, t_socks = [], t_recvTimeout = timeout, t_name = ''dwframe/1.0.0'', t_type = ''tcp'',
     t_isStop = True, t_ssl = False, accept_queue = [], io_queue = []\<rparr>"

definition setConf :: "tcp_server_conf \<Rightarrow> tcp_server \<Rightarrow> tcp_server" where
  "setConf v srv = srv\<lparr>t_conf := Some v\<rparr>"

definition setName :: "string \<Rightarrow> tcp_server \<Rightarrow> tcp_server" where
  "setName v srv = srv\<lparr>t_name := v\<rparr>"

definition setRecvTimeout :: "uint64 \<Rightarrow> tcp_server \<Rightarrow> tcp_server" where
  "setRecvTimeout v srv = srv\<lparr>t_recvTimeout := v\<rparr>"

section \<open>Binding\<close>

record bind_answer =
  a_fd :: int
  a_bind :: bool
  a_local :: "(address \<times> nat) option"
  a_listen :: bool

fun close_socks :: "sock list \<Rightarrow> world \<Rightarrow> world result" where
  "close_socks [] w = Inr w"
| "close_socks (s # ss) w = bindE (sock_close s w) (\<lambda>(_, _, w1). close_socks ss w1)"

definition tcp_destroy :: "tcp_server \<Rightarrow> world \<Rightarrow> (tcp_server \<times> world) result" where
  "tcp_destroy srv w = bindE (close_socks (t_socks srv) w) (\<lambda>w1. Inr (srv\<lparr>t_socks := []\<rparr>, w1))"

fun bind_loop :: "(address \<times> bind_answer) list \<Rightarrow> world \<Rightarrow> (sock list \<times> address list \<times> world) result" where
  "bind_loop [] w = Inr ([], [], w)"
| "bind_loop ((addr, a) # rest) w =
     bindE (sock_bind (a_fd a) (a_bind a) (a_local a) addr (CreateTCP (getFamily addr)) w) (\<lambda>(ok, s, w1).
     if ok \<and> sock_listen (a_listen a) s
     then bindE (bind_loop rest w1) (\<lambda>(ss, fails, w2). Inr (s # ss, fails, w2))
     else bindE (sock_close s w1) (\<lambda>(_, _, w2).
          bindE (bind_loop rest w2) (\<lambda>(ss, fails, w3). Inr (ss, addr # fails, w3))))"

text \<open>\<open>fails\<close> is the vector of the caller, to which the failing addresses are added.\<close>

definition tcp_bind_all :: "(address \<times> bind_answer) list \<Rightarrow> address list \<Rightarrow> bool \<Rightarrow> tcp_server \<Rightarrow> world
    \<Rightarrow> (bool \<times> address list \<times> tcp_server \<times> world) result" where
  "tcp_bind_all addrs fails ssl srv w =
     bindE (bind_loop addrs w) (\<lambda>(ss, new_fails, w1).
     let srv1 = srv\<lparr>t_ssl := ssl, t_socks := t_socks srv @ ss\<rparr>; fails1 = fails @ new_fails in
     if fails1 \<noteq> [] then bindE (tcp_destroy srv1 w1) (\<lambda>(srv2, w2). Inr (False, fails1, srv2, w2))
     else Inr (True, fails1, srv1, w1))"

definition tcp_bind :: "address \<Rightarrow> bind_answer \<Rightarrow> bool \<Rightarrow> tcp_server \<Rightarrow> world \<Rightarrow> (bool \<times> tcp_server \<times> world) result" where
  "tcp_bind addr a ssl srv w = bindE (tcp_bind_all [(addr, a)] [] ssl srv w) (\<lambda>(ok, _, srv1, w1). Inr (ok, srv1, w1))"

section \<open>Accepting\<close>

record accept_answer =
  n_fd :: int
  n_local :: "(address \<times> nat) option"
  n_remote :: "(address \<times> nat) option"

definition accept_step :: "accept_answer \<Rightarrow> sock \<Rightarrow> tcp_server \<Rightarrow> world \<Rightarrow> (tcp_server \<times> world) result" where
  "accept_step a sock srv w = bindE (sock_accept (n_fd a) (n_local a) (n_remote a) sock w) (\<lambda>(client, w1).
     case client of
       None \<Rightarrow> Inr (srv, w1)
     | Some c \<Rightarrow> bindE (setSockTimeout SO_RCVTIMEO (sint (t_recvTimeout srv)) c w1) (\<lambda>w2.
         Inr (srv\<lparr>io_queue := io_queue srv @ [Handle_client c]\<rparr>, w2)))"

text \<open>
  The accept loop over its rounds: what it reads from \<^verbatim>\<open>m_isStop\<close> before each round, and what the kernel answers in it. The
  loop ends at the first round that finds the server stopped; the input ends where it still waits.
\<close>

fun startAccept :: "(bool \<times> accept_answer) list \<Rightarrow> sock \<Rightarrow> tcp_server \<Rightarrow> world \<Rightarrow> (tcp_server \<times> world) result" where
  "startAccept [] sock srv w = Inr (srv, w)"
| "startAccept ((is_stop, a) # rounds) sock srv w =
     (if is_stop then Inr (srv, w)
      else bindE (accept_step a sock srv w) (\<lambda>(srv1, w1). startAccept rounds sock srv1 w1))"

section \<open>Start and stop\<close>

definition tcp_start :: "tcp_server \<Rightarrow> bool \<times> tcp_server" where
  "tcp_start srv = (if \<not> t_isStop srv then (True, srv)
     else (True, srv\<lparr>t_isStop := False, accept_queue := accept_queue srv @ map Start_accept (t_socks srv)\<rparr>))"

definition tcp_stop :: "tcp_server \<Rightarrow> tcp_server" where
  "tcp_stop srv = srv\<lparr>t_isStop := True, accept_queue := accept_queue srv @ [Close_all]\<rparr>"

text \<open>The task that \<^verbatim>\<open>stop\<close> schedules; \<open>rts\<close> are the answers of \<^verbatim>\<open>epoll_ctl\<close>, one for each socket.\<close>

fun cancel_and_close :: "(sock \<times> int) list \<Rightarrow> world \<Rightarrow> 'f io_manager \<Rightarrow> (world \<times> 'f io_manager) result" where
  "cancel_and_close [] w m = Inr (w, m)"
| "cancel_and_close ((s, rt) # ss) w m =
     bindE (cancelALL rt (m_sock s) m) (\<lambda>(_, m1).
     bindE (sock_close s w) (\<lambda>(_, _, w1). cancel_and_close ss w1 m1))"

definition tcp_close_all :: "int list \<Rightarrow> tcp_server \<Rightarrow> world \<Rightarrow> 'f io_manager \<Rightarrow> (tcp_server \<times> world \<times> 'f io_manager) result" where
  "tcp_close_all rts srv w m = bindE (cancel_and_close (zip (t_socks srv) rts) w m) (\<lambda>(w1, m1). Inr (srv\<lparr>t_socks := []\<rparr>, w1, m1))"

definition loadCertificates :: "tcp_server \<Rightarrow> bool" where
  "loadCertificates srv = True"

text \<open>\<^verbatim>\<open>worker\<close> and \<^verbatim>\<open>accept\<close> are the names of the two workers, empty without one.\<close>

definition tcp_toString :: "endian \<Rightarrow> string \<Rightarrow> string \<Rightarrow> string \<Rightarrow> tcp_server \<Rightarrow> string" where
  "tcp_toString host indent worker accept srv =
     indent @ ''[type='' @ t_type srv @ '' name='' @ t_name srv @ '' ssl='' @ (if t_ssl srv then ''1'' else ''0'')
     @ '' worker='' @ worker @ '' accept='' @ accept @ '' recv_timeout='' @ show_base 10 (unat (t_recvTimeout srv)) @ '']'' @ [CHR 0x0A]
     @ (let pfx = if indent = [] then ''    '' else indent in
        concat (map (\<lambda>s. pfx @ pfx @ sock_dump host s @ [CHR 0x0A]) (t_socks srv)))"

section \<open>Descriptors\<close>

text \<open>The listening sockets hold exactly the descriptors that are opened and not closed.\<close>

definition server_balanced :: "sock list \<Rightarrow> world \<Rightarrow> bool" where
  "server_balanced ss w \<longleftrightarrow> list_all isVaild ss \<and> mset (opened w) = mset (closed w) + mset (map m_sock ss)"

lemma close_valid:
  "isVaild s \<Longrightarrow> sock_close s w = Inr (r, s1, w1) \<Longrightarrow> opened w1 = opened w \<and> closed w1 = closed w @ [m_sock s]"
  by (auto simp: sock_close_def isVaild_def bindE_def Let_def split: if_splits sum.splits prod.splits)

lemma close_socks_closed:
  "close_socks ss w = Inr w1 \<Longrightarrow> list_all isVaild ss \<Longrightarrow> opened w1 = opened w \<and> closed w1 = closed w @ map m_sock ss"
proof (induction ss arbitrary: w)
  case (Cons s ss)
  then obtain r s1 w2 where "sock_close s w = Inr (r, s1, w2)" "close_socks ss w2 = Inr w1" by (auto simp: bindE_eq_Inr)
  with Cons close_valid [of s w r s1 w2] show ?case by auto
qed simp

lemma bind_opens:
  assumes "sock_bind fd ok local addr (CreateTCP f) w = Inr (r, s, w1)"
  shows "closed w1 = closed w \<and> opened w1 = opened w @ (if isVaild s then [m_sock s] else []) \<and> (r \<longrightarrow> isVaild s)"
  using assms
  by (auto simp: sock_bind_def sock_ensure_def CreateTCP_def mk_Socket_def newSock_def isVaild_def bindE_def
      split: if_splits sum.splits prod.splits)

lemma bind_loop_balanced:
  assumes "bind_loop addrs w = Inr (ss, fails, w1)" and "server_balanced pre w"
  shows "server_balanced (pre @ ss) w1 \<and> (fails = [] \<longrightarrow> length ss = length addrs)"
  using assms
proof (induction addrs arbitrary: w ss fails pre)
  case (Cons aa addrs)
  obtain addr a where aa: "aa = (addr, a)" by fastforce
  obtain ok s w2 where b: "sock_bind (a_fd a) (a_bind a) (a_local a) addr (CreateTCP (getFamily addr)) w = Inr (ok, s, w2)"
    using Cons.prems(1) by (auto simp: aa bindE_eq_Inr)
  note opens = bind_opens [OF b]
  show ?case
  proof (cases "ok \<and> sock_listen (a_listen a) s")
    case True
    then obtain ss' where rest: "bind_loop addrs w2 = Inr (ss', fails, w1)" "ss = s # ss'"
      using Cons.prems(1) b by (auto simp: aa bindE_eq_Inr)
    have "server_balanced (pre @ [s]) w2" using Cons.prems(2) opens True by (simp add: server_balanced_def)
    from Cons.IH [OF rest(1) this] rest(2) show ?thesis by simp
  next
    case False
    then obtain r s2 w3 fails' where c: "sock_close s w2 = Inr (r, s2, w3)"
        and rest: "bind_loop addrs w3 = Inr (ss, fails', w1)" "fails = addr # fails'"
      using Cons.prems(1) b by (auto simp: aa bindE_eq_Inr)
    have "server_balanced pre w3"
    proof (cases "isVaild s")
      case True
      with close_valid [OF True c] opens Cons.prems(2) show ?thesis by (simp add: server_balanced_def)
    next
      case invalid: False
      then have "w3 = w2" using c by (auto simp: sock_close_def isVaild_def Let_def split: if_splits)
      with opens invalid Cons.prems(2) show ?thesis by (simp add: server_balanced_def)
    qed
    from Cons.IH [OF rest(1) this] rest(2) show ?thesis by simp
  qed
qed simp

lemma cancel_and_close_closed:
  "cancel_and_close ss w m = Inr (w1, m1) \<Longrightarrow> list_all isVaild (map fst ss) \<Longrightarrow>
     opened w1 = opened w \<and> closed w1 = closed w @ map m_sock (map fst ss)"
proof (induction ss arbitrary: w m)
  case (Cons x ss)
  obtain s rt where x: "x = (s, rt)" by fastforce
  obtain r s1 w2 m2 where "sock_close s w = Inr (r, s1, w2)" "cancel_and_close ss w2 m2 = Inr (w1, m1)"
    using Cons.prems(1) by (auto simp: x bindE_eq_Inr)
  with Cons close_valid [of s w r s1 w2] show ?case by (auto simp: x)
qed simp

section \<open>Properties\<close>


definition loopback_80 :: address where
  "loopback_80 = IPv4Address (mk_IPv4 Little_endian 0x7f000001 80)"


lemma accept_step_effect:
  assumes "accept_step a sock srv w = Inr (srv1, w1)"
  shows "closed w1 = closed w \<and> opened w1 = opened w @ (if n_fd a = -1 then [] else [n_fd a]) \<and> t_socks srv1 = t_socks srv
     \<and> (\<exists>cs. io_queue srv1 = io_queue srv @ map Handle_client cs \<and> list_all m_isConnected cs
          \<and> subseq (map m_sock cs) (if n_fd a = -1 then [] else [n_fd a]))"
proof -
  obtain client w2 where acc: "sock_accept (n_fd a) (n_local a) (n_remote a) sock w = Inr (client, w2)"
    using assms by (auto simp: accept_step_def bindE_eq_Inr)
  have w2: "closed w2 = closed w" "opened w2 = opened w @ (if n_fd a = -1 then [] else [n_fd a])"
    using acc by (auto simp: sock_accept_def Let_def bindE_def split: if_splits sum.splits prod.splits)
  show ?thesis
  proof (cases client)
    case None
    with assms acc w2 show ?thesis by (auto simp: accept_step_def intro: exI [of _ "[]"])
  next
    case (Some c)
    have c: "m_sock c = n_fd a" "m_isConnected c" "n_fd a \<noteq> -1"
      using acc Some by (auto simp: sock_accept_def sock_init_def Let_def bindE_def split: if_splits sum.splits prod.splits option.splits)
    have "opened w1 = opened w2" "closed w1 = closed w2" "io_queue srv1 = io_queue srv @ [Handle_client c]" "t_socks srv1 = t_socks srv"
      using assms acc Some by (auto simp: accept_step_def setSockTimeout_def bindE_eq_Inr)
    with c w2 show ?thesis by (auto intro!: exI [of _ "[c]"])
  qed
qed

text \<open>The descriptors that the kernel delivers until a round finds the server stopped.\<close>

fun accepted_fds :: "(bool \<times> accept_answer) list \<Rightarrow> int list" where
  "accepted_fds [] = []"
| "accepted_fds ((is_stop, a) # rounds) = (if is_stop then [] else (if n_fd a = -1 then [] else [n_fd a]) @ accepted_fds rounds)"



end
