(* ===== verification/Http_Servers.thy ===== *)
theory Http_Servers
  imports Http_Sessions Servlets Tcp_Servers
begin

text \<open>
  The HTTP server (\<^verbatim>\<open>dwframe/http/http_server.h\<close>, \<^verbatim>\<open>dwframe/http/http_server.cc\<close>): a TCP server whose client handler receives
  requests, dispatches them to the servlets and sends the responses. Sessions, servlets and the TCP server come from their
  own theories; the handler composes them over one connection.
\<close>

section \<open>State\<close>

text \<open>What a servlet sees of a session: the stream, the descriptors and the connection.\<close>

type_synonym 'k session = "socket_stream \<times> world \<times> 'k"

record 'k http_server =
  h_tcp :: tcp_server
  m_isKeepalive :: bool
  m_dispatch :: "'k session dispatch"

definition mk_HttpServer :: "bool \<Rightarrow> uint64 \<Rightarrow> 'k http_server" where
  "mk_HttpServer keepalive timeout = \<lparr>h_tcp = (mk_TcpServer timeout)\<lparr>t_type := ''http''\<rparr>, m_isKeepalive = keepalive,
     m_dispatch = mk_ServletDispatch\<rparr>"

definition http_setName :: "string \<Rightarrow> 'k http_server \<Rightarrow> 'k http_server" where
  "http_setName v srv = srv\<lparr>h_tcp := setName v (h_tcp srv), m_dispatch := setDefault (Some (mk_NotFoundServlet v)) (m_dispatch srv)\<rparr>"

definition setServletDispatch :: "'k session dispatch \<Rightarrow> 'k http_server \<Rightarrow> 'k http_server" where
  "setServletDispatch v srv = srv\<lparr>m_dispatch := v\<rparr>"

section \<open>Serving a client\<close>

text \<open>
  The surroundings of the handler: the system calls, the conversion and the matcher of the libraries, the longest string, the
  configured buffer size and the memory of a new parser.
\<close>

record 'k surroundings =
  e_recv :: "(char, 'k) recv_call"
  e_send :: "(char, 'k) send_call"
  e_cast :: "string \<Rightarrow> uint64 option"
  e_fnmatch :: "string \<Rightarrow> string \<Rightarrow> bool"
  e_max_size :: nat
  e_buff_size :: nat
  e_memory :: http_parser

abbreviation receive :: "'k surroundings \<Rightarrow> 'k session \<Rightarrow> (HttpRequest option \<times> socket_stream \<times> world \<times> 'k) result option" where
  "receive e ses \<equiv> recvRequest (e_recv e) (e_cast e) (e_max_size e) (e_buff_size e) (e_memory e) (fst ses) (fst (snd ses)) (snd (snd ses))"

text \<open>Building the response, handling the request and sending the response; whether another round follows.\<close>

definition answer :: "'k surroundings \<Rightarrow> 'k http_server \<Rightarrow> HttpRequest \<Rightarrow> 'k session \<Rightarrow> bool \<times> 'k session" where
  "answer e srv req ses =
     (let rsp = rsp_setHeader ''Server'' (t_name (h_tcp srv))
            (mk_HttpResponse (m_version req) (m_close req \<or> \<not> m_isKeepalive srv)) in
      case dispatch_handle (e_fnmatch e) (m_dispatch srv) req rsp ses of (_, req1, rsp1, ss, w, k) \<Rightarrow>
      case sendResponse (e_send e) rsp1 ss k of (_, k1) \<Rightarrow>
        (m_isKeepalive srv \<and> \<not> m_close req1, ss, w, k1))"

partial_function (option) serve_loop :: "'k surroundings \<Rightarrow> 'k http_server \<Rightarrow> 'k session \<Rightarrow> 'k session result option" where
  "serve_loop e srv ses =
     (case receive e ses of
        None \<Rightarrow> None
      | Some got \<Rightarrow> (case got of
            Inl err \<Rightarrow> Some (Inl err)
          | Inr (req, ses1) \<Rightarrow> (case req of
                None \<Rightarrow> Some (Inr ses1)
              | Some r \<Rightarrow> (case answer e srv r ses1 of (go_on, ses2) \<Rightarrow>
                    if go_on then serve_loop e srv ses2 else Some (Inr ses2)))))"

definition handleClient :: "'k surroundings \<Rightarrow> 'k http_server \<Rightarrow> sock \<Rightarrow> world \<Rightarrow> 'k \<Rightarrow> 'k session result option" where
  "handleClient e srv client w k =
     (case serve_loop e srv (mk_SocketStream (Some client) True, w, k) of
        None \<Rightarrow> None
      | Some (Inl err) \<Rightarrow> Some (Inl err)
      | Some (Inr (ss, w1, k1)) \<Rightarrow> Some (bindE (stream_close ss w1) (\<lambda>(ss1, w2). Inr (ss1, w2, k1))))"

section \<open>Serving ends\<close>

text \<open>A received request has taken at least one byte from the connection.\<close>

lemma recv_loop_consumes:
  assumes "byte_source rd pending" and "recv_loop rd buff_size parser rest k = Some (Inr (Some got, k1))"
  shows "length (pending k1) < length (pending k)"
  using assms(2)
proof (induction "length (pending k)" arbitrary: parser rest k rule: less_induct)
  case less
  obtain len bs k2 where rd: "rd (buff_size - length rest) k = (len, bs, k2)" by (metis surj_pair)
  note step = byte_source.read_next [OF assms(1) rd]
  have pos: "0 < len" using less.prems by (subst (asm) recv_loop.simps) (auto simp: rd split: if_splits)
  then have shorter: "length (pending k2) < length (pending k)" using step by auto
  show ?case
  proof (cases "k1 = k2")
    case False
    then obtain parser1 rest1 where "recv_loop rd buff_size parser1 rest1 k2 = Some (Inr (Some got, k1))"
      using less.prems by (subst (asm) recv_loop.simps) (auto simp: rd split: if_splits sum.splits)
    from less.hyps [OF shorter this] shorter show ?thesis by simp
  qed (use shorter in simp)
qed

lemma recv_body_shrinks:
  assumes "byte_source rd pending" and "recv_body rd max_size len rest k = Inr (body, k1)"
  shows "length (pending k1) \<le> length (pending k)"
proof -
  have "length (pending k2) \<le> length (pending k)" if "readFixSize rd n k = (r, bs, k2)" for n r bs k2
    using byte_source.loop_outcome [OF assms(1)] that by (fastforce simp: readFixSize_def split: prod.splits)
  then show ?thesis using assms(2) by (auto simp: recv_body_def Let_def split: if_splits prod.splits)
qed

lemma receive_consumes:
  assumes "recv_contract recv pending" and "recvRequest recv cast max_size buff_size memory ss w k = Some (Inr (Some r, ss1, w1, k1))"
  shows "length (pending k1) < length (pending k)"
proof -
  note src = stream_source [OF assms(1), of ss]
  obtain got k2 where loop: "recv_loop (stream_read recv ss) buff_size (mk_HttpRequestParser memory) [] k = Some (Inr (Some got, k2))"
      and "k1 = k2 \<or> (\<exists>len rest body. recv_body (stream_read recv ss) max_size len rest k2 = Inr (body, k1))"
    using assms(2) by (auto simp: recvRequest_def Let_def bindE_eq_Inr split: option.splits sum.splits if_splits prod.splits)
  then show ?thesis using recv_loop_consumes [OF src loop] recv_body_shrinks [OF src] by fastforce
qed

text \<open>Servlets and system calls that do not give input back to the connection.\<close>

definition calm_send :: "('b, 'k) send_call \<Rightarrow> ('k \<Rightarrow> 'a) \<Rightarrow> bool" where
  "calm_send send view \<longleftrightarrow> (\<forall>fd bs k. view (snd (send fd bs k)) = view k)"

definition calm_servlets :: "(string \<Rightarrow> string \<Rightarrow> bool) \<Rightarrow> 'k session dispatch \<Rightarrow> ('k \<Rightarrow> 'b list) \<Rightarrow> bool" where
  "calm_servlets fnmatch d pending \<longleftrightarrow> (\<forall>req rsp ses c req1 rsp1 ss w k.
     dispatch_handle fnmatch d req rsp ses = (c, req1, rsp1, ss, w, k) \<longrightarrow> length (pending k) \<le> length (pending (snd (snd ses))))"

lemma write_loop_calm:
  assumes "\<And>bs k. view (snd (wr bs k)) = view k"
  shows "view (snd (writeFixSize_loop wr left buf k)) = view k"
proof (induction "nat left" arbitrary: left buf k rule: less_induct)
  case less
  obtain len k1 where wr: "wr buf k = (len, k1)" by (metis surj_pair)
  then have "view k1 = view k" using assms [of buf k] by simp
  then show ?case using less [of "left - len" "drop (nat len) buf" k1] wr by (subst writeFixSize_loop.simps) auto
qed

lemma sendResponse_calm: "calm_send send view \<Longrightarrow> view (snd (sendResponse send rsp ss k)) = view k"
proof -
  assume "calm_send send view"
  then have "view (snd (stream_write send ss bs k)) = view k" for bs k
    by (auto simp: calm_send_def stream_write_def sock_send_def sock_io_def split: option.splits prod.splits) (metis snd_conv)+
  from write_loop_calm [where wr = "stream_write send ss" and view = view, OF this] show ?thesis
    by (simp add: sendResponse_def writeFixSize_def split: prod.splits) (metis snd_conv)
qed

lemma answer_calm:
  assumes "calm_send (e_send e) pending" and "calm_servlets (e_fnmatch e) (m_dispatch srv) pending"
    and "answer e srv req ses = (go_on, ss, w, k1)"
  shows "length (pending k1) \<le> length (pending (snd (snd ses)))"
proof -
  obtain ss0 w0 k0 where ses: "ses = (ss0, w0, k0)" by (metis surj_pair)
  let ?rsp = "rsp_setHeader ''Server'' (t_name (h_tcp srv)) (mk_HttpResponse (m_version req) (m_close req \<or> \<not> m_isKeepalive srv))"
  obtain c req1 rsp1 ss1 w1 k2 where h: "dispatch_handle (e_fnmatch e) (m_dispatch srv) req ?rsp (ss0, w0, k0) = (c, req1, rsp1, ss1, w1, k2)"
    by (metis surj_pair)
  then have "length (pending k2) \<le> length (pending (snd (snd (ss0, w0, k0))))"
    using assms(2) unfolding calm_servlets_def by blast
  moreover have "k1 = snd (sendResponse (e_send e) rsp1 ss1 k2)"
    using assms(3) by (simp add: answer_def ses Let_def h split: prod.splits)
  ultimately show ?thesis using sendResponse_calm [OF assms(1)] by (simp add: ses)
qed

lemma serve_loop_ends:
  assumes "recv_contract (e_recv e) pending" and "calm_send (e_send e) pending"
    and "calm_servlets (e_fnmatch e) (m_dispatch srv) pending"
  shows "\<exists>out. serve_loop e srv ses = Some out"
proof (induction "length (pending (snd (snd ses)))" arbitrary: ses rule: less_induct)
  case less
  obtain ss w k where ses: "ses = (ss, w, k)" by (metis surj_pair)
  obtain out where out: "receive e ses = Some out"
    using recvRequest_some [OF assms(1)] by blast
  have "\<exists>out. serve_loop e srv ses2 = Some out"
    if "out = Inr (Some r, ses1)" "answer e srv r ses1 = (go_on, ses2)" for r ses1 go_on ses2
  proof -
    obtain ss1 w1 k1 where ses1: "ses1 = (ss1, w1, k1)" by (metis surj_pair)
    obtain ss2 w2 k2 where ses2: "ses2 = (ss2, w2, k2)" by (metis surj_pair)
    have "length (pending k1) < length (pending k)" using receive_consumes [OF assms(1)] out that(1) by (auto simp: ses ses1)
    moreover have "length (pending k2) \<le> length (pending k1)" using answer_calm [OF assms(2,3)] that(2) by (auto simp: ses1 ses2)
    ultimately show ?thesis by (intro less) (simp add: ses ses2)
  qed
  with out show ?case by (subst serve_loop.simps) (auto split: sum.splits option.splits prod.splits)
qed

text \<open>Closing leaves a stream that is not connected and holds no descriptor.\<close>

lemma stream_close_closed:
  "stream_close ss w = Inr (ss1, w1) \<Longrightarrow> \<not> stream_isConnected ss1 \<and> (\<forall>s. m_socket ss1 = Some s \<longrightarrow> m_sock s = -1)"
  by (auto simp: stream_close_def stream_isConnected_def sock_close_def bindE_eq_Inr Let_def split: option.splits if_splits)

section \<open>Properties\<close>


definition example_surroundings :: "char link surroundings" where
  "example_surroundings = \<lparr>e_recv = link_recv, e_send = link_send, e_cast = decimal_cast, e_fnmatch = (=), e_max_size = 100,
     e_buff_size = 4096, e_memory = blank_memory\<rparr>"

lemma link_send_calm: "calm_send link_send arriving"
  by (simp add: calm_send_def link_send_def Let_def)

lemma default_dispatch_calm: "calm_servlets fnmatch mk_ServletDispatch pending"
  by (auto simp: calm_servlets_def dispatch_handle_def getMatchedServlet_def mk_ServletDispatch_def mk_NotFoundServlet_def NotFoundServlet_handle_def)

abbreviation connected_sock :: sock where
  "connected_sock \<equiv> (mk_Socket AF_INET TCP 0)\<lparr>m_sock := 5, m_isConnected := True\<rparr>"


section \<open>One request, one response\<close>

text \<open>A \<^verbatim>\<open>recv\<close> that leaves the output of the connection alone.\<close>

definition calm_recv :: "('b, 'k) recv_call \<Rightarrow> ('k \<Rightarrow> 'a) \<Rightarrow> bool" where
  "calm_recv recv view \<longleftrightarrow> (\<forall>fd n k. view (snd (snd (recv fd n k))) = view k)"

lemma read_loop_calm:
  assumes "\<And>n k. view (snd (snd (rd n k))) = view k"
  shows "view (snd (snd (readFixSize_loop rd left k))) = view k"
proof (induction "nat left" arbitrary: left k rule: less_induct)
  case less
  obtain len bs k1 where rd: "rd (nat left) k = (len, bs, k1)" by (metis surj_pair)
  then have "view k1 = view k" using assms [of "nat left" k] by simp
  then show ?case using less [of "left - len" k1] rd by (subst readFixSize_loop.simps) (auto split: prod.splits)
qed

lemma recv_loop_calm:
  assumes "\<And>n k. view (snd (snd (rd n k))) = view k" and "byte_source rd pending"
    and "recv_loop rd buff_size parser rest k = Some (Inr (got, k1))"
  shows "view k1 = view k"
  using assms(3)
proof (induction "length (pending k)" arbitrary: parser rest k rule: less_induct)
  case less
  obtain len bs k2 where rd: "rd (buff_size - length rest) k = (len, bs, k2)" by (metis surj_pair)
  note step = byte_source.read_next [OF assms(2) rd]
  have same: "view k2 = view k" using assms(1) [of "buff_size - length rest" k] rd by simp
  show ?case
  proof (cases "k1 = k2")
    case False
    then obtain parser1 rest1 where "recv_loop rd buff_size parser1 rest1 k2 = Some (Inr (got, k1))" "0 < len"
      using less.prems by (subst (asm) recv_loop.simps) (auto simp: rd split: if_splits sum.splits)
    with less.hyps [OF _ this(1)] step same show ?thesis by auto
  qed (use same in simp)
qed

lemma receive_calm:
  assumes "calm_recv recv view" and "recv_contract recv pending"
    and "recvRequest recv cast max_size buff_size memory ss w k = Some (Inr (got, ss1, w1, k1))"
  shows "view k1 = view k"
proof -
  have rd: "view (snd (snd (stream_read recv ss n k))) = view k" for n k
    using assms(1) by (auto simp: calm_recv_def stream_read_def sock_recv_def sock_io_def split: option.splits prod.splits) (metis snd_conv)+
  have body: "view k3 = view k2" if "recv_body (stream_read recv ss) max_size len rest k2 = Inr (b, k3)" for len rest b k2 k3
    using that read_loop_calm [where rd = "stream_read recv ss" and view = view, OF rd]
    by (auto simp: recv_body_def readFixSize_def Let_def split: if_splits prod.splits) (metis snd_conv)+
  have loop: "view k2 = view k"
    if "recv_loop (stream_read recv ss) buff_size (mk_HttpRequestParser memory) [] k = Some (Inr (x, k2))" for x k2
    by (rule recv_loop_calm [where rd = "stream_read recv ss" and view = view, OF rd stream_source [OF assms(2)] that])
  obtain x k2 where x: "recv_loop (stream_read recv ss) buff_size (mk_HttpRequestParser memory) [] k = Some (Inr (x, k2))"
      "k1 = k2 \<or> (\<exists>len rest b. recv_body (stream_read recv ss) max_size len rest k2 = Inr (b, k1))"
    using assms(3) by (auto simp: recvRequest_def Let_def bindE_eq_Inr split: option.splits sum.splits if_splits prod.splits)
  then show ?thesis using loop [OF x(1)] body by metis
qed

lemma sock_close_open:
  assumes "0 \<le> m_sock s"
  shows "\<exists>w1. sock_close s w = Inr (False, s\<lparr>m_isConnected := False, m_sock := -1\<rparr>, w1) \<and> closed w1 = closed w @ [m_sock s]"
proof -
  have "\<exists>b t. hooked_close (hook_on w) (iom_on w) (m_sock s) (fds w) = Inr (b, t)"
    using assms by (auto simp: hooked_close_def fd_get_lookup fd_del_def)
  with assms show ?thesis by (auto simp: sock_close_def Let_def)
qed

text \<open>
  A request is answered with the response of its servlet. If a printable request arrives with its head in one piece on a
  connected client socket, its path is matched by a servlet that computes the response from the request, and the server does not
  keep connections alive, then \<^verbatim>\<open>handleClient\<close> hands the servlet the request that was sent, sends exactly the printed
  response, made for the version of the request and naming the server, and closes the descriptor.
\<close>

lemma request_answered:
  assumes "sendable q" and "recv_contract (e_recv e) pending" and "recv_delivers (e_recv e) pending" and "calm_recv (e_recv e) sent"
    and "send_contract (e_send e) sent" and "send_accepts (e_send e)" and "cast_contract (e_cast e)"
    and "m_isConnected client" and "0 \<le> m_sock client" and "pending k = request_dump q"
    and "int (length (request_head q)) \<le> fst (stream_read (e_recv e) (mk_SocketStream (Some client) True) (e_buff_size e) k)"
    and "e_buff_size e < 2 ^ 31" and "length (m_body q) \<le> e_max_size e" and "length (m_body q) < 2 ^ 31"
    and "\<not> m_isKeepalive srv" and "getMatchedServlet (e_fnmatch e) (m_path q) (m_dispatch srv) = Some slt"
    and "\<And>req rsp ses. servlet_handle slt req rsp ses = (0, req, f req rsp, ses)"
    and "\<And>req. same_request req q \<Longrightarrow>
        length (response_dump (f req (rsp_setHeader ''Server'' (t_name (h_tcp srv)) (mk_HttpResponse (m_version q) True)))) < 2 ^ 31"
  shows "\<exists>req ss w1 k1. handleClient e srv client w k = Some (Inr (ss, w1, k1)) \<and> same_request req q
     \<and> sent k1 = sent k @ response_dump (f req (rsp_setHeader ''Server'' (t_name (h_tcp srv)) (mk_HttpResponse (m_version q) True)))
     \<and> closed w1 = closed w @ [m_sock client]"
proof -
  let ?ss = "mk_SocketStream (Some client) True"
  have conn: "stream_isConnected ?ss" using assms(8) by (simp add: stream_isConnected_def mk_SocketStream_def)
  obtain req k1 where got: "receive e (?ss, w, k) = Some (Inr (Some req, ?ss, w, k1))" and same: "same_request req q"
    using receive_printed [OF assms(1-3) conn assms(7,10-14), of "e_memory e" w] by auto
  have "sent k1 = sent k" using receive_calm [OF assms(4,2)] got by auto
  moreover have req: "m_path req = m_path q" "m_version req = m_version q" using same by (simp_all add: same_request_def)
  let ?rsp = "f req (rsp_setHeader ''Server'' (t_name (h_tcp srv)) (mk_HttpResponse (m_version q) True))"
  obtain k2 where send: "sendResponse (e_send e) ?rsp ?ss k1 = (int (length (response_dump ?rsp)), k2)" "sent k2 = sent k1 @ response_dump ?rsp"
    using live_sink.fixed_accepts [OF stream_live_sink [OF assms(5,6) conn] assms(18) [OF same]] unfolding sendResponse_def by blast
  have "answer e srv req (?ss, w, k1) = (False, ?ss, w, k2)"
    using assms(15-17) req send(1) by (simp add: answer_def dispatch_handle_def Let_def)
  then have loop: "serve_loop e srv (?ss, w, k) = Some (Inr (?ss, w, k2))"
    using got by (subst serve_loop.simps) simp
  obtain w1 where close: "sock_close client w = Inr (False, client\<lparr>m_isConnected := False, m_sock := -1\<rparr>, w1)"
      "closed w1 = closed w @ [m_sock client]"
    using sock_close_open [OF assms(9)] by blast
  then have "handleClient e srv client w k = Some (Inr (?ss\<lparr>m_socket := Some (client\<lparr>m_isConnected := False, m_sock := -1\<rparr>)\<rparr>, w1, k2))"
    using loop by (simp add: handleClient_def stream_close_def mk_SocketStream_def)
  ultimately show ?thesis using same send(2) close(2) by auto
qed

definition ok_response :: "HttpRequest \<Rightarrow> HttpResponse \<Rightarrow> HttpResponse" where
  "ok_response req rsp = rsp\<lparr>r_body := ''ok''\<rparr>"

definition example_server :: "char link http_server" where
  "example_server = setServletDispatch (addServlet_cb ''/a'' (\<lambda>req rsp ses. (0, req, ok_response req rsp, ses)) mk_ServletDispatch)
     (mk_HttpServer False 0)"

lemma link_recv_calm: "calm_recv link_recv outgoing"
  by (auto simp: calm_recv_def link_recv_def Let_def split: list.splits)

end
