(* ===== verification/Client_Table.thy ===== *)
theory Client_Table
  imports Ragel_Machine
begin

text \<open>
  The state machine of the response parser, \<^verbatim>\<open>dwframe/http/httpclient_parser.rl.cc\<close>, in the form of \<open>Http11_Table\<close>: for every
  \<^verbatim>\<open>case n\<close> the tests in the order of the code as intervals with the label they jump to and the label of the final
  \<^verbatim>\<open>goto\<close> (this machine has no condition), and for every \<^verbatim>\<open>tr\<close> label the actions in order and the state that follows.
\<close>

datatype client_action = C_mark | C_start_field | C_write_field | C_write_value | C_content_len | C_close | C_chunked
  | C_chunk_size | C_reason | C_status | C_version | C_done

definition client_rows_1 :: "state_row list" where
  "client_rows_1 = [
    (1, False, [(72, 72, Tr 2), (48, 57, Tr 0), (97, 102, Tr 0), (65, 70, Tr 0)], St 0),
    (2, False, [(10, 10, Tr 3), (13, 13, Tr 4), (59, 59, Tr 6), (48, 57, St 2), (97, 102, St 2), (65, 70, St 2)], St 0),
    (120, False, [], St 0)]"

definition client_rows_2 :: "state_row list" where
  "client_rows_2 = [
    (3, False, [(10, 10, Tr 7)], St 0),
    (4, False, [(33, 33, Tr 8), (124, 124, Tr 8), (126, 126, Tr 8), (42, 43, Tr 8), (35, 39, Tr 8),
      (48, 57, Tr 8), (94, 122, Tr 8), (65, 90, Tr 8), (45, 46, Tr 8)], St 0),
    (5, False, [(10, 10, Tr 9), (13, 13, Tr 10), (33, 33, St 5), (59, 59, Tr 12), (61, 61, Tr 13),
      (124, 124, St 5), (126, 126, St 5), (42, 43, St 5), (35, 39, St 5), (48, 57, St 5), (94, 122, St 5),
      (65, 90, St 5), (45, 46, St 5)], St 0),
    (6, False, [(33, 33, Tr 14), (124, 124, Tr 14), (126, 126, Tr 14), (42, 43, Tr 14), (35, 39, Tr 14),
      (48, 57, Tr 14), (94, 122, Tr 14), (65, 90, Tr 14), (45, 46, Tr 14)], St 0)]"

definition client_rows_3 :: "state_row list" where
  "client_rows_3 = [
    (7, False, [(10, 10, Tr 15), (13, 13, Tr 16), (33, 33, St 7), (59, 59, Tr 18), (124, 124, St 7),
      (126, 126, St 7), (42, 43, St 7), (35, 39, St 7), (48, 57, St 7), (94, 122, St 7), (65, 90, St 7),
      (45, 46, St 7)], St 0),
    (8, False, [(84, 84, St 9)], St 0),
    (9, False, [(84, 84, St 10)], St 0),
    (10, False, [(80, 80, St 11)], St 0),
    (11, False, [(47, 47, St 12)], St 0),
    (12, False, [(48, 57, St 13)], St 0),
    (13, False, [(46, 46, St 14), (48, 57, St 13)], St 0),
    (14, False, [(48, 57, St 15)], St 0),
    (15, False, [(32, 32, Tr 26), (48, 57, St 15)], St 0),
    (16, False, [(48, 57, Tr 27)], St 0),
    (17, False, [(32, 32, Tr 28), (48, 57, St 17)], St 0),
    (18, False, [(10, 10, St 0)], Tr 30)]"

definition client_rows_4 :: "state_row list" where
  "client_rows_4 = [
    (19, False, [(10, 10, Tr 32), (13, 13, Tr 33)], St 19),
    (20, False, [(10, 10, Tr 7), (13, 13, St 3), (33, 33, Tr 35), (67, 67, Tr 36), (84, 84, Tr 37),
      (99, 99, Tr 36), (116, 116, Tr 37), (124, 124, Tr 35), (126, 126, Tr 35), (42, 43, Tr 35),
      (35, 39, Tr 35), (48, 57, Tr 35), (94, 122, Tr 35), (65, 90, Tr 35), (45, 46, Tr 35)], St 0),
    (21, False, [(33, 33, St 21), (58, 58, Tr 39), (124, 124, St 21), (126, 126, St 21), (42, 43, St 21),
      (35, 39, St 21), (48, 57, St 21), (94, 122, St 21), (65, 90, St 21), (45, 46, St 21)], St 0)]"

definition client_rows_5 :: "state_row list" where
  "client_rows_5 = [
    (22, False, [(10, 10, Tr 42), (13, 13, Tr 43), (32, 32, Tr 41), (9, 12, Tr 41)], Tr 40),
    (23, False, [(10, 10, Tr 45), (13, 13, Tr 46)], St 23),
    (24, False, [(10, 10, St 20)], St 0),
    (25, False, [(33, 33, St 21), (58, 58, Tr 39), (79, 79, St 26), (111, 111, St 26), (124, 124, St 21),
      (126, 126, St 21), (42, 43, St 21), (35, 39, St 21), (48, 57, St 21), (94, 122, St 21), (65, 90, St 21),
      (45, 46, St 21)], St 0),
    (26, False, [(33, 33, St 21), (58, 58, Tr 39), (78, 78, St 27), (110, 110, St 27), (124, 124, St 21),
      (126, 126, St 21), (42, 43, St 21), (35, 39, St 21), (48, 57, St 21), (94, 122, St 21), (65, 90, St 21),
      (45, 46, St 21)], St 0)]"

definition client_rows_6 :: "state_row list" where
  "client_rows_6 = [
    (27, False, [(33, 33, St 21), (58, 58, Tr 39), (78, 78, St 28), (84, 84, St 101), (110, 110, St 28),
      (116, 116, St 101), (124, 124, St 21), (126, 126, St 21), (42, 43, St 21), (35, 39, St 21),
      (48, 57, St 21), (94, 122, St 21), (65, 90, St 21), (45, 46, St 21)], St 0),
    (28, False, [(33, 33, St 21), (58, 58, Tr 39), (69, 69, St 29), (101, 101, St 29), (124, 124, St 21),
      (126, 126, St 21), (42, 43, St 21), (35, 39, St 21), (48, 57, St 21), (94, 122, St 21), (65, 90, St 21),
      (45, 46, St 21)], St 0),
    (29, False, [(33, 33, St 21), (58, 58, Tr 39), (67, 67, St 30), (99, 99, St 30), (124, 124, St 21),
      (126, 126, St 21), (42, 43, St 21), (35, 39, St 21), (48, 57, St 21), (94, 122, St 21), (65, 90, St 21),
      (45, 46, St 21)], St 0),
    (30, False, [(33, 33, St 21), (58, 58, Tr 39), (84, 84, St 31), (116, 116, St 31), (124, 124, St 21),
      (126, 126, St 21), (42, 43, St 21), (35, 39, St 21), (48, 57, St 21), (94, 122, St 21), (65, 90, St 21),
      (45, 46, St 21)], St 0),
    (31, False, [(33, 33, St 21), (58, 58, Tr 39), (73, 73, St 32), (105, 105, St 32), (124, 124, St 21),
      (126, 126, St 21), (42, 43, St 21), (35, 39, St 21), (48, 57, St 21), (94, 122, St 21), (65, 90, St 21),
      (45, 46, St 21)], St 0)]"

definition client_rows_7 :: "state_row list" where
  "client_rows_7 = [
    (32, False, [(33, 33, St 21), (58, 58, Tr 39), (79, 79, St 33), (111, 111, St 33), (124, 124, St 21),
      (126, 126, St 21), (42, 43, St 21), (35, 39, St 21), (48, 57, St 21), (94, 122, St 21), (65, 90, St 21),
      (45, 46, St 21)], St 0),
    (33, False, [(33, 33, St 21), (58, 58, Tr 39), (78, 78, St 34), (110, 110, St 34), (124, 124, St 21),
      (126, 126, St 21), (42, 43, St 21), (35, 39, St 21), (48, 57, St 21), (94, 122, St 21), (65, 90, St 21),
      (45, 46, St 21)], St 0),
    (34, False, [(33, 33, St 21), (58, 58, Tr 58), (124, 124, St 21), (126, 126, St 21), (42, 43, St 21),
      (35, 39, St 21), (48, 57, St 21), (94, 122, St 21), (65, 90, St 21), (45, 46, St 21)], St 0),
    (35, False, [(10, 10, Tr 60), (13, 13, Tr 61), (32, 32, Tr 59), (67, 67, Tr 62), (99, 99, Tr 62),
      (9, 12, Tr 59)], Tr 40)]"

definition client_rows_8 :: "state_row list" where
  "client_rows_8 = [
    (36, False, [(10, 10, Tr 64), (13, 13, St 89), (32, 32, St 37), (33, 33, Tr 35), (67, 67, Tr 66),
      (84, 84, Tr 37), (99, 99, Tr 66), (116, 116, Tr 37), (124, 124, Tr 35), (126, 126, Tr 35),
      (9, 12, St 37), (42, 43, Tr 35), (35, 39, Tr 35), (48, 57, Tr 35), (94, 122, Tr 35), (65, 90, Tr 35),
      (45, 46, Tr 35)], St 0),
    (37, False, [(32, 32, St 37), (67, 67, St 38), (99, 99, St 38), (9, 13, St 37)], St 0),
    (38, False, [(76, 76, St 39), (108, 108, St 39)], St 0),
    (39, False, [(79, 79, St 40), (111, 111, St 40)], St 0),
    (40, False, [(83, 83, St 41), (115, 115, St 41)], St 0),
    (41, False, [(69, 69, St 42), (101, 101, St 42)], St 0),
    (42, False, [(10, 10, St 43), (13, 13, St 88)], St 0),
    (43, False, [(10, 10, Tr 74), (13, 13, Tr 75), (33, 33, Tr 76), (67, 67, Tr 77), (84, 84, Tr 78),
      (99, 99, Tr 77), (116, 116, Tr 78), (124, 124, Tr 76), (126, 126, Tr 76), (42, 43, Tr 76),
      (35, 39, Tr 76), (48, 57, Tr 76), (94, 122, Tr 76), (65, 90, Tr 76), (45, 46, Tr 76)], St 0)]"

definition client_rows_9 :: "state_row list" where
  "client_rows_9 = [
    (44, False, [(33, 33, St 21), (58, 58, Tr 39), (82, 82, St 45), (114, 114, St 45), (124, 124, St 21),
      (126, 126, St 21), (42, 43, St 21), (35, 39, St 21), (48, 57, St 21), (94, 122, St 21), (65, 90, St 21),
      (45, 46, St 21)], St 0),
    (45, False, [(33, 33, St 21), (58, 58, Tr 39), (65, 65, St 46), (97, 97, St 46), (124, 124, St 21),
      (126, 126, St 21), (42, 43, St 21), (35, 39, St 21), (48, 57, St 21), (94, 122, St 21), (66, 90, St 21),
      (45, 46, St 21)], St 0),
    (46, False, [(33, 33, St 21), (58, 58, Tr 39), (78, 78, St 47), (110, 110, St 47), (124, 124, St 21),
      (126, 126, St 21), (42, 43, St 21), (35, 39, St 21), (48, 57, St 21), (94, 122, St 21), (65, 90, St 21),
      (45, 46, St 21)], St 0),
    (47, False, [(33, 33, St 21), (58, 58, Tr 39), (83, 83, St 48), (115, 115, St 48), (124, 124, St 21),
      (126, 126, St 21), (42, 43, St 21), (35, 39, St 21), (48, 57, St 21), (94, 122, St 21), (65, 90, St 21),
      (45, 46, St 21)], St 0),
    (48, False, [(33, 33, St 21), (58, 58, Tr 39), (70, 70, St 49), (102, 102, St 49), (124, 124, St 21),
      (126, 126, St 21), (42, 43, St 21), (35, 39, St 21), (48, 57, St 21), (94, 122, St 21), (65, 90, St 21),
      (45, 46, St 21)], St 0)]"

definition client_rows_10 :: "state_row list" where
  "client_rows_10 = [
    (49, False, [(33, 33, St 21), (58, 58, Tr 39), (69, 69, St 50), (101, 101, St 50), (124, 124, St 21),
      (126, 126, St 21), (42, 43, St 21), (35, 39, St 21), (48, 57, St 21), (94, 122, St 21), (65, 90, St 21),
      (45, 46, St 21)], St 0),
    (50, False, [(33, 33, St 21), (58, 58, Tr 39), (82, 82, St 51), (114, 114, St 51), (124, 124, St 21),
      (126, 126, St 21), (42, 43, St 21), (35, 39, St 21), (48, 57, St 21), (94, 122, St 21), (65, 90, St 21),
      (45, 46, St 21)], St 0),
    (51, False, [(33, 33, St 21), (45, 45, St 52), (46, 46, St 21), (58, 58, Tr 39), (124, 124, St 21),
      (126, 126, St 21), (42, 43, St 21), (35, 39, St 21), (94, 122, St 21), (65, 90, St 21), (48, 57, St 21)], St 0),
    (52, False, [(33, 33, St 21), (58, 58, Tr 39), (69, 69, St 53), (101, 101, St 53), (124, 124, St 21),
      (126, 126, St 21), (42, 43, St 21), (35, 39, St 21), (48, 57, St 21), (94, 122, St 21), (65, 90, St 21),
      (45, 46, St 21)], St 0),
    (53, False, [(33, 33, St 21), (58, 58, Tr 39), (78, 78, St 54), (110, 110, St 54), (124, 124, St 21),
      (126, 126, St 21), (42, 43, St 21), (35, 39, St 21), (48, 57, St 21), (94, 122, St 21), (65, 90, St 21),
      (45, 46, St 21)], St 0)]"

definition client_rows_11 :: "state_row list" where
  "client_rows_11 = [
    (54, False, [(33, 33, St 21), (58, 58, Tr 39), (67, 67, St 55), (99, 99, St 55), (124, 124, St 21),
      (126, 126, St 21), (42, 43, St 21), (35, 39, St 21), (48, 57, St 21), (94, 122, St 21), (65, 90, St 21),
      (45, 46, St 21)], St 0),
    (55, False, [(33, 33, St 21), (58, 58, Tr 39), (79, 79, St 56), (111, 111, St 56), (124, 124, St 21),
      (126, 126, St 21), (42, 43, St 21), (35, 39, St 21), (48, 57, St 21), (94, 122, St 21), (65, 90, St 21),
      (45, 46, St 21)], St 0),
    (56, False, [(33, 33, St 21), (58, 58, Tr 39), (68, 68, St 57), (100, 100, St 57), (124, 124, St 21),
      (126, 126, St 21), (42, 43, St 21), (35, 39, St 21), (48, 57, St 21), (94, 122, St 21), (65, 90, St 21),
      (45, 46, St 21)], St 0),
    (57, False, [(33, 33, St 21), (58, 58, Tr 39), (73, 73, St 58), (105, 105, St 58), (124, 124, St 21),
      (126, 126, St 21), (42, 43, St 21), (35, 39, St 21), (48, 57, St 21), (94, 122, St 21), (65, 90, St 21),
      (45, 46, St 21)], St 0),
    (58, False, [(33, 33, St 21), (58, 58, Tr 39), (78, 78, St 59), (110, 110, St 59), (124, 124, St 21),
      (126, 126, St 21), (42, 43, St 21), (35, 39, St 21), (48, 57, St 21), (94, 122, St 21), (65, 90, St 21),
      (45, 46, St 21)], St 0)]"

definition client_rows_12 :: "state_row list" where
  "client_rows_12 = [
    (59, False, [(33, 33, St 21), (58, 58, Tr 39), (71, 71, St 60), (103, 103, St 60), (124, 124, St 21),
      (126, 126, St 21), (42, 43, St 21), (35, 39, St 21), (48, 57, St 21), (94, 122, St 21), (65, 90, St 21),
      (45, 46, St 21)], St 0),
    (60, False, [(33, 33, St 21), (58, 58, Tr 95), (124, 124, St 21), (126, 126, St 21), (42, 43, St 21),
      (35, 39, St 21), (48, 57, St 21), (94, 122, St 21), (65, 90, St 21), (45, 46, St 21)], St 0),
    (61, False, [(10, 10, Tr 97), (13, 13, Tr 98), (32, 32, Tr 96), (67, 67, Tr 99), (99, 99, Tr 99),
      (9, 12, Tr 96)], Tr 40),
    (62, False, [(10, 10, Tr 101), (13, 13, St 72), (32, 32, St 63), (33, 33, Tr 35), (67, 67, Tr 103),
      (84, 84, Tr 37), (99, 99, Tr 103), (116, 116, Tr 37), (124, 124, Tr 35), (126, 126, Tr 35),
      (9, 12, St 63), (42, 43, Tr 35), (35, 39, Tr 35), (48, 57, Tr 35), (94, 122, Tr 35), (65, 90, Tr 35),
      (45, 46, Tr 35)], St 0),
    (63, False, [(32, 32, St 63), (67, 67, Tr 104), (99, 99, Tr 104), (9, 13, St 63)], St 0)]"

definition client_rows_13 :: "state_row list" where
  "client_rows_13 = [
    (64, False, [(72, 72, St 65), (104, 104, St 65)], St 0),
    (65, False, [(85, 85, St 66), (117, 117, St 66)], St 0),
    (66, False, [(78, 78, St 67), (110, 110, St 67)], St 0),
    (67, False, [(75, 75, St 68), (107, 107, St 68)], St 0),
    (68, False, [(69, 69, St 69), (101, 101, St 69)], St 0),
    (69, False, [(68, 68, St 70), (100, 100, St 70)], St 0),
    (70, False, [(10, 10, Tr 111), (13, 13, Tr 112)], St 0),
    (71, False, [(10, 10, Tr 113)], St 0),
    (121, False, [(32, 32, St 63), (67, 67, Tr 104), (99, 99, Tr 104), (9, 13, St 63)], St 0),
    (72, False, [(10, 10, Tr 101), (32, 32, St 63), (67, 67, Tr 104), (99, 99, Tr 104), (9, 13, St 63)], St 0)]"

definition client_rows_14 :: "state_row list" where
  "client_rows_14 = [
    (73, False, [(33, 33, St 21), (58, 58, Tr 39), (72, 72, St 74), (79, 79, St 26), (104, 104, St 74),
      (111, 111, St 26), (124, 124, St 21), (126, 126, St 21), (42, 43, St 21), (35, 39, St 21),
      (48, 57, St 21), (94, 122, St 21), (65, 90, St 21), (45, 46, St 21)], St 0),
    (74, False, [(33, 33, St 21), (58, 58, Tr 39), (85, 85, St 75), (117, 117, St 75), (124, 124, St 21),
      (126, 126, St 21), (42, 43, St 21), (35, 39, St 21), (48, 57, St 21), (94, 122, St 21), (65, 90, St 21),
      (45, 46, St 21)], St 0),
    (75, False, [(33, 33, St 21), (58, 58, Tr 39), (78, 78, St 76), (110, 110, St 76), (124, 124, St 21),
      (126, 126, St 21), (42, 43, St 21), (35, 39, St 21), (48, 57, St 21), (94, 122, St 21), (65, 90, St 21),
      (45, 46, St 21)], St 0),
    (76, False, [(33, 33, St 21), (58, 58, Tr 39), (75, 75, St 77), (107, 107, St 77), (124, 124, St 21),
      (126, 126, St 21), (42, 43, St 21), (35, 39, St 21), (48, 57, St 21), (94, 122, St 21), (65, 90, St 21),
      (45, 46, St 21)], St 0),
    (77, False, [(33, 33, St 21), (58, 58, Tr 39), (69, 69, St 78), (101, 101, St 78), (124, 124, St 21),
      (126, 126, St 21), (42, 43, St 21), (35, 39, St 21), (48, 57, St 21), (94, 122, St 21), (65, 90, St 21),
      (45, 46, St 21)], St 0)]"

definition client_rows_15 :: "state_row list" where
  "client_rows_15 = [
    (78, False, [(33, 33, St 21), (58, 58, Tr 39), (68, 68, St 79), (100, 100, St 79), (124, 124, St 21),
      (126, 126, St 21), (42, 43, St 21), (35, 39, St 21), (48, 57, St 21), (94, 122, St 21), (65, 90, St 21),
      (45, 46, St 21)], St 0),
    (79, False, [(10, 10, Tr 111), (13, 13, Tr 112), (33, 33, St 21), (58, 58, Tr 39), (124, 124, St 21),
      (126, 126, St 21), (42, 43, St 21), (35, 39, St 21), (48, 57, St 21), (94, 122, St 21), (65, 90, St 21),
      (45, 46, St 21)], St 0),
    (80, False, [(10, 10, St 62), (32, 32, St 63), (67, 67, Tr 104), (99, 99, Tr 104), (9, 13, St 63)], St 0),
    (81, False, [(10, 10, Tr 45), (13, 13, Tr 46), (72, 72, St 82), (104, 104, St 82)], St 23),
    (82, False, [(10, 10, Tr 45), (13, 13, Tr 46), (85, 85, St 83), (117, 117, St 83)], St 23),
    (83, False, [(10, 10, Tr 45), (13, 13, Tr 46), (78, 78, St 84), (110, 110, St 84)], St 23),
    (84, False, [(10, 10, Tr 45), (13, 13, Tr 46), (75, 75, St 85), (107, 107, St 85)], St 23),
    (85, False, [(10, 10, Tr 45), (13, 13, Tr 46), (69, 69, St 86), (101, 101, St 86)], St 23)]"

definition client_rows_16 :: "state_row list" where
  "client_rows_16 = [
    (86, False, [(10, 10, Tr 45), (13, 13, Tr 46), (68, 68, St 87), (100, 100, St 87)], St 23),
    (87, False, [(10, 10, Tr 111), (13, 13, Tr 112)], St 23),
    (88, False, [(10, 10, St 43)], St 0),
    (122, False, [(32, 32, St 37), (67, 67, St 38), (99, 99, St 38), (9, 13, St 37)], St 0),
    (89, False, [(10, 10, Tr 64), (32, 32, St 37), (67, 67, St 38), (99, 99, St 38), (9, 13, St 37)], St 0),
    (90, False, [(33, 33, St 21), (58, 58, Tr 39), (76, 76, St 91), (79, 79, St 26), (108, 108, St 91),
      (111, 111, St 26), (124, 124, St 21), (126, 126, St 21), (42, 43, St 21), (35, 39, St 21),
      (48, 57, St 21), (94, 122, St 21), (65, 90, St 21), (45, 46, St 21)], St 0),
    (91, False, [(33, 33, St 21), (58, 58, Tr 39), (79, 79, St 92), (111, 111, St 92), (124, 124, St 21),
      (126, 126, St 21), (42, 43, St 21), (35, 39, St 21), (48, 57, St 21), (94, 122, St 21), (65, 90, St 21),
      (45, 46, St 21)], St 0)]"

definition client_rows_17 :: "state_row list" where
  "client_rows_17 = [
    (92, False, [(33, 33, St 21), (58, 58, Tr 39), (83, 83, St 93), (115, 115, St 93), (124, 124, St 21),
      (126, 126, St 21), (42, 43, St 21), (35, 39, St 21), (48, 57, St 21), (94, 122, St 21), (65, 90, St 21),
      (45, 46, St 21)], St 0),
    (93, False, [(33, 33, St 21), (58, 58, Tr 39), (69, 69, St 94), (101, 101, St 94), (124, 124, St 21),
      (126, 126, St 21), (42, 43, St 21), (35, 39, St 21), (48, 57, St 21), (94, 122, St 21), (65, 90, St 21),
      (45, 46, St 21)], St 0),
    (94, False, [(10, 10, St 43), (13, 13, St 88), (33, 33, St 21), (58, 58, Tr 39), (124, 124, St 21),
      (126, 126, St 21), (42, 43, St 21), (35, 39, St 21), (48, 57, St 21), (94, 122, St 21), (65, 90, St 21),
      (45, 46, St 21)], St 0),
    (95, False, [(10, 10, St 36), (32, 32, St 37), (67, 67, St 38), (99, 99, St 38), (9, 13, St 37)], St 0),
    (96, False, [(10, 10, Tr 45), (13, 13, Tr 46), (76, 76, St 97), (108, 108, St 97)], St 23),
    (97, False, [(10, 10, Tr 45), (13, 13, Tr 46), (79, 79, St 98), (111, 111, St 98)], St 23),
    (98, False, [(10, 10, Tr 45), (13, 13, Tr 46), (83, 83, St 99), (115, 115, St 99)], St 23)]"

definition client_rows_18 :: "state_row list" where
  "client_rows_18 = [
    (99, False, [(10, 10, Tr 45), (13, 13, Tr 46), (69, 69, St 100), (101, 101, St 100)], St 23),
    (100, False, [(10, 10, Tr 136), (13, 13, Tr 137)], St 23),
    (101, False, [(33, 33, St 21), (58, 58, Tr 39), (69, 69, St 102), (101, 101, St 102), (124, 124, St 21),
      (126, 126, St 21), (42, 43, St 21), (35, 39, St 21), (48, 57, St 21), (94, 122, St 21), (65, 90, St 21),
      (45, 46, St 21)], St 0),
    (102, False, [(33, 33, St 21), (58, 58, Tr 39), (78, 78, St 103), (110, 110, St 103), (124, 124, St 21),
      (126, 126, St 21), (42, 43, St 21), (35, 39, St 21), (48, 57, St 21), (94, 122, St 21), (65, 90, St 21),
      (45, 46, St 21)], St 0),
    (103, False, [(33, 33, St 21), (58, 58, Tr 39), (84, 84, St 104), (116, 116, St 104), (124, 124, St 21),
      (126, 126, St 21), (42, 43, St 21), (35, 39, St 21), (48, 57, St 21), (94, 122, St 21), (65, 90, St 21),
      (45, 46, St 21)], St 0),
    (104, False, [(33, 33, St 21), (45, 45, St 105), (46, 46, St 21), (58, 58, Tr 39), (124, 124, St 21),
      (126, 126, St 21), (42, 43, St 21), (35, 39, St 21), (94, 122, St 21), (65, 90, St 21), (48, 57, St 21)], St 0)]"

definition client_rows_19 :: "state_row list" where
  "client_rows_19 = [
    (105, False, [(33, 33, St 21), (58, 58, Tr 39), (76, 76, St 106), (108, 108, St 106), (124, 124, St 21),
      (126, 126, St 21), (42, 43, St 21), (35, 39, St 21), (48, 57, St 21), (94, 122, St 21), (65, 90, St 21),
      (45, 46, St 21)], St 0),
    (106, False, [(33, 33, St 21), (58, 58, Tr 39), (69, 69, St 107), (101, 101, St 107), (124, 124, St 21),
      (126, 126, St 21), (42, 43, St 21), (35, 39, St 21), (48, 57, St 21), (94, 122, St 21), (65, 90, St 21),
      (45, 46, St 21)], St 0),
    (107, False, [(33, 33, St 21), (58, 58, Tr 39), (78, 78, St 108), (110, 110, St 108), (124, 124, St 21),
      (126, 126, St 21), (42, 43, St 21), (35, 39, St 21), (48, 57, St 21), (94, 122, St 21), (65, 90, St 21),
      (45, 46, St 21)], St 0),
    (108, False, [(33, 33, St 21), (58, 58, Tr 39), (71, 71, St 109), (103, 103, St 109), (124, 124, St 21),
      (126, 126, St 21), (42, 43, St 21), (35, 39, St 21), (48, 57, St 21), (94, 122, St 21), (65, 90, St 21),
      (45, 46, St 21)], St 0),
    (109, False, [(33, 33, St 21), (58, 58, Tr 39), (84, 84, St 110), (116, 116, St 110), (124, 124, St 21),
      (126, 126, St 21), (42, 43, St 21), (35, 39, St 21), (48, 57, St 21), (94, 122, St 21), (65, 90, St 21),
      (45, 46, St 21)], St 0)]"

definition client_rows_20 :: "state_row list" where
  "client_rows_20 = [
    (110, False, [(33, 33, St 21), (58, 58, Tr 39), (72, 72, St 111), (104, 104, St 111), (124, 124, St 21),
      (126, 126, St 21), (42, 43, St 21), (35, 39, St 21), (48, 57, St 21), (94, 122, St 21), (65, 90, St 21),
      (45, 46, St 21)], St 0),
    (111, False, [(33, 33, St 21), (58, 58, Tr 148), (124, 124, St 21), (126, 126, St 21), (42, 43, St 21),
      (35, 39, St 21), (48, 57, St 21), (94, 122, St 21), (65, 90, St 21), (45, 46, St 21)], St 0),
    (112, False, [(10, 10, Tr 150), (13, 13, Tr 151), (32, 32, Tr 149), (48, 57, Tr 152), (9, 12, Tr 149)], Tr 40),
    (113, False, [(10, 10, Tr 154), (13, 13, St 116), (32, 32, St 114), (33, 33, Tr 35), (67, 67, Tr 36),
      (84, 84, Tr 37), (99, 99, Tr 36), (116, 116, Tr 37), (124, 124, Tr 35), (126, 126, Tr 35),
      (9, 12, St 114), (42, 43, Tr 35), (35, 39, Tr 35), (48, 57, Tr 156), (94, 122, Tr 35), (65, 90, Tr 35),
      (45, 46, Tr 35)], St 0),
    (114, False, [(32, 32, St 114), (48, 57, Tr 157), (9, 13, St 114)], St 0)]"

definition client_rows_21 :: "state_row list" where
  "client_rows_21 = [
    (115, False, [(10, 10, Tr 158), (13, 13, Tr 159), (48, 57, St 115)], St 0),
    (123, False, [(32, 32, St 114), (48, 57, Tr 157), (9, 13, St 114)], St 0),
    (116, False, [(10, 10, Tr 154), (32, 32, St 114), (48, 57, Tr 157), (9, 13, St 114)], St 0),
    (117, False, [(10, 10, Tr 158), (13, 13, Tr 159), (33, 33, St 21), (58, 58, Tr 39), (124, 124, St 21),
      (126, 126, St 21), (42, 43, St 21), (35, 39, St 21), (48, 57, St 117), (94, 122, St 21), (65, 90, St 21),
      (45, 46, St 21)], St 0),
    (118, False, [(10, 10, St 113), (32, 32, St 114), (48, 57, Tr 157), (9, 13, St 114)], St 0),
    (119, False, [(10, 10, Tr 158), (13, 13, Tr 159), (48, 57, St 119)], St 23)]"

definition client_rows :: "state_row list" where
  "client_rows = concat [client_rows_1, client_rows_2, client_rows_3, client_rows_4, client_rows_5, client_rows_6, client_rows_7, client_rows_8, client_rows_9, client_rows_10, client_rows_11, client_rows_12, client_rows_13, client_rows_14, client_rows_15, client_rows_16, client_rows_17, client_rows_18, client_rows_19, client_rows_20, client_rows_21]"

definition client_tr :: "(nat \<times> client_action list \<times> nat) list" where
  "client_tr = [
    (0, [C_mark], 2),
    (2, [C_mark], 8),
    (3, [C_chunk_size, C_done], 120),
    (4, [C_chunk_size], 3),
    (6, [C_chunk_size], 4),
    (7, [C_done], 120),
    (8, [C_start_field], 5),
    (9, [C_write_field, C_mark, C_write_value, C_done], 120),
    (10, [C_write_field, C_mark, C_write_value], 3),
    (12, [C_write_field, C_mark, C_write_value], 4),
    (13, [C_write_field, C_mark], 6),
    (14, [C_mark], 7),
    (15, [C_write_value, C_done], 120),
    (16, [C_write_value], 3),
    (18, [C_write_value], 4),
    (26, [C_version], 16),
    (27, [C_mark], 17),
    (28, [C_status], 18),
    (30, [C_mark], 19),
    (32, [C_reason], 20),
    (33, [C_reason], 24),
    (35, [C_start_field], 21),
    (36, [C_start_field], 25),
    (37, [C_start_field], 44),
    (39, [C_write_field], 22),
    (40, [C_mark], 23),
    (41, [C_mark], 22),
    (42, [C_mark, C_write_value], 20),
    (43, [C_mark, C_write_value], 24),
    (45, [C_write_value], 20),
    (46, [C_write_value], 24),
    (58, [C_write_field], 35),
    (59, [C_mark], 35),
    (60, [C_mark, C_write_value], 36),
    (61, [C_mark, C_write_value], 95),
    (62, [C_mark], 96),
    (64, [C_done], 122),
    (66, [C_start_field], 90),
    (74, [C_close, C_done], 120),
    (75, [C_close], 3),
    (76, [C_close, C_start_field], 21),
    (77, [C_close, C_start_field], 25),
    (78, [C_close, C_start_field], 44),
    (95, [C_write_field], 61),
    (96, [C_mark], 61),
    (97, [C_mark, C_write_value], 62),
    (98, [C_mark, C_write_value], 80),
    (99, [C_mark], 81),
    (101, [C_done], 121),
    (103, [C_mark, C_start_field], 73),
    (104, [C_mark], 64),
    (111, [C_write_value, C_chunked], 20),
    (112, [C_write_value], 71),
    (113, [C_chunked], 20),
    (136, [C_write_value], 43),
    (137, [C_write_value], 88),
    (148, [C_write_field], 112),
    (149, [C_mark], 112),
    (150, [C_mark, C_write_value], 113),
    (151, [C_mark, C_write_value], 118),
    (152, [C_mark], 119),
    (154, [C_done], 123),
    (156, [C_mark, C_start_field], 117),
    (157, [C_mark], 115),
    (158, [C_content_len, C_write_value], 20),
    (159, [C_content_len, C_write_value], 24)]"

end
