(* ===== verification/Client_Parsers.thy ===== *)
theory Client_Parsers
  imports Client_Table Http_Parsers
begin

text \<open>
  The response parser: \<^verbatim>\<open>httpclient_parser_execute\<close> and its companions of \<^verbatim>\<open>dwframe/http/httpclient_parser.rl.cc\<close> over the
  table of \<open>Client_Table\<close>, and the callbacks and \<^verbatim>\<open>HttpResponseParser\<close> of \<^verbatim>\<open>dwframe/http/http_parser.cc\<close>. As in the request
  parser a callback gets the text from a pointer to the end of the buffer and a length. The three callbacks
  \<^verbatim>\<open>on_response_chunk\<close>, \<^verbatim>\<open>on_response_last_chunk\<close> and \<^verbatim>\<open>on_response_header_done\<close> have empty bodies.
\<close>

section \<open>State\<close>

record httpclient_parser =
  c_cs :: nat
  c_body_start :: nat
  c_content_len :: int
  c_status :: int
  c_chunked :: bool
  c_chunks_done :: bool
  c_close :: bool
  c_nread :: nat
  c_mark :: nat
  c_field_start :: nat
  c_field_len :: nat

record response_parser =
  rp_parser :: httpclient_parser
  rp_data :: HttpResponse
  rp_error :: nat

text \<open>The initialiser does not touch the status.\<close>

definition httpclient_parser_init :: "httpclient_parser \<Rightarrow> httpclient_parser" where
  "httpclient_parser_init h = h\<lparr>c_cs := 1, c_body_start := 0, c_content_len := -1, c_chunked := False,
     c_chunks_done := False, c_mark := 0, c_nread := 0, c_field_len := 0, c_field_start := 0, c_close := False\<rparr>"

definition mk_HttpResponseParser :: "httpclient_parser \<Rightarrow> response_parser" where
  "mk_HttpResponseParser memory = \<lparr>rp_parser = httpclient_parser_init memory, rp_data = mk_HttpResponse 0x11 True,
     rp_error = 0\<rparr>"

section \<open>Numbers\<close>

text \<open>\<^verbatim>\<open>strtol\<close>: white space, a sign, \<^verbatim>\<open>0x\<close> for base sixteen, the digits, and the range of a 64 bit integer.\<close>

definition c_isspace :: "char \<Rightarrow> bool" where
  "c_isspace c \<longleftrightarrow> (let n = of_char c :: nat in 9 \<le> n \<and> n \<le> 13 \<or> n = 32)"

definition num_val :: "char \<Rightarrow> nat" where
  "num_val c = (let n = of_char c in if 48 \<le> n \<and> n \<le> 57 then n - 48 else if 97 \<le> n \<and> n \<le> 122 then n - 87
     else if 65 \<le> n \<and> n \<le> 90 then n - 55 else 36)"

definition digits_value :: "nat \<Rightarrow> string \<Rightarrow> nat" where
  "digits_value base ds = foldl (\<lambda>a c. a * base + num_val c) 0 ds"

definition skip_0x :: "nat \<Rightarrow> string \<Rightarrow> string" where
  "skip_0x base s = (case s of a # b # c # t \<Rightarrow>
     if base = 16 \<and> a = CHR ''0'' \<and> (b = CHR ''x'' \<or> b = CHR ''X'') \<and> num_val c < 16 then c # t else s | _ \<Rightarrow> s)"

definition strtol :: "nat \<Rightarrow> string \<Rightarrow> int" where
  "strtol base s = (let t = dropWhile c_isspace s;
     (neg, u) = (case t of c # r \<Rightarrow> if c = CHR ''-'' then (True, r) else if c = CHR ''+'' then (False, r) else (False, t)
       | [] \<Rightarrow> (False, t));
     v = int (digits_value base (takeWhile (\<lambda>c. num_val c < base) (skip_0x base u))) in
     if neg then max (- (2 ^ 63)) (- v) else min (2 ^ 63 - 1) v)"

text \<open>The conversion to \<^verbatim>\<open>int\<close>, of \<^verbatim>\<open>atoi\<close> as of the assignment.\<close>

definition long_to_int :: "int \<Rightarrow> int" where
  "long_to_int v = sint (word_of_int v :: uint32)"

section \<open>Callbacks\<close>

definition on_response_reason :: "string \<Rightarrow> int \<Rightarrow> response_parser \<Rightarrow> response_parser result" where
  "on_response_reason at len s = bindE (text_of at len) (\<lambda>t. Inr (s\<lparr>rp_data := (rp_data s)\<lparr>r_reason := t\<rparr>\<rparr>))"

definition on_response_status :: "string \<Rightarrow> int \<Rightarrow> response_parser \<Rightarrow> response_parser result" where
  "on_response_status at len s = Inr (s\<lparr>rp_data := (rp_data s)\<lparr>r_status := long_to_int (strtol 10 at)\<rparr>\<rparr>)"

definition on_response_version :: "string \<Rightarrow> int \<Rightarrow> response_parser \<Rightarrow> response_parser result" where
  "on_response_version at len s =
     (if strncmp_eq at ''HTTP/1.1'' (nat len) then Inr (s\<lparr>rp_data := (rp_data s)\<lparr>r_version := 0x11\<rparr>\<rparr>)
      else if strncmp_eq at ''HTTP/1.0'' (nat len) then Inr (s\<lparr>rp_data := (rp_data s)\<lparr>r_version := 0x10\<rparr>\<rparr>)
      else bindE (text_of at len) (\<lambda>_. Inr (s\<lparr>rp_error := 1001\<rparr>)))"

definition on_response_http_field :: "string \<Rightarrow> nat \<Rightarrow> string \<Rightarrow> int \<Rightarrow> response_parser \<Rightarrow> response_parser result" where
  "on_response_http_field field flen val vlen s =
     (if flen = 0 then Inr s
      else bindE (text_of val vlen) (\<lambda>v. Inr (s\<lparr>rp_data := rsp_setHeader (take flen field) v (rp_data s)\<rparr>)))"

section \<open>Actions\<close>

abbreviation upd_client :: "(httpclient_parser \<Rightarrow> httpclient_parser) \<Rightarrow> response_parser \<Rightarrow> response_parser" where
  "upd_client f s \<equiv> s\<lparr>rp_parser := f (rp_parser s)\<rparr>"

fun client_do :: "string \<Rightarrow> nat \<Rightarrow> client_action \<Rightarrow> response_parser \<Rightarrow> response_parser result" where
  "client_do buffer p C_mark s = Inr (upd_client (\<lambda>h. h\<lparr>c_mark := p\<rparr>) s)"
| "client_do buffer p C_start_field s = Inr (upd_client (\<lambda>h. h\<lparr>c_field_start := p\<rparr>) s)"
| "client_do buffer p C_write_field s = Inr (upd_client (\<lambda>h. h\<lparr>c_field_len := p - c_field_start h\<rparr>) s)"
| "client_do buffer p C_write_value s = slice_from buffer (c_mark (rp_parser s)) p (\<lambda>at len.
     on_response_http_field (drop (c_field_start (rp_parser s)) buffer) (c_field_len (rp_parser s)) at len s)"
| "client_do buffer p C_content_len s = slice_from buffer (c_mark (rp_parser s)) p (\<lambda>at len.
     Inr (upd_client (\<lambda>h. h\<lparr>c_content_len := long_to_int (strtol 10 at)\<rparr>) s))"
| "client_do buffer p C_close s = Inr (upd_client (\<lambda>h. h\<lparr>c_close := True\<rparr>) s)"
| "client_do buffer p C_chunked s = Inr (upd_client (\<lambda>h. h\<lparr>c_chunked := True\<rparr>) s)"
| "client_do buffer p C_chunk_size s = slice_from buffer (c_mark (rp_parser s)) p (\<lambda>at len.
     let n = long_to_int (strtol 16 at) in
     Inr (upd_client (\<lambda>h. h\<lparr>c_chunked := True, c_content_len := n, c_chunks_done := n \<le> 0\<rparr>) s))"
| "client_do buffer p C_reason s = slice_from buffer (c_mark (rp_parser s)) p (\<lambda>at len. on_response_reason at len s)"
| "client_do buffer p C_status s = slice_from buffer (c_mark (rp_parser s)) p (\<lambda>at len.
     on_response_status at len (upd_client (\<lambda>h. h\<lparr>c_status := long_to_int (strtol 10 at)\<rparr>) s))"
| "client_do buffer p C_version s = slice_from buffer (c_mark (rp_parser s)) p (\<lambda>at len. on_response_version at len s)"
| "client_do buffer p C_done s = Inr (upd_client (\<lambda>h. h\<lparr>c_body_start := p + 1\<rparr>) s)"

fun client_dos :: "string \<Rightarrow> nat \<Rightarrow> client_action list \<Rightarrow> response_parser \<Rightarrow> response_parser result" where
  "client_dos buffer p [] s = Inr s"
| "client_dos buffer p (a # as) s = bindE (client_do buffer p a s) (client_dos buffer p as)"

section \<open>Execution\<close>

fun client_exec :: "string \<Rightarrow> nat \<Rightarrow> nat \<Rightarrow> string \<Rightarrow> response_parser \<Rightarrow> (nat \<times> nat \<times> response_parser) result" where
  "client_exec buffer cs p [] s = Inr (cs, p, s)"
| "client_exec buffer cs p (c # rest) s =
     (if cs = 0 then Inr (0, p, s)
      else case machine_dest client_rows False cs c of
        St n \<Rightarrow> if n = 0 then Inr (0, p, s) else client_exec buffer n (p + 1) rest s
      | Tr k \<Rightarrow> (case map_of client_tr k of
            None \<Rightarrow> Inl Logic_error
          | Some (as, n) \<Rightarrow> bindE (client_dos buffer p as s) (\<lambda>s.
              if C_done \<in> set as then Inr (n, p + 1, s) else client_exec buffer n (p + 1) rest s)))"

text \<open>
  The buffer is \<open>data\<close> with the character \<open>terminator\<close> behind it, which the code reads. The three \<^verbatim>\<open>check\<close>s make the function
  return \<open>-1\<close> where the assertions abort.
\<close>

definition client_end :: "nat \<Rightarrow> nat \<Rightarrow> nat \<Rightarrow> response_parser \<Rightarrow> (int \<times> response_parser) result" where
  "client_end len cs p s =
     (let s = upd_client (\<lambda>h. h\<lparr>c_cs := cs, c_nread := p\<rparr>) s; h = rp_parser s in
      if c_nread h \<le> len \<and> c_body_start h \<le> len
      then Inr (if c_mark h < len \<and> c_field_len h \<le> len \<and> c_field_start h < len then int (c_nread h) else -1, s)
      else Inl Assertion_failed)"

definition httpclient_parser_execute :: "char \<Rightarrow> string \<Rightarrow> response_parser \<Rightarrow> (int \<times> response_parser) result" where
  "httpclient_parser_execute terminator data s =
     (if terminator \<noteq> CHR 0x00 \<or> int (length data) \<noteq> long_to_int (int (length data)) then Inl Assertion_failed
      else let s = upd_client (\<lambda>h. h\<lparr>c_nread := 0, c_mark := 0, c_field_len := 0, c_field_start := 0\<rparr>) s in
        bindE (client_exec data (c_cs (rp_parser s)) 0 data s) (\<lambda>(cs, p, s). client_end (length data) cs p s))"

definition httpclient_parser_has_error :: "httpclient_parser \<Rightarrow> bool" where
  "httpclient_parser_has_error h \<longleftrightarrow> c_cs h = 0"

definition httpclient_parser_is_finished :: "httpclient_parser \<Rightarrow> bool" where
  "httpclient_parser_is_finished h \<longleftrightarrow> c_cs h = 120"

definition httpclient_parser_finish :: "httpclient_parser \<Rightarrow> int" where
  "httpclient_parser_finish h =
     (if httpclient_parser_has_error h then -1 else if httpclient_parser_is_finished h then 1 else 0)"

section \<open>HttpResponseParser\<close>

text \<open>
  \<^verbatim>\<open>execute\<close> moves the rest of the data to the front; the model returns the rest. A result of \<open>-1\<close> becomes the largest
  \<^verbatim>\<open>size_t\<close>: the data is then moved from the byte in front of the buffer.
\<close>

definition response_execute :: "char \<Rightarrow> string \<Rightarrow> bool \<Rightarrow> response_parser \<Rightarrow> (nat \<times> string \<times> response_parser) result" where
  "response_execute terminator data chunk s =
     (let s = (if chunk then upd_client httpclient_parser_init s else s) in
      bindE (httpclient_parser_execute terminator data s) (\<lambda>(n, s).
        if n < 0 then Inl Bad_index else Inr (nat n, drop (nat n) data, s)))"

definition response_isFinished :: "response_parser \<Rightarrow> int" where
  "response_isFinished s = httpclient_parser_finish (rp_parser s)"

definition response_hasError :: "response_parser \<Rightarrow> bool" where
  "response_hasError s \<longleftrightarrow> rp_error s \<noteq> 0 \<or> httpclient_parser_has_error (rp_parser s)"

definition response_getContentLength :: "(string \<Rightarrow> uint64 option) \<Rightarrow> response_parser \<Rightarrow> uint64" where
  "response_getContentLength cast s = getAs cast (r_headers (rp_data s)) ''content-length'' 0"

end
