(* ===== verification/Client_Check.thy ===== *)
theory Client_Check
  imports Client_Parsers Http11_Check
begin

text \<open>
  Checks over the whole table of the response machine. Every label a row jumps to exists; the states of a header line form
  classes (the start of a line, a name, the blanks behind the colon, a value, the line end) and every row of a class
  leads, on the characters of its class, with the actions of that part of the line to the class that follows. The checks
  run over intervals of characters and are sound for the machine's step.
\<close>

lemmas client_all_blocks = client_rows_def
  client_rows_1_def client_rows_2_def client_rows_3_def client_rows_4_def client_rows_5_def client_rows_6_def
  client_rows_7_def client_rows_8_def client_rows_9_def client_rows_10_def client_rows_11_def client_rows_12_def
  client_rows_13_def client_rows_14_def client_rows_15_def client_rows_16_def client_rows_17_def client_rows_18_def
  client_rows_19_def client_rows_20_def client_rows_21_def

section \<open>Rows over intervals\<close>

fun covers :: "(dest \<Rightarrow> bool) \<Rightarrow> row \<Rightarrow> dest \<Rightarrow> int \<Rightarrow> int \<Rightarrow> bool" where
  "covers P [] d lo hi = (if hi < lo then True else P d)"
| "covers P ((l, h, x) # row) d lo hi = (if hi < lo then True else if h < l \<or> h < lo \<or> hi < l then covers P row d lo hi
     else if P x then (if covers P row d lo (l - 1) then covers P row d (h + 1) hi else False) else False)"

lemma covers_sound: "covers P row d lo hi \<Longrightarrow> lo \<le> v \<Longrightarrow> v \<le> hi \<Longrightarrow> P (row_dest row d v)"
  by (induction P row d lo hi rule: covers.induct) (auto split: if_splits)

text \<open>What a label leads to: the actions of a transition and the state behind it.\<close>

definition goes :: "(client_action list \<Rightarrow> nat \<Rightarrow> bool) \<Rightarrow> dest \<Rightarrow> bool" where
  "goes Q x = (case x of St n \<Rightarrow> n \<noteq> 0 \<and> Q [] n
     | Tr k \<Rightarrow> (case map_of client_tr k of None \<Rightarrow> False | Some (as, n) \<Rightarrow> Q as n))"

section \<open>The classes of states\<close>

definition in_line :: "nat \<Rightarrow> bool" where
  "in_line n \<longleftrightarrow> n = 20 \<or> n = 43"

definition in_name :: "nat \<Rightarrow> bool" where
  "in_name n \<longleftrightarrow> n = 21 \<or> 25 \<le> n \<and> n \<le> 34 \<or> 44 \<le> n \<and> n \<le> 60 \<or> 101 \<le> n \<and> n \<le> 111"

definition in_blank :: "nat \<Rightarrow> bool" where
  "in_blank n \<longleftrightarrow> n = 22 \<or> n = 35 \<or> n = 61 \<or> n = 112"

definition in_value :: "nat \<Rightarrow> bool" where
  "in_value n \<longleftrightarrow> n = 23 \<or> 81 \<le> n \<and> n \<le> 87 \<or> 96 \<le> n \<and> n \<le> 100 \<or> n = 119"

definition in_end :: "nat \<Rightarrow> bool" where
  "in_end n \<longleftrightarrow> n = 24 \<or> n = 71 \<or> n = 88"

lemmas state_classes = in_line_def in_name_def in_blank_def in_value_def in_end_def

definition opens_name :: "client_action list \<Rightarrow> nat \<Rightarrow> bool" where
  "opens_name as n \<longleftrightarrow> in_name n \<and> (as = [C_start_field] \<or> as = [C_close, C_start_field])"

definition ends_head :: "client_action list \<Rightarrow> nat \<Rightarrow> bool" where
  "ends_head as n \<longleftrightarrow> n = 3 \<and> (as = [] \<or> as = [C_close])"

definition ends_value :: "client_action list \<Rightarrow> nat \<Rightarrow> bool" where
  "ends_value as n \<longleftrightarrow> in_end n \<and> (as = [C_write_value] \<or> as = [C_content_len, C_write_value])"

definition ends_line :: "client_action list \<Rightarrow> nat \<Rightarrow> bool" where
  "ends_line as n \<longleftrightarrow> in_line n \<and> (as = [] \<or> as = [C_chunked])"

definition token_ranges :: "(int \<times> int) list" where
  "token_ranges = [(33, 33), (35, 39), (42, 43), (45, 46), (48, 57), (65, 90), (94, 122), (124, 124), (126, 126)]"

definition text_ranges :: "(int \<times> int) list" where
  "text_ranges = [(- 128, 9), (11, 12), (14, 127)]"

definition start_ranges :: "(int \<times> int) list" where
  "start_ranges = [(- 128, 8), (14, 31), (33, 127)]"

fun covers_all :: "(dest \<Rightarrow> bool) \<Rightarrow> row \<Rightarrow> dest \<Rightarrow> (int \<times> int) list \<Rightarrow> bool" where
  "covers_all P row d [] = True"
| "covers_all P row d ((lo, hi) # rs) = (if covers P row d lo hi then covers_all P row d rs else False)"

lemma covers_all_sound:
  "covers_all P row d rs \<Longrightarrow> \<exists>(lo, hi) \<in> set rs. lo \<le> v \<and> v \<le> hi \<Longrightarrow> P (row_dest row d v)"
  by (induction P row d rs rule: covers_all.induct) (auto split: if_splits intro: covers_sound)

text \<open>A character of a value is any but the two of a line end; the first is no white space either.\<close>

definition text_char :: "char \<Rightarrow> bool" where
  "text_char c \<longleftrightarrow> signed_char c \<noteq> 10 \<and> signed_char c \<noteq> 13"

definition text_start :: "char \<Rightarrow> bool" where
  "text_start c \<longleftrightarrow> \<not> (9 \<le> signed_char c \<and> signed_char c \<le> 13) \<and> signed_char c \<noteq> 32"

text \<open>The characters of a class lie in its intervals.\<close>

lemma token_in_ranges: "name_char c \<Longrightarrow> \<exists>(lo, hi) \<in> set token_ranges. lo \<le> signed_char c \<and> signed_char c \<le> hi"
  unfolding name_char_def token_ranges_def Let_def by (elim disjE conjE) simp_all

lemma text_in_ranges: "text_char c \<Longrightarrow> \<exists>(lo, hi) \<in> set text_ranges. lo \<le> signed_char c \<and> signed_char c \<le> hi"
  using signed_char_bounds [of c] by (auto simp: text_char_def text_ranges_def)

lemma start_in_ranges: "text_start c \<Longrightarrow> \<exists>(lo, hi) \<in> set start_ranges. lo \<le> signed_char c \<and> signed_char c \<le> hi"
  using signed_char_bounds [of c] by (auto simp: text_start_def start_ranges_def)

lemma char_in_range: "\<exists>(lo, hi) \<in> set [(signed_char c, signed_char c)]. lo \<le> signed_char c \<and> signed_char c \<le> hi"
  by simp

text \<open>One check per class: the characters it covers and what they lead to.\<close>

definition line_checks :: "((nat \<Rightarrow> bool) \<times> (int \<times> int) list \<times> (client_action list \<Rightarrow> nat \<Rightarrow> bool)) list" where
  "line_checks = [
    (in_line, token_ranges, opens_name),
    (in_line, [(13, 13)], ends_head),
    (in_name, token_ranges, \<lambda>as m. as = [] \<and> in_name m),
    (in_name, [(58, 58)], \<lambda>as m. as = [C_write_field] \<and> in_blank m),
    (in_blank, [(32, 32)], \<lambda>as m. as = [C_mark] \<and> in_blank m),
    (in_blank, start_ranges, \<lambda>as m. as = [C_mark] \<and> in_value m),
    (in_value, text_ranges, \<lambda>as m. as = [] \<and> in_value m),
    (in_value, [(13, 13)], ends_value),
    (in_end, [(10, 10)], ends_line)]"

fun row_checked :: "((nat \<Rightarrow> bool) \<times> (int \<times> int) list \<times> (client_action list \<Rightarrow> nat \<Rightarrow> bool)) list \<Rightarrow> state_row \<Rightarrow> bool" where
  "row_checked [] r = True"
| "row_checked ((cl, rs, Q) # cs) (n, w, row, d) =
     (if cl n then (if covers_all (goes Q) row d rs then row_checked cs (n, w, row, d) else False)
      else row_checked cs (n, w, row, d))"

lemma goes_St [simp]: "goes Q (St n) \<longleftrightarrow> n \<noteq> 0 \<and> Q [] n"
  by (simp add: goes_def)

lemma goes_Tr [simp]: "goes Q (Tr k) \<longleftrightarrow> (case map_of client_tr k of None \<Rightarrow> False | Some (as, n) \<Rightarrow> Q as n)"
  by (simp add: goes_def)

lemma client_tr_lookup_1:
  "map_of client_tr 0 = Some ([C_mark], 2)"
  "map_of client_tr 2 = Some ([C_mark], 8)"
  "map_of client_tr 3 = Some ([C_chunk_size, C_done], 120)"
  "map_of client_tr 4 = Some ([C_chunk_size], 3)"
  "map_of client_tr 6 = Some ([C_chunk_size], 4)"
  "map_of client_tr 7 = Some ([C_done], 120)"
  "map_of client_tr 8 = Some ([C_start_field], 5)"
  "map_of client_tr 9 = Some ([C_write_field, C_mark, C_write_value, C_done], 120)"
  "map_of client_tr 10 = Some ([C_write_field, C_mark, C_write_value], 3)"
  "map_of client_tr 12 = Some ([C_write_field, C_mark, C_write_value], 4)"
  "map_of client_tr 13 = Some ([C_write_field, C_mark], 6)"
  "map_of client_tr 14 = Some ([C_mark], 7)"
  "map_of client_tr 15 = Some ([C_write_value, C_done], 120)"
  "map_of client_tr 16 = Some ([C_write_value], 3)"
  "map_of client_tr 18 = Some ([C_write_value], 4)"
  "map_of client_tr 26 = Some ([C_version], 16)"
  "map_of client_tr 27 = Some ([C_mark], 17)"
  "map_of client_tr 28 = Some ([C_status], 18)"
  "map_of client_tr 30 = Some ([C_mark], 19)"
  "map_of client_tr 32 = Some ([C_reason], 20)"
  "map_of client_tr 33 = Some ([C_reason], 24)"
  "map_of client_tr 35 = Some ([C_start_field], 21)"
  by (simp_all add: client_tr_def)

lemma client_tr_lookup_2:
  "map_of client_tr 36 = Some ([C_start_field], 25)"
  "map_of client_tr 37 = Some ([C_start_field], 44)"
  "map_of client_tr 39 = Some ([C_write_field], 22)"
  "map_of client_tr 40 = Some ([C_mark], 23)"
  "map_of client_tr 41 = Some ([C_mark], 22)"
  "map_of client_tr 42 = Some ([C_mark, C_write_value], 20)"
  "map_of client_tr 43 = Some ([C_mark, C_write_value], 24)"
  "map_of client_tr 45 = Some ([C_write_value], 20)"
  "map_of client_tr 46 = Some ([C_write_value], 24)"
  "map_of client_tr 58 = Some ([C_write_field], 35)"
  "map_of client_tr 59 = Some ([C_mark], 35)"
  "map_of client_tr 60 = Some ([C_mark, C_write_value], 36)"
  "map_of client_tr 61 = Some ([C_mark, C_write_value], 95)"
  "map_of client_tr 62 = Some ([C_mark], 96)"
  "map_of client_tr 64 = Some ([C_done], 122)"
  "map_of client_tr 66 = Some ([C_start_field], 90)"
  "map_of client_tr 74 = Some ([C_close, C_done], 120)"
  "map_of client_tr 75 = Some ([C_close], 3)"
  "map_of client_tr 76 = Some ([C_close, C_start_field], 21)"
  "map_of client_tr 77 = Some ([C_close, C_start_field], 25)"
  "map_of client_tr 78 = Some ([C_close, C_start_field], 44)"
  "map_of client_tr 95 = Some ([C_write_field], 61)"
  by (simp_all add: client_tr_def)

lemma client_tr_lookup_3:
  "map_of client_tr 96 = Some ([C_mark], 61)"
  "map_of client_tr 97 = Some ([C_mark, C_write_value], 62)"
  "map_of client_tr 98 = Some ([C_mark, C_write_value], 80)"
  "map_of client_tr 99 = Some ([C_mark], 81)"
  "map_of client_tr 101 = Some ([C_done], 121)"
  "map_of client_tr 103 = Some ([C_mark, C_start_field], 73)"
  "map_of client_tr 104 = Some ([C_mark], 64)"
  "map_of client_tr 111 = Some ([C_write_value, C_chunked], 20)"
  "map_of client_tr 112 = Some ([C_write_value], 71)"
  "map_of client_tr 113 = Some ([C_chunked], 20)"
  "map_of client_tr 136 = Some ([C_write_value], 43)"
  "map_of client_tr 137 = Some ([C_write_value], 88)"
  "map_of client_tr 148 = Some ([C_write_field], 112)"
  "map_of client_tr 149 = Some ([C_mark], 112)"
  "map_of client_tr 150 = Some ([C_mark, C_write_value], 113)"
  "map_of client_tr 151 = Some ([C_mark, C_write_value], 118)"
  "map_of client_tr 152 = Some ([C_mark], 119)"
  "map_of client_tr 154 = Some ([C_done], 123)"
  "map_of client_tr 156 = Some ([C_mark, C_start_field], 117)"
  "map_of client_tr 157 = Some ([C_mark], 115)"
  "map_of client_tr 158 = Some ([C_content_len, C_write_value], 20)"
  "map_of client_tr 159 = Some ([C_content_len, C_write_value], 24)"
  by (simp_all add: client_tr_def)

lemmas client_tr_lookup [simp] = client_tr_lookup_1 client_tr_lookup_2 client_tr_lookup_3

lemma client_rows_narrow: "list_all (\<lambda>(n, w, row, d). \<not> w) client_rows"
  by (simp add: client_all_blocks)

lemmas check_defs = line_checks_def token_ranges_def text_ranges_def start_ranges_def state_classes opens_name_def
  ends_head_def ends_value_def ends_line_def

lemma client_rows_checked_1: "list_all (row_checked line_checks) (concat [client_rows_1, client_rows_2, client_rows_3, client_rows_4, client_rows_5, client_rows_6])"
  by (simp add: client_rows_1_def client_rows_2_def client_rows_3_def client_rows_4_def client_rows_5_def client_rows_6_def check_defs)

lemma client_rows_checked_2: "list_all (row_checked line_checks) (concat [client_rows_7, client_rows_8, client_rows_9, client_rows_10, client_rows_11, client_rows_12, client_rows_13])"
  by (simp add: client_rows_7_def client_rows_8_def client_rows_9_def client_rows_10_def client_rows_11_def client_rows_12_def client_rows_13_def check_defs)

lemma client_rows_checked_3: "list_all (row_checked line_checks) (concat [client_rows_14, client_rows_15, client_rows_16, client_rows_17, client_rows_18, client_rows_19, client_rows_20, client_rows_21])"
  by (simp add: client_rows_14_def client_rows_15_def client_rows_16_def client_rows_17_def client_rows_18_def client_rows_19_def client_rows_20_def client_rows_21_def check_defs)

lemma client_rows_checked: "list_all (row_checked line_checks) client_rows"
  using client_rows_checked_1 client_rows_checked_2 client_rows_checked_3 unfolding client_rows_def by simp

section \<open>Steps from a class\<close>

text \<open>The rows of the states below 120 stand in ascending order.\<close>

fun next_state :: "state_row list \<Rightarrow> nat \<Rightarrow> nat" where
  "next_state [] k = k"
| "next_state (r # rs) k = next_state rs (if fst r = k then Suc k else k)"

lemma next_state_covers: "k \<le> n \<Longrightarrow> n < next_state rs k \<Longrightarrow> n \<in> fst ` set rs"
proof (induction rs arbitrary: k)
  case (Cons r rs)
  show ?case
  proof (cases "fst r = k")
    case True
    then show ?thesis using Cons.prems Cons.IH [of "Suc k"] by (cases "n = k") auto
  next
    case False
    then show ?thesis using Cons.prems Cons.IH [of k] by simp
  qed
qed simp

lemma client_has_rows: "next_state client_rows 1 = 120"
  by (simp add: client_all_blocks)

lemma client_row:
  assumes "0 < n" and "n < 120"
  obtains row d where "map_of client_rows n = Some (False, row, d)" "(n, False, row, d) \<in> set client_rows"
proof -
  have "n \<in> fst ` set client_rows" using next_state_covers [of 1 n client_rows] assms client_has_rows by simp
  then have "map_of client_rows n \<noteq> None" by (simp only: map_of_eq_None_iff simp_thms)
  then obtain x where "map_of client_rows n = Some x" unfolding not_None_eq by blast
  moreover obtain w row d where "x = (w, row, d)" by (cases x)
  ultimately have r: "map_of client_rows n = Some (w, row, d)" by simp
  then have "(n, w, row, d) \<in> set client_rows" by (rule map_of_SomeD)
  moreover from this have "\<not> w" using client_rows_narrow unfolding list_all_iff by fast
  ultimately show thesis using r that by simp
qed

lemma row_checked_member:
  "row_checked cs (n, w, row, d) \<Longrightarrow> (cl, rs, Q) \<in> set cs \<Longrightarrow> cl n \<Longrightarrow> covers_all (goes Q) row d rs"
  by (induction cs "(n, w, row, d)" rule: row_checked.induct) (auto split: if_splits)

lemma class_state: "in_line n \<or> in_name n \<or> in_blank n \<or> in_value n \<or> in_end n \<Longrightarrow> 0 < n \<and> n < 120"
  by (auto simp: state_classes)

lemma class_step:
  assumes "(cl, rs, Q) \<in> set line_checks" and "cl n"
    and "\<exists>(lo, hi) \<in> set rs. lo \<le> signed_char c \<and> signed_char c \<le> hi"
  shows "goes Q (machine_dest client_rows False n c)"
proof -
  have "in_line n \<or> in_name n \<or> in_blank n \<or> in_value n \<or> in_end n" using assms(1,2) by (auto simp: line_checks_def)
  then obtain row d where r: "map_of client_rows n = Some (False, row, d)" "(n, False, row, d) \<in> set client_rows"
    using client_row class_state by metis
  then have "row_checked line_checks (n, False, row, d)" using client_rows_checked unfolding list_all_iff by blast
  from covers_all_sound [OF row_checked_member [OF this assms(1,2)] assms(3)]
  show ?thesis using r by (simp add: machine_dest_def)
qed

lemma client_no_row_0: "map_of client_rows 0 = None"
  by (simp add: client_all_blocks)

lemma client_exec_goes:
  assumes "goes Q (machine_dest client_rows False cs c)"
  shows "\<exists>as n. Q as n \<and> client_exec buffer cs p (c # rest) s = bindE (client_dos buffer p as s) (\<lambda>s.
     if C_done \<in> set as then Inr (n, p + 1, s) else client_exec buffer n (p + 1) rest s)"
proof -
  have "cs \<noteq> 0"
  proof
    assume "cs = 0"
    then show False using assms by (simp add: machine_dest_def client_no_row_0)
  qed
  with assms show ?thesis
    by (cases "machine_dest client_rows False cs c") (force intro: exI [of _ "[]"], auto split: option.splits)
qed

section \<open>Every label\<close>

fun client_dest_ok :: "dest \<Rightarrow> bool" where
  "client_dest_ok (St m) = (m < 120)"
| "client_dest_ok (Tr k) = (map_of client_tr k \<noteq> None)"

lemma client_dests_ok:
  "list_all (\<lambda>(n, w, row, d). client_dest_ok d \<and> list_all (\<lambda>(lo, hi, x). client_dest_ok x) row) client_rows"
  by (simp add: client_all_blocks)

text \<open>The machine stops exactly in the final states.\<close>

lemma client_trs_ok: "list_all (\<lambda>(k, as, n). n \<noteq> 0 \<and> n < 124 \<and> (C_done \<in> set as \<longleftrightarrow> 120 \<le> n)) client_tr"
  by (simp add: client_tr_def)

lemma client_dest:
  "machine_dest client_rows False n c = St 0 \<or> client_dest_ok (machine_dest client_rows False n c)"
proof (cases "map_of client_rows n")
  case None
  then show ?thesis by (simp add: machine_dest_def)
next
  case (Some x)
  obtain w row d where x: "x = (w, row, d)" by (cases x)
  have "client_dest_ok d \<and> list_all (\<lambda>(lo, hi, x). client_dest_ok x) row"
    using client_dests_ok map_of_SomeD [OF Some] x unfolding list_all_iff by fast
  then have "client_dest_ok y" if "y \<in> insert d ((\<lambda>x. snd (snd x)) ` set row)" for y
    using that by (auto simp: list_all_iff)
  with row_dest_in [of row d] show ?thesis using Some x by (simp add: machine_dest_def)
qed

end
