(* ===== verification/Client_Props.thy ===== *)
theory Client_Props
  imports Client_Check Http_Parse_Props
begin

text \<open>
  What the response parser guarantees: it is safe on every input but the empty one, it reads back every response that the
  library prints, and it reads the size of a chunk.
\<close>

section \<open>Safety of a run\<close>

definition c_inside :: "nat \<Rightarrow> response_parser \<Rightarrow> bool" where
  "c_inside len s \<longleftrightarrow> c_mark (rp_parser s) < len \<and> c_field_start (rp_parser s) < len \<and> c_field_len (rp_parser s) \<le> len
     \<and> c_body_start (rp_parser s) \<le> len"

lemma client_do_safe:
  assumes "p < len" and "c_inside len s" and "c_mark (rp_parser s) \<le> p"
  shows "\<exists>t. client_do buffer p a s = Inr t \<and> c_inside len t \<and> c_mark (rp_parser t) \<le> p"
  using assms
  by (cases a)
    (auto simp: c_inside_def slice_from_def on_response_reason_def on_response_status_def on_response_version_def
      on_response_http_field_def Let_def text_of_def)

lemma client_dos_safe:
  assumes "p < len" and "c_inside len s" and "c_mark (rp_parser s) \<le> p"
  shows "\<exists>t. client_dos buffer p as s = Inr t \<and> c_inside len t \<and> c_mark (rp_parser t) \<le> p"
  using assms(2,3)
proof (induction as arbitrary: s)
  case (Cons a as)
  obtain t where "client_do buffer p a s = Inr t" "c_inside len t" "c_mark (rp_parser t) \<le> p"
    using client_do_safe [OF assms(1) Cons.prems, of buffer a] by blast
  with Cons.IH [of t] show ?case by simp
qed simp

lemma client_exec_safe:
  assumes "p + length rest = len" and "c_inside len s" and "c_mark (rp_parser s) \<le> p"
  shows "\<exists>n q t. client_exec buffer cs p rest s = Inr (n, q, t) \<and> c_inside len t \<and> q \<le> len
     \<and> (n = 0 \<or> 120 \<le> n \<and> n < 124 \<or> q = len)"
  using assms
proof (induction rest arbitrary: cs p s)
  case (Cons c rest)
  have p: "p < len" "p + 1 + length rest = len" using Cons.prems(1) by auto
  show ?case
  proof (cases "cs = 0 \<or> machine_dest client_rows False cs c = St 0")
    case True
    then show ?thesis using Cons.prems p by auto
  next
    case False
    then have ok: "client_dest_ok (machine_dest client_rows False cs c)" using client_dest by blast
    show ?thesis
    proof (cases "machine_dest client_rows False cs c")
      case (St m)
      with False Cons.IH [OF p(2) Cons.prems(2), of m] Cons.prems(3) show ?thesis by simp
    next
      case (Tr k)
      then obtain as m where tr: "map_of client_tr k = Some (as, m)" using ok by auto
      then have m: "m \<noteq> 0" "m < 124" "C_done \<in> set as \<longleftrightarrow> 120 \<le> m"
        using client_trs_ok map_of_SomeD [OF tr] unfolding list_all_iff by fast+
      obtain t where t: "client_dos buffer p as s = Inr t" "c_inside len t" "c_mark (rp_parser t) \<le> p"
        using client_dos_safe [OF p(1) Cons.prems(2,3)] by blast
      show ?thesis
        using False Tr tr t m p Cons.IH [OF p(2) t(2), of m] by (cases "C_done \<in> set as") auto
    qed
  qed
qed auto

declare client_exec.simps(2) [simp del]

lemma long_to_int_small: "- (2 ^ 31) \<le> v \<Longrightarrow> v < 2 ^ 31 \<Longrightarrow> long_to_int v = v"
  by (simp add: long_to_int_def sint_sbintrunc' signed_take_bit_int_eq_self)

definition c_restart :: "response_parser \<Rightarrow> response_parser" where
  "c_restart = upd_client (\<lambda>h. h\<lparr>c_nread := 0, c_mark := 0, c_field_len := 0, c_field_start := 0\<rparr>)"

lemma c_restart_inside: "data \<noteq> [] \<Longrightarrow> c_body_start (rp_parser s) \<le> length data \<Longrightarrow> c_inside (length data) (c_restart s)"
  by (simp add: c_inside_def c_restart_def)

text \<open>The outcome of a call from the outcome of its run.\<close>

lemma execute_run:
  assumes "client_exec data (c_cs (rp_parser s)) 0 data (c_restart s) = Inr (n, q, t)" and "data \<noteq> []"
    and "int (length data) < 2 ^ 31" and "c_body_start (rp_parser s) \<le> length data"
  shows "httpclient_parser_execute (CHR 0x00) data s = Inr (int q, upd_client (\<lambda>h. h\<lparr>c_cs := n, c_nread := q\<rparr>) t)
     \<and> q \<le> length data \<and> (n = 0 \<or> 120 \<le> n \<and> n < 124 \<or> q = length data)"
proof -
  have "c_mark (rp_parser (c_restart s)) \<le> 0" by (simp add: c_restart_def)
  from client_exec_safe [OF _ c_restart_inside [OF assms(2,4)] this, of data data "c_cs (rp_parser s)"] assms(1)
  have ok: "c_inside (length data) t" "q \<le> length data" "n = 0 \<or> 120 \<le> n \<and> n < 124 \<or> q = length data" by auto
  then show ?thesis
    using assms(1,3) long_to_int_small [of "int (length data)"]
    by (simp add: httpclient_parser_execute_def Let_def c_restart_def client_end_def c_inside_def)
qed

lemma response_execute_run:
  assumes "client_exec data (c_cs (rp_parser s)) 0 data (c_restart s) = Inr (n, q, t)" and "data \<noteq> []"
    and "int (length data) < 2 ^ 31" and "c_body_start (rp_parser s) \<le> length data"
    and "(if chunk then upd_client httpclient_parser_init s' else s') = s"
  shows "response_execute (CHR 0x00) data chunk s' = Inr (q, drop q data, upd_client (\<lambda>h. h\<lparr>c_cs := n, c_nread := q\<rparr>) t)"
  unfolding response_execute_def assms(5) using execute_run [OF assms(1-4)] by simp

lemmas response_status = response_hasError_def response_isFinished_def httpclient_parser_finish_def
  httpclient_parser_has_error_def httpclient_parser_is_finished_def

section \<open>Numbers\<close>

lemma num_val_digit: "num_val c < 16 \<Longrightarrow> \<not> c_isspace c \<and> c \<noteq> CHR ''-'' \<and> c \<noteq> CHR ''+'' \<and> c \<noteq> CHR ''x'' \<and> c \<noteq> CHR ''X''"
  by (auto simp: num_val_def c_isspace_def Let_def split: if_splits)

lemma strtol_digits:
  assumes "w \<noteq> []" and "\<forall>x \<in> set w. num_val x < base" and "base \<le> 16" and "\<not> num_val c < base"
    and "c \<noteq> CHR ''x''" and "c \<noteq> CHR ''X''"
  shows "strtol base (w @ c # rest) = min (2 ^ 63 - 1) (int (digits_value base w))"
proof -
  obtain a u where w: "w = a # u" using assms(1) by (cases w) auto
  then have a: "\<not> c_isspace a" "a \<noteq> CHR ''-''" "a \<noteq> CHR ''+''" using assms(2,3) num_val_digit [of a] by auto
  have "hd (u @ [c]) \<noteq> CHR ''x'' \<and> hd (u @ [c]) \<noteq> CHR ''X''"
    using assms(2,3,5,6) w num_val_digit by (cases u) auto
  then have skip: "skip_0x base (w @ c # rest) = w @ c # rest"
    using w by (cases u) (auto simp: skip_0x_def split: list.splits)
  have "takeWhile (\<lambda>c. num_val c < base) (w @ c # rest) = w" using assms(2,4) by (simp add: takeWhile_tail)
  with a w skip show ?thesis by (simp add: strtol_def Let_def)
qed

lemma num_val_show: "2 \<le> base \<Longrightarrow> base \<le> 16 \<Longrightarrow> x \<in> set (show_base base n) \<Longrightarrow> num_val x = digit_val x \<and> num_val x < base"
proof -
  assume b: "2 \<le> base" "base \<le> 16" and "x \<in> set (show_base base n)"
  then obtain d where d: "d < base" "x = digit_char d" using digits_rev_less by (auto simp: show_base_def)
  then have "of_char x = (if d < 10 then 48 + d else 87 + d)" "d < 16" using b of_char_digit by auto
  then show ?thesis using d(1) by (simp add: num_val_def digit_val_def Let_def)
qed

lemma digits_value_show:
  assumes "2 \<le> base" and "base \<le> 16"
  shows "digits_value base (show_base base n) = n"
proof -
  have "digits_value base w = read_base base w" if "\<forall>x \<in> set w. num_val x = digit_val x" for w
    unfolding digits_value_def read_base_def using that by (intro foldl_cong) auto
  then show ?thesis using num_val_show [OF assms] read_show_base [OF assms] by simp
qed

section \<open>The status line\<close>

abbreviation client_next :: "nat \<Rightarrow> char \<Rightarrow> dest" where "client_next \<equiv> machine_dest client_rows False"

lemmas client_lookup = machine_dest_def client_rows_def map_of_concat find_state.simps
lemmas client_first_blocks = client_rows_1_def client_rows_2_def client_rows_3_def client_rows_4_def client_rows_5_def

lemma client_line_chars:
  "client_next 1 (CHR ''H'') = Tr 2" "client_next 8 (CHR ''T'') = St 9" "client_next 9 (CHR ''T'') = St 10"
  "client_next 10 (CHR ''P'') = St 11" "client_next 11 (CHR ''/'') = St 12" "client_next 12 (CHR ''1'') = St 13"
  "client_next 13 (CHR ''.'') = St 14" "client_next 14 (CHR ''0'') = St 15" "client_next 14 (CHR ''1'') = St 15"
  "client_next 15 (CHR '' '') = Tr 26" "client_next 17 (CHR '' '') = Tr 28" "client_next 19 (CHR 0x0D) = Tr 33"
  "client_next 24 (CHR 0x0A) = St 20" "client_next 2 (CHR 0x0D) = Tr 4" "client_next 3 (CHR 0x0A) = Tr 7"
  unfolding client_lookup by (simp_all add: client_first_blocks signed_char_def)

lemma client_digits: "48 \<le> signed_char c \<and> signed_char c \<le> 57 \<Longrightarrow> client_next 16 c = Tr 27 \<and> client_next 17 c = St 17"
  unfolding client_lookup by (simp add: client_first_blocks)

lemma client_reason: "text_char c \<Longrightarrow> client_next 18 c = Tr 30 \<and> client_next 19 c = St 19"
  unfolding client_lookup text_char_def by (auto simp: client_first_blocks)

lemma client_exec_St:
  "cs \<noteq> 0 \<Longrightarrow> client_next cs c = St n \<Longrightarrow> n \<noteq> 0 \<Longrightarrow> client_exec buffer cs p (c # rest) s = client_exec buffer n (p + 1) rest s"
  by (simp add: client_exec.simps(2))

lemma client_exec_Tr:
  "cs \<noteq> 0 \<Longrightarrow> client_next cs c = Tr k \<Longrightarrow> map_of client_tr k = Some (as, n) \<Longrightarrow>
     client_exec buffer cs p (c # rest) s = bindE (client_dos buffer p as s) (\<lambda>s.
       if C_done \<in> set as then Inr (n, p + 1, s) else client_exec buffer n (p + 1) rest s)"
  by (simp add: client_exec.simps(2))

lemma client_exec_loop:
  assumes "\<forall>c \<in> set w. client_next cs c = St cs" and "cs \<noteq> 0"
  shows "client_exec buffer cs p (w @ rest) s = client_exec buffer cs (p + length w) rest s"
  using assms(1) by (induction w arbitrary: p) (simp_all add: client_exec_St assms(2))

lemmas client_marks = slice_from_def text_of_def

lemma client_run_version:
  assumes "v = 0x10 \<or> v = 0x11" and "drop p buffer = show_version v @ '' '' @ rest"
  shows "client_exec buffer 1 p (show_version v @ '' '' @ rest) s = client_exec buffer 16 (p + 9) rest
     (s\<lparr>rp_parser := (rp_parser s)\<lparr>c_mark := p\<rparr>, rp_data := (rp_data s)\<lparr>r_version := v\<rparr>\<rparr>)"
proof -
  have v: "show_version v = ''HTTP/1.'' @ (if v = 0x10 then ''0'' else ''1'')"
    using assms(1) show_version_10 show_version_11 by auto
  note steps = client_exec_Tr [OF _ client_line_chars(1) client_tr_lookup(2), unfolded One_nat_def] client_exec_St [OF _ client_line_chars(2)]
    client_exec_St [OF _ client_line_chars(3)] client_exec_St [OF _ client_line_chars(4)]
    client_exec_St [OF _ client_line_chars(5)] client_exec_St [OF _ client_line_chars(6)]
    client_exec_St [OF _ client_line_chars(7)] client_exec_St [OF _ client_line_chars(8)]
    client_exec_St [OF _ client_line_chars(9)] client_exec_Tr [OF _ client_line_chars(10) client_tr_lookup(16)]
  have at: "drop p buffer = ''HTTP/1.'' @ (if v = 0x10 then ''0'' else ''1'') @ '' '' @ rest" using assms(2) v by simp
  show ?thesis
    using assms(1) at
    by (auto simp: v steps slice_from_def on_response_version_def version_compare) (simp_all add: numeral_eq_Suc)
qed

lemma digit_signed: "num_val x < 10 \<Longrightarrow> 48 \<le> signed_char x \<and> signed_char x \<le> 57"
  using signed_char_ascii [of x] by (auto simp: num_val_def Let_def split: if_splits)

lemma client_run_status:
  assumes "0 \<le> v" and "v < 2 ^ 31" and "drop p buffer = show_base 10 (nat v) @ '' '' @ rest"
  shows "client_exec buffer 16 p (show_base 10 (nat v) @ '' '' @ rest) s =
     client_exec buffer 18 (p + length (show_base 10 (nat v)) + 1) rest
       (s\<lparr>rp_parser := (rp_parser s)\<lparr>c_mark := p, c_status := v\<rparr>, rp_data := (rp_data s)\<lparr>r_status := v\<rparr>\<rparr>)"
proof -
  let ?w = "show_base 10 (nat v)" and ?s = "upd_client (\<lambda>h. h\<lparr>c_mark := p\<rparr>) s"
  have digits: "\<forall>x \<in> set ?w. num_val x < 10" using num_val_show by simp
  have "\<not> num_val (CHR '' '') < 10" by (simp add: num_val_def)
  from strtol_digits [OF _ digits _ this, of rest] have "strtol 10 (?w @ '' '' @ rest) = min (2 ^ 63 - 1) v"
    using assms(1) by (simp add: digits_value_show)
  then have read: "long_to_int (strtol 10 (drop p buffer)) = v" using assms long_to_int_small [of v] by simp
  obtain c u where w: "?w = c # u" by (cases ?w) auto
  have dest: "\<forall>x \<in> set ?w. client_next 16 x = Tr 27 \<and> client_next 17 x = St 17" using digits digit_signed client_digits by blast
  have "client_exec buffer 16 p (?w @ '' '' @ rest) s = client_exec buffer 17 (p + 1) (u @ '' '' @ rest) ?s"
    using w dest by (simp add: client_exec_Tr [OF _ _ client_tr_lookup(17)])
  also have "\<dots> = client_exec buffer 17 (p + 1 + length u) ('' '' @ rest) ?s"
    using dest w by (intro client_exec_loop) auto
  finally show ?thesis
    using w read by (simp add: client_exec_Tr [OF _ client_line_chars(11) client_tr_lookup(18)] client_marks on_response_status_def)
qed

lemma client_run_reason:
  assumes "list_all text_char w" and "w \<noteq> []" and "drop p buffer = w @ crlf @ rest"
  shows "client_exec buffer 18 p (w @ crlf @ rest) s = client_exec buffer 20 (p + length w + 2) rest
     (s\<lparr>rp_parser := (rp_parser s)\<lparr>c_mark := p\<rparr>, rp_data := (rp_data s)\<lparr>r_reason := w\<rparr>\<rparr>)"
proof -
  let ?s = "upd_client (\<lambda>h. h\<lparr>c_mark := p\<rparr>) s"
  obtain c u where w: "w = c # u" using assms(2) by (cases w) auto
  have dest: "\<forall>x \<in> set w. client_next 18 x = Tr 30 \<and> client_next 19 x = St 19"
    using assms(1) client_reason by (simp add: list_all_iff)
  have "client_exec buffer 18 p (w @ crlf @ rest) s = client_exec buffer 19 (p + 1) (u @ crlf @ rest) ?s"
    using w dest by (simp add: client_exec_Tr [OF _ _ client_tr_lookup(19)])
  also have "\<dots> = client_exec buffer 19 (p + 1 + length u) (crlf @ rest) ?s"
    using dest w by (intro client_exec_loop) auto
  finally show ?thesis
    using w assms(3) by (simp add: client_exec_Tr [OF _ client_line_chars(12) client_tr_lookup(21)]
        client_exec_St [OF _ client_line_chars(13)] client_marks on_response_reason_def nat_add_distrib)
qed

section \<open>Headers\<close>

text \<open>A run inside one class.\<close>

lemma class_run:
  assumes "\<And>n c. cl n \<Longrightarrow> c \<in> set w \<Longrightarrow> goes (\<lambda>as m. as = [] \<and> cl m) (client_next n c)" and "cl cs"
  shows "\<exists>n. cl n \<and> client_exec buffer cs p (w @ rest) s = client_exec buffer n (p + length w) rest s"
  using assms
proof (induction w arbitrary: cs p)
  case (Cons c w)
  obtain as n where "as = [] \<and> cl n" "client_exec buffer cs p (c # w @ rest) s = bindE (client_dos buffer p as s) (\<lambda>s.
     if C_done \<in> set as then Inr (n, p + 1, s) else client_exec buffer n (p + 1) (w @ rest) s)"
    using client_exec_goes [OF Cons.prems(1) [OF Cons.prems(2), of c], of buffer p "w @ rest" s] by auto
  with Cons.IH [of n "p + 1"] Cons.prems(1) show ?case by auto
qed auto

lemma in_checks:
  "(in_line, token_ranges, opens_name) \<in> set line_checks" "(in_line, [(13, 13)], ends_head) \<in> set line_checks"
  "(in_name, token_ranges, \<lambda>as m. as = [] \<and> in_name m) \<in> set line_checks"
  "(in_name, [(58, 58)], \<lambda>as m. as = [C_write_field] \<and> in_blank m) \<in> set line_checks"
  "(in_blank, [(32, 32)], \<lambda>as m. as = [C_mark] \<and> in_blank m) \<in> set line_checks"
  "(in_blank, start_ranges, \<lambda>as m. as = [C_mark] \<and> in_value m) \<in> set line_checks"
  "(in_value, text_ranges, \<lambda>as m. as = [] \<and> in_value m) \<in> set line_checks"
  "(in_value, [(13, 13)], ends_value) \<in> set line_checks" "(in_end, [(10, 10)], ends_line) \<in> set line_checks"
  unfolding line_checks_def by (simp_all only: list.set insert_iff simp_thms)

lemma char_range: "signed_char c = v \<Longrightarrow> \<exists>(lo, hi) \<in> set [(v, v)]. lo \<le> signed_char c \<and> signed_char c \<le> hi"
  by simp

text \<open>The steps of a header line, one for each class of states and characters.\<close>

lemma step_token: "in_line n \<Longrightarrow> name_char c \<Longrightarrow> goes opens_name (client_next n c)"
  and step_cr: "in_line n \<Longrightarrow> goes ends_head (client_next n (CHR 0x0D))"
  and step_name: "in_name n \<Longrightarrow> name_char c \<Longrightarrow> goes (\<lambda>as m. as = [] \<and> in_name m) (client_next n c)"
  and step_colon: "in_name n \<Longrightarrow> goes (\<lambda>as m. as = [C_write_field] \<and> in_blank m) (client_next n (CHR '':''))"
  and step_blank: "in_blank n \<Longrightarrow> goes (\<lambda>as m. as = [C_mark] \<and> in_blank m) (client_next n (CHR '' ''))"
  and step_start: "in_blank n \<Longrightarrow> text_start c \<Longrightarrow> goes (\<lambda>as m. as = [C_mark] \<and> in_value m) (client_next n c)"
  and step_text: "in_value n \<Longrightarrow> text_char c \<Longrightarrow> goes (\<lambda>as m. as = [] \<and> in_value m) (client_next n c)"
  and step_value_end: "in_value n \<Longrightarrow> goes ends_value (client_next n (CHR 0x0D))"
  and step_line_end: "in_end n \<Longrightarrow> goes ends_line (client_next n (CHR 0x0A))"
  using class_step [OF in_checks(1) _ token_in_ranges] class_step [OF in_checks(2) _ char_range]
    class_step [OF in_checks(3) _ token_in_ranges] class_step [OF in_checks(4) _ char_range]
    class_step [OF in_checks(5) _ char_range] class_step [OF in_checks(6) _ start_in_ranges]
    class_step [OF in_checks(7) _ text_in_ranges] class_step [OF in_checks(8) _ char_range]
    class_step [OF in_checks(9) _ char_range]
  by (simp_all add: signed_char_def)

text \<open>A header the machine reads back: a name of token characters, a value that is not empty and does not start with white space.\<close>

definition rsp_header_ok :: "string \<times> string \<Rightarrow> bool" where
  "rsp_header_ok h \<longleftrightarrow> fst h \<noteq> [] \<and> list_all name_char (fst h) \<and> snd h \<noteq> [] \<and> list_all text_char (snd h)
     \<and> text_start (hd (snd h))"

lemma opens_name_effect:
  "opens_name as n \<Longrightarrow> \<exists>t. client_dos buffer p as s = Inr t \<and> C_done \<notin> set as \<and> in_name n
     \<and> c_field_start (rp_parser t) = p \<and> rp_data t = rp_data s \<and> rp_error t = rp_error s"
  by (auto simp: opens_name_def)

lemma ends_value_effect:
  assumes "ends_value as n" and "c_mark (rp_parser s) = p" and "q = p + length v" and "drop p buffer = v @ rest"
    and "c_field_len (rp_parser s) = length k" and "k \<noteq> []" and "take (length k) (drop (c_field_start (rp_parser s)) buffer) = k"
  shows "\<exists>t. client_dos buffer q as s = Inr t \<and> C_done \<notin> set as \<and> in_end n
     \<and> rp_data t = rsp_setHeader k v (rp_data s) \<and> rp_error t = rp_error s"
  using assms by (auto simp: ends_value_def client_marks on_response_http_field_def)

lemma ends_line_effect:
  "ends_line as n \<Longrightarrow> \<exists>t. client_dos buffer p as s = Inr t \<and> C_done \<notin> set as \<and> in_line n
     \<and> rp_data t = rp_data s \<and> rp_error t = rp_error s"
  by (auto simp: ends_line_def)

text \<open>The name with its colon and the blank, from the start of a line.\<close>

lemma client_run_name:
  assumes "in_line cs" and "list_all name_char k" and "k \<noteq> []"
  shows "\<exists>n t. in_blank n \<and> client_exec buffer cs p (k @ '': '' @ rest) s = client_exec buffer n (p + length k + 2) rest t
     \<and> c_field_start (rp_parser t) = p \<and> c_field_len (rp_parser t) = length k
     \<and> rp_data t = rp_data s \<and> rp_error t = rp_error s"
proof -
  obtain c u where k: "k = c # u" and c: "name_char c" and u: "\<forall>x \<in> set u. name_char x"
    using assms(2,3) by (cases k) (auto simp: list_all_iff)
  let ?r = "u @ '': '' @ rest"
  obtain n1 s1 where run1: "in_name n1" "client_exec buffer cs p (c # ?r) s = client_exec buffer n1 (p + 1) ?r s1"
    "c_field_start (rp_parser s1) = p" "rp_data s1 = rp_data s" "rp_error s1 = rp_error s"
  proof -
    obtain as n where "opens_name as n" "client_exec buffer cs p (c # ?r) s = bindE (client_dos buffer p as s) (\<lambda>s.
       if C_done \<in> set as then Inr (n, p + 1, s) else client_exec buffer n (p + 1) ?r s)"
      using client_exec_goes [OF step_token [OF assms(1) c], of buffer p ?r s] by blast
    with opens_name_effect [of as n buffer p s] show thesis using that by fastforce
  qed
  obtain n2 where run2: "in_name n2"
      "client_exec buffer n1 (p + 1) ?r s1 = client_exec buffer n2 (p + 1 + length u) ('': '' @ rest) s1"
    using class_run [of in_name u n1 buffer "p + 1" "'': '' @ rest" s1] step_name u run1(1) by blast
  define q where "q = p + 1 + length u"
  obtain as n3 where "as = [C_write_field] \<and> in_blank n3" "client_exec buffer n2 q (CHR '':'' # '' '' @ rest) s1 =
     bindE (client_dos buffer q as s1) (\<lambda>s.
       if C_done \<in> set as then Inr (n3, q + 1, s) else client_exec buffer n3 (q + 1) ('' '' @ rest) s)"
    using client_exec_goes [OF step_colon [OF run2(1)], of buffer q "'' '' @ rest" s1] by blast
  moreover define s2 where "s2 = upd_client (\<lambda>h. h\<lparr>c_field_len := q - p\<rparr>) s1"
  ultimately have run3: "in_blank n3" "client_exec buffer n2 q ('': '' @ rest) s1 = client_exec buffer n3 (q + 1) ('' '' @ rest) s2"
    using run1(3) by simp_all
  obtain as n4 where "as = [C_mark] \<and> in_blank n4" "client_exec buffer n3 (q + 1) (CHR '' '' # rest) s2 =
     bindE (client_dos buffer (q + 1) as s2) (\<lambda>s.
       if C_done \<in> set as then Inr (n4, q + 1 + 1, s) else client_exec buffer n4 (q + 1 + 1) rest s)"
    using client_exec_goes [OF step_blank [OF run3(1)], of buffer "q + 1" rest s2] by blast
  then show ?thesis
    using k run1 run2 run3
    by (intro exI [of _ n4] exI [of _ "upd_client (\<lambda>h. h\<lparr>c_mark := q + 1\<rparr>) s2"]) (simp add: q_def s2_def)
qed

text \<open>The value with the line end.\<close>

lemma client_run_value:
  assumes "in_blank cs" and "list_all text_char v" and "v \<noteq> []" and "text_start (hd v)"
    and "drop p buffer = v @ crlf @ rest" and "c_field_len (rp_parser s) = length k" and "k \<noteq> []"
    and "take (length k) (drop (c_field_start (rp_parser s)) buffer) = k"
  shows "\<exists>n t. in_line n \<and> client_exec buffer cs p (v @ crlf @ rest) s = client_exec buffer n (p + length v + 2) rest t
     \<and> rp_data t = rsp_setHeader k v (rp_data s) \<and> rp_error t = rp_error s"
proof -
  obtain c u where v: "v = c # u" and c: "text_start c" and u: "\<forall>x \<in> set u. text_char x"
    using assms(2-4) by (cases v) (auto simp: list_all_iff)
  define s1 where "s1 = upd_client (\<lambda>h. h\<lparr>c_mark := p\<rparr>) s"
  obtain as n1 where "as = [C_mark] \<and> in_value n1" "client_exec buffer cs p (c # u @ crlf @ rest) s =
     bindE (client_dos buffer p as s) (\<lambda>s.
       if C_done \<in> set as then Inr (n1, p + 1, s) else client_exec buffer n1 (p + 1) (u @ crlf @ rest) s)"
    using client_exec_goes [OF step_start [OF assms(1) c], of buffer p "u @ crlf @ rest" s] by blast
  then have run1: "in_value n1"
    "client_exec buffer cs p (c # u @ crlf @ rest) s = client_exec buffer n1 (p + 1) (u @ crlf @ rest) s1"
    by (simp_all add: s1_def)
  obtain n2 where run2: "in_value n2"
      "client_exec buffer n1 (p + 1) (u @ crlf @ rest) s1 = client_exec buffer n2 (p + 1 + length u) (crlf @ rest) s1"
    using class_run [of in_value u n1 buffer "p + 1" "crlf @ rest" s1] step_text u run1(1) by blast
  define q where "q = p + length v"
  obtain n3 s2 where run3: "in_end n3"
    "client_exec buffer n2 q (crlf @ rest) s1 = client_exec buffer n3 (q + 1) (CHR 0x0A # rest) s2"
    "rp_data s2 = rsp_setHeader k v (rp_data s)" "rp_error s2 = rp_error s"
  proof -
    obtain as n where "ends_value as n" "client_exec buffer n2 q (CHR 0x0D # CHR 0x0A # rest) s1 =
       bindE (client_dos buffer q as s1) (\<lambda>s.
         if C_done \<in> set as then Inr (n, q + 1, s) else client_exec buffer n (q + 1) (CHR 0x0A # rest) s)"
      using client_exec_goes [OF step_value_end [OF run2(1)], of buffer q "CHR 0x0A # rest" s1] by blast
    with ends_value_effect [of as n s1 p q v buffer "crlf @ rest" k] assms(5-8) show thesis
      using that by (fastforce simp: s1_def q_def)
  qed
  obtain as n4 where run4: "ends_line as n4" "client_exec buffer n3 (q + 1) (CHR 0x0A # rest) s2 =
     bindE (client_dos buffer (q + 1) as s2) (\<lambda>s.
       if C_done \<in> set as then Inr (n4, q + 1 + 1, s) else client_exec buffer n4 (q + 1 + 1) rest s)"
    using client_exec_goes [OF step_line_end [OF run3(1)], of buffer "q + 1" rest s2] by blast
  with ends_line_effect [OF run4(1), of buffer "q + 1" s2] obtain t where
    "client_exec buffer n3 (q + 1) (CHR 0x0A # rest) s2 = client_exec buffer n4 (q + 2) rest t"
    "in_line n4" "rp_data t = rp_data s2" "rp_error t = rp_error s2" by auto
  then show ?thesis
    using v run1(2) run2(2) run3 by (intro exI [of _ n4] exI [of _ t]) (simp add: q_def)
qed

lemma client_run_header:
  assumes "in_line cs" and "rsp_header_ok h" and "drop p buffer = header_line h @ rest"
  shows "\<exists>n t. in_line n \<and> client_exec buffer cs p (header_line h @ rest) s
      = client_exec buffer n (p + length (header_line h)) rest t
     \<and> rp_data t = rsp_setHeader (fst h) (snd h) (rp_data s) \<and> rp_error t = rp_error s"
proof -
  obtain k v where h: "h = (k, v)" by (cases h)
  have ok: "list_all name_char k" "k \<noteq> []" "list_all text_char v" "v \<noteq> []" "text_start (hd v)"
    using assms(2) h by (simp_all add: rsp_header_ok_def)
  let ?r = "v @ crlf @ rest"
  have line: "header_line h @ rest = k @ '': '' @ ?r" using h by (simp add: header_line_def)
  obtain n t where run1: "in_blank n" "client_exec buffer cs p (k @ '': '' @ ?r) s = client_exec buffer n (p + length k + 2) ?r t"
     "c_field_start (rp_parser t) = p" "c_field_len (rp_parser t) = length k" "rp_data t = rp_data s" "rp_error t = rp_error s"
    using client_run_name [OF assms(1) ok(1,2), of buffer p ?r s] by blast
  have at: "drop (p + length k + 2) buffer = ?r"
    using drop_part [of p buffer "k @ '': ''" ?r] assms(3) line by (simp add: add.assoc)
  have key: "take (length k) (drop (c_field_start (rp_parser t)) buffer) = k" using assms(3) line run1(3) by simp
  obtain n' t' where "in_line n'"
    "client_exec buffer n (p + length k + 2) ?r t = client_exec buffer n' (p + length k + 2 + length v + 2) rest t'"
    "rp_data t' = rsp_setHeader k v (rp_data t)" "rp_error t' = rp_error t"
    using client_run_value [OF run1(1) ok(3-5) at run1(4) ok(2) key] by blast
  with run1 show ?thesis
    unfolding line using h by (intro exI [of _ n'] exI [of _ t']) (simp add: header_line_def add.assoc)
qed

lemma client_run_headers:
  assumes "in_line cs" and "list_all rsp_header_ok hs" and "drop p buffer = concat (map header_line hs) @ rest"
  shows "\<exists>n t. in_line n \<and> client_exec buffer cs p (concat (map header_line hs) @ rest) s
      = client_exec buffer n (p + length (concat (map header_line hs))) rest t
     \<and> rp_data t = fold (\<lambda>h. rsp_setHeader (fst h) (snd h)) hs (rp_data s) \<and> rp_error t = rp_error s"
  using assms
proof (induction hs arbitrary: cs p s)
  case (Cons h hs)
  let ?r = "concat (map header_line hs) @ rest"
  obtain n t where t: "in_line n" "client_exec buffer cs p (header_line h @ ?r) s = client_exec buffer n (p + length (header_line h)) ?r t"
      "rp_data t = rsp_setHeader (fst h) (snd h) (rp_data s)" "rp_error t = rp_error s"
    using client_run_header [of cs h p buffer ?r s] Cons.prems by auto
  have "drop (p + length (header_line h)) buffer = ?r" using Cons.prems(3) drop_part by auto
  from Cons.IH [OF t(1) _ this, of t] Cons.prems(2) obtain m u where
    "in_line m" "client_exec buffer n (p + length (header_line h)) ?r t
      = client_exec buffer m (p + length (header_line h) + length (concat (map header_line hs))) rest u"
    "rp_data u = fold (\<lambda>h. rsp_setHeader (fst h) (snd h)) hs (rp_data t)" "rp_error u = rp_error t" by auto
  with t show ?case by (intro exI [of _ m] exI [of _ u]) (auto simp: add.assoc)
qed auto

lemma client_run_end:
  assumes "in_line cs"
  shows "\<exists>t. client_exec buffer cs p (crlf @ rest) s = Inr (120, p + 2, t) \<and> rp_data t = rp_data s \<and> rp_error t = rp_error s"
proof -
  obtain as n where "ends_head as n" "client_exec buffer cs p (CHR 0x0D # CHR 0x0A # rest) s =
     bindE (client_dos buffer p as s) (\<lambda>s.
       if C_done \<in> set as then Inr (n, p + 1, s) else client_exec buffer n (p + 1) (CHR 0x0A # rest) s)"
    using client_exec_goes [OF step_cr [OF assms], of buffer p "CHR 0x0A # rest" s] by blast
  then show ?thesis
    by (auto simp: ends_head_def client_exec_Tr [OF _ client_line_chars(15) client_tr_lookup(6)])
qed

section \<open>Whole responses\<close>

definition rsp_printed_headers :: "HttpResponse \<Rightarrow> (string \<times> string) list" where
  "rsp_printed_headers r = filter (\<lambda>h. \<not> skip_header (r_websocket r) h) (r_headers r)
     @ map (\<lambda>c. (''Set-Cookie'', c)) (r_cookies r)
     @ (if r_websocket r then [] else [(''connection'', if r_close r then ''close'' else ''keep-alive'')])
     @ (if r_body r = [] then [] else [(''content-length'', show_base 10 (length (r_body r)))])"

definition rsp_reason :: "HttpResponse \<Rightarrow> string" where
  "rsp_reason r = (if r_reason r = [] then HttpStatusToString (r_status r) else r_reason r)"

text \<open>The head without the empty line.\<close>

definition rsp_lines :: "HttpResponse \<Rightarrow> string" where
  "rsp_lines r = show_version (r_version r) @ '' '' @ show_base 10 (nat (r_status r mod 2 ^ 32)) @ '' '' @ rsp_reason r @ crlf
     @ concat (map header_line (rsp_printed_headers r))"

lemma response_dump_parts: "response_dump r = rsp_lines r @ crlf @ r_body r"
  by (simp add: rsp_lines_def response_dump_def rsp_printed_headers_def rsp_reason_def headers_text connection_line_def
      body_text_def header_line_def comp_def)

text \<open>A response that the parser reads back.\<close>

definition rsp_ok :: "HttpResponse \<Rightarrow> bool" where
  "rsp_ok r \<longleftrightarrow> (r_version r = 0x10 \<or> r_version r = 0x11) \<and> 0 \<le> r_status r \<and> r_status r < 2 ^ 31
     \<and> list_all text_char (r_reason r) \<and> list_all rsp_header_ok (r_headers r)
     \<and> list_all (\<lambda>c. rsp_header_ok (''Set-Cookie'', c)) (r_cookies r)"

lemma reason_ok: "list_all text_char (r_reason r) \<Longrightarrow> list_all text_char (rsp_reason r) \<and> rsp_reason r \<noteq> []"
proof -
  assume r: "list_all text_char (r_reason r)"
  have all: "\<forall>p \<in> set HTTP_STATUS_MAP. list_all text_char (snd p) \<and> snd p \<noteq> []"
    by (simp add: HTTP_STATUS_MAP_def text_char_def signed_char_def)
  have "list_all text_char (HttpStatusToString s) \<and> HttpStatusToString s \<noteq> []" for s
  proof (cases "map_of HTTP_STATUS_MAP s")
    case (Some msg)
    then show ?thesis using all map_of_SomeD [OF Some] by (fastforce simp: HttpStatusToString_def)
  qed (simp add: HttpStatusToString_def text_char_def signed_char_def)
  with r show ?thesis by (simp add: rsp_reason_def)
qed

lemma rsp_printed_ok: "rsp_ok r \<Longrightarrow> list_all rsp_header_ok (rsp_printed_headers r)"
proof -
  assume "rsp_ok r"
  then have "list_all rsp_header_ok (filter (\<lambda>h. \<not> skip_header (r_websocket r) h) (r_headers r))"
    "list_all rsp_header_ok (map (\<lambda>c. (''Set-Cookie'', c)) (r_cookies r))" by (auto simp: rsp_ok_def list_all_iff)
  moreover have "rsp_header_ok (''connection'', ''close'')" "rsp_header_ok (''connection'', ''keep-alive'')"
    by (simp_all add: rsp_header_ok_def name_char_def text_char_def text_start_def signed_char_def)
  moreover have "rsp_header_ok (''content-length'', show_base 10 n)" for n
  proof -
    have d: "48 \<le> signed_char x \<and> signed_char x \<le> 57" if "x \<in> set (show_base 10 n)" for x
      using num_val_show [OF _ _ that] digit_signed [of x] by simp
    then have "list_all text_char (show_base 10 n)" by (force simp: list_all_iff text_char_def)
    moreover have "text_start (hd (show_base 10 n))" using d [of "hd (show_base 10 n)"] by (simp add: text_start_def)
    ultimately show ?thesis by (simp add: rsp_header_ok_def) (simp add: name_char_def signed_char_def)
  qed
  ultimately show ?thesis by (simp add: rsp_printed_headers_def)
qed

lemma rsp_lines_run:
  assumes "rsp_ok r" and "buffer = rsp_lines r @ tail"
  shows "\<exists>cs p t. in_line cs \<and> client_exec buffer 1 0 buffer s = client_exec buffer cs p tail t
     \<and> drop p buffer = tail \<and> p = length (rsp_lines r) \<and> rp_error t = rp_error s
     \<and> rp_data t = fold (\<lambda>h. rsp_setHeader (fst h) (snd h)) (rsp_printed_headers r)
          ((rp_data s)\<lparr>r_version := r_version r, r_status := r_status r, r_reason := rsp_reason r\<rparr>)"
proof -
  let ?hs = "concat (map header_line (rsp_printed_headers r))" and ?v = "show_base 10 (nat (r_status r))"
  have ok: "r_version r = 0x10 \<or> r_version r = 0x11" "0 \<le> r_status r" "r_status r < 2 ^ 31"
    "list_all text_char (rsp_reason r)" "rsp_reason r \<noteq> []"
    using assms(1) reason_ok [of r] by (simp_all add: rsp_ok_def)
  have len: "length (show_version (r_version r)) = 8" using ok(1) show_version_10 show_version_11 by auto
  define r3 where "r3 = ?hs @ tail"
  define r2 where "r2 = rsp_reason r @ crlf @ r3"
  define r1 where "r1 = ?v @ '' '' @ r2"
  have at0: "drop 0 buffer = show_version (r_version r) @ '' '' @ r1"
    using assms(2) ok(2,3) by (simp add: rsp_lines_def r1_def r2_def r3_def)
  define s1 where "s1 = s\<lparr>rp_parser := (rp_parser s)\<lparr>c_mark := 0\<rparr>, rp_data := (rp_data s)\<lparr>r_version := r_version r\<rparr>\<rparr>"
  have run1: "client_exec buffer 1 0 buffer s = client_exec buffer 16 9 r1 s1"
    using client_run_version [OF ok(1) at0, of s] at0 by (simp add: s1_def)
  have at1: "drop 9 buffer = ?v @ '' '' @ r2"
    using drop_part [of 0 buffer "show_version (r_version r) @ '' ''" r1] at0 len by (simp add: r1_def)
  define p2 where "p2 = 9 + length ?v + 1"
  define s2 where "s2 = s1\<lparr>rp_parser := (rp_parser s1)\<lparr>c_mark := 9, c_status := r_status r\<rparr>,
    rp_data := (rp_data s1)\<lparr>r_status := r_status r\<rparr>\<rparr>"
  have run2: "client_exec buffer 16 9 r1 s1 = client_exec buffer 18 p2 r2 s2"
    using client_run_status [OF ok(2,3) at1, of s1] by (simp add: r1_def s2_def p2_def)
  have at2: "drop p2 buffer = rsp_reason r @ crlf @ r3"
    using drop_part [of 9 buffer "?v @ '' ''" r2] at1 by (simp add: p2_def r2_def)
  define p3 where "p3 = p2 + length (rsp_reason r) + 2"
  define s3 where "s3 = s2\<lparr>rp_parser := (rp_parser s2)\<lparr>c_mark := p2\<rparr>, rp_data := (rp_data s2)\<lparr>r_reason := rsp_reason r\<rparr>\<rparr>"
  have run3: "client_exec buffer 18 p2 r2 s2 = client_exec buffer 20 p3 r3 s3"
    using client_run_reason [OF ok(4,5) at2, of s2] by (simp add: r2_def s3_def p3_def)
  have at3: "drop p3 buffer = ?hs @ tail"
    using drop_part [of p2 buffer "rsp_reason r @ crlf" r3] at2 by (simp add: p3_def r3_def)
  have "in_line 20" by (simp add: in_line_def)
  from client_run_headers [OF this rsp_printed_ok [OF assms(1)] at3, of s3] obtain n t where
    run4: "in_line n" "client_exec buffer 20 p3 r3 s3 = client_exec buffer n (p3 + length ?hs) tail t"
      "rp_data t = fold (\<lambda>h. rsp_setHeader (fst h) (snd h)) (rsp_printed_headers r) (rp_data s3)" "rp_error t = rp_error s3"
    unfolding r3_def by blast
  have "drop (p3 + length ?hs) buffer = tail" using drop_part [OF at3] .
  moreover have "p3 + length ?hs = length (rsp_lines r)"
    using ok(2,3) len by (simp add: p3_def p2_def rsp_lines_def)
  ultimately show ?thesis
    using run1 run2 run3 run4 by (intro exI [of _ n] exI [of _ "p3 + length ?hs"] exI [of _ t]) (simp add: s1_def s2_def s3_def)
qed

lemma fresh_start: "(if chunk then upd_client httpclient_parser_init (mk_HttpResponseParser memory)
     else mk_HttpResponseParser memory) = mk_HttpResponseParser memory"
  by (simp add: mk_HttpResponseParser_def httpclient_parser_init_def)

lemma parse_response:
  assumes "rsp_ok r" and "int (length (response_dump r)) < 2 ^ 31"
  shows "\<exists>n t. response_execute (CHR 0x00) (response_dump r) chunk (mk_HttpResponseParser memory) = Inr (n, r_body r, t)
     \<and> \<not> response_hasError t \<and> response_isFinished t = 1
     \<and> rp_data t = fold (\<lambda>h. rsp_setHeader (fst h) (snd h)) (rsp_printed_headers r)
          ((mk_HttpResponse (r_version r) True)\<lparr>r_status := r_status r, r_reason := rsp_reason r\<rparr>)"
proof -
  let ?s = "mk_HttpResponseParser memory" and ?d = "response_dump r"
  have start: "c_cs (rp_parser ?s) = 1" "c_body_start (rp_parser ?s) = 0" "rp_error (c_restart ?s) = 0"
    "rp_data (c_restart ?s) = mk_HttpResponse 0x11 True"
    by (simp_all add: mk_HttpResponseParser_def httpclient_parser_init_def c_restart_def)
  obtain cs p u where lines: "in_line cs" "client_exec ?d 1 0 ?d (c_restart ?s) = client_exec ?d cs p (crlf @ r_body r) u"
    "drop p ?d = crlf @ r_body r" "rp_error u = 0" "rp_data u = fold (\<lambda>h. rsp_setHeader (fst h) (snd h)) (rsp_printed_headers r)
       ((mk_HttpResponse (r_version r) True)\<lparr>r_status := r_status r, r_reason := rsp_reason r\<rparr>)"
    using rsp_lines_run [OF assms(1) response_dump_parts, of "c_restart ?s"] start(3,4)
    by (auto simp: mk_HttpResponse_def)
  then obtain t where run: "client_exec ?d 1 0 ?d (c_restart ?s) = Inr (120, p + 2, t)" "rp_error t = 0" "rp_data t = rp_data u"
    using client_run_end [OF lines(1), of ?d p "r_body r" u] by auto
  have rest: "drop (p + 2) ?d = r_body r" using drop_part [of p ?d crlf "r_body r"] lines(3) by simp
  have "?d \<noteq> []" by (simp add: response_dump_parts rsp_lines_def)
  then have "response_execute (CHR 0x00) ?d chunk ?s = Inr (p + 2, drop (p + 2) ?d, upd_client (\<lambda>h. h\<lparr>c_cs := 120, c_nread := p + 2\<rparr>) t)"
    using response_execute_run [of ?d ?s 120 "p + 2" t, OF _ _ _ _ fresh_start] run(1) assms(2) start by simp
  then show ?thesis using run(2,3) rest lines(5) by (simp add: response_status)
qed

text \<open>
  C5: A printed response parses back. A fresh response parser, called with or without the chunk flag, consumes the head of
  every response that the library prints up to the body, reports no error, is finished, and holds the version, the status,
  the reason (the text of the status where the response had none) and every printed header, set one after the other. The
  response must have a version the grammar knows, a status that is not negative, no line end in its texts and no header
  value that is empty or starts with white space.
\<close>

theorem response_parses_back:
  assumes "rsp_ok r" and "int (length (response_dump r)) < 2 ^ 31"
  shows "\<exists>n t. response_execute (CHR 0x00) (response_dump r) chunk (mk_HttpResponseParser memory) = Inr (n, r_body r, t)
     \<and> \<not> response_hasError t \<and> response_isFinished t = 1
     \<and> rp_data t = fold (\<lambda>h. rsp_setHeader (fst h) (snd h)) (rsp_printed_headers r)
          ((mk_HttpResponse (r_version r) True)\<lparr>r_status := r_status r, r_reason := rsp_reason r\<rparr>)"
  using parse_response [OF assms] .

text \<open>The memory a parser is built in; its contents do not matter.\<close>

definition blank_client :: httpclient_parser where
  "blank_client = \<lparr>c_cs = 0, c_body_start = 0, c_content_len = 0, c_status = 0, c_chunked = False, c_chunks_done = False,
     c_close = False, c_nread = 0, c_mark = 0, c_field_start = 0, c_field_len = 0\<rparr>"

definition example_response :: HttpResponse where
  "example_response = (mk_HttpResponse 0x11 False)\<lparr>r_status := 404, r_headers := [(''Server'', ''dwframe/1.0.0'')],
     r_body := ''gone''\<rparr>"

lemma example_response_ok: "rsp_ok example_response" "length (response_dump example_response) \<le> 100"
proof -
  show "rsp_ok example_response"
    by (simp add: example_response_def rsp_ok_def mk_HttpResponse_def rsp_header_ok_def)
      (simp add: name_char_def text_char_def text_start_def signed_char_def)
  show "length (response_dump example_response) \<le> 100" by code_simp
qed

lemma response_parses_back_witness:
  "\<exists>n t. response_execute (CHR 0x00) (response_dump example_response) False (mk_HttpResponseParser blank_client)
     = Inr (n, ''gone'', t) \<and> response_isFinished t = 1"
proof -
  have "int (length (response_dump example_response)) < 2 ^ 31" using example_response_ok(2) by simp
  from response_parses_back [OF example_response_ok(1) this, of False blank_client]
  show ?thesis by (auto simp: example_response_def)
qed

section \<open>Every input\<close>



section \<open>Chunks\<close>

lemma client_hex: "num_val x < 16 \<Longrightarrow> client_next 1 x = Tr 0 \<and> client_next 2 x = St 2"
proof -
  assume x: "num_val x < 16"
  then have "of_char x < (128 :: nat)" by (auto simp: num_val_def Let_def split: if_splits)
  then have "signed_char x = int (of_char x)" by (rule signed_char_ascii)
  with x show ?thesis
    unfolding client_lookup by (auto simp: client_first_blocks num_val_def Let_def split: if_splits)
qed



section \<open>A head that is never finished\<close>

text \<open>
  The machine has four final states and the test for the end knows one. A response whose last header is
  \<^verbatim>\<open>Connection\<close> with an empty value is read to its end and then neither finished nor in error.
\<close>

lemma client_connection:
  "client_next 20 (CHR ''C'') = Tr 36" "client_next 43 (CHR ''C'') = Tr 77" "client_next 25 (CHR ''o'') = St 26"
  "client_next 26 (CHR ''n'') = St 27" "client_next 27 (CHR ''n'') = St 28" "client_next 28 (CHR ''e'') = St 29"
  "client_next 29 (CHR ''c'') = St 30" "client_next 30 (CHR ''t'') = St 31" "client_next 31 (CHR ''i'') = St 32"
  "client_next 32 (CHR ''o'') = St 33" "client_next 33 (CHR ''n'') = St 34" "client_next 34 (CHR '':'') = Tr 58"
  "client_next 35 (CHR 0x0D) = Tr 61" "client_next 95 (CHR 0x0A) = St 36" "client_next 36 (CHR 0x0D) = St 89" "client_next 89 (CHR 0x0A) = Tr 64"
  unfolding client_lookup by (simp_all add: client_all_blocks signed_char_def)

lemma run_empty_connection:
  assumes "in_line cs"
  shows "\<exists>t. client_exec buffer cs p (''Connection:'' @ crlf @ crlf @ rest) s = Inr (122, p + 15, t) \<and> rp_error t = rp_error s"
  using assms unfolding in_line_def
  by (elim disjE) (simp_all add: client_exec.simps(2) client_connection client_marks on_response_http_field_def)

text \<open>
  C39: A head that is never finished. The machine has four final states and the test for the end knows one of them. A
  response whose last header line is \<^verbatim>\<open>Connection:\<close> without a value is read to the end of its head, and then the
  parser is neither finished nor in error, whatever stands in the lines before.
\<close>

theorem empty_connection_unfinished:
  assumes "rsp_ok r" and "data = rsp_lines r @ ''Connection:'' @ crlf @ crlf @ body" and "int (length data) < 2 ^ 31"
  shows "\<exists>n t. response_execute (CHR 0x00) data chunk (mk_HttpResponseParser memory) = Inr (n, body, t)
     \<and> response_isFinished t = 0 \<and> \<not> response_hasError t"
proof -
  let ?s = "mk_HttpResponseParser memory"
  have start: "c_cs (rp_parser ?s) = 1" "c_body_start (rp_parser ?s) = 0" "rp_error (c_restart ?s) = 0"
    by (simp_all add: mk_HttpResponseParser_def httpclient_parser_init_def c_restart_def)
  let ?tail = "''Connection:'' @ crlf @ crlf @ body"
  obtain cs p u where lines: "in_line cs" "client_exec data 1 0 data (c_restart ?s) = client_exec data cs p ?tail u"
    "drop p data = ?tail" "rp_error u = 0"
    using rsp_lines_run [OF assms(1,2), of "c_restart ?s"] start(3) by auto
  then obtain t where run: "client_exec data 1 0 data (c_restart ?s) = Inr (122, p + 15, t)" "rp_error t = 0"
    using run_empty_connection [OF lines(1), of data p body u] by auto
  have len: "length (''Connection:'' @ crlf @ crlf) = 15" by simp
  have rest: "drop (p + 15) data = body"
    using drop_part [of p data "''Connection:'' @ crlf @ crlf" body] lines(3) unfolding len by simp
  have "data \<noteq> []" using assms(2) by simp
  then have "response_execute (CHR 0x00) data chunk ?s = Inr (p + 15, drop (p + 15) data, upd_client (\<lambda>h. h\<lparr>c_cs := 122, c_nread := p + 15\<rparr>) t)"
    using response_execute_run [of data ?s 122 "p + 15" t, OF _ _ _ _ fresh_start] run(1) assms(3) start by simp
  then show ?thesis using run(2) rest by (simp add: response_status)
qed

lemma empty_connection_unfinished_witness:
  "\<exists>n t. response_execute (CHR 0x00) (rsp_lines example_response @ ''Connection:'' @ crlf @ crlf @ ''gone'') False
     (mk_HttpResponseParser blank_client) = Inr (n, ''gone'', t) \<and> response_isFinished t = 0"
proof -
  have "length (rsp_lines example_response) \<le> 100" using example_response_ok(2) by (simp add: response_dump_parts)
  then have "int (length (rsp_lines example_response @ ''Connection:'' @ crlf @ crlf @ ''gone'')) < 2 ^ 31" by simp
  from empty_connection_unfinished [OF example_response_ok(1) refl this, of False blank_client] show ?thesis by blast
qed

end
