(* ===== verification/Socket_Controls.thy ===== *)
theory Socket_Controls
  imports Sockets IoManagers
begin

text \<open>
  The rest of \<^verbatim>\<open>dwframe/socket.cc\<close>: the constructors for fixed families, socket options, and the cancelling of waiting
  fibers through the IO manager of the calling thread. The options of a descriptor are a map in the kernel, which decides
  which options it takes; the IO manager is absent in a thread without one.
\<close>

section \<open>Constructors\<close>

definition CreateTCPSocket :: sock where
  "CreateTCPSocket = mk_Socket AF_INET TCP 0"

definition CreateUDPSocket :: "int \<Rightarrow> world \<Rightarrow> (sock \<times> world) result" where
  "CreateUDPSocket fd w = bindE (newSock fd (mk_Socket AF_INET UDP 0) w) (\<lambda>(s, w). Inr (s\<lparr>m_isConnected := True\<rparr>, w))"

definition CreateTCPSocket6 :: sock where
  "CreateTCPSocket6 = mk_Socket AF_INET6 TCP 0"

definition CreateUDPSocket6 :: "int \<Rightarrow> world \<Rightarrow> (sock \<times> world) result" where
  "CreateUDPSocket6 fd w = bindE (newSock fd (mk_Socket AF_INET6 UDP 0) w) (\<lambda>(s, w). Inr (s\<lparr>m_isConnected := True\<rparr>, w))"

definition CreateUnixTCPSocket :: sock where
  "CreateUnixTCPSocket = mk_Socket AF_UNIX TCP 0"

section \<open>Options\<close>

type_synonym kernel_options = "int \<times> int \<times> int \<Rightarrow> int option"

abbreviation (input) SOL_SOCKET :: int where "SOL_SOCKET \<equiv> 1"
abbreviation (input) SO_REUSEADDR :: int where "SO_REUSEADDR \<equiv> 2"
abbreviation (input) IPPROTO_TCP :: int where "IPPROTO_TCP \<equiv> 6"
abbreviation (input) TCP_NODELAY :: int where "TCP_NODELAY \<equiv> 1"

text \<open>\<open>takes\<close> says whether the kernel's \<^verbatim>\<open>setsockopt\<close> accepts an option on a descriptor.\<close>

definition getOption :: "int \<Rightarrow> int \<Rightarrow> sock \<Rightarrow> kernel_options \<Rightarrow> bool \<times> int option" where
  "getOption level opt s opts = (case opts (m_sock s, level, opt) of None \<Rightarrow> (False, None) | Some v \<Rightarrow> (True, Some v))"

definition setOption :: "(int \<times> int \<times> int \<Rightarrow> bool) \<Rightarrow> int \<Rightarrow> int \<Rightarrow> int \<Rightarrow> sock \<Rightarrow> kernel_options \<Rightarrow> bool \<times> kernel_options" where
  "setOption takes level opt v s opts =
     (if takes (m_sock s, level, opt) then (True, opts((m_sock s, level, opt) \<mapsto> v)) else (False, opts))"

definition initSock :: "(int \<times> int \<times> int \<Rightarrow> bool) \<Rightarrow> sock \<Rightarrow> kernel_options \<Rightarrow> kernel_options" where
  "initSock takes s opts =
     (let opts = snd (setOption takes SOL_SOCKET SO_REUSEADDR 1 s opts) in
      if m_type s = TCP then snd (setOption takes IPPROTO_TCP TCP_NODELAY 1 s opts) else opts)"

section \<open>Cancelling\<close>

text \<open>\<open>rt\<close> is what \<^verbatim>\<open>epoll_ctl\<close> returns.\<close>

definition on_manager :: "('f io_manager \<Rightarrow> (bool \<times> 'f io_manager) result) \<Rightarrow> 'f io_manager option
    \<Rightarrow> (bool \<times> 'f io_manager) result" where
  "on_manager f this = (case this of None \<Rightarrow> Inl Null_dereference | Some m \<Rightarrow> f m)"

definition cancelRead :: "int \<Rightarrow> sock \<Rightarrow> 'f io_manager option \<Rightarrow> (bool \<times> 'f io_manager) result" where
  "cancelRead rt s = on_manager (cancelEvent rt (m_sock s) READ)"

definition cancelWrite :: "int \<Rightarrow> sock \<Rightarrow> 'f io_manager option \<Rightarrow> (bool \<times> 'f io_manager) result" where
  "cancelWrite rt s = on_manager (cancelEvent rt (m_sock s) WRITE)"

definition cancelAccept :: "int \<Rightarrow> sock \<Rightarrow> 'f io_manager option \<Rightarrow> (bool \<times> 'f io_manager) result" where
  "cancelAccept rt s = on_manager (cancelEvent rt (m_sock s) READ)"

definition cancelAll :: "int \<Rightarrow> sock \<Rightarrow> 'f io_manager option \<Rightarrow> (bool \<times> 'f io_manager) result" where
  "cancelAll rt s = on_manager (cancelALL rt (m_sock s))"

section \<open>Properties\<close>

text \<open>
  A socket the kernel lets set its options reads them back; a new socket may reuse its address, and exactly a TCP socket
  sends without delay.
\<close>

lemma setOption_getOption:
  assumes "takes (m_sock s, level, opt)"
  shows "getOption level opt s (snd (setOption takes level opt v s opts)) = (True, Some v)"
  using assms by (simp add: getOption_def setOption_def)

lemma initSock_options:
  assumes "\<And>k. takes k" and "opts (m_sock s, IPPROTO_TCP, TCP_NODELAY) = None"
  shows "getOption SOL_SOCKET SO_REUSEADDR s (initSock takes s opts) = (True, Some 1)
     \<and> (fst (getOption IPPROTO_TCP TCP_NODELAY s (initSock takes s opts)) \<longleftrightarrow> m_type s = TCP)"
  using assms by (simp add: getOption_def setOption_def initSock_def Let_def)

text \<open>
  Cancelling on an open socket, in a thread with an IO manager, returns and leaves the manager in a consistent state, as
  does cancelling one direction. After \<^verbatim>\<open>close\<close> the descriptor is -1, which the check of the manager lets through: every
  cancelling of a closed socket reads outside the manager's table.
\<close>

theorem socket_cancel_outcome:
  assumes "io_inv m" and "0 \<le> m_sock s \<or> \<not> isVaild s"
  shows "if isVaild s
     then (\<exists>r m'. cancelAll rt s (Some m) = Inr (r, m') \<and> (r \<longrightarrow> events (m_fdContexts m' ! nat (m_sock s)) = 0))
       \<and> (\<exists>r m'. cancelRead rt s (Some m) = Inr (r, m') \<and> io_inv m') \<and> (\<exists>r m'. cancelWrite rt s (Some m) = Inr (r, m') \<and> io_inv m')
     else cancelAll rt s (Some m) = Inl Bad_index \<and> cancelRead rt s (Some m) = Inl Bad_index
       \<and> cancelWrite rt s (Some m) = Inl Bad_index \<and> cancelAccept rt s (Some m) = Inl Bad_index"
proof (cases "isVaild s")
  case True
  then have fd: "0 \<le> m_sock s" using assms(2) by blast
  obtain r m' where "cancelALL rt (m_sock s) m = Inr (r, m')"
      "if r then nat (m_sock s) < length (m_fdContexts m) \<and> retired (events (m_fdContexts m ! nat (m_sock s))) (nat (m_sock s)) m m' else m' = m"
    using cancelALL_ok [OF assms(1) fd, of rt] by blast
  then have "\<exists>r m'. cancelALL rt (m_sock s) m = Inr (r, m') \<and> (r \<longrightarrow> events (m_fdContexts m' ! nat (m_sock s)) = 0)"
    by (intro exI [of _ r] exI [of _ m']) (auto simp: retired_def split: if_splits)
  then show ?thesis
    using True cancelEvent_ok [OF assms(1) fd, of READ rt] cancelEvent_ok [OF assms(1) fd, of WRITE rt]
    by (simp add: cancelAll_def cancelRead_def cancelWrite_def on_manager_def)
next
  case False
  then have "m_sock s = -1" by (simp add: isVaild_def)
  then show ?thesis
    using False
    by (simp add: cancelAll_def cancelRead_def cancelWrite_def cancelAccept_def on_manager_def cancelEvent_def cancelALL_def context_at_def)
qed

lemma socket_cancel_outcome_witness:
  "cancelAll 0 (mk_Socket AF_INET TCP 0) (Some example_io) = Inl Bad_index"
proof -
  have "io_inv example_io" by (rule io_reachable_inv [OF example_io_reachable])
  from socket_cancel_outcome [OF this, of "mk_Socket AF_INET TCP 0" 0] show ?thesis by (simp add: mk_Socket_def isVaild_def)
qed

end
