(* ===== verification/Locks.thy ===== *)
theory Locks
  imports Prelude
begin

text \<open>
  The locks of \<^verbatim>\<open>thread.h\<close> and their scoped guards, and the counting semaphore of
  \<^verbatim>\<open>thread.cc\<close>. A pthread lock is the threads that hold it. A call by thread \<open>t\<close> is \<open>Done\<close> with the
  new state, \<open>Blocked\<close> (the caller waits, the state is unchanged), or \<open>Undefined\<close>: POSIX gives no
  meaning to releasing a lock the caller does not hold and to acquiring one that it holds
  exclusively. The guard templates are definitions over the two calls of their lock type; the
  locales \<open>guarded_lock\<close> and \<open>exclusive_lock\<close> state what the guards rely on, and are interpreted on
  the mutex, the spin lock and both sides of the read-write lock.
\<close>

section \<open>Results of a lock call\<close>

datatype 'a lock_result = Done 'a | Blocked | Undefined

definition bindL :: "'a lock_result \<Rightarrow> ('a \<Rightarrow> 'b lock_result) \<Rightarrow> 'b lock_result" where
  "bindL r f = (case r of Done a \<Rightarrow> f a | Blocked \<Rightarrow> Blocked | Undefined \<Rightarrow> Undefined)"

lemma bindL_simps [simp]:
  "bindL (Done a) f = f a" "bindL Blocked f = Blocked" "bindL Undefined f = Undefined"
  by (simp_all add: bindL_def)

lemma bindL_Done_iff: "bindL r f = Done b \<longleftrightarrow> (\<exists>a. r = Done a \<and> f a = Done b)"
  by (cases r) simp_all

section \<open>The locks\<close>

record mutex =
  mutex_owner :: "nat option"

definition mk_Mutex :: mutex where
  "mk_Mutex = \<lparr>mutex_owner = None\<rparr>"

definition Mutex_lock :: "nat \<Rightarrow> mutex \<Rightarrow> mutex lock_result" where
  "Mutex_lock t m = (case mutex_owner m of
     None \<Rightarrow> Done (m\<lparr>mutex_owner := Some t\<rparr>)
   | Some u \<Rightarrow> if u = t then Undefined else Blocked)"

definition Mutex_unlock :: "nat \<Rightarrow> mutex \<Rightarrow> mutex lock_result" where
  "Mutex_unlock t m = (if mutex_owner m = Some t then Done (m\<lparr>mutex_owner := None\<rparr>) else Undefined)"

record spinlock =
  spin_owner :: "nat option"

definition mk_SpinLock :: spinlock where
  "mk_SpinLock = \<lparr>spin_owner = None\<rparr>"

definition SpinLock_lock :: "nat \<Rightarrow> spinlock \<Rightarrow> spinlock lock_result" where
  "SpinLock_lock t m = (case spin_owner m of
     None \<Rightarrow> Done (m\<lparr>spin_owner := Some t\<rparr>)
   | Some u \<Rightarrow> if u = t then Undefined else Blocked)"

definition SpinLock_unlock :: "nat \<Rightarrow> spinlock \<Rightarrow> spinlock lock_result" where
  "SpinLock_unlock t m = (if spin_owner m = Some t then Done (m\<lparr>spin_owner := None\<rparr>) else Undefined)"

text \<open>The read-write lock: one writer or any number of reader holds; a thread may hold it for reading
  several times.\<close>

record rwmutex =
  rw_writer :: "nat option"
  rw_readers :: "nat list"

definition mk_RWMutex :: rwmutex where
  "mk_RWMutex = \<lparr>rw_writer = None, rw_readers = []\<rparr>"

definition RWMutex_rdlock :: "nat \<Rightarrow> rwmutex \<Rightarrow> rwmutex lock_result" where
  "RWMutex_rdlock t m = (case rw_writer m of
     None \<Rightarrow> Done (m\<lparr>rw_readers := t # rw_readers m\<rparr>)
   | Some u \<Rightarrow> if u = t then Undefined else Blocked)"

definition RWMutex_wrlock :: "nat \<Rightarrow> rwmutex \<Rightarrow> rwmutex lock_result" where
  "RWMutex_wrlock t m = (case rw_writer m of
     None \<Rightarrow> if rw_readers m = [] then Done (m\<lparr>rw_writer := Some t\<rparr>)
       else if t \<in> set (rw_readers m) then Undefined else Blocked
   | Some u \<Rightarrow> if u = t then Undefined else Blocked)"

definition RWMutex_unlock :: "nat \<Rightarrow> rwmutex \<Rightarrow> rwmutex lock_result" where
  "RWMutex_unlock t m =
    (if rw_writer m = Some t then Done (m\<lparr>rw_writer := None\<rparr>)
     else if t \<in> set (rw_readers m) then Done (m\<lparr>rw_readers := remove1 t (rw_readers m)\<rparr>)
     else Undefined)"

section \<open>The guards\<close>

text \<open>A guard is its flag; the reference to the lock is the second component of every pair. The
  templates \<^verbatim>\<open>ScopedLockImpl\<close> and \<^verbatim>\<open>ReadScopedLockImpl\<close> have the same members over \<^verbatim>\<open>lock\<close> and
  \<^verbatim>\<open>rdlock\<close>; \<^verbatim>\<open>WriteScopedLockImpl\<close> differs in its destructor, and its \<^verbatim>\<open>unlock\<close> leaves the flag.\<close>

record guard =
  m_locked :: bool

type_synonym 'm lock_call = "nat \<Rightarrow> 'm \<Rightarrow> 'm lock_result"

definition ScopedLockImpl :: "'m lock_call \<Rightarrow> nat \<Rightarrow> 'm \<Rightarrow> (guard \<times> 'm) lock_result" where
  "ScopedLockImpl lk t m = bindL (lk t m) (\<lambda>m'. Done (\<lparr>m_locked = True\<rparr>, m'))"

definition ScopedLockImpl_dtor :: "'m lock_call \<Rightarrow> nat \<Rightarrow> guard \<Rightarrow> 'm \<Rightarrow> 'm lock_result" where
  "ScopedLockImpl_dtor ul t g m = ul t m"

definition ScopedLockImpl_lock :: "'m lock_call \<Rightarrow> nat \<Rightarrow> guard \<Rightarrow> 'm \<Rightarrow> (guard \<times> 'm) lock_result" where
  "ScopedLockImpl_lock lk t g m =
    (if \<not> m_locked g then bindL (lk t m) (\<lambda>m'. Done (g\<lparr>m_locked := True\<rparr>, m')) else Done (g, m))"

definition ScopedLockImpl_unlock :: "'m lock_call \<Rightarrow> nat \<Rightarrow> guard \<Rightarrow> 'm \<Rightarrow> (guard \<times> 'm) lock_result" where
  "ScopedLockImpl_unlock ul t g m =
    (if m_locked g then bindL (ul t m) (\<lambda>m'. Done (g\<lparr>m_locked := False\<rparr>, m')) else Done (g, m))"

definition ReadScopedLockImpl :: "nat \<Rightarrow> rwmutex \<Rightarrow> (guard \<times> rwmutex) lock_result" where
  "ReadScopedLockImpl t m = bindL (RWMutex_rdlock t m) (\<lambda>m'. Done (\<lparr>m_locked = True\<rparr>, m'))"

definition ReadScopedLockImpl_dtor :: "nat \<Rightarrow> guard \<Rightarrow> rwmutex \<Rightarrow> rwmutex lock_result" where
  "ReadScopedLockImpl_dtor t g m = RWMutex_unlock t m"

definition ReadScopedLockImpl_lock :: "nat \<Rightarrow> guard \<Rightarrow> rwmutex \<Rightarrow> (guard \<times> rwmutex) lock_result" where
  "ReadScopedLockImpl_lock t g m =
    (if \<not> m_locked g then bindL (RWMutex_rdlock t m) (\<lambda>m'. Done (g\<lparr>m_locked := True\<rparr>, m')) else Done (g, m))"

definition ReadScopedLockImpl_unlock :: "nat \<Rightarrow> guard \<Rightarrow> rwmutex \<Rightarrow> (guard \<times> rwmutex) lock_result" where
  "ReadScopedLockImpl_unlock t g m =
    (if m_locked g then bindL (RWMutex_unlock t m) (\<lambda>m'. Done (g\<lparr>m_locked := False\<rparr>, m')) else Done (g, m))"

definition WriteScopedLockImpl :: "nat \<Rightarrow> rwmutex \<Rightarrow> (guard \<times> rwmutex) lock_result" where
  "WriteScopedLockImpl t m = bindL (RWMutex_wrlock t m) (\<lambda>m'. Done (\<lparr>m_locked = True\<rparr>, m'))"

definition WriteScopedLockImpl_lock :: "nat \<Rightarrow> guard \<Rightarrow> rwmutex \<Rightarrow> (guard \<times> rwmutex) lock_result" where
  "WriteScopedLockImpl_lock t g m =
    (if \<not> m_locked g then bindL (RWMutex_wrlock t m) (\<lambda>m'. Done (g\<lparr>m_locked := True\<rparr>, m')) else Done (g, m))"

definition WriteScopedLockImpl_unlock :: "nat \<Rightarrow> guard \<Rightarrow> rwmutex \<Rightarrow> (guard \<times> rwmutex) lock_result" where
  "WriteScopedLockImpl_unlock t g m =
    (if m_locked g then bindL (RWMutex_unlock t m) (\<lambda>m'. Done (g, m')) else Done (g, m))"

definition WriteScopedLockImpl_dtor :: "nat \<Rightarrow> guard \<Rightarrow> rwmutex \<Rightarrow> rwmutex lock_result" where
  "WriteScopedLockImpl_dtor t g m = bindL (WriteScopedLockImpl_unlock t g m) (\<lambda>(g', m'). Done m')"

lemma ReadScopedLockImpl_scoped:
  "ReadScopedLockImpl = ScopedLockImpl RWMutex_rdlock"
  "ReadScopedLockImpl_dtor = ScopedLockImpl_dtor RWMutex_unlock"
  "ReadScopedLockImpl_lock = ScopedLockImpl_lock RWMutex_rdlock"
  "ReadScopedLockImpl_unlock = ScopedLockImpl_unlock RWMutex_unlock"
  by (simp_all add: fun_eq_iff ReadScopedLockImpl_def ScopedLockImpl_def ReadScopedLockImpl_dtor_def
      ScopedLockImpl_dtor_def ReadScopedLockImpl_lock_def ScopedLockImpl_lock_def
      ReadScopedLockImpl_unlock_def ScopedLockImpl_unlock_def)

section \<open>One guard over its scope\<close>

text \<open>The body of a scope calls \<^verbatim>\<open>lock\<close> (\<open>True\<close>) and \<^verbatim>\<open>unlock\<close> (\<open>False\<close>) of its guard.\<close>

fun scoped_calls :: "'m lock_call \<Rightarrow> 'm lock_call \<Rightarrow> nat \<Rightarrow> bool list \<Rightarrow> guard \<times> 'm \<Rightarrow> (guard \<times> 'm) lock_result" where
  "scoped_calls lk ul t [] gm = Done gm"
| "scoped_calls lk ul t (c # cs) gm =
    bindL (if c then ScopedLockImpl_lock lk t (fst gm) (snd gm) else ScopedLockImpl_unlock ul t (fst gm) (snd gm))
      (scoped_calls lk ul t cs)"

definition scope :: "'m lock_call \<Rightarrow> 'm lock_call \<Rightarrow> nat \<Rightarrow> bool list \<Rightarrow> 'm \<Rightarrow> 'm lock_result" where
  "scope lk ul t cs m = bindL (ScopedLockImpl lk t m) (\<lambda>gm. bindL (scoped_calls lk ul t cs gm)
     (\<lambda>(g, m'). ScopedLockImpl_dtor ul t g m'))"

text \<open>The holds of the guard's thread beyond those it had before the scope.\<close>

definition tracks :: "('m \<Rightarrow> nat \<Rightarrow> nat) \<Rightarrow> nat \<Rightarrow> 'm \<Rightarrow> guard \<times> 'm \<Rightarrow> bool" where
  "tracks h t m0 gm \<longleftrightarrow> h (snd gm) = (h m0)(t := h m0 t + (if m_locked (fst gm) then 1 else 0))"

text \<open>What the guards rely on: \<open>hold m t\<close> counts the holds of thread \<open>t\<close>; an acquisition adds one and
  a release takes one back.\<close>

locale guarded_lock =
  fixes lk ul :: "'m lock_call" and hold :: "'m \<Rightarrow> nat \<Rightarrow> nat"
  assumes lk_Done: "lk t m = Done m' \<Longrightarrow> hold m' = (hold m)(t := Suc (hold m t))"
    and ul_Done: "ul t m = Done m' \<Longrightarrow> 0 < hold m t \<and> hold m' = (hold m)(t := hold m t - 1)"
    and ul_held: "0 < hold m t \<Longrightarrow> \<exists>m'. ul t m = Done m'"
    and ul_free: "hold m t = 0 \<Longrightarrow> ul t m = Undefined"
begin

lemma tracks_ctor: "ScopedLockImpl lk t m = Done gm \<Longrightarrow> tracks hold t m gm \<and> m_locked (fst gm)"
  by (auto simp: ScopedLockImpl_def bindL_Done_iff tracks_def dest: lk_Done)

lemma tracks_lock:
  "tracks hold t m0 (g, m) \<Longrightarrow> ScopedLockImpl_lock lk t g m = Done gm \<Longrightarrow> tracks hold t m0 gm \<and> m_locked (fst gm)"
  by (auto simp: ScopedLockImpl_lock_def bindL_Done_iff tracks_def dest!: lk_Done split: if_splits)

lemma tracks_unlock:
  assumes "tracks hold t m0 (g, m)" and "ScopedLockImpl_unlock ul t g m = Done gm"
  shows "tracks hold t m0 gm \<and> \<not> m_locked (fst gm)"
proof (cases "m_locked g")
  case True
  with assms(2) obtain m' where m': "ul t m = Done m'" "gm = (g\<lparr>m_locked := False\<rparr>, m')"
    by (auto simp: ScopedLockImpl_unlock_def bindL_Done_iff)
  from ul_Done [OF m'(1)] assms(1) True have "hold m' = (hold m0)(t := hold m0 t)"
    by (simp add: tracks_def)
  with m' show ?thesis by (simp add: tracks_def)
qed (use assms in \<open>auto simp: ScopedLockImpl_unlock_def\<close>)

lemma unlock_never_undefined:
  "tracks hold t m0 (g, m) \<Longrightarrow> \<exists>gm. ScopedLockImpl_unlock ul t g m = Done gm"
  using ul_held [of m t] by (cases "m_locked g") (auto simp: ScopedLockImpl_unlock_def tracks_def)

lemma tracks_calls:
  "tracks hold t m0 gm \<Longrightarrow> scoped_calls lk ul t cs gm = Done gm' \<Longrightarrow>
    tracks hold t m0 gm' \<and> m_locked (fst gm') = last (m_locked (fst gm) # cs)"
proof (induction cs arbitrary: gm)
  case (Cons c cs)
  from Cons.prems(2) obtain g1 where g1: "scoped_calls lk ul t cs g1 = Done gm'"
    "(if c then ScopedLockImpl_lock lk t (fst gm) (snd gm) else ScopedLockImpl_unlock ul t (fst gm) (snd gm)) = Done g1"
    by (auto simp: bindL_Done_iff)
  with Cons.prems(1) have "tracks hold t m0 g1 \<and> m_locked (fst g1) = c"
    using tracks_lock [of t m0 "fst gm" "snd gm" g1] tracks_unlock [of t m0 "fst gm" "snd gm" g1]
    by (simp split: if_splits)
  with Cons.IH [OF _ g1(1)] show ?case by simp
qed simp

text \<open>A scope that ends with its guard locked gives back exactly what it took.\<close>

lemma scope_balanced:
  assumes "bindL (ScopedLockImpl lk t m) (scoped_calls lk ul t cs) = Done (g, m')" and "last (True # cs)"
  shows "\<exists>m''. ScopedLockImpl_dtor ul t g m' = Done m'' \<and> hold m'' = hold m"
proof -
  from assms obtain gm where gm: "ScopedLockImpl lk t m = Done gm" "scoped_calls lk ul t cs gm = Done (g, m')"
    by (auto simp: bindL_Done_iff)
  with tracks_calls [OF _ gm(2)] tracks_ctor assms(2)
  have tr: "hold m' = (hold m)(t := Suc (hold m t))" by (fastforce simp: tracks_def)
  then obtain m'' where m'': "ul t m' = Done m''" using ul_held [of m' t] by auto
  from ul_Done [OF this] tr have "hold m'' = hold m" by simp
  with m'' show ?thesis by (simp add: ScopedLockImpl_dtor_def)
qed

text \<open>A scope that ends with its guard unlocked releases the lock a second time.\<close>

lemma scope_double_unlock:
  assumes "bindL (ScopedLockImpl lk t m) (scoped_calls lk ul t cs) = Done (g, m')" and "\<not> last (True # cs)"
    and "hold m t = 0"
  shows "ScopedLockImpl_dtor ul t g m' = Undefined"
proof -
  from assms obtain gm where gm: "ScopedLockImpl lk t m = Done gm" "scoped_calls lk ul t cs gm = Done (g, m')"
    by (auto simp: bindL_Done_iff)
  with tracks_calls [OF _ gm(2)] tracks_ctor assms(2,3)
  have "hold m' t = 0" by (fastforce simp: tracks_def)
  then show ?thesis by (simp add: ScopedLockImpl_dtor_def ul_free)
qed

lemma scope_outcome:
  assumes "bindL (ScopedLockImpl lk t m) (scoped_calls lk ul t cs) = Done (g, m')" and "hold m t = 0"
  shows "scope lk ul t cs m = Undefined \<longleftrightarrow> \<not> last (True # cs)"
    and "last (True # cs) \<Longrightarrow> \<exists>m''. scope lk ul t cs m = Done m'' \<and> hold m'' = hold m"
proof -
  from assms(1) have *: "scope lk ul t cs m = ScopedLockImpl_dtor ul t g m'"
    by (auto simp: scope_def bindL_Done_iff)
  from scope_balanced [OF assms(1)] scope_double_unlock [OF assms(1) _ assms(2)] *
  show "scope lk ul t cs m = Undefined \<longleftrightarrow> \<not> last (True # cs)"
    "last (True # cs) \<Longrightarrow> \<exists>m''. scope lk ul t cs m = Done m'' \<and> hold m'' = hold m" by auto
qed

end

section \<open>Many threads with one guard each\<close>

text \<open>Threads open and close scopes on one lock in any order; each holds at most one guard at a time.
  A step is one member call that returns, so a blocked call is the absence of a step.\<close>

record 'm lock_sys =
  shared :: 'm
  guards :: "nat \<Rightarrow> guard option"

inductive scoped_step :: "'m lock_call \<Rightarrow> 'm lock_call \<Rightarrow> 'm lock_sys \<Rightarrow> 'm lock_sys \<Rightarrow> bool" for lk ul where
  construct: "guards s t = None \<Longrightarrow> ScopedLockImpl lk t (shared s) = Done (g, m) \<Longrightarrow>
    scoped_step lk ul s (s\<lparr>shared := m, guards := (guards s)(t := Some g)\<rparr>)"
| relock: "guards s t = Some g \<Longrightarrow> ScopedLockImpl_lock lk t g (shared s) = Done (g', m) \<Longrightarrow>
    scoped_step lk ul s (s\<lparr>shared := m, guards := (guards s)(t := Some g')\<rparr>)"
| unlock: "guards s t = Some g \<Longrightarrow> ScopedLockImpl_unlock ul t g (shared s) = Done (g', m) \<Longrightarrow>
    scoped_step lk ul s (s\<lparr>shared := m, guards := (guards s)(t := Some g')\<rparr>)"
| destroy: "guards s t = Some g \<Longrightarrow> ScopedLockImpl_dtor ul t g (shared s) = Done m \<Longrightarrow>
    scoped_step lk ul s (s\<lparr>shared := m, guards := (guards s)(t := None)\<rparr>)"

inductive_cases scoped_stepE: "scoped_step lk ul s s'"

definition guard_locks :: "'m lock_sys \<Rightarrow> nat \<Rightarrow> bool" where
  "guard_locks s t = (case guards s t of Some g \<Rightarrow> m_locked g | None \<Rightarrow> False)"

definition no_guards :: "'m \<Rightarrow> 'm lock_sys" where
  "no_guards m = \<lparr>shared = m, guards = (\<lambda>t. None)\<rparr>"

text \<open>The holds of the lock are exactly the locked guards.\<close>

definition guards_exact :: "('m \<Rightarrow> nat \<Rightarrow> nat) \<Rightarrow> 'm lock_sys \<Rightarrow> bool" where
  "guards_exact h s \<longleftrightarrow> h (shared s) = (\<lambda>t. if guard_locks s t then 1 else 0)"

lemma guards_exact_at: "guards_exact h s \<Longrightarrow> h (shared s) t = (if guard_locks s t then 1 else 0)"
  by (simp add: guards_exact_def)

lemma guards_exact_upd:
  "guards_exact h s \<Longrightarrow>
    h m = (h (shared s))(t := case g of Some g' \<Rightarrow> (if m_locked g' then 1 else 0) | None \<Rightarrow> 0) \<Longrightarrow>
    guards_exact h (s\<lparr>shared := m, guards := (guards s)(t := g)\<rparr>)"
  by (auto simp: guards_exact_def guard_locks_def fun_eq_iff split: option.splits)

context guarded_lock
begin

lemma step_guards_exact:
  assumes "scoped_step lk ul s s'" and "guards_exact hold s"
  shows "guards_exact hold s'"
  using assms(1)
proof cases
  case (construct t g m)
  then have "lk t (shared s) = Done m" "m_locked g" by (auto simp: ScopedLockImpl_def bindL_Done_iff)
  with construct lk_Done [of t "shared s" m] guards_exact_at [OF assms(2), of t] show ?thesis
    by (auto intro!: guards_exact_upd [OF assms(2)] simp: guard_locks_def)
next
  case (relock t g g' m)
  show ?thesis
  proof (cases "m_locked g")
    case True
    with relock guards_exact_at [OF assms(2), of t] show ?thesis
      by (auto intro!: guards_exact_upd [OF assms(2)] simp: guard_locks_def ScopedLockImpl_lock_def)
  next
    case False
    with relock have "lk t (shared s) = Done m" "m_locked g'"
      by (auto simp: ScopedLockImpl_lock_def bindL_Done_iff)
    with False relock lk_Done [of t "shared s" m] guards_exact_at [OF assms(2), of t] show ?thesis
      by (auto intro!: guards_exact_upd [OF assms(2)] simp: guard_locks_def)
  qed
next
  case (unlock t g g' m)
  show ?thesis
  proof (cases "m_locked g")
    case True
    with unlock have "ul t (shared s) = Done m" "\<not> m_locked g'"
      by (auto simp: ScopedLockImpl_unlock_def bindL_Done_iff)
    with True unlock ul_Done [of t "shared s" m] guards_exact_at [OF assms(2), of t] show ?thesis
      by (auto intro!: guards_exact_upd [OF assms(2)] simp: guard_locks_def fun_eq_iff)
  next
    case False
    with unlock guards_exact_at [OF assms(2), of t] show ?thesis
      by (auto intro!: guards_exact_upd [OF assms(2)] simp: guard_locks_def ScopedLockImpl_unlock_def)
  qed
next
  case (destroy t g m)
  then have "ul t (shared s) = Done m" by (simp add: ScopedLockImpl_dtor_def)
  with destroy ul_Done [of t "shared s" m] guards_exact_at [OF assms(2), of t] show ?thesis
    by (auto intro!: guards_exact_upd [OF assms(2)] simp: fun_eq_iff split: if_splits)
qed

lemma reachable_guards_exact:
  assumes "(scoped_step lk ul)\<^sup>*\<^sup>* (no_guards m) s" and "hold m = (\<lambda>t. 0)"
  shows "guards_exact hold s"
  using assms
proof (induction rule: rtranclp_induct)
  case base
  then show ?case by (simp add: guards_exact_def no_guards_def guard_locks_def)
next
  case (step s s')
  then show ?case by (blast intro: step_guards_exact)
qed

text \<open>The only undefined call is the destruction of an unlocked guard.\<close>

lemma unlocked_guard_destroyed:
  assumes "guards_exact hold s" and "guards s t = Some g"
  shows "ScopedLockImpl_dtor ul t g (shared s) = Undefined \<longleftrightarrow> \<not> m_locked g"
    and "\<exists>gm. ScopedLockImpl_unlock ul t g (shared s) = Done gm"
proof -
  have h: "hold (shared s) t = (if m_locked g then 1 else 0)"
    using assms by (auto simp: guards_exact_def guard_locks_def fun_eq_iff)
  with ul_held [of "shared s" t] ul_free [of "shared s" t]
  show "ScopedLockImpl_dtor ul t g (shared s) = Undefined \<longleftrightarrow> \<not> m_locked g"
    by (auto simp: ScopedLockImpl_dtor_def)
  show "\<exists>gm. ScopedLockImpl_unlock ul t g (shared s) = Done gm"
    using h ul_held [of "shared s" t] by (auto simp: ScopedLockImpl_unlock_def)
qed

end

text \<open>A lock that is taken only when nobody holds it.\<close>

locale exclusive_lock = guarded_lock +
  assumes lk_free: "lk t m = Done m' \<Longrightarrow> hold m = (\<lambda>t. 0)"
    and lk_available: "hold m = (\<lambda>t. 0) \<Longrightarrow> \<exists>m'. lk t m = Done m'"
begin

text \<open>Mutual exclusion.\<close>

lemma step_exclusive:
  assumes "scoped_step lk ul s s'" and "guards_exact hold s"
    and "\<And>t u. guard_locks s t \<Longrightarrow> guard_locks s u \<Longrightarrow> t = u" and "guard_locks s' t" and "guard_locks s' u"
  shows "t = u"
proof -
  have free: "lk v (shared s) = Done m \<Longrightarrow> \<not> guard_locks s w" for v m w
    using lk_free [of v "shared s" m] guards_exact_at [OF assms(2), of w] by (auto split: if_splits)
  from assms(1) show ?thesis
  proof cases
    case (construct v g m)
    then have "\<not> guard_locks s w" for w using free by (auto simp: ScopedLockImpl_def bindL_Done_iff)
    with construct assms(4,5) show ?thesis by (auto simp: guard_locks_def split: if_splits option.splits)
  next
    case (relock v g g' m)
    show ?thesis
    proof (cases "m_locked g")
      case True
      with relock have "guard_locks s' w = guard_locks s w" for w
        by (auto simp: guard_locks_def ScopedLockImpl_lock_def)
      with assms show ?thesis by blast
    next
      case False
      with relock have "\<not> guard_locks s w" for w
        using free by (auto simp: ScopedLockImpl_lock_def bindL_Done_iff)
      with relock assms(4,5) show ?thesis by (auto simp: guard_locks_def split: if_splits option.splits)
    qed
  next
    case (unlock v g g' m)
    then have "guard_locks s' w \<Longrightarrow> guard_locks s w" for w
      by (auto simp: guard_locks_def ScopedLockImpl_unlock_def bindL_Done_iff split: if_splits option.splits)
    with assms show ?thesis by blast
  next
    case (destroy v g m)
    then have "guard_locks s' w \<Longrightarrow> guard_locks s w" for w
      by (auto simp: guard_locks_def split: if_splits option.splits)
    with assms show ?thesis by blast
  qed
qed

lemma reachable_exclusive:
  assumes "(scoped_step lk ul)\<^sup>*\<^sup>* (no_guards m) s" and "hold m = (\<lambda>t. 0)"
    and "guard_locks s t" and "guard_locks s u"
  shows "t = u"
proof -
  from assms(1) have "\<forall>t u. guard_locks s t \<longrightarrow> guard_locks s u \<longrightarrow> t = u"
  proof (induction rule: rtranclp_induct)
    case base
    then show ?case by (simp add: no_guards_def guard_locks_def)
  next
    case (step s s')
    with reachable_guards_exact [OF step.hyps(1) assms(2)] show ?case by (blast intro: step_exclusive)
  qed
  with assms show ?thesis by blast
qed

text \<open>Nobody waits in vain: when no guard is locked, any thread without a guard can open its scope.\<close>

lemma scope_opens:
  assumes "guards_exact hold s" and "\<And>u. \<not> guard_locks s u"
  shows "\<exists>g m. ScopedLockImpl lk t (shared s) = Done (g, m)"
proof -
  from assms have "hold (shared s) = (\<lambda>t. 0)" by (simp add: guards_exact_def)
  from lk_available [OF this, of t] show ?thesis by (auto simp: ScopedLockImpl_def)
qed

end

section \<open>The locks keep the contract\<close>

definition owner_hold :: "nat option \<Rightarrow> nat \<Rightarrow> nat" where
  "owner_hold w t = (if w = Some t then 1 else 0)"

definition rw_hold :: "rwmutex \<Rightarrow> nat \<Rightarrow> nat" where
  "rw_hold m t = owner_hold (rw_writer m) t + count_list (rw_readers m) t"

lemma owner_hold_zero [simp]: "owner_hold w = (\<lambda>t. 0) \<longleftrightarrow> w = None"
  by (cases w) (auto simp: owner_hold_def fun_eq_iff)

interpretation mutex_guard: exclusive_lock Mutex_lock Mutex_unlock "owner_hold \<circ> mutex_owner"
  by unfold_locales
    (auto simp: Mutex_lock_def Mutex_unlock_def owner_hold_def fun_eq_iff split: option.splits if_splits)

interpretation spin_guard: exclusive_lock SpinLock_lock SpinLock_unlock "owner_hold \<circ> spin_owner"
  by unfold_locales
    (auto simp: SpinLock_lock_def SpinLock_unlock_def owner_hold_def fun_eq_iff split: option.splits if_splits)

lemma count_list_pos_iff: "0 < count_list xs t \<longleftrightarrow> t \<in> set xs"
  using count_list_0_iff [of xs t] by auto

interpretation rw_read: guarded_lock RWMutex_rdlock RWMutex_unlock rw_hold
  by unfold_locales
    (auto simp: RWMutex_rdlock_def RWMutex_unlock_def rw_hold_def owner_hold_def fun_eq_iff count_list_remove1
      count_list_0_iff count_list_pos_iff split: option.splits if_splits)

lemma rw_hold_zero: "rw_hold m = (\<lambda>t. 0) \<longleftrightarrow> rw_writer m = None \<and> rw_readers m = []"
proof
  assume "rw_hold m = (\<lambda>t. 0)"
  then have "owner_hold (rw_writer m) = (\<lambda>t. 0)" and "\<And>t. t \<notin> set (rw_readers m)"
    by (auto simp: rw_hold_def fun_eq_iff count_list_0_iff)
  then show "rw_writer m = None \<and> rw_readers m = []" by (cases "rw_readers m") auto
qed (simp add: rw_hold_def owner_hold_def fun_eq_iff)

interpretation rw_write: exclusive_lock RWMutex_wrlock RWMutex_unlock rw_hold
  by unfold_locales
    (auto simp: rw_hold_zero rw_read.ul_held rw_read.ul_free RWMutex_wrlock_def
      rw_hold_def owner_hold_def count_list_pos_iff count_list_0_iff RWMutex_unlock_def fun_eq_iff count_list_remove1
      split: option.splits if_splits)

section \<open>Readers and writers\<close>

text \<open>Threads with a read guard or a write guard on one read-write lock. No code of the framework
  calls \<^verbatim>\<open>unlock\<close> of a write guard itself; the flag of the relation says whether that call is part of
  the system.\<close>

datatype side = Reading | Writing

record rw_sys =
  rw_shared :: rwmutex
  rw_guards :: "nat \<Rightarrow> (side \<times> guard) option"

definition rw_put :: "nat \<Rightarrow> (side \<times> guard) option \<Rightarrow> rwmutex \<Rightarrow> rw_sys \<Rightarrow> rw_sys" where
  "rw_put t g m s = s\<lparr>rw_shared := m, rw_guards := (rw_guards s)(t := g)\<rparr>"

lemma rw_put_simps [simp]:
  "rw_shared (rw_put t g m s) = m" "rw_guards (rw_put t g m s) = (rw_guards s)(t := g)"
  by (simp_all add: rw_put_def)

inductive rw_step :: "bool \<Rightarrow> rw_sys \<Rightarrow> rw_sys \<Rightarrow> bool" for early where
  read_construct: "rw_guards s t = None \<Longrightarrow> ReadScopedLockImpl t (rw_shared s) = Done (g, m) \<Longrightarrow>
    rw_step early s (rw_put t (Some (Reading, g)) m s)"
| read_lock: "rw_guards s t = Some (Reading, g) \<Longrightarrow> ReadScopedLockImpl_lock t g (rw_shared s) = Done (g', m) \<Longrightarrow>
    rw_step early s (rw_put t (Some (Reading, g')) m s)"
| read_unlock: "rw_guards s t = Some (Reading, g) \<Longrightarrow> ReadScopedLockImpl_unlock t g (rw_shared s) = Done (g', m) \<Longrightarrow>
    rw_step early s (rw_put t (Some (Reading, g')) m s)"
| read_destroy: "rw_guards s t = Some (Reading, g) \<Longrightarrow> ReadScopedLockImpl_dtor t g (rw_shared s) = Done m \<Longrightarrow>
    rw_step early s (rw_put t None m s)"
| write_construct: "rw_guards s t = None \<Longrightarrow> WriteScopedLockImpl t (rw_shared s) = Done (g, m) \<Longrightarrow>
    rw_step early s (rw_put t (Some (Writing, g)) m s)"
| write_lock: "rw_guards s t = Some (Writing, g) \<Longrightarrow> WriteScopedLockImpl_lock t g (rw_shared s) = Done (g', m) \<Longrightarrow>
    rw_step early s (rw_put t (Some (Writing, g')) m s)"
| write_unlock: "early \<Longrightarrow> rw_guards s t = Some (Writing, g) \<Longrightarrow>
    WriteScopedLockImpl_unlock t g (rw_shared s) = Done (g', m) \<Longrightarrow>
    rw_step early s (rw_put t (Some (Writing, g')) m s)"
| write_destroy: "rw_guards s t = Some (Writing, g) \<Longrightarrow> WriteScopedLockImpl_dtor t g (rw_shared s) = Done m \<Longrightarrow>
    rw_step early s (rw_put t None m s)"

definition rw_idle :: rw_sys where
  "rw_idle = \<lparr>rw_shared = mk_RWMutex, rw_guards = (\<lambda>t. None)\<rparr>"

text \<open>The lock and the guards agree: the writer is the thread with a locked write guard, the readers
  are those with a locked read guard, and they exclude each other.\<close>

definition reads :: "rw_sys \<Rightarrow> nat \<Rightarrow> bool" where
  "reads s t = (case rw_guards s t of Some (Reading, g) \<Rightarrow> m_locked g | _ \<Rightarrow> False)"

definition writes :: "rw_sys \<Rightarrow> nat \<Rightarrow> bool" where
  "writes s t = (case rw_guards s t of Some (Writing, g) \<Rightarrow> m_locked g | _ \<Rightarrow> False)"

definition rw_agree :: "rw_sys \<Rightarrow> bool" where
  "rw_agree s \<longleftrightarrow>
     (\<forall>t. writes s t = (rw_writer (rw_shared s) = Some t)) \<and>
     (\<forall>t. count_list (rw_readers (rw_shared s)) t = (if reads s t then 1 else 0)) \<and>
     (rw_writer (rw_shared s) \<noteq> None \<longrightarrow> rw_readers (rw_shared s) = []) \<and>
     (\<forall>t g. rw_guards s t = Some (Writing, g) \<longrightarrow> m_locked g)"

lemmas rw_guard_defs = ReadScopedLockImpl_def ReadScopedLockImpl_lock_def ReadScopedLockImpl_unlock_def
  ReadScopedLockImpl_dtor_def WriteScopedLockImpl_def WriteScopedLockImpl_lock_def WriteScopedLockImpl_unlock_def
  WriteScopedLockImpl_dtor_def bindL_Done_iff

lemmas rw_call_defs = RWMutex_rdlock_def RWMutex_wrlock_def RWMutex_unlock_def

lemma reads_put [simp]:
  "reads (rw_put t g m s) u = (if u = t then (case g of Some (Reading, g') \<Rightarrow> m_locked g' | _ \<Rightarrow> False) else reads s u)"
  by (simp add: reads_def)

lemma writes_put [simp]:
  "writes (rw_put t g m s) u = (if u = t then (case g of Some (Writing, g') \<Rightarrow> m_locked g' | _ \<Rightarrow> False) else writes s u)"
  by (simp add: writes_def)

lemma rw_agreeD:
  assumes "rw_agree s"
  shows "writes s t = (rw_writer (rw_shared s) = Some t)"
    and "count_list (rw_readers (rw_shared s)) t = (if reads s t then 1 else 0)"
    and "rw_writer (rw_shared s) \<noteq> None \<Longrightarrow> rw_readers (rw_shared s) = []"
    and "rw_guards s t = Some (Writing, g) \<Longrightarrow> m_locked g"
  using assms by (auto simp: rw_agree_def)

text \<open>The four things a member call can do to the lock, with the guard it leaves.\<close>

lemma agree_idle_call:
  assumes "rw_agree s" and "rw_guards s t = Some (k, g)"
  shows "rw_agree (rw_put t (Some (k, g)) (rw_shared s) s)"
proof -
  have "rw_put t (Some (k, g)) (rw_shared s) s = s" using assms(2) by (cases s) (auto simp: rw_put_def)
  with assms(1) show ?thesis by simp
qed

lemma agree_rdlock:
  assumes "rw_agree s" and "RWMutex_rdlock t (rw_shared s) = Done m" and "\<not> reads s t" and "m_locked g"
  shows "rw_agree (rw_put t (Some (Reading, g)) m s)"
proof -
  from assms(2) have w: "rw_writer (rw_shared s) = None" "rw_writer m = None" "rw_readers m = t # rw_readers (rw_shared s)"
    by (auto simp: RWMutex_rdlock_def split: option.splits if_splits)
  show ?thesis unfolding rw_agree_def
    using w assms(3,4) rw_agreeD [OF assms(1)] by (auto split: if_splits)
qed

lemma agree_wrlock:
  assumes "rw_agree s" and "RWMutex_wrlock t (rw_shared s) = Done m" and "\<not> reads s t" and "m_locked g"
  shows "rw_agree (rw_put t (Some (Writing, g)) m s)"
proof -
  from assms(2) have w: "rw_writer (rw_shared s) = None" "rw_writer m = Some t" "rw_readers m = []"
    "rw_readers (rw_shared s) = []"
    by (auto simp: RWMutex_wrlock_def split: option.splits if_splits)
  have "\<not> reads s u" for u using rw_agreeD(2) [OF assms(1), of u] w(4) by (auto split: if_splits)
  then show ?thesis unfolding rw_agree_def
    using w assms(3,4) rw_agreeD(1,4) [OF assms(1)] by (auto split: if_splits)
qed

lemma agree_unlock:
  assumes "rw_agree s" and "RWMutex_unlock t (rw_shared s) = Done m" and "\<And>g'. g = Some g' \<Longrightarrow> fst g' = Reading \<and> \<not> m_locked (snd g')"
  shows "rw_agree (rw_put t g m s)"
proof (cases "rw_writer (rw_shared s) = Some t")
  case True
  with assms(2) have w: "rw_writer m = None" "rw_readers m = rw_readers (rw_shared s)"
    by (auto simp: RWMutex_unlock_def)
  have r: "rw_readers (rw_shared s) = []" using rw_agreeD(3) [OF assms(1)] True by simp
  have "\<not> reads s u" for u using rw_agreeD(2) [OF assms(1), of u] r by (auto split: if_splits)
  then show ?thesis unfolding rw_agree_def
    using w r True assms(3) rw_agreeD(1,4) [OF assms(1)] by (cases g) (auto split: if_splits side.splits)
next
  case False
  with assms(2) have w: "rw_writer m = rw_writer (rw_shared s)" "rw_readers m = remove1 t (rw_readers (rw_shared s))"
    "t \<in> set (rw_readers (rw_shared s))"
    by (auto simp: RWMutex_unlock_def split: if_splits)
  then have n: "rw_writer (rw_shared s) = None" using rw_agreeD(3) [OF assms(1)] by fastforce
  show ?thesis unfolding rw_agree_def
    using w n assms(3) rw_agreeD(1,2,4) [OF assms(1)]
    by (cases g) (auto simp: count_list_remove1 split: if_splits side.splits)
qed

lemma rw_agree_step:
  assumes "rw_step False s s'" and "rw_agree s"
  shows "rw_agree s'"
  using assms(1)
proof cases
  case (read_lock t g g' m)
  then show ?thesis using assms(2)
    by (cases "m_locked g") (auto simp: rw_guard_defs reads_def intro: agree_idle_call agree_rdlock)
next
  case (read_unlock t g g' m)
  then show ?thesis using assms(2)
    by (cases "m_locked g") (auto simp: rw_guard_defs intro: agree_idle_call agree_unlock)
next
  case (write_lock t g g' m)
  then show ?thesis using assms(2) rw_agreeD(4) [OF assms(2) write_lock(2)]
    by (auto simp: rw_guard_defs intro: agree_idle_call)
next
  case (write_destroy t g m)
  then show ?thesis using assms(2) rw_agreeD(4) [OF assms(2) write_destroy(2)]
    by (auto simp: rw_guard_defs intro: agree_unlock)
qed (use assms(2) in \<open>auto simp: rw_guard_defs reads_def intro: agree_rdlock agree_wrlock agree_unlock\<close>)

lemma rw_agree_reachable: "(rw_step False)\<^sup>*\<^sup>* rw_idle s \<Longrightarrow> rw_agree s"
proof (induction rule: rtranclp_induct)
  case base
  then show ?case by (simp add: rw_agree_def rw_idle_def mk_RWMutex_def reads_def writes_def)
next
  case (step s s')
  then show ?case by (blast intro: rw_agree_step)
qed

lemma rw_agree_excludes:
  assumes "rw_agree s" and "writes s t" and "reads s u \<or> writes s u"
  shows "writes s u \<and> u = t"
proof -
  have w: "rw_writer (rw_shared s) = Some t" using rw_agreeD(1) [OF assms(1)] assms(2) by simp
  then have "rw_readers (rw_shared s) = []" using rw_agreeD(3) [OF assms(1)] by simp
  then have "\<not> reads s u" using rw_agreeD(2) [OF assms(1), of u] by (auto split: if_splits)
  with assms(3) w show ?thesis using rw_agreeD(1) [OF assms(1)] by auto
qed

section \<open>Properties of the guards\<close>

lemma scoped_lock_facts:
  assumes "(scoped_step Mutex_lock Mutex_unlock)\<^sup>*\<^sup>* (no_guards mk_Mutex) s"
  shows "guard_locks s t \<longleftrightarrow> mutex_owner (shared s) = Some t"
    and "guards s t = Some g \<Longrightarrow>
      ScopedLockImpl_dtor Mutex_unlock t g (shared s) = Undefined \<longleftrightarrow> \<not> m_locked g"
    and "mutex_owner (shared s) = None \<Longrightarrow> \<exists>gm. ScopedLockImpl Mutex_lock t (shared s) = Done gm"
proof -
  have ex: "guards_exact (owner_hold \<circ> mutex_owner) s"
    using mutex_guard.reachable_guards_exact [OF assms] by (simp add: mk_Mutex_def owner_hold_def comp_def)
  from guards_exact_at [OF this, of t] show loc: "guard_locks s t \<longleftrightarrow> mutex_owner (shared s) = Some t"
    by (auto simp: owner_hold_def split: if_splits)
  show "guards s t = Some g \<Longrightarrow>
      ScopedLockImpl_dtor Mutex_unlock t g (shared s) = Undefined \<longleftrightarrow> \<not> m_locked g"
    by (rule mutex_guard.unlocked_guard_destroyed(1) [OF ex])
  assume "mutex_owner (shared s) = None"
  then have "\<not> guard_locks s u" for u using guards_exact_at [OF ex, of u] by (auto simp: owner_hold_def split: if_splits)
  from mutex_guard.scope_opens [OF ex this] show "\<exists>gm. ScopedLockImpl Mutex_lock t (shared s) = Done gm" by blast
qed

text \<open>C19: the scoped guards of a mutex give mutual exclusion: in every state that threads reach by
  opening, relocking, unlocking and closing scopes on one mutex in any order, at most one guard is
  locked, and the owner of the mutex is exactly the thread of the locked guard. A thread whose guard is
  unlocked when its scope ends makes an undefined call.\<close>

theorem scoped_lock_exclusion:
  assumes "(scoped_step Mutex_lock Mutex_unlock)\<^sup>*\<^sup>* (no_guards mk_Mutex) s"
  shows "(\<forall>t. guard_locks s t \<longleftrightarrow> mutex_owner (shared s) = Some t) \<and>
    (\<forall>t g. guards s t = Some g \<longrightarrow>
      (ScopedLockImpl_dtor Mutex_unlock t g (shared s) = Undefined \<longleftrightarrow> \<not> m_locked g)) \<and>
    (mutex_owner (shared s) = None \<longrightarrow> (\<forall>t. \<exists>gm. ScopedLockImpl Mutex_lock t (shared s) = Done gm))"
  using scoped_lock_facts [OF assms] by blast

theorem scoped_lock_exclusion_witness:
  "guard_locks \<lparr>shared = \<lparr>mutex_owner = Some 4\<rparr>, guards = (\<lambda>t. None)(4 := Some \<lparr>m_locked = True\<rparr>)\<rparr> 4"
proof -
  have "scoped_step Mutex_lock Mutex_unlock (no_guards mk_Mutex)
      ((no_guards mk_Mutex)\<lparr>shared := \<lparr>mutex_owner = Some 4\<rparr>,
        guards := (guards (no_guards mk_Mutex))(4 := Some \<lparr>m_locked = True\<rparr>)\<rparr>)"
    by (rule scoped_step.construct) (simp_all add: no_guards_def mk_Mutex_def ScopedLockImpl_def Mutex_lock_def)
  then have "(scoped_step Mutex_lock Mutex_unlock)\<^sup>*\<^sup>* (no_guards mk_Mutex)
      \<lparr>shared = \<lparr>mutex_owner = Some 4\<rparr>, guards = (\<lambda>t. None)(4 := Some \<lparr>m_locked = True\<rparr>)\<rparr>"
    by (simp add: no_guards_def)
  from scoped_lock_exclusion [OF this] show ?thesis by simp
qed

lemma rw_guard_facts:
  assumes "(rw_step False)\<^sup>*\<^sup>* rw_idle s"
  shows "writes s t \<Longrightarrow> reads s u \<or> writes s u \<Longrightarrow> writes s u \<and> u = t"
    and "writes s t \<longleftrightarrow> rw_writer (rw_shared s) = Some t"
    and "reads s t \<longleftrightarrow> t \<in> set (rw_readers (rw_shared s))"
    and "rw_guards s t = Some (Writing, g) \<Longrightarrow> \<exists>m. WriteScopedLockImpl_dtor t g (rw_shared s) = Done m"
proof -
  note ag = rw_agree_reachable [OF assms]
  show "writes s t \<Longrightarrow> reads s u \<or> writes s u \<Longrightarrow> writes s u \<and> u = t" by (rule rw_agree_excludes [OF ag])
  show w: "writes s t \<longleftrightarrow> rw_writer (rw_shared s) = Some t" by (rule rw_agreeD(1) [OF ag])
  show "reads s t \<longleftrightarrow> t \<in> set (rw_readers (rw_shared s))"
    using rw_agreeD(2) [OF ag, of t] count_list_pos_iff [of "rw_readers (rw_shared s)" t] by (simp split: if_splits)
  assume "rw_guards s t = Some (Writing, g)"
  with rw_agreeD(4) [OF ag] w have "m_locked g" "rw_writer (rw_shared s) = Some t" by (auto simp: writes_def)
  then show "\<exists>m. WriteScopedLockImpl_dtor t g (rw_shared s) = Done m"
    by (simp add: rw_guard_defs RWMutex_unlock_def WriteScopedLockImpl_dtor_def)
qed

text \<open>C20: readers and writers exclude each other as long as no write guard is unlocked before its scope
  ends: while a write guard is locked no other guard of the lock is, and read guards coexist only with
  read guards. The lock has a writer or readers exactly when guards say so.\<close>

theorem rw_guards_exclude:
  assumes "(rw_step False)\<^sup>*\<^sup>* rw_idle s"
  shows "(\<forall>t u. writes s t \<longrightarrow> reads s u \<or> writes s u \<longrightarrow> writes s u \<and> u = t) \<and>
    (\<forall>t. (writes s t \<longleftrightarrow> rw_writer (rw_shared s) = Some t) \<and>
         (reads s t \<longleftrightarrow> t \<in> set (rw_readers (rw_shared s)))) \<and>
    (\<forall>t g. rw_guards s t = Some (Writing, g) \<longrightarrow>
         (\<exists>m. WriteScopedLockImpl_dtor t g (rw_shared s) = Done m))"
  using rw_guard_facts [OF assms] by blast

theorem rw_guards_exclude_witness:
  "writes (rw_put 2 (Some (Writing, \<lparr>m_locked = True\<rparr>)) \<lparr>rw_writer = Some 2, rw_readers = []\<rparr> rw_idle) 2"
proof -
  have "(rw_step False)\<^sup>*\<^sup>* rw_idle
      (rw_put 2 (Some (Writing, \<lparr>m_locked = True\<rparr>)) \<lparr>rw_writer = Some 2, rw_readers = []\<rparr> rw_idle)"
    by (rule r_into_rtranclp, rule rw_step.write_construct)
      (simp_all add: rw_idle_def WriteScopedLockImpl_def RWMutex_wrlock_def mk_RWMutex_def)
  from rw_guards_exclude [OF this] show ?thesis by simp
qed

text \<open>Once a write guard has been unlocked, its flag still says it is locked: \<^verbatim>\<open>lock\<close> then returns at
  once while another thread owns the lock, and closing the scope is an undefined call.\<close>

lemma write_guard_unlock_keeps_flag:
  assumes "WriteScopedLockImpl t m = Done (g, m1)" and "WriteScopedLockImpl_unlock t g m1 = Done (g', m2)"
    and "WriteScopedLockImpl u m2 = Done (h, m3)" and "u \<noteq> t"
  shows "WriteScopedLockImpl_lock t g' m3 = Done (g', m3)" and "rw_writer m3 = Some u"
    and "WriteScopedLockImpl_dtor t g' m3 = Undefined"
  using assms
  by (auto simp: rw_guard_defs rw_call_defs WriteScopedLockImpl_dtor_def split: option.splits if_splits)

text \<open>a scope over a mutex, whose thread did not hold it before, gives back exactly what it took when
  the last call in it left the guard locked, and otherwise unlocks the mutex a second time; in
  particular \<^verbatim>\<open>Scheduler::start\<close>, which ends with \<^verbatim>\<open>lock.unlock()\<close>, does.\<close>

theorem scope_unlock_outcome:
  assumes "bindL (ScopedLockImpl Mutex_lock t m) (scoped_calls Mutex_lock Mutex_unlock t cs) = Done (g, m')"
    and "mutex_owner m \<noteq> Some t"
  shows "scope Mutex_lock Mutex_unlock t cs m =
    (if last (True # cs) then Done m else Undefined)"
proof -
  have h: "(owner_hold \<circ> mutex_owner) m t = 0" using assms(2) by (simp add: owner_hold_def)
  note out = mutex_guard.scope_outcome [OF assms(1) h]
  show ?thesis
  proof (cases "last (True # cs)")
    case True
    with out(2) obtain m'' where m'': "scope Mutex_lock Mutex_unlock t cs m = Done m''"
      "owner_hold (mutex_owner m'') = owner_hold (mutex_owner m)" by auto
    then have "mutex_owner m'' = mutex_owner m"
      by (cases "mutex_owner m''"; cases "mutex_owner m") (auto simp: owner_hold_def fun_eq_iff split: if_splits)
    with m'' True show ?thesis by simp
  qed (use out(1) in simp)
qed

theorem scope_unlock_outcome_witness:
  "scope Mutex_lock Mutex_unlock 1 [False] mk_Mutex = Undefined \<and>
   scope Mutex_lock Mutex_unlock 1 [False, True] mk_Mutex = Done mk_Mutex"
proof -
  have 1: "bindL (ScopedLockImpl Mutex_lock 1 mk_Mutex) (scoped_calls Mutex_lock Mutex_unlock 1 [False]) =
      Done (\<lparr>m_locked = False\<rparr>, mk_Mutex)"
    by (simp add: ScopedLockImpl_def Mutex_lock_def mk_Mutex_def ScopedLockImpl_unlock_def Mutex_unlock_def)
  have 2: "bindL (ScopedLockImpl Mutex_lock 1 mk_Mutex) (scoped_calls Mutex_lock Mutex_unlock 1 [False, True]) =
      Done (\<lparr>m_locked = True\<rparr>, \<lparr>mutex_owner = Some 1\<rparr>)"
    by (simp add: ScopedLockImpl_def Mutex_lock_def mk_Mutex_def ScopedLockImpl_unlock_def Mutex_unlock_def
        ScopedLockImpl_lock_def)
  show ?thesis
    using scope_unlock_outcome [OF 1] scope_unlock_outcome [OF 2] by (simp add: mk_Mutex_def)
qed

end
