(* ===== verification/Threads.thy ===== *)
theory Threads
  imports Prelude
begin

text \<open>
  \<^verbatim>\<open>Semaphore\<close> and \<^verbatim>\<open>Thread\<close> of \<^verbatim>\<open>thread.h\<close> and \<^verbatim>\<open>thread.cc\<close>. The constructor of a thread and the
  entry function \<^verbatim>\<open>Thread::run\<close> are two programs over the shared thread object, one statement per
  step, in any interleaving; the answers of pthread and of the kernel are arguments of the steps.
\<close>

section \<open>The counting semaphore\<close>

record semaphore =
  sem_count :: int

definition SEM_VALUE_MAX :: int where
  "SEM_VALUE_MAX = 2 ^ 31 - 1"

definition mk_Semaphore :: "uint32 \<Rightarrow> semaphore result" where
  "mk_Semaphore n = (if uint n > SEM_VALUE_MAX then Inl Logic_error else Inr \<lparr>sem_count = uint n\<rparr>)"

text \<open>\<^verbatim>\<open>sem_wait\<close> blocks (\<open>None\<close>) at zero, and fails when a signal handler interrupts it.\<close>

definition Semaphore_wait :: "bool \<Rightarrow> semaphore \<Rightarrow> semaphore result option" where
  "Semaphore_wait interrupted s =
    (if interrupted then Some (Inl Logic_error)
     else if 0 < sem_count s then Some (Inr (s\<lparr>sem_count := sem_count s - 1\<rparr>)) else None)"

definition Semaphore_notify :: "semaphore \<Rightarrow> semaphore result" where
  "Semaphore_notify s =
    (if sem_count s = SEM_VALUE_MAX then Inl Logic_error else Inr (s\<lparr>sem_count := sem_count s + 1\<rparr>))"

lemma notify_then_wait:
  "0 \<le> sem_count s \<Longrightarrow> Semaphore_notify s = Inr s' \<Longrightarrow> Semaphore_wait False s' = Some (Inr s)"
  by (auto simp: Semaphore_notify_def Semaphore_wait_def split: if_splits)

lemma notify_zero: "sem_count s = 0 \<Longrightarrow> Semaphore_notify s = Inr (s\<lparr>sem_count := 1\<rparr>)"
  by (simp add: Semaphore_notify_def SEM_VALUE_MAX_def)

section \<open>The thread object\<close>

text \<open>A \<^verbatim>\<open>pthread_t\<close> of zero stands for no thread, as in the code.\<close>

record 'f thread =
  m_id :: int
  m_thread :: nat
  m_cb :: "'f option"
  m_name :: string
  m_semaphore :: semaphore

record thread_vars =
  t_thread :: bool
  t_thread_name :: string

text \<open>\<open>t_thread\<close> says whether the thread-local pointer of the new thread points to the object.\<close>

definition initial_vars :: thread_vars where
  "initial_vars = \<lparr>t_thread = False, t_thread_name = ''UNKNOW''\<rparr>"

definition mk_Thread :: "'f option \<Rightarrow> string \<Rightarrow> 'f thread" where
  "mk_Thread cb name = \<lparr>m_id = - 1, m_thread = 0, m_cb = cb,
     m_name = (if name = [] then ''UNKNOW'' else name), m_semaphore = \<lparr>sem_count = 0\<rparr>\<rparr>"

definition Thread_SetName :: "string \<Rightarrow> thread_vars \<Rightarrow> 'f thread \<Rightarrow> thread_vars \<times> 'f thread" where
  "Thread_SetName name v th =
    (v\<lparr>t_thread_name := name\<rparr>, if t_thread v then th\<lparr>m_name := name\<rparr> else th)"

definition Thread_GetName :: "thread_vars \<Rightarrow> string" where
  "Thread_GetName v = t_thread_name v"

section \<open>Construction: two interleaved programs\<close>

datatype ctor_pc = Create | Waiting | Constructed | Threw

datatype run_pc = Not_started | Set_this | Set_id | Set_name | Name_kernel | Swap_cb | Notify | Call_cb | Finished | Died

record 'f spawn =
  object :: "'f thread"
  vars :: thread_vars
  kernel_name :: string
  local_cb :: "'f option"
  called :: "'f list"
  ctor_at :: ctor_pc
  run_at :: run_pc

definition mk_spawn :: "'f option \<Rightarrow> string \<Rightarrow> 'f spawn" where
  "mk_spawn cb name = \<lparr>object = mk_Thread cb name, vars = initial_vars, kernel_name = [], local_cb = None,
     called = [], ctor_at = Create, run_at = Not_started\<rparr>"

text \<open>The constructor, from \<^verbatim>\<open>pthread_create\<close> on: \<open>Some p\<close> is a created thread, \<open>None\<close> a failure.\<close>

definition ctor_create :: "nat option \<Rightarrow> 'f spawn \<Rightarrow> 'f spawn" where
  "ctor_create answer s = (case answer of
     None \<Rightarrow> s\<lparr>ctor_at := Threw\<rparr>
   | Some p \<Rightarrow> s\<lparr>object := (object s)\<lparr>m_thread := p\<rparr>, ctor_at := Waiting, run_at := Set_this\<rparr>)"

definition ctor_wait :: "bool \<Rightarrow> 'f spawn \<Rightarrow> 'f spawn option" where
  "ctor_wait interrupted s = (case Semaphore_wait interrupted (m_semaphore (object s)) of
     None \<Rightarrow> None
   | Some (Inl f) \<Rightarrow> Some (s\<lparr>ctor_at := Threw\<rparr>)
   | Some (Inr m) \<Rightarrow> Some (s\<lparr>object := (object s)\<lparr>m_semaphore := m\<rparr>, ctor_at := Constructed\<rparr>))"

text \<open>\<^verbatim>\<open>Thread::run\<close>, one statement at a time. An exception out of it ends the process.\<close>

definition run_statement :: "int \<Rightarrow> 'f spawn \<Rightarrow> 'f spawn option" where
  "run_statement tid s = (case run_at s of
     Set_this \<Rightarrow> Some (s\<lparr>vars := (vars s)\<lparr>t_thread := True\<rparr>, run_at := Set_id\<rparr>)
   | Set_id \<Rightarrow> Some (s\<lparr>object := (object s)\<lparr>m_id := tid\<rparr>, run_at := Set_name\<rparr>)
   | Set_name \<Rightarrow> Some (s\<lparr>vars := (vars s)\<lparr>t_thread_name := m_name (object s)\<rparr>, run_at := Name_kernel\<rparr>)
   | Name_kernel \<Rightarrow> Some (s\<lparr>kernel_name := take 15 (m_name (object s)), run_at := Swap_cb\<rparr>)
   | Swap_cb \<Rightarrow> Some (s\<lparr>local_cb := m_cb (object s), object := (object s)\<lparr>m_cb := local_cb s\<rparr>, run_at := Notify\<rparr>)
   | Notify \<Rightarrow> (case Semaphore_notify (m_semaphore (object s)) of
       Inl f \<Rightarrow> Some (s\<lparr>run_at := Died\<rparr>)
     | Inr m \<Rightarrow> Some (s\<lparr>object := (object s)\<lparr>m_semaphore := m\<rparr>, run_at := Call_cb\<rparr>))
   | Call_cb \<Rightarrow> (case local_cb s of
       None \<Rightarrow> Some (s\<lparr>run_at := Died\<rparr>)
     | Some f \<Rightarrow> Some (s\<lparr>called := called s @ [f], run_at := Finished\<rparr>))
   | _ \<Rightarrow> None)"

inductive spawn_step :: "int \<Rightarrow> 'f spawn \<Rightarrow> 'f spawn \<Rightarrow> bool" for tid where
  create: "ctor_at s = Create \<Longrightarrow> answer \<noteq> Some 0 \<Longrightarrow> spawn_step tid s (ctor_create answer s)"
| wait: "ctor_at s = Waiting \<Longrightarrow> ctor_wait interrupted s = Some s' \<Longrightarrow> spawn_step tid s s'"
| run: "run_statement tid s = Some s' \<Longrightarrow> spawn_step tid s s'"

inductive_cases spawn_stepE: "spawn_step tid s s'"

text \<open>How far \<^verbatim>\<open>run\<close> has come.\<close>

fun run_index :: "run_pc \<Rightarrow> nat" where
  "run_index Not_started = 0"
| "run_index Set_this = 1"
| "run_index Set_id = 2"
| "run_index Set_name = 3"
| "run_index Name_kernel = 4"
| "run_index Swap_cb = 5"
| "run_index Notify = 6"
| "run_index Call_cb = 7"
| "run_index Finished = 8"
| "run_index Died = 8"

text \<open>What holds at each point of \<^verbatim>\<open>run\<close>, and what the semaphore says of the two programs.\<close>

definition spawn_inv :: "int \<Rightarrow> 'f option \<Rightarrow> string \<Rightarrow> 'f spawn \<Rightarrow> bool" where
  "spawn_inv tid cb name s \<longleftrightarrow>
     m_name (object s) = (if name = [] then ''UNKNOW'' else name) \<and>
     ((run_at s = Not_started) = (m_thread (object s) = 0)) \<and>
     (ctor_at s = Create \<longrightarrow> run_at s = Not_started) \<and>
     (run_at s = Not_started \<longrightarrow> ctor_at s = Create \<or> ctor_at s = Threw) \<and>
     (2 \<le> run_index (run_at s) \<longrightarrow> t_thread (vars s)) \<and>
     (3 \<le> run_index (run_at s) \<longrightarrow> m_id (object s) = tid) \<and>
     (4 \<le> run_index (run_at s) \<longrightarrow> t_thread_name (vars s) = m_name (object s)) \<and>
     (5 \<le> run_index (run_at s) \<longrightarrow> kernel_name s = take 15 (m_name (object s))) \<and>
     (if 6 \<le> run_index (run_at s) then local_cb s = cb \<and> m_cb (object s) = None
      else local_cb s = None \<and> m_cb (object s) = cb) \<and>
     sem_count (m_semaphore (object s)) = (if 7 \<le> run_index (run_at s) \<and> ctor_at s \<noteq> Constructed then 1 else 0) \<and>
     (ctor_at s = Constructed \<longrightarrow> 7 \<le> run_index (run_at s)) \<and>
     called s = (if run_at s = Finished then (case cb of Some f \<Rightarrow> [f] | None \<Rightarrow> []) else []) \<and>
     (run_at s = Finished \<longrightarrow> cb \<noteq> None) \<and> (run_at s = Died \<longrightarrow> cb = None)"

lemma spawn_inv_notified:
  assumes "spawn_inv tid cb name s" and "run_at s = Notify"
  shows "run_statement tid s =
    Some (s\<lparr>object := (object s)\<lparr>m_semaphore := (m_semaphore (object s))\<lparr>sem_count := 1\<rparr>\<rparr>, run_at := Call_cb\<rparr>)"
proof -
  have "sem_count (m_semaphore (object s)) = 0" using assms by (simp add: spawn_inv_def)
  then show ?thesis using assms(2) by (simp add: run_statement_def notify_zero)
qed

lemma spawn_inv_run:
  assumes "spawn_inv tid cb name s" and "run_statement tid s = Some s'"
  shows "spawn_inv tid cb name s'"
proof (cases "run_at s = Notify")
  case True
  have "ctor_at s \<noteq> Constructed" using assms(1) True by (auto simp: spawn_inv_def)
  with True spawn_inv_notified [OF assms(1) True] assms show ?thesis by (auto simp: spawn_inv_def)
next
  case False
  show ?thesis
  proof (cases "run_at s = Call_cb")
    case True
    with assms show ?thesis by (cases cb) (auto simp: spawn_inv_def run_statement_def)
  next
    case c: False
    have "run_statement tid s \<noteq> None" using assms(2) by simp
    with c False assms(1) have "spawn_inv tid cb name (the (run_statement tid s))"
      by (cases "run_at s") (simp_all add: spawn_inv_def run_statement_def)
    with assms(2) show ?thesis by simp
  qed
qed

lemma spawn_inv_step:
  assumes "spawn_step tid s s'" and "spawn_inv tid cb name s"
  shows "spawn_inv tid cb name s'"
  using assms(1)
proof cases
  case (create answer)
  then have "run_at s = Not_started" using assms(2) by (simp add: spawn_inv_def)
  with create assms(2) show ?thesis by (cases answer) (simp_all add: spawn_inv_def ctor_create_def)
next
  case (wait interrupted)
  then have n: "run_at s \<noteq> Not_started" using assms(2) by (auto simp: spawn_inv_def)
  show ?thesis
  proof (cases interrupted)
    case True
    with wait have "s' = s\<lparr>ctor_at := Threw\<rparr>" by (simp add: ctor_wait_def Semaphore_wait_def)
    with wait n assms(2) show ?thesis by (cases "run_at s") (simp_all add: spawn_inv_def)
  next
    case False
    with wait have pos: "0 < sem_count (m_semaphore (object s))"
      by (auto simp: ctor_wait_def Semaphore_wait_def split: if_splits)
    then have "7 \<le> run_index (run_at s)" "sem_count (m_semaphore (object s)) = 1"
      using assms(2) by (auto simp: spawn_inv_def split: if_splits)
    moreover from this have "s' = s\<lparr>object := (object s)\<lparr>m_semaphore := (m_semaphore (object s))\<lparr>sem_count := 0\<rparr>\<rparr>,
        ctor_at := Constructed\<rparr>"
      using False wait by (simp add: ctor_wait_def Semaphore_wait_def)
    ultimately show ?thesis using wait n assms(2) by (cases "run_at s") (simp_all add: spawn_inv_def)
  qed
next
  case run
  with assms(2) show ?thesis by (blast intro: spawn_inv_run)
qed

lemma spawn_inv_reachable: "(spawn_step tid)\<^sup>*\<^sup>* (mk_spawn cb name) s \<Longrightarrow> spawn_inv tid cb name s"
proof (induction rule: rtranclp_induct)
  case base
  then show ?case by (simp add: spawn_inv_def mk_spawn_def mk_Thread_def)
next
  case (step s s')
  then show ?case by (blast intro: spawn_inv_step)
qed

text \<open>Every step brings one of the two programs forward.\<close>

fun ctor_index :: "ctor_pc \<Rightarrow> nat" where
  "ctor_index Create = 0"
| "ctor_index Waiting = 1"
| "ctor_index Constructed = 2"
| "ctor_index Threw = 2"

definition work_left :: "'f spawn \<Rightarrow> nat" where
  "work_left s = (8 - run_index (run_at s)) + (2 - ctor_index (ctor_at s))"

lemma spawn_step_progress:
  assumes "spawn_step tid s s'" and "spawn_inv tid cb name s"
  shows "work_left s' < work_left s"
  using assms(1)
proof cases
  case (create answer)
  with assms(2) show ?thesis by (cases answer) (auto simp: spawn_inv_def ctor_create_def work_left_def)
next
  case (wait interrupted)
  then show ?thesis by (auto simp: ctor_wait_def work_left_def split: option.splits sum.splits)
next
  case run
  then show ?thesis
    by (cases "run_at s") (auto simp: run_statement_def work_left_def split: option.splits sum.splits)
qed

lemma spawn_stuck:
  assumes "spawn_inv tid cb name s" and "\<And>s'. \<not> spawn_step tid s s'"
  shows "(ctor_at s = Constructed \<or> ctor_at s = Threw) \<and> (run_at s = Not_started \<or> 8 \<le> run_index (run_at s))"
proof -
  have n: "run_statement tid s = None" using assms(2) spawn_step.run by (cases "run_statement tid s") auto
  then have r: "run_at s = Not_started \<or> 8 \<le> run_index (run_at s)"
    by (cases "run_at s") (auto simp: run_statement_def split: option.splits sum.splits)
  have "ctor_at s \<noteq> Create" using spawn_step.create [of s "Some 1" tid] assms(2) by auto
  moreover have "ctor_at s \<noteq> Waiting"
  proof
    assume w: "ctor_at s = Waiting"
    with assms(1) r have "sem_count (m_semaphore (object s)) = 1" by (auto simp: spawn_inv_def)
    then have "ctor_wait False s \<noteq> None" by (simp add: ctor_wait_def Semaphore_wait_def)
    then show False using spawn_step.wait [OF w, of False _ tid] assms(2) by auto
  qed
  ultimately show ?thesis using r by (cases "ctor_at s") auto
qed

section \<open>Joining and detaching\<close>

datatype pthread_call = Join nat | Detach nat

definition Thread_join :: "int \<Rightarrow> 'f thread \<Rightarrow> ('f thread \<times> pthread_call list) result" where
  "Thread_join rt th =
    (if m_thread th \<noteq> 0
     then if rt \<noteq> 0 then Inl Logic_error else Inr (th\<lparr>m_thread := 0\<rparr>, [Join (m_thread th)])
     else Inr (th, []))"

definition Thread_dtor :: "'f thread \<Rightarrow> pthread_call list" where
  "Thread_dtor th = (if m_thread th \<noteq> 0 then [Detach (m_thread th)] else [])"

text \<open>The life of an object after its construction: any number of joins, then its destruction.\<close>

fun Thread_life :: "int list \<Rightarrow> 'f thread \<Rightarrow> pthread_call list result" where
  "Thread_life [] th = Inr (Thread_dtor th)"
| "Thread_life (rt # rts) th = bindE (Thread_join rt th)
     (\<lambda>(th', cs). bindE (Thread_life rts th') (\<lambda>cs'. Inr (cs @ cs')))"

lemma life_joined: "m_thread th = 0 \<Longrightarrow> Thread_life rts th = Inr []"
  by (induction rts) (simp_all add: Thread_dtor_def Thread_join_def)

section \<open>Properties\<close>

text \<open>C21: when the constructor of a thread returns, in any interleaving with the new thread, the object
  holds the kernel id and the handle of that thread, the thread-local pointer and name of the new thread
  are set, its kernel name is the first fifteen characters of the name, and the callback has been moved
  out of the object; the callback given is called at most once.\<close>

theorem thread_handshake:
  assumes "(spawn_step tid)\<^sup>*\<^sup>* (mk_spawn (Some f) name) s" and "ctor_at s = Constructed"
  shows "m_id (object s) = tid \<and> m_thread (object s) \<noteq> 0 \<and> t_thread (vars s) \<and> m_cb (object s) = None \<and>
    Thread_GetName (vars s) = m_name (object s) \<and> m_name (object s) = (if name = [] then ''UNKNOW'' else name) \<and>
    kernel_name s = take 15 (m_name (object s)) \<and> called s = (if run_at s = Finished then [f] else [])"
  using spawn_inv_reachable [OF assms(1)] assms(2)
  by (auto simp: spawn_inv_def Thread_GetName_def)

text \<open>A run to the first point where the constructor can return.\<close>

primrec run_statements :: "int \<Rightarrow> nat \<Rightarrow> 'f spawn \<Rightarrow> 'f spawn option" where
  "run_statements tid 0 s = Some s"
| "run_statements tid (Suc n) s = (case run_statement tid s of None \<Rightarrow> None | Some s' \<Rightarrow> run_statements tid n s')"

lemma run_statements_steps: "run_statements tid n s = Some s' \<Longrightarrow> (spawn_step tid)\<^sup>*\<^sup>* s s'"
  by (induction n arbitrary: s)
    (auto split: option.splits intro: converse_rtranclp_into_rtranclp spawn_step.run)

definition example_started :: "nat spawn" where
  "example_started = the (run_statements 77 6 (ctor_create (Some 9) (mk_spawn (Some 5) ''io'')))"

definition example_constructed :: "nat spawn" where
  "example_constructed = the (ctor_wait False example_started)"

lemma example_started_runs:
  "run_statements 77 6 (ctor_create (Some 9) (mk_spawn (Some 5) ''io'')) = Some example_started"
  "ctor_wait False example_started = Some example_constructed"
  "ctor_at example_started = Waiting" "ctor_at example_constructed = Constructed"
  by code_simp+

lemma example_constructed_reached: "(spawn_step 77)\<^sup>*\<^sup>* (mk_spawn (Some 5) ''io'') example_constructed"
proof -
  have "spawn_step 77 (mk_spawn (Some 5) ''io'') (ctor_create (Some 9) (mk_spawn (Some (5 :: nat)) ''io''))"
    by (rule spawn_step.create) (simp_all add: mk_spawn_def)
  with run_statements_steps [OF example_started_runs(1)]
  have "(spawn_step 77)\<^sup>*\<^sup>* (mk_spawn (Some 5) ''io'') example_started"
    by (rule converse_rtranclp_into_rtranclp [rotated])
  with spawn_step.wait [OF example_started_runs(3,2)] show ?thesis by (rule rtranclp.rtrancl_into_rtrancl [rotated])
qed

theorem thread_handshake_witness:
  "m_id (object example_constructed) = 77 \<and> m_cb (object example_constructed) = None"
  using thread_handshake [OF example_constructed_reached example_started_runs(4)] by blast



text \<open>a created thread is given back to the system exactly once: by the first join, when there is one
  and it succeeds, and by the destructor otherwise; later joins do nothing.\<close>

theorem thread_reaped_once:
  "m_thread th \<noteq> 0 \<Longrightarrow> Thread_life rts th = (case rts of
     [] \<Rightarrow> Inr [Detach (m_thread th)]
   | rt # _ \<Rightarrow> if rt = 0 then Inr [Join (m_thread th)] else Inl Logic_error)"
  by (cases rts) (simp_all add: Thread_dtor_def Thread_join_def life_joined)

theorem thread_reaped_once_witness:
  "Thread_life [0, 22] ((mk_Thread (Some (1 :: nat)) ''t'')\<lparr>m_thread := 8\<rparr>) = Inr [Join 8]"
  using thread_reaped_once [of "(mk_Thread (Some (1 :: nat)) ''t'')\<lparr>m_thread := 8\<rparr>" "[0, 22]"] by simp

end
