(* ===== verification/Log_Formats.thy ===== *)
theory Log_Formats
  imports Prelude
begin

text \<open>
  Log levels, log events and the pattern language of \<^verbatim>\<open>LogFormatter\<close> (\<^verbatim>\<open>log.h\<close>, \<^verbatim>\<open>log.cc\<close>). The
  loops of \<^verbatim>\<open>LogFormatter::init\<close> are translated with their indices; a reader on the rest of the
  pattern is their reference. The text of a time (\<^verbatim>\<open>localtime_r\<close> and \<^verbatim>\<open>strftime\<close>) is an argument.
\<close>

section \<open>Levels\<close>

text \<open>An unscoped enumeration: the listener of the configuration casts 100 to it, so a level is a number.\<close>

type_synonym log_level = nat

definition UNKNOW :: log_level where "UNKNOW = 0"
definition DEBUG :: log_level where "DEBUG = 1"
definition INFO :: log_level where "INFO = 2"
definition WARN :: log_level where "WARN = 3"
definition ERROR :: log_level where "ERROR = 4"
definition FATAL :: log_level where "FATAL = 5"

lemmas level_defs = UNKNOW_def DEBUG_def INFO_def WARN_def ERROR_def FATAL_def

definition LogLevel_ToString :: "log_level \<Rightarrow> string" where
  "LogLevel_ToString l =
    (if l = DEBUG then ''DEBUG'' else if l = INFO then ''INFO'' else if l = WARN then ''WARN''
     else if l = ERROR then ''ERROR'' else if l = FATAL then ''FATAL'' else ''UNKNOW'')"

definition LogLevel_FromString :: "string \<Rightarrow> log_level" where
  "LogLevel_FromString str =
    (if str = ''debug'' then DEBUG else if str = ''info'' then INFO else if str = ''warn'' then WARN
     else if str = ''error'' then ERROR else if str = ''fatal'' then FATAL
     else if str = ''DEBUG'' then DEBUG else if str = ''INFO'' then INFO else if str = ''WARN'' then WARN
     else if str = ''ERROR'' then ERROR else if str = ''FATAL'' then FATAL else UNKNOW)"

lemma level_text_roundtrip: "LogLevel_FromString (LogLevel_ToString l) = (if l \<le> FATAL then l else UNKNOW)"
proof -
  have "l = 0 \<or> l = 1 \<or> l = 2 \<or> l = 3 \<or> l = 4 \<or> l = 5 \<or> 5 < l" by arith
  then show ?thesis by (elim disjE) (simp_all add: LogLevel_FromString_def LogLevel_ToString_def level_defs)
qed

section \<open>Events and format items\<close>

record log_event =
  m_file :: string
  m_line :: int
  m_elapse :: uint32
  m_threadid :: uint32
  m_fiberid :: uint32
  m_time :: uint64
  m_mtime :: int
  m_ss :: string
  event_logger :: nat
  m_level :: log_level
  m_thread_name :: string

text \<open>\<^verbatim>\<open>gettimeofday\<close> gives seconds and microseconds.\<close>

definition mk_LogEvent :: "uint64 \<times> int \<Rightarrow> nat \<Rightarrow> log_level \<Rightarrow> string \<Rightarrow> int \<Rightarrow> uint32 \<Rightarrow> uint32 \<Rightarrow> uint32 \<Rightarrow> string \<Rightarrow> log_event" where
  "mk_LogEvent tv logger level file line elapse thread_id fiber_id thread_name =
    \<lparr>m_file = file, m_line = line, m_elapse = elapse, m_threadid = thread_id, m_fiberid = fiber_id,
     m_time = fst tv, m_mtime = snd tv div 1000, m_ss = [], event_logger = logger, m_level = level,
     m_thread_name = thread_name\<rparr>"

text \<open>\<^verbatim>\<open>LogEvent::format\<close>: the text of \<^verbatim>\<open>vasprintf\<close>, where it succeeded.\<close>

definition event_format :: "string option \<Rightarrow> log_event \<Rightarrow> log_event" where
  "event_format answer e = (case answer of None \<Rightarrow> e | Some t \<Rightarrow> e\<lparr>m_ss := m_ss e @ t\<rparr>)"

datatype format_item = MessageFormatItem | LevelFormatItem | ElapseFormatItem | NameFormatItem | ThreadIdFormatItem
  | FiberIdFormatItem | DateTimeFormatItem string | DatemTimeFormatItem string | FileNameFormatItem | LineFormatItem
  | NewLineFormatItem | TabFormatItem | ThreadNameFormatItem | StringFormatItem string

definition time_format :: "string \<Rightarrow> string" where
  "time_format f = (if f = [] then ''%Y-%m-%d %H:%M:%S'' else f)"

text \<open>The buffer for a time has 64 characters: a longer text leaves it unset, and reading it is undefined.\<close>

definition time_text :: "(string \<Rightarrow> uint64 \<Rightarrow> string) \<Rightarrow> string \<Rightarrow> log_event \<Rightarrow> string result" where
  "time_text strftime f e = (let t = strftime f (m_time e) in if length t < 64 then Inr t else Inl Bad_index)"

definition milliseconds :: "log_event \<Rightarrow> string" where
  "milliseconds e =
    (if m_mtime e < 100 \<and> m_mtime e \<ge> 10 then '':0'' @ show_int (m_mtime e)
     else if m_mtime e < 10 then '':00'' @ show_int (m_mtime e)
     else '':'' @ show_int (m_mtime e))"

fun item_format :: "(string \<Rightarrow> uint64 \<Rightarrow> string) \<Rightarrow> string \<Rightarrow> log_level \<Rightarrow> log_event \<Rightarrow> format_item \<Rightarrow> string result" where
  "item_format strftime name level e MessageFormatItem = Inr (m_ss e)"
| "item_format strftime name level e LevelFormatItem = Inr (LogLevel_ToString level)"
| "item_format strftime name level e ElapseFormatItem = Inr (show_base 10 (unat (m_elapse e)))"
| "item_format strftime name level e NameFormatItem = Inr name"
| "item_format strftime name level e ThreadIdFormatItem = Inr (show_base 10 (unat (m_threadid e)))"
| "item_format strftime name level e FiberIdFormatItem = Inr (show_base 10 (unat (m_fiberid e)))"
| "item_format strftime name level e (DateTimeFormatItem f) = time_text strftime f e"
| "item_format strftime name level e (DatemTimeFormatItem f) =
    bindE (time_text strftime f e) (\<lambda>t. Inr (t @ milliseconds e))"
| "item_format strftime name level e FileNameFormatItem = Inr (m_file e)"
| "item_format strftime name level e LineFormatItem = Inr (show_int (m_line e))"
| "item_format strftime name level e NewLineFormatItem = Inr [CHR 10]"
| "item_format strftime name level e TabFormatItem = Inr [CHR 9]"
| "item_format strftime name level e ThreadNameFormatItem = Inr (m_thread_name e)"
| "item_format strftime name level e (StringFormatItem s) = Inr s"

section \<open>The pattern\<close>

record formatter =
  m_pattern :: string
  m_items :: "format_item list"
  fmt_error :: bool

definition is_alpha :: "char \<Rightarrow> bool" where
  "is_alpha c = (let n = of_char c :: nat in 65 \<le> n \<and> n \<le> 90 \<or> 97 \<le> n \<and> n \<le> 122)"

definition substr :: "string \<Rightarrow> nat \<Rightarrow> nat \<Rightarrow> string" where
  "substr s pos n = take n (drop pos s)"

text \<open>The inner loop, with its variables \<open>n\<close>, \<open>fmt_status\<close>, \<open>fmt_begin\<close>, \<open>str\<close> and \<open>fmt\<close>.\<close>

function scan_loop :: "string \<Rightarrow> nat \<Rightarrow> nat \<Rightarrow> nat \<Rightarrow> nat \<Rightarrow> string \<Rightarrow> string \<Rightarrow> nat \<times> nat \<times> string \<times> string" where
  "scan_loop p i n fmt_status fmt_begin str fmt =
    (if \<not> n < length p then (n, fmt_status, str, fmt)
     else if fmt_status = 0 \<and> \<not> is_alpha (p ! n) \<and> p ! n \<noteq> CHR ''{'' \<and> p ! n \<noteq> CHR ''}''
     then (n, fmt_status, substr p (i + 1) (n - i - 1), fmt)
     else if fmt_status = 0 \<and> p ! n = CHR ''{''
     then scan_loop p i (n + 1) 1 n (substr p (i + 1) (n - i - 1)) fmt
     else if fmt_status = 1 \<and> p ! n = CHR ''}''
     then (n + 1, 0, str, substr p (fmt_begin + 1) (n - fmt_begin - 1))
     else scan_loop p i (n + 1) fmt_status fmt_begin
       (if n + 1 = length p \<and> str = [] then drop (i + 1) p else str) fmt)"
  by pat_completeness auto

termination by (relation "measure (\<lambda>(p, i, n, _). length p - n)") auto

declare scan_loop.simps [simp del]

lemma scan_loop_mono: "n \<le> fst (scan_loop p i n st b str fmt)"
proof (induction p i n st b str fmt rule: scan_loop.induct)
  case (1 p i n st b str fmt)
  then show ?case by (subst scan_loop.simps) (auto simp: Suc_le_eq intro: order_trans [OF le_SucI])
qed

lemma scan_loop_advance: "(n', st', str', fmt') = scan_loop p i n st b str fmt \<Longrightarrow> n \<le> n'"
  using scan_loop_mono [of n p i st b str fmt] by (metis fst_conv)

text \<open>The outer loop: the triples of text, format and type, the pending plain text and the error flag.\<close>

type_synonym segment = "string \<times> string \<times> nat"

definition flush :: "string \<Rightarrow> segment list" where
  "flush nstr = (if nstr = [] then [] else [(nstr, [], 0)])"

function init_loop :: "string \<Rightarrow> nat \<Rightarrow> string \<Rightarrow> segment list \<Rightarrow> bool \<Rightarrow> segment list \<times> bool" where
  "init_loop p i nstr vec err =
    (if \<not> i < length p then (vec @ flush nstr, err)
     else if p ! i \<noteq> CHR ''%'' then init_loop p (i + 1) (nstr @ [p ! i]) vec err
     else if i + 1 < length p \<and> p ! (i + 1) = CHR ''%'' then init_loop p (i + 2) (nstr @ ''%'') vec err
     else (case scan_loop p i (i + 1) 0 0 [] [] of
       (n, fmt_status, str, fmt) \<Rightarrow>
         if fmt_status = 0 then init_loop p n [] (vec @ flush nstr @ [(str, fmt, 1)]) err
         else init_loop p (i + 1) nstr (vec @ [(''<<pattern_error>>'', fmt, 0)]) True))"
  by pat_completeness auto

termination
  by (relation "measure (\<lambda>(p, i, _). length p - i)") (auto dest!: scan_loop_advance)

declare init_loop.simps [simp del]

definition make_item :: "segment \<Rightarrow> format_item \<times> bool" where
  "make_item s = (case s of (str, fmt, type) \<Rightarrow>
    if type = 0 then (StringFormatItem str, False)
    else if str = ''m'' then (MessageFormatItem, False)
    else if str = ''p'' then (LevelFormatItem, False)
    else if str = ''r'' then (ElapseFormatItem, False)
    else if str = ''c'' then (NameFormatItem, False)
    else if str = ''t'' then (ThreadIdFormatItem, False)
    else if str = ''n'' then (NewLineFormatItem, False)
    else if str = ''d'' then (DateTimeFormatItem (time_format fmt), False)
    else if str = ''f'' then (FileNameFormatItem, False)
    else if str = ''l'' then (LineFormatItem, False)
    else if str = ''T'' then (TabFormatItem, False)
    else if str = ''F'' then (FiberIdFormatItem, False)
    else if str = ''D'' then (DatemTimeFormatItem (time_format fmt), False)
    else if str = ''N'' then (ThreadNameFormatItem, False)
    else (StringFormatItem (''<<error_format %'' @ str @ ''>>''), True))"

definition mk_LogFormatter :: "string \<Rightarrow> formatter" where
  "mk_LogFormatter pattern = (case init_loop pattern 0 [] [] False of (vec, err) \<Rightarrow>
     \<lparr>m_pattern = pattern, m_items = map (fst \<circ> make_item) vec, fmt_error = (err \<or> list_ex (snd \<circ> make_item) vec)\<rparr>)"

fun format_items :: "(string \<Rightarrow> uint64 \<Rightarrow> string) \<Rightarrow> string \<Rightarrow> log_level \<Rightarrow> log_event \<Rightarrow> format_item list \<Rightarrow> string result" where
  "format_items strftime name level e [] = Inr []"
| "format_items strftime name level e (it # its) =
    bindE (item_format strftime name level e it) (\<lambda>t. bindE (format_items strftime name level e its) (\<lambda>t'. Inr (t @ t')))"

definition LogFormatter_format :: "(string \<Rightarrow> uint64 \<Rightarrow> string) \<Rightarrow> string \<Rightarrow> log_level \<Rightarrow> log_event \<Rightarrow> formatter \<Rightarrow> string result" where
  "LogFormatter_format strftime name level e f = format_items strftime name level e (m_items f)"

section \<open>A reader of the rest of the pattern\<close>

definition name_char :: "char \<Rightarrow> bool" where
  "name_char c \<longleftrightarrow> is_alpha c \<or> c = CHR ''}''"

text \<open>After a percent sign: a name, and a format in braces; nothing when the brace is not closed.\<close>

definition read_spec :: "string \<Rightarrow> (string \<times> string \<times> string) option" where
  "read_spec r = (let name = takeWhile name_char r; r' = dropWhile name_char r in
    if r' \<noteq> [] \<and> hd r' = CHR ''{''
    then if CHR ''}'' \<in> set (tl r')
      then Some (name, takeWhile (\<lambda>c. c \<noteq> CHR ''}'') (tl r'), tl (dropWhile (\<lambda>c. c \<noteq> CHR ''}'') (tl r')))
      else None
    else Some (name, [], r'))"

lemma length_tl_dropWhile: "length (tl (dropWhile P xs)) \<le> length xs"
  using length_dropWhile_le [of P xs] by simp

lemma read_spec_shorter: "read_spec r = Some (name, fmt, rest) \<Longrightarrow> length rest \<le> length r"
  using length_dropWhile_le [of name_char r] length_tl_dropWhile [of "\<lambda>c. c \<noteq> CHR ''}''" "tl (dropWhile name_char r)"]
  by (auto simp: read_spec_def Let_def split: if_splits)

function read_pattern :: "string \<Rightarrow> string \<Rightarrow> segment list \<times> bool" where
  "read_pattern s nstr = (case s of
     [] \<Rightarrow> (flush nstr, False)
   | c # r \<Rightarrow>
       if c \<noteq> CHR ''%'' then read_pattern r (nstr @ [c])
       else if r \<noteq> [] \<and> hd r = CHR ''%'' then read_pattern (tl r) (nstr @ ''%'')
       else (case read_spec r of
         Some (name, fmt, rest) \<Rightarrow> (let (v, e) = read_pattern rest [] in (flush nstr @ (name, fmt, 1) # v, e))
       | None \<Rightarrow> (let (v, e) = read_pattern r nstr in ((''<<pattern_error>>'', [], 0) # v, True))))"
  by pat_completeness auto

termination
  by (relation "measure (\<lambda>(s, nstr). length s)") (auto dest: read_spec_shorter)

declare read_pattern.simps [simp del]

lemma read_pattern_simps:
  "read_pattern [] nstr = (flush nstr, False)"
  "c \<noteq> CHR ''%'' \<Longrightarrow> read_pattern (c # r) nstr = read_pattern r (nstr @ [c])"
  "read_pattern (CHR ''%'' # CHR ''%'' # r) nstr = read_pattern r (nstr @ ''%'')"
  by (subst read_pattern.simps; simp)+

lemma read_pattern_spec:
  "r = [] \<or> hd r \<noteq> CHR ''%'' \<Longrightarrow> read_pattern (CHR ''%'' # r) nstr = (case read_spec r of
     Some (name, fmt, rest) \<Rightarrow> (let (v, e) = read_pattern rest [] in (flush nstr @ (name, fmt, 1) # v, e))
   | None \<Rightarrow> (let (v, e) = read_pattern r nstr in ((''<<pattern_error>>'', [], 0) # v, True)))"
  by (subst read_pattern.simps) auto

section \<open>The indexed loops read the pattern\<close>

lemma drop_nth: "n < length p \<Longrightarrow> drop n p = p ! n # drop (Suc n) p"
  by (simp add: Cons_nth_drop_Suc)

lemma scan_name:
  assumes "i < n" and "n \<le> length p"
  shows "scan_loop p i n 0 b (if n = length p then drop (i + 1) p else []) [] =
    (let m = n + length (takeWhile name_char (drop n p)) in
     if m = length p then (m, 0, drop (i + 1) p, [])
     else if p ! m = CHR ''{'' then scan_loop p i (m + 1) 1 m (substr p (i + 1) (m - i - 1)) []
     else (m, 0, substr p (i + 1) (m - i - 1), []))"
  using assms
proof (induction "length p - n" arbitrary: n)
  case 0
  then show ?case by (simp add: scan_loop.simps)
next
  case (Suc k)
  then have n: "n < length p" by simp
  show ?case
  proof (cases "name_char (p ! n)")
    case True
    then have ne: "p ! n \<noteq> CHR ''{''" by (auto simp: name_char_def is_alpha_def)
    have st: "scan_loop p i n 0 b [] [] = scan_loop p i (n + 1) 0 b (if n + 1 = length p then drop (i + 1) p else []) []"
      using True n ne by (subst scan_loop.simps) (auto simp: name_char_def)
    have "n + length (takeWhile name_char (drop n p)) = (n + 1) + length (takeWhile name_char (drop (n + 1) p))"
      using True by (simp add: drop_nth [OF n])
    with Suc.hyps(1) [of "n + 1"] Suc.hyps(2) Suc.prems n st show ?thesis by simp
  next
    case False
    then have "takeWhile name_char (drop n p) = []" by (simp add: drop_nth [OF n])
    with False n show ?thesis
      by (subst scan_loop.simps) (auto simp: name_char_def Let_def)
  qed
qed

lemma scan_format:
  assumes "n \<le> length p" and "b < n"
  shows "let m = n + length (takeWhile (\<lambda>c. c \<noteq> CHR ''}'') (drop n p)) in
    if m = length p then \<exists>str'. scan_loop p i n 1 b str [] = (m, 1, str', [])
    else scan_loop p i n 1 b str [] = (m + 1, 0, str, substr p (b + 1) (m - b - 1))"
  using assms
proof (induction "length p - n" arbitrary: n str)
  case 0
  then show ?case by (simp add: scan_loop.simps)
next
  case (Suc k)
  then have n: "n < length p" by simp
  show ?case
  proof (cases "p ! n = CHR ''}''")
    case True
    then have "takeWhile (\<lambda>c. c \<noteq> CHR ''}'') (drop n p) = []" by (simp add: drop_nth [OF n])
    with True n show ?thesis by (subst scan_loop.simps) (simp add: Let_def)
  next
    case False
    define str1 where "str1 = (if n + 1 = length p \<and> str = [] then drop (i + 1) p else str)"
    have st: "scan_loop p i n 1 b str [] = scan_loop p i (n + 1) 1 b str1 []"
      using False n by (subst scan_loop.simps) (simp add: str1_def)
    have len: "n + length (takeWhile (\<lambda>c. c \<noteq> CHR ''}'') (drop n p)) =
        (n + 1) + length (takeWhile (\<lambda>c. c \<noteq> CHR ''}'') (drop (n + 1) p))"
      using False by (simp add: drop_nth [OF n])
    have same: "str1 = str" if "n + 1 + length (takeWhile (\<lambda>c. c \<noteq> CHR ''}'') (drop (n + 1) p)) \<noteq> length p"
      using that by (auto simp: str1_def)
    from Suc.hyps(1) [of "n + 1" str1] Suc.hyps(2) Suc.prems n st len same show ?thesis
      by (auto simp: Let_def split: if_splits)
  qed
qed

lemma dropWhile_drop: "dropWhile P (drop n p) = drop (n + length (takeWhile P (drop n p))) p"
  by (simp add: dropWhile_eq_drop add.commute)

lemma substr_takeWhile: "substr p n (length (takeWhile P (drop n p))) = takeWhile P (drop n p)"
  by (simp add: substr_def takeWhile_eq_take [symmetric])

lemma scan_read:
  assumes "i < length p" and "scan_loop p i (i + 1) 0 0 [] [] = (n, st, str, fmt)"
  shows "case read_spec (drop (i + 1) p) of
     Some (name, f, rest) \<Rightarrow> st = 0 \<and> str = name \<and> fmt = f \<and> drop n p = rest \<and> n \<le> length p
   | None \<Rightarrow> st = 1 \<and> fmt = []"
proof -
  define r where "r = drop (i + 1) p"
  define m where "m = i + 1 + length (takeWhile name_char r)"
  have m: "m \<le> length p" using length_takeWhile_le [of name_char r] assms(1) by (simp add: m_def r_def)
  have dm: "dropWhile name_char r = drop m p" by (simp add: m_def r_def dropWhile_drop)
  have nm: "substr p (i + 1) (m - i - 1) = takeWhile name_char r"
    by (simp add: m_def r_def substr_takeWhile [of p "i + 1", simplified])
  have init: "(if i + 1 = length p then drop (i + 1) p else []) = []" by simp
  note sc = scan_name [of i "i + 1" p 0, unfolded init, folded r_def, folded m_def, unfolded Let_def nm]
  consider (whole) "m = length p" | (brace) "m < length p" "p ! m = CHR ''{''" | (stop) "m < length p" "p ! m \<noteq> CHR ''{''"
    using m by linarith
  then show ?thesis
  proof cases
    case whole
    then have "takeWhile name_char r = r" using dm dropWhile_eq_Nil_conv [of name_char r] by simp
    with whole dm have "read_spec r = Some (r, [], [])" by (simp add: read_spec_def Let_def)
    with whole sc assms show ?thesis unfolding r_def [symmetric] by simp
  next
    case stop
    with dm have "read_spec r = Some (takeWhile name_char r, [], drop m p)"
      by (simp add: read_spec_def Let_def drop_nth)
    with stop sc assms show ?thesis unfolding r_def [symmetric] by simp
  next
    case brace
    define k where "k = m + 1 + length (takeWhile (\<lambda>c. c \<noteq> CHR ''}'') (drop (m + 1) p))"
    have tl: "tl (dropWhile name_char r) = drop (m + 1) p" using dm brace by (simp add: drop_nth)
    have st1: "scan_loop p i (m + 1) 1 m (takeWhile name_char r) [] = (n, st, str, fmt)" using sc brace assms by simp
    note f = scan_format [of "m + 1" p m i "takeWhile name_char r", folded k_def, unfolded Let_def st1]
    have k: "k \<le> length p"
      using length_takeWhile_le [of "\<lambda>c. c \<noteq> CHR ''}''" "drop (m + 1) p"] brace by (simp add: k_def)
    have dk: "dropWhile (\<lambda>c. c \<noteq> CHR ''}'') (drop (m + 1) p) = drop k p" by (simp add: k_def dropWhile_drop)
    have closed: "CHR ''}'' \<in> set (drop (m + 1) p) \<longleftrightarrow> k < length p"
      using dk k dropWhile_eq_Nil_conv [of "\<lambda>c. c \<noteq> CHR ''}''" "drop (m + 1) p"] by auto
    have fm: "substr p (m + 1) (k - m - 1) = takeWhile (\<lambda>c. c \<noteq> CHR ''}'') (drop (m + 1) p)"
      by (simp add: k_def substr_takeWhile [of p "m + 1", simplified])
    have rs: "read_spec r = (if k < length p
        then Some (takeWhile name_char r, takeWhile (\<lambda>c. c \<noteq> CHR ''}'') (drop (m + 1) p), drop (k + 1) p) else None)"
      using dm brace tl closed dk by (simp add: read_spec_def drop_nth Let_def drop_Suc tl_drop)
    from f brace k fm show ?thesis unfolding r_def [symmetric] rs by (auto split: if_splits)
  qed
qed

lemma init_reads:
  "i \<le> length p \<Longrightarrow> init_loop p i nstr vec err =
    (let (v, e) = read_pattern (drop i p) nstr in (vec @ v, err \<or> e))"
proof (induction p i nstr vec err rule: init_loop.induct)
  case (1 p i nstr vec err)
  show ?case
  proof (cases "i < length p")
    case False
    with "1.prems" show ?thesis by (subst init_loop.simps) (simp add: read_pattern_simps)
  next
    case i: True
    show ?thesis
    proof (cases "p ! i = CHR ''%''")
      case False
      with 1(1) i show ?thesis
        by (subst init_loop.simps) (simp add: drop_nth [OF i] read_pattern_simps)
    next
      case pc: True
      show ?thesis
      proof (cases "i + 1 < length p \<and> p ! (i + 1) = CHR ''%''")
        case True
        then have "drop i p = CHR ''%'' # CHR ''%'' # drop (i + 2) p"
          using drop_nth [OF i] drop_nth [of "i + 1" p] pc by simp
        with 1(2) i pc True show ?thesis
          by (subst init_loop.simps) (simp add: read_pattern_simps)
      next
        case False
        obtain n st str fmt where sl: "scan_loop p i (i + 1) 0 0 [] [] = (n, st, str, fmt)" by (cases "scan_loop p i (i + 1) 0 0 [] []") auto
        define r where "r = drop (i + 1) p"
        have r: "drop (Suc i) p = r" by (simp add: r_def)
        have dr: "drop i p = CHR ''%'' # r" using drop_nth [OF i] pc r by simp
        have hd: "r = [] \<or> hd r \<noteq> CHR ''%''"
          using False by (cases "i + 1 < length p") (auto simp: r_def hd_drop_conv_nth)
        note rp = read_pattern_spec [OF hd, of nstr]
        note sr = scan_read [OF i sl, folded r_def]
        show ?thesis
        proof (cases "read_spec r")
          case None
          with sr have "st \<noteq> 0" "fmt = []" by auto
          with 1(4) [OF _ _ _ sl [symmetric] refl refl] i pc False sl None show ?thesis
            by (subst init_loop.simps) (auto simp: dr rp r split: prod.splits)
        next
          case (Some q)
          with sr have "st = 0" "q = (str, fmt, drop n p)" "n \<le> length p" by (auto split: prod.splits)
          with 1(3) [OF _ _ _ sl [symmetric] refl refl] i pc False sl Some show ?thesis
            by (subst init_loop.simps) (auto simp: dr rp r split: prod.splits)
        qed
      qed
    qed
  qed
qed

section \<open>Printing a pattern\<close>

definition print_literal :: "string \<Rightarrow> string" where
  "print_literal s = concat (map (\<lambda>c. if c = CHR ''%'' then ''%%'' else [c]) s)"

definition print_spec :: "string \<Rightarrow> string \<Rightarrow> string" where
  "print_spec name fmt = CHR ''%'' # name @ (if fmt = [] then [] else ''{'' @ fmt @ ''}'')"

fun print_pattern :: "segment list \<Rightarrow> string" where
  "print_pattern [] = []"
| "print_pattern ((str, fmt, type) # segs) =
    (if type = 0 then print_literal str else print_spec str fmt) @ print_pattern segs"

text \<open>What may follow a name without a format, and the segments that print unambiguously: literals are
  not empty and not adjacent, names are letters, formats have no closing brace.\<close>

definition ends_name :: "string \<Rightarrow> bool" where
  "ends_name r \<longleftrightarrow> r = [] \<or> \<not> name_char (hd r) \<and> hd r \<noteq> CHR ''{''"

fun printable :: "segment list \<Rightarrow> bool" where
  "printable [] = True"
| "printable ((str, fmt, type) # segs) =
    ((if type = 0 then str \<noteq> [] \<and> fmt = [] \<and> (segs = [] \<or> snd (snd (hd segs)) \<noteq> 0)
      else type = 1 \<and> str \<noteq> [] \<and> list_all is_alpha str \<and> CHR ''}'' \<notin> set fmt
        \<and> (fmt \<noteq> [] \<or> ends_name (print_pattern segs))) \<and> printable segs)"

lemma read_literal: "read_pattern (print_literal s @ r) nstr = read_pattern r (nstr @ s)"
  by (induction s arbitrary: nstr) (simp_all add: print_literal_def read_pattern_simps)

lemma takeWhile_name: "list_all is_alpha name \<Longrightarrow> takeWhile name_char (name @ r) = name @ takeWhile name_char r
    \<and> dropWhile name_char (name @ r) = dropWhile name_char r"
  by (induction name) (auto simp: name_char_def)

lemma read_spec_print:
  assumes "list_all is_alpha name" and "CHR ''}'' \<notin> set fmt" and "fmt \<noteq> [] \<or> ends_name r"
  shows "read_spec (name @ (if fmt = [] then [] else ''{'' @ fmt @ ''}'') @ r) = Some (name, fmt, r)"
proof (cases "fmt = []")
  case True
  with assms(3) have "takeWhile name_char r = []" "dropWhile name_char r = r" "r = [] \<or> hd r \<noteq> CHR ''{''"
    by (cases r; simp add: ends_name_def)+
  with True assms(1) show ?thesis by (auto simp: read_spec_def takeWhile_name)
next
  case False
  have nc: "\<not> name_char (CHR ''{'')" by (simp add: name_char_def is_alpha_def)
  have "takeWhile (\<lambda>c. c \<noteq> CHR ''}'') (fmt @ CHR ''}'' # r) = fmt"
    "dropWhile (\<lambda>c. c \<noteq> CHR ''}'') (fmt @ CHR ''}'' # r) = CHR ''}'' # r"
    using assms(2) by (induction fmt) auto
  with False assms(1) nc show ?thesis by (simp add: read_spec_def takeWhile_name Let_def)
qed

lemma read_print_spec:
  assumes "name \<noteq> []" and "list_all is_alpha name" and "CHR ''}'' \<notin> set fmt" and "fmt \<noteq> [] \<or> ends_name r"
  shows "read_pattern (print_spec name fmt @ r) nstr =
    (let (v, e) = read_pattern r [] in (flush nstr @ (name, fmt, 1) # v, e))"
proof -
  have "hd (name @ q) \<noteq> CHR ''%''" for q using assms(1,2) by (cases name) (auto simp: is_alpha_def)
  then show ?thesis
    using read_spec_print [OF assms(2-4)] by (simp add: print_spec_def read_pattern_spec)
qed

lemma read_print:
  "printable segs \<Longrightarrow> nstr = [] \<or> segs = [] \<or> snd (snd (hd segs)) \<noteq> 0 \<Longrightarrow>
    read_pattern (print_pattern segs) nstr = (flush nstr @ segs, False)"
proof (induction segs arbitrary: nstr rule: print_pattern.induct)
  case (2 str fmt type segs)
  show ?case
  proof (cases "type = 0")
    case True
    with 2 show ?thesis by (simp add: read_literal flush_def)
  next
    case False
    with 2 show ?thesis by (simp add: read_print_spec flush_def)
  qed
qed (simp add: read_pattern_simps flush_def)

lemma mk_LogFormatter_read:
  "mk_LogFormatter p = (case read_pattern p [] of (vec, err) \<Rightarrow>
     \<lparr>m_pattern = p, m_items = map (fst \<circ> make_item) vec, fmt_error = (err \<or> list_ex (snd \<circ> make_item) vec)\<rparr>)"
  using init_reads [of 0 p "[]" "[]" False] by (simp add: mk_LogFormatter_def split: prod.splits)

section \<open>Properties\<close>




text \<open>The default pattern of a logger has no error.\<close>

definition default_pattern :: string where
  "default_pattern = ''[%D{%Y-%m-%d %H:%M:%S}] [T:%N] [%t] [F:%F] [%c]%T[%p]%T[%f: %l]  %T%m %n''"

lemma default_pattern_ok: "fmt_error (mk_LogFormatter default_pattern) = False"
  by code_simp

text \<open>The milliseconds of a time take three digits.\<close>

lemma show_base_length: "n < 10 \<Longrightarrow> length (show_base 10 n) = 1"
  "10 \<le> n \<Longrightarrow> n < 100 \<Longrightarrow> length (show_base 10 n) = 2"
  "100 \<le> n \<Longrightarrow> n < 1000 \<Longrightarrow> length (show_base 10 n) = 3"
  by (simp_all add: show_base_rec, linarith?)

lemma milliseconds_width:
  assumes "snd tv < 1000000" and "0 \<le> snd tv"
  shows "length (milliseconds (mk_LogEvent tv lg l f ln el t fb nm)) = 4"
proof -
  define k where "k = snd tv div 1000"
  have "0 \<le> k" "k < 1000" using assms by (simp_all add: k_def)
  then show ?thesis
    using show_base_length [of "nat k"] by (auto simp: milliseconds_def mk_LogEvent_def k_def [symmetric] show_int_def)
qed

end
