(* ===== verification/Configs.thy ===== *)
theory Configs
  imports Ordered_Containers
begin

text \<open>
  The configuration of \<^verbatim>\<open>config.h\<close> and \<^verbatim>\<open>config.cc\<close>: variables with listeners, the table of
  variables by name, and loading a YAML document into them. A value of any C++ type is a value of
  the type variable \<open>'v\<close> and its C++ type a tag of \<open>'t\<close>; the conversions between a value and its text
  (\<^verbatim>\<open>FromStr\<close>, \<^verbatim>\<open>ToStr\<close>) and the behaviour of listeners are arguments, as are the two functions
  of yaml-cpp that the code relies on, \<^verbatim>\<open>YAML::Load\<close> and the output of a node. The listeners called
  are kept as a trace. Variables are heap cells, because the table and the callers of
  \<^verbatim>\<open>Config::LookUp\<close> share them.
\<close>

section \<open>YAML documents\<close>

datatype yaml = Y_null | Y_scalar string | Y_seq "yaml list" | Y_map "(yaml \<times> yaml) list"

fun Scalar :: "yaml \<Rightarrow> string" where
  "Scalar (Y_scalar s) = s"
| "Scalar _ = []"

fun IsScalar :: "yaml \<Rightarrow> bool" where
  "IsScalar (Y_scalar s) = True"
| "IsScalar _ = False"

section \<open>Variables\<close>

definition tolower :: "char \<Rightarrow> char" where
  "tolower c = (let n = of_char c :: nat in if 65 \<le> n \<and> n \<le> 90 then char_of (n + 32) else c)"

record ('t, 'v, 'cb) config_var =
  cv_type :: 't
  m_name :: string
  m_description :: string
  m_val :: 'v
  m_cbs :: "(uint64 \<times> 'cb) list"

definition mk_ConfigVar :: "'t \<Rightarrow> string \<Rightarrow> 'v \<Rightarrow> string \<Rightarrow> ('t, 'v, 'cb) config_var" where
  "mk_ConfigVar T name default_value description =
    \<lparr>cv_type = T, m_name = map tolower name, m_description = description, m_val = default_value, m_cbs = []\<rparr>"

text \<open>The counter \<^verbatim>\<open>s_fun_id\<close> is shared by all variables of one type; it is handed in and out.\<close>

definition addListener :: "'cb \<Rightarrow> uint64 \<Rightarrow> ('t, 'v, 'cb) config_var \<Rightarrow> uint64 \<times> ('t, 'v, 'cb) config_var" where
  "addListener cb s_fun_id x =
    (let n = s_fun_id + 1 in (n, x\<lparr>m_cbs := map_assign (<) n cb (m_cbs x)\<rparr>))"

definition delListener :: "uint64 \<Rightarrow> ('t, 'v, 'cb) config_var \<Rightarrow> ('t, 'v, 'cb) config_var" where
  "delListener key x = x\<lparr>m_cbs := map_erase (<) key (m_cbs x)\<rparr>"

definition getListener :: "uint64 \<Rightarrow> ('t, 'v, 'cb) config_var \<Rightarrow> 'cb option" where
  "getListener key x = map_find (<) key (m_cbs x)"

definition clearListener :: "('t, 'v, 'cb) config_var \<Rightarrow> ('t, 'v, 'cb) config_var" where
  "clearListener x = x\<lparr>m_cbs := []\<rparr>"

definition getValue :: "('t, 'v, 'cb) config_var \<Rightarrow> 'v" where
  "getValue x = m_val x"

text \<open>The loop over the listeners, with the calls made and whether it reached the end: an exception of a
  listener leaves it.\<close>

fun notify_all :: "('cb \<Rightarrow> 'v \<Rightarrow> 'v \<Rightarrow> bool) \<Rightarrow> 'cb list \<Rightarrow> 'v \<Rightarrow> 'v \<Rightarrow> ('cb \<times> 'v \<times> 'v) list \<times> bool" where
  "notify_all throws [] old v = ([], True)"
| "notify_all throws (cb # cbs) old v =
    (if throws cb old v then ([(cb, old, v)], False)
     else let (called, ok) = notify_all throws cbs old v in ((cb, old, v) # called, ok))"

definition setValue :: "('cb \<Rightarrow> 'v \<Rightarrow> 'v \<Rightarrow> bool) \<Rightarrow> 'v \<Rightarrow> ('t, 'v, 'cb) config_var \<Rightarrow>
    ('cb \<times> 'v \<times> 'v) list \<times> ('t, 'v, 'cb) config_var result" where
  "setValue throws v x =
    (if m_val x = v then ([], Inr x)
     else let (called, ok) = notify_all throws (map snd (m_cbs x)) (m_val x) v in
       (called, if ok then Inr (x\<lparr>m_val := v\<rparr>) else Inl Library_exception))"

definition toString :: "('t \<Rightarrow> 'v \<Rightarrow> string result) \<Rightarrow> ('t, 'v, 'cb) config_var \<Rightarrow> string" where
  "toString ToStr x = (case ToStr (cv_type x) (m_val x) of Inr s \<Rightarrow> s | Inl f \<Rightarrow> [])"

text \<open>\<^verbatim>\<open>fromString\<close> catches what the conversion and the listeners throw, and always answers false.\<close>

definition fromString :: "('t \<Rightarrow> string \<Rightarrow> 'v result) \<Rightarrow> ('cb \<Rightarrow> 'v \<Rightarrow> 'v \<Rightarrow> bool) \<Rightarrow> string \<Rightarrow>
    ('t, 'v, 'cb) config_var \<Rightarrow> ('cb \<times> 'v \<times> 'v) list \<times> ('t, 'v, 'cb) config_var \<times> bool" where
  "fromString FromStr throws s x = (case FromStr (cv_type x) s of
     Inl f \<Rightarrow> ([], x, False)
   | Inr v \<Rightarrow> (case setValue throws v x of
       (called, Inl f) \<Rightarrow> (called, x, False)
     | (called, Inr x') \<Rightarrow> (called, x', False)))"

section \<open>The table of variables\<close>

record ('t, 'v, 'cb) config =
  cells :: "('t, 'v, 'cb) config_var list"
  s_datas :: "(string \<times> nat) list"
  notified :: "('cb \<times> 'v \<times> 'v) list"

text \<open>\<^verbatim>\<open>std::less<std::string>\<close>: lexicographic by the unsigned value of the characters.\<close>

definition str_less :: "string \<Rightarrow> string \<Rightarrow> bool" where
  "str_less a b = ord_class.lexordp (map (of_char :: char \<Rightarrow> nat) a) (map of_char b)"

definition name_chars :: string where
  "name_chars = ''abcdefghijklmnopqrstuvwxyz._012345678''"

definition valid_name :: "string \<Rightarrow> bool" where
  "valid_name s = list_all (\<lambda>c. c \<in> set name_chars) s"

definition LookupBase :: "string \<Rightarrow> ('t, 'v, 'cb) config \<Rightarrow> nat option" where
  "LookupBase name w = map_find str_less name (s_datas w)"

definition LookUp :: "'t \<Rightarrow> string \<Rightarrow> 'v \<Rightarrow> string \<Rightarrow> ('t, 'v, 'cb) config \<Rightarrow> (nat \<times> ('t, 'v, 'cb) config) result" where
  "LookUp T name default_value description w =
    (if (case map_find str_less name (s_datas w) of None \<Rightarrow> False | Some a \<Rightarrow> cv_type (cells w ! a) \<noteq> T)
     then Inl Invalid_argument
     else if \<not> valid_name name then Inl Invalid_argument
     else let v = length (cells w) in
       Inr (v, w\<lparr>cells := cells w @ [mk_ConfigVar T name default_value description],
                 s_datas := map_assign str_less name v (s_datas w)\<rparr>))"

function (sequential) ListALLMember :: "string \<Rightarrow> yaml \<Rightarrow> (string \<times> yaml) list \<Rightarrow> (string \<times> yaml) list result"
  and list_pairs :: "string \<Rightarrow> (yaml \<times> yaml) list \<Rightarrow> (string \<times> yaml) list \<Rightarrow> (string \<times> yaml) list result" where
  "ListALLMember pre (Y_map ps) out =
    (if \<not> valid_name pre then Inl Invalid_argument else list_pairs pre ps (out @ [(pre, Y_map ps)]))"
| "ListALLMember pre node out =
    (if \<not> valid_name pre then Inl Invalid_argument else Inr (out @ [(pre, node)]))"
| "list_pairs pre [] out = Inr out"
| "list_pairs pre ((k, n) # ps) out =
    bindE (ListALLMember (if pre = [] then Scalar k else pre @ ''.'' @ Scalar k) n out) (list_pairs pre ps)"
  by pat_completeness auto

termination
  by (relation "measure (\<lambda>x. case x of Inl (p, n, out) \<Rightarrow> size n | Inr (p, ps, out) \<Rightarrow> size_list (size_prod size size) ps)") auto

definition load_member :: "(yaml \<Rightarrow> string) \<Rightarrow> ('t \<Rightarrow> string \<Rightarrow> 'v result) \<Rightarrow> ('cb \<Rightarrow> 'v \<Rightarrow> 'v \<Rightarrow> bool) \<Rightarrow>
    string \<times> yaml \<Rightarrow> ('t, 'v, 'cb) config \<Rightarrow> ('t, 'v, 'cb) config" where
  "load_member emit FromStr throws m w =
    (if fst m = [] then w
     else (case LookupBase (map tolower (fst m)) w of
       None \<Rightarrow> w
     | Some a \<Rightarrow>
         let text = (if IsScalar (snd m) then Scalar (snd m) else emit (snd m));
             (called, x, b) = fromString FromStr throws text (cells w ! a)
         in w\<lparr>cells := (cells w)[a := x], notified := notified w @ called\<rparr>))"

definition LodeFromYaml :: "(yaml \<Rightarrow> string) \<Rightarrow> ('t \<Rightarrow> string \<Rightarrow> 'v result) \<Rightarrow> ('cb \<Rightarrow> 'v \<Rightarrow> 'v \<Rightarrow> bool) \<Rightarrow>
    yaml \<Rightarrow> ('t, 'v, 'cb) config \<Rightarrow> ('t, 'v, 'cb) config result" where
  "LodeFromYaml emit FromStr throws root w =
    bindE (ListALLMember [] root []) (\<lambda>all_node. Inr (fold (load_member emit FromStr throws) all_node w))"

section \<open>The orders of the two tables\<close>

interpretation id_order: strict_weak_order "(<) :: uint64 \<Rightarrow> uint64 \<Rightarrow> bool"
  by unfold_locales (auto simp: equiv_key_def)

lemma equiv_id [simp]: "equiv_key ((<) :: uint64 \<Rightarrow> uint64 \<Rightarrow> bool) a b \<longleftrightarrow> a = b"
  by (auto simp: equiv_key_def)

lemma equiv_str [simp]: "equiv_key str_less a b \<longleftrightarrow> a = b"
proof
  assume "equiv_key str_less a b"
  then have "map (of_char :: char \<Rightarrow> nat) a = map of_char b"
    using lexordp_linear [of "map (of_char :: char \<Rightarrow> nat) a" "map of_char b"] by (auto simp: equiv_key_def str_less_def)
  then show "a = b" by (simp add: inj_map_eq_map inj_of_char)
qed (simp add: equiv_key_def str_less_def lexordp_irreflexive')

interpretation str_order: strict_weak_order str_less
  by unfold_locales (auto simp: str_less_def lexordp_irreflexive' intro: lexordp_trans)

section \<open>Listeners\<close>

text \<open>The listeners of a variable are in the order of their ids, and none is beyond the counter.\<close>

definition listeners_ok :: "uint64 \<Rightarrow> ('t, 'v, 'cb) config_var \<Rightarrow> bool" where
  "listeners_ok n x \<longleftrightarrow> map_sorted (<) (m_cbs x) \<and> (\<forall>k \<in> fst ` set (m_cbs x). k \<le> n)"

lemma map_find_above: "\<forall>k \<in> fst ` set m. k < (i :: uint64) \<Longrightarrow> map_find (<) i m = None"
proof (induction m)
  case (Cons p m)
  then show ?case by (cases p) (auto dest: less_asym)
qed simp

lemma uint64_next_fresh: "n \<noteq> - 1 \<Longrightarrow> k \<le> n \<Longrightarrow> k < n + (1 :: uint64)"
proof -
  assume n: "n \<noteq> - 1" and k: "k \<le> n"
  then have "1 + n \<noteq> 0" by (metis add.commute add_eq_0_iff minus_equation_iff)
  with k show "k < n + 1" by (simp add: word_less_nat_alt word_le_nat_alt unatSuc add.commute)
qed

lemma listener_laws:
  assumes "listeners_ok n x" and "n \<noteq> - 1" and "addListener cb n x = (i, x')"
  shows "i = n + 1" "listeners_ok i x'" "getListener i x = None" "getListener i x' = Some cb"
    "k \<noteq> i \<Longrightarrow> getListener k x' = getListener k x"
    "map snd (m_cbs x') = map snd (m_cbs x) @ [cb]"
proof -
  from assms(3) have i: "i = n + 1" "x' = x\<lparr>m_cbs := map_assign (<) (n + 1) cb (m_cbs x)\<rparr>"
    by (auto simp: addListener_def Let_def)
  then show "i = n + 1" by simp
  have below: "\<forall>k \<in> fst ` set (m_cbs x). k < n + 1"
    using assms(1,2) uint64_next_fresh by (auto simp: listeners_ok_def)
  have so: "map_sorted (<) (m_cbs x)" using assms(1) by (simp add: listeners_ok_def)
  show "listeners_ok i x'"
    using i so below by (auto simp: listeners_ok_def intro: id_order.map_assign_sorted dest!: id_order.map_assign_keys)
  show "getListener i x = None" by (simp add: getListener_def i(1) map_find_above [OF below])
  show "getListener i x' = Some cb" by (simp add: getListener_def i id_order.map_find_assign [OF so])
  show "k \<noteq> i \<Longrightarrow> getListener k x' = getListener k x"
    by (simp add: getListener_def i id_order.map_find_assign [OF so])
  from below have "map_assign (<) (n + 1) cb m = m @ [(n + 1, cb)]" if "\<forall>k \<in> fst ` set m. k < n + 1" for m
    using that
  proof (induction m)
    case (Cons p m)
    then show ?case by (cases p) (auto dest: less_asym)
  qed simp
  with below i show "map snd (m_cbs x') = map snd (m_cbs x) @ [cb]" by simp
qed

lemma notify_all_spec:
  "notify_all throws cbs old v =
    (let ok = takeWhile (\<lambda>cb. \<not> throws cb old v) cbs in
     (map (\<lambda>cb. (cb, old, v)) (ok @ take 1 (drop (length ok) cbs)), length ok = length cbs))"
  by (induction cbs) (auto simp: Let_def split: prod.splits)

section \<open>The members of a document\<close>

text \<open>Every node below the root with its dotted path, in document order, and what the listing does with
  them.\<close>

function (sequential) members :: "string \<Rightarrow> yaml \<Rightarrow> (string \<times> yaml) list"
  and pair_members :: "string \<Rightarrow> (yaml \<times> yaml) list \<Rightarrow> (string \<times> yaml) list" where
  "members pre (Y_map ps) = (pre, Y_map ps) # pair_members pre ps"
| "members pre node = [(pre, node)]"
| "pair_members pre [] = []"
| "pair_members pre ((k, n) # ps) =
    members (if pre = [] then Scalar k else pre @ ''.'' @ Scalar k) n @ pair_members pre ps"
  by pat_completeness auto

termination
  by (relation "measure (\<lambda>x. case x of Inl (p, n) \<Rightarrow> size n | Inr (p, ps) \<Rightarrow> size_list (size_prod size size) ps)") auto

lemma list_members:
  "ListALLMember pre node out =
    (if \<forall>m \<in> set (members pre node). valid_name (fst m) then Inr (out @ members pre node) else Inl Invalid_argument)"
  "list_pairs pre ps out =
    (if \<forall>m \<in> set (pair_members pre ps). valid_name (fst m) then Inr (out @ pair_members pre ps)
     else Inl Invalid_argument)"
  by (induction pre node out and pre ps out rule: ListALLMember_list_pairs.induct) auto

lemma valid_tolower: "valid_name s \<Longrightarrow> map tolower s = s"
proof -
  have "\<forall>c \<in> set name_chars. tolower c = c" by code_simp
  then show "valid_name s \<Longrightarrow> map tolower s = s" by (auto simp: valid_name_def list_all_iff intro: map_idI)
qed

section \<open>The table\<close>

definition config_wf :: "('t, 'v, 'cb) config \<Rightarrow> bool" where
  "config_wf w \<longleftrightarrow> map_sorted str_less (s_datas w) \<and>
     (\<forall>name a. LookupBase name w = Some a \<longrightarrow> a < length (cells w) \<and> m_name (cells w ! a) = name \<and> valid_name name)"

lemma config_wfD:
  assumes "config_wf w" and "LookupBase name w = Some a"
  shows "a < length (cells w)" "m_name (cells w ! a) = name" "valid_name name"
  using assms by (auto simp: config_wf_def)

lemma LookUp_facts:
  assumes "config_wf w" and "LookUp T name v d w = Inr (a, w')"
  shows "a = length (cells w)" "config_wf w'" "LookupBase name w' = Some a" "cells w' ! a = mk_ConfigVar T name v d"
    "k \<noteq> name \<Longrightarrow> LookupBase k w' = LookupBase k w" "b < length (cells w) \<Longrightarrow> cells w' ! b = cells w ! b"
    "length (cells w') = Suc (length (cells w))" "valid_name name" "notified w' = notified w"
proof -
  from assms(2) have w': "valid_name name" "a = length (cells w)"
    "w' = w\<lparr>cells := cells w @ [mk_ConfigVar T name v d], s_datas := map_assign str_less name a (s_datas w)\<rparr>"
    by (auto simp: LookUp_def Let_def split: if_splits)
  have so: "map_sorted str_less (s_datas w)" using assms(1) by (simp add: config_wf_def)
  have lk: "LookupBase k w' = (if k = name then Some a else LookupBase k w)" for k
    using w' by (auto simp: LookupBase_def str_order.map_find_assign [OF so])
  show "a = length (cells w)" "valid_name name" "notified w' = notified w" using w' by simp_all
  show "LookupBase name w' = Some a" "k \<noteq> name \<Longrightarrow> LookupBase k w' = LookupBase k w" using lk by simp_all
  show "cells w' ! a = mk_ConfigVar T name v d" "b < length (cells w) \<Longrightarrow> cells w' ! b = cells w ! b"
    "length (cells w') = Suc (length (cells w))" using w' by (simp_all add: nth_append)
  show "config_wf w'"
    using w' so lk config_wfD [OF assms(1)] valid_tolower
    by (auto simp: config_wf_def str_order.map_assign_sorted nth_append mk_ConfigVar_def less_SucI split: if_splits)
qed

text \<open>What loading one text does to the value of a variable.\<close>

definition loaded_value :: "('t \<Rightarrow> string \<Rightarrow> 'v result) \<Rightarrow> ('cb \<Rightarrow> 'v \<Rightarrow> 'v \<Rightarrow> bool) \<Rightarrow>
    ('t, 'v, 'cb) config_var \<Rightarrow> string \<Rightarrow> 'v \<Rightarrow> 'v" where
  "loaded_value FromStr throws x s v = (case FromStr (cv_type x) s of
     Inl f \<Rightarrow> v
   | Inr v' \<Rightarrow> if list_ex (\<lambda>cb. throws cb v v') (map snd (m_cbs x)) \<and> v' \<noteq> v then v else v')"

lemma fromString_value:
  "fst (snd (fromString FromStr throws s x)) = x\<lparr>m_val := loaded_value FromStr throws x s (m_val x)\<rparr>"
proof -
  have "snd (notify_all throws cbs old v) = (\<not> list_ex (\<lambda>cb. throws cb old v) cbs)" for cbs old v
    by (induction cbs) (auto simp: Let_def split: prod.splits)
  then have ok: "notify_all throws cbs old v = (c, b) \<Longrightarrow> b = (\<not> list_ex (\<lambda>cb. throws cb old v) cbs)" for cbs old v c b
    by (metis snd_conv)
  show ?thesis
    by (auto simp: fromString_def setValue_def loaded_value_def split: sum.splits prod.splits dest!: ok)
qed

definition node_text :: "(yaml \<Rightarrow> string) \<Rightarrow> yaml \<Rightarrow> string" where
  "node_text emit n = (if IsScalar n then Scalar n else emit n)"

lemma load_member_frame:
  assumes "config_wf w" and "valid_name (fst m)" and "w' = load_member emit FromStr throws m w"
  shows "s_datas w' = s_datas w" "length (cells w') = length (cells w)" "config_wf w'"
    "cells w' ! a = (if fst m \<noteq> [] \<and> LookupBase (fst m) w = Some a
       then (cells w ! a)\<lparr>m_val := loaded_value FromStr throws (cells w ! a) (node_text emit (snd m)) (m_val (cells w ! a))\<rparr>
       else cells w ! a)"
proof -
  consider (skip) "fst m = [] \<or> LookupBase (fst m) w = None" "w' = w"
    | (load) b where "fst m \<noteq> []" "LookupBase (fst m) w = Some b" "b < length (cells w)"
      "w' = w\<lparr>cells := (cells w)[b := (cells w ! b)\<lparr>m_val :=
          loaded_value FromStr throws (cells w ! b) (node_text emit (snd m)) (m_val (cells w ! b))\<rparr>],
        notified := notified w @ fst (fromString FromStr throws (node_text emit (snd m)) (cells w ! b))\<rparr>"
    using assms(3) config_wfD(1) [OF assms(1)] valid_tolower [OF assms(2)]
    by (cases "LookupBase (fst m) w")
      (auto simp: load_member_def node_text_def [symmetric] Let_def fromString_value [symmetric] split: prod.splits if_splits)
  then show "s_datas w' = s_datas w" "length (cells w') = length (cells w)"
    "cells w' ! a = (if fst m \<noteq> [] \<and> LookupBase (fst m) w = Some a
       then (cells w ! a)\<lparr>m_val := loaded_value FromStr throws (cells w ! a) (node_text emit (snd m)) (m_val (cells w ! a))\<rparr>
       else cells w ! a)" "config_wf w'"
    by (cases; use assms(1) in \<open>auto simp: config_wf_def LookupBase_def nth_list_update\<close>)+
qed

lemma loaded_value_upd [simp]:
  "loaded_value FromStr throws (x\<lparr>m_val := u\<rparr>) s v = loaded_value FromStr throws x s v"
  by (simp add: loaded_value_def split: sum.split)

text \<open>The value of a variable after the members of a document, in order.\<close>

definition value_after :: "(yaml \<Rightarrow> string) \<Rightarrow> ('t \<Rightarrow> string \<Rightarrow> 'v result) \<Rightarrow> ('cb \<Rightarrow> 'v \<Rightarrow> 'v \<Rightarrow> bool) \<Rightarrow>
    ('t, 'v, 'cb) config_var \<Rightarrow> string \<Rightarrow> (string \<times> yaml) list \<Rightarrow> 'v" where
  "value_after emit FromStr throws x name ms = fold (\<lambda>m v.
     if fst m = name \<and> name \<noteq> [] then loaded_value FromStr throws x (node_text emit (snd m)) v else v) ms (m_val x)"

lemma value_after_Cons:
  "value_after emit FromStr throws x name (m # ms) =
    value_after emit FromStr throws
      (if fst m = name \<and> name \<noteq> []
       then x\<lparr>m_val := loaded_value FromStr throws x (node_text emit (snd m)) (m_val x)\<rparr> else x) name ms"
  by (simp add: value_after_def cong: if_cong)

lemma load_members_frame:
  assumes "config_wf w" and "\<forall>m \<in> set ms. valid_name (fst m)"
  shows "s_datas (fold (load_member emit FromStr throws) ms w) = s_datas w \<and>
    length (cells (fold (load_member emit FromStr throws) ms w)) = length (cells w) \<and>
    config_wf (fold (load_member emit FromStr throws) ms w)"
  using assms
proof (induction ms arbitrary: w)
  case (Cons m ms)
  have v: "valid_name (fst m)" using Cons.prems(2) by simp
  note f = load_member_frame(1-3) [OF Cons.prems(1) v refl, of emit FromStr throws]
  from Cons.IH [OF f(3)] Cons.prems(2) f show ?case by simp
qed simp

lemma load_members_unregistered:
  assumes "config_wf w" and "\<forall>m \<in> set ms. valid_name (fst m)" and "\<And>name. LookupBase name w \<noteq> Some a"
  shows "cells (fold (load_member emit FromStr throws) ms w) ! a = cells w ! a"
  using assms
proof (induction ms arbitrary: w)
  case (Cons m ms)
  have v: "valid_name (fst m)" using Cons.prems(2) by simp
  note f = load_member_frame [OF Cons.prems(1) v refl, of emit FromStr throws]
  have "LookupBase name (load_member emit FromStr throws m w) \<noteq> Some a" for name
    using Cons.prems(3) f(1) by (simp add: LookupBase_def)
  from Cons.IH [OF f(3) _ this] Cons.prems(2,3) f(4) [of a] show ?case by simp
qed simp

lemma load_members_registered:
  assumes "config_wf w" and "\<forall>m \<in> set ms. valid_name (fst m)" and "LookupBase name w = Some a"
  shows "cells (fold (load_member emit FromStr throws) ms w) ! a =
    (cells w ! a)\<lparr>m_val := value_after emit FromStr throws (cells w ! a) name ms\<rparr>"
  using assms
proof (induction ms arbitrary: w)
  case (Cons m ms)
  have v: "valid_name (fst m)" using Cons.prems(2) by simp
  note f = load_member_frame [OF Cons.prems(1) v refl, of emit FromStr throws]
  have "LookupBase (fst m) w = Some a \<longleftrightarrow> fst m = name"
    using config_wfD(2) [OF Cons.prems(1)] Cons.prems(3) by metis
  moreover have "LookupBase name (load_member emit FromStr throws m w) = Some a"
    using Cons.prems(3) f(1) by (simp add: LookupBase_def)
  ultimately show ?case using Cons.IH [OF f(3)] Cons.prems(2) f(4) [of a] by (auto simp: value_after_Cons)
qed (simp add: value_after_def)

lemma LodeFromYaml_members:
  "LodeFromYaml emit FromStr throws root w =
    (if \<forall>m \<in> set (members [] root). valid_name (fst m)
     then Inr (fold (load_member emit FromStr throws) (members [] root) w) else Inl Invalid_argument)"
  by (simp add: LodeFromYaml_def list_members)

section \<open>Properties\<close>

text \<open>C23: loading a document gives every registered variable exactly what the document says: the texts of
  the members with its name are converted and stored in document order, a text that does not convert or
  that a listener refuses leaves the value, variables the document does not name and variables outside
  the table are unchanged, and so is the table. Where any name in the document has a character outside
  the accepted set, loading throws before any variable is changed.\<close>

theorem config_load_exact:
  assumes "config_wf w"
  shows "case LodeFromYaml emit FromStr throws root w of
      Inl f \<Rightarrow> f = Invalid_argument \<and> (\<exists>m \<in> set (members [] root). \<not> valid_name (fst m))
    | Inr w' \<Rightarrow> config_wf w' \<and> s_datas w' = s_datas w \<and>
        (\<forall>m \<in> set (members [] root). valid_name (fst m)) \<and>
        (\<forall>name a. LookupBase name w = Some a \<longrightarrow> cells w' ! a =
          (cells w ! a)\<lparr>m_val := value_after emit FromStr throws (cells w ! a) name (members [] root)\<rparr>) \<and>
        (\<forall>a. (\<forall>name. LookupBase name w \<noteq> Some a) \<longrightarrow> cells w' ! a = cells w ! a)"
proof (cases "\<forall>m \<in> set (members [] root). valid_name (fst m)")
  case True
  then show ?thesis
    by (simp add: LodeFromYaml_members load_members_frame [OF assms True] load_members_registered [OF assms True]
        load_members_unregistered [OF assms True])
qed (simp add: LodeFromYaml_members, blast)

text \<open>A configuration with one variable, for the witnesses: text values, the empty text does not
  convert, listeners are numbers and none throws.\<close>

definition text_value :: "nat \<Rightarrow> string \<Rightarrow> string result" where
  "text_value T t = (if t = [] then Inl Library_exception else Inr t)"

definition empty_config :: "(nat, string, nat) config" where
  "empty_config = \<lparr>cells = [], s_datas = [], notified = []\<rparr>"

definition example_config :: "(nat, string, nat) config" where
  "example_config = snd (projr (LookUp 0 ''tcp.port'' ''80'' [] empty_config))"

definition example_document :: yaml where
  "example_document = Y_map [(Y_scalar ''tcp'', Y_map [(Y_scalar ''port'', Y_scalar ''8020''), (Y_scalar ''name'', Y_null)])]"

lemma empty_config_wf: "config_wf empty_config"
  by (simp add: config_wf_def empty_config_def LookupBase_def)

lemma example_config_lookup: "LookUp 0 ''tcp.port'' ''80'' [] empty_config = Inr (0, example_config)"
  by code_simp

lemmas example_config_wf = LookUp_facts(2) [OF empty_config_wf example_config_lookup]

theorem config_load_exact_witness:
  "\<exists>w'. LodeFromYaml (\<lambda>n. []) text_value (\<lambda>cb old v. False) example_document example_config = Inr w' \<and>
     m_val (cells w' ! 0) = ''8020''"
proof -
  have l: "LookupBase ''tcp.port'' example_config = Some 0"
    by (rule LookUp_facts(3) [OF empty_config_wf example_config_lookup])
  have v: "value_after (\<lambda>n. []) text_value (\<lambda>cb old v. False) (cells example_config ! 0) ''tcp.port''
      (members [] example_document) = ''8020''" by code_simp
  have "\<forall>m \<in> set (members [] example_document). valid_name (fst m)" by code_simp
  then obtain w' where w': "LodeFromYaml (\<lambda>n. []) text_value (\<lambda>cb old v. False) example_document example_config = Inr w'"
    by (simp add: LodeFromYaml_members)
  with config_load_exact [OF example_config_wf, where emit = "\<lambda>n. []" and FromStr = text_value
      and throws = "\<lambda>cb old v. False" and root = example_document] l v
  show ?thesis by auto
qed

text \<open>setting a value: an equal value does nothing; otherwise the listeners are called in the order of
  their ids with the old and the new value, up to and including the first that throws, and the value is
  stored after the last one returned; when one throws, the value stays and the exception goes on.\<close>

theorem setValue_outcome:
  "setValue throws v x =
    (let ok = takeWhile (\<lambda>cb. \<not> throws cb (m_val x) v) (map snd (m_cbs x)) in
     if m_val x = v then ([], Inr x)
     else if length ok = length (m_cbs x) then (map (\<lambda>cb. (cb, m_val x, v)) (map snd (m_cbs x)), Inr (x\<lparr>m_val := v\<rparr>))
     else (map (\<lambda>cb. (cb, m_val x, v)) (take (Suc (length ok)) (map snd (m_cbs x))), Inl Library_exception))"
proof -
  define cbs where "cbs = map snd (m_cbs x)"
  define ok where "ok = takeWhile (\<lambda>cb. \<not> throws cb (m_val x) v) cbs"
  have len: "length (m_cbs x) = length cbs" by (simp add: cbs_def)
  have full: "ok = cbs" if "length ok = length cbs"
    using that takeWhile_eq_take [of "\<lambda>cb. \<not> throws cb (m_val x) v" cbs] by (simp add: ok_def)
  have pre: "ok @ take 1 (drop (length ok) cbs) = take (Suc (length ok)) cbs"
    using takeWhile_eq_take [of "\<lambda>cb. \<not> throws cb (m_val x) v" cbs] take_add [of "length ok" 1 cbs]
    by (simp add: ok_def)
  show ?thesis unfolding setValue_def notify_all_spec cbs_def [symmetric] len ok_def [symmetric] Let_def
    using full by (auto simp: pre simp flip: map_append simp del: One_nat_def)
qed

text \<open>listener ids are fresh: while the counter has not wrapped around, a new listener gets an id no
  listener of the variable has, is found under it and called last, and the others stay as they are.\<close>

theorem listener_fresh:
  assumes "listeners_ok n x" and "n \<noteq> - 1"
  shows "let (i, x') = addListener cb n x in
    listeners_ok i x' \<and> getListener i x = None \<and> (\<forall>k. getListener k x' = (if k = i then Some cb else getListener k x)) \<and>
    map snd (m_cbs x') = map snd (m_cbs x) @ [cb] \<and>
    (\<forall>k. getListener k (delListener i x') = (if k = i then None else getListener k x))"
proof -
  obtain i x' where a: "addListener cb n x = (i, x')" by fastforce
  note l = listener_laws [OF assms a]
  have "map_sorted (<) (m_cbs x')" using l(2) by (simp add: listeners_ok_def)
  with l a show ?thesis
    by (auto simp: delListener_def getListener_def id_order.map_find_erase)
qed

theorem listener_fresh_witness:
  "let (i, x') = addListener (7 :: nat) 4 (mk_ConfigVar (0 :: nat) ''a'' (1 :: nat) []) in getListener i x' = Some 7"
  using listener_fresh [of 4 "mk_ConfigVar (0 :: nat) ''a'' (1 :: nat) []" "7 :: nat"]
  by (simp add: listeners_ok_def mk_ConfigVar_def Let_def case_prod_unfold)

text \<open>declaring a name again with the same type makes a new variable and puts it in the place of the
  earlier one, which a caller may still hold: loading a document afterwards never changes the earlier
  variable, whatever the document says, while the new one takes the values of the document.\<close>

theorem redeclared_variable_detached:
  assumes "config_wf w" and "LookupBase name w = Some a" and "LookUp T name v d w = Inr (b, w1)"
    and "LodeFromYaml emit FromStr throws root w1 = Inr w2"
  shows "a \<noteq> b \<and> LookupBase name w2 = Some b \<and> cells w2 ! a = cells w ! a \<and>
    m_val (cells w2 ! b) = value_after emit FromStr throws (mk_ConfigVar T name v d) name (members [] root)"
proof -
  note f = LookUp_facts [OF assms(1,3)]
  have a: "a < length (cells w)" by (rule config_wfD(1) [OF assms(1,2)])
  have ok: "\<forall>m \<in> set (members [] root). valid_name (fst m)"
    and w2: "w2 = fold (load_member emit FromStr throws) (members [] root) w1"
    using assms(4) by (auto simp: LodeFromYaml_members split: if_splits)
  have free: "LookupBase k w1 \<noteq> Some a" for k
  proof (cases "k = name")
    case False
    show ?thesis
    proof
      assume "LookupBase k w1 = Some a"
      then have "LookupBase k w = Some a" using f(5) False by simp
      with config_wfD(2) [OF assms(1)] assms(2) False show False by metis
    qed
  qed (use f(1,3) a in simp)
  from load_members_unregistered [OF f(2) ok free] f(6) [OF a]
  have "cells w2 ! a = cells w ! a" by (simp add: w2)
  with load_members_registered [OF f(2) ok f(3)] load_members_frame [OF f(2) ok] f(1,3,4) a show ?thesis
    by (simp add: w2 LookupBase_def)
qed

theorem redeclared_variable_detached_witness:
  "\<exists>w1 w2. LookUp 0 ''tcp.port'' ''81'' [] example_config = Inr (1, w1) \<and>
     LodeFromYaml (\<lambda>n. []) text_value (\<lambda>cb old v. False) example_document w1 = Inr w2 \<and>
     m_val (cells w2 ! 0) = ''80'' \<and> m_val (cells w2 ! 1) = ''8020''"
proof -
  have l: "LookupBase ''tcp.port'' example_config = Some 0"
    by (rule LookUp_facts(3) [OF empty_config_wf example_config_lookup])
  have c: "cells example_config ! 0 = mk_ConfigVar 0 ''tcp.port'' ''80'' []"
    by (rule LookUp_facts(4) [OF empty_config_wf example_config_lookup])
  define w1 where "w1 = snd (projr (LookUp 0 ''tcp.port'' ''81'' [] example_config))"
  have w1: "LookUp 0 ''tcp.port'' ''81'' [] example_config = Inr (1, w1)" unfolding w1_def by code_simp
  have "\<forall>m \<in> set (members [] example_document). valid_name (fst m)" by code_simp
  then obtain w2 where w2: "LodeFromYaml (\<lambda>n. []) text_value (\<lambda>cb old v. False) example_document w1 = Inr w2"
    by (simp add: LodeFromYaml_members)
  have v: "value_after (\<lambda>n. []) text_value (\<lambda>cb old v. False) (mk_ConfigVar 0 ''tcp.port'' ''81'' [] :: (nat, string, nat) config_var)
      ''tcp.port'' (members [] example_document) = ''8020''" by code_simp
  from redeclared_variable_detached [OF example_config_wf l w1 w2] v w1 w2 c show ?thesis
    by (auto simp: mk_ConfigVar_def)
qed

section \<open>Types of names\<close>

text \<open>The two operations that change the table or the variables, one after the other. A call that throws changes nothing.\<close>

inductive config_steps :: "(yaml \<Rightarrow> string) \<Rightarrow> ('t \<Rightarrow> string \<Rightarrow> 'v result) \<Rightarrow> ('cb \<Rightarrow> 'v \<Rightarrow> 'v \<Rightarrow> bool) \<Rightarrow>
    ('t, 'v, 'cb) config \<Rightarrow> ('t, 'v, 'cb) config \<Rightarrow> bool" for emit FromStr throws where
  steps_refl: "config_steps emit FromStr throws w w"
| steps_declare: "config_steps emit FromStr throws w w1 \<Longrightarrow> LookUp T name v d w1 = Inr (a, w2) \<Longrightarrow>
    config_steps emit FromStr throws w w2"
| steps_load: "config_steps emit FromStr throws w w1 \<Longrightarrow> LodeFromYaml emit FromStr throws root w1 = Inr w2 \<Longrightarrow>
    config_steps emit FromStr throws w w2"

lemma LookUp_same_type:
  "LookUp T name v d w = Inr (b, w') \<Longrightarrow> LookupBase name w = Some a \<Longrightarrow> cv_type (cells w ! a) = T"
  by (auto simp: LookUp_def LookupBase_def split: if_splits)

lemma steps_types:
  assumes "config_steps emit FromStr throws w w'" and "config_wf w" and "LookupBase name w = Some a"
  shows "config_wf w' \<and> (\<exists>b. LookupBase name w' = Some b \<and> cv_type (cells w' ! b) = cv_type (cells w ! a))"
  using assms
proof (induction rule: config_steps.induct)
  case (steps_declare w w1 T name' v d c w2)
  then obtain b where b: "config_wf w1" "LookupBase name w1 = Some b" "cv_type (cells w1 ! b) = cv_type (cells w ! a)" by blast
  note f = LookUp_facts [OF b(1) steps_declare.hyps(2)]
  show ?case
  proof (cases "name = name'")
    case True
    then show ?thesis using f b LookUp_same_type [OF steps_declare.hyps(2), of b] by (simp add: mk_ConfigVar_def)
  next
    case False
    then show ?thesis using f(2) f(5) [of name] f(6) [OF config_wfD(1) [OF b(1,2)]] b(2,3) by simp
  qed
next
  case (steps_load w w1 root w2)
  then obtain b where b: "config_wf w1" "LookupBase name w1 = Some b" "cv_type (cells w1 ! b) = cv_type (cells w ! a)" by blast
  have ok: "\<forall>m \<in> set (members [] root). valid_name (fst m)"
    and w2: "w2 = fold (load_member emit FromStr throws) (members [] root) w1"
    using steps_load.hyps(2) by (auto simp: LodeFromYaml_members split: if_splits)
  from load_members_frame [OF b(1) ok, of emit FromStr throws] load_members_registered [OF b(1) ok b(2), of emit FromStr throws] b(2,3)
  show ?case by (simp add: w2 LookupBase_def)
qed blast

text \<open>C25: a name keeps its type. Once a name is registered, every later state of the configuration, after any declarations
  and documents, has the name registered with a variable of the same C++ type, and a declaration of the name with another
  type throws.\<close>

theorem config_types_stable:
  assumes "config_steps emit FromStr throws w w'" and "config_wf w" and "LookupBase name w = Some a"
  shows "\<exists>b. LookupBase name w' = Some b \<and> cv_type (cells w' ! b) = cv_type (cells w ! a)
     \<and> (\<forall>T v d. T \<noteq> cv_type (cells w ! a) \<longrightarrow> LookUp T name v d w' = Inl Invalid_argument)"
proof -
  obtain b where b: "LookupBase name w' = Some b" "cv_type (cells w' ! b) = cv_type (cells w ! a)"
    using steps_types [OF assms] by blast
  then show ?thesis by (auto simp: LookUp_def LookupBase_def)
qed

theorem config_types_stable_witness:
  "\<exists>w' b. LodeFromYaml (\<lambda>n. []) text_value (\<lambda>cb old v. False) example_document example_config = Inr w'
     \<and> LookupBase ''tcp.port'' w' = Some b \<and> cv_type (cells w' ! b) = 0 \<and> LookUp 1 ''tcp.port'' [] [] w' = Inl Invalid_argument"
proof -
  have l: "LookupBase ''tcp.port'' example_config = Some 0"
    by (rule LookUp_facts(3) [OF empty_config_wf example_config_lookup])
  have c: "cells example_config ! 0 = mk_ConfigVar 0 ''tcp.port'' ''80'' []"
    by (rule LookUp_facts(4) [OF empty_config_wf example_config_lookup])
  have "\<forall>m \<in> set (members [] example_document). valid_name (fst m)" by code_simp
  then obtain w' where w': "LodeFromYaml (\<lambda>n. []) text_value (\<lambda>cb old v. False) example_document example_config = Inr w'"
    by (simp add: LodeFromYaml_members)
  from config_types_stable [OF steps_load [OF steps_refl w'] example_config_wf l] w' c show ?thesis
    by (auto simp: mk_ConfigVar_def)
qed

end
