(* ===== verification/Lexical_Casts.thy ===== *)
theory Lexical_Casts
  imports Configs
begin

text \<open>
  The partial specialisations of \<^verbatim>\<open>LexicalCast\<close> in \<^verbatim>\<open>config.h\<close>: containers to and from YAML text.
  \<^verbatim>\<open>YAML::Load\<close>, the output of a node and the conversion of the elements are arguments (\<open>load\<close>,
  \<open>emit\<close>, \<open>conv\<close>), and so is what indexing a mapping with a position gives (\<open>index_map\<close>), which the
  sequence casts do when the text is a mapping.
\<close>

section \<open>What the casts use of a node\<close>

fun node_size :: "yaml \<Rightarrow> nat" where
  "node_size (Y_seq xs) = length xs"
| "node_size (Y_map ps) = length ps"
| "node_size n = 0"

fun node_at :: "((yaml \<times> yaml) list \<Rightarrow> nat \<Rightarrow> yaml result) \<Rightarrow> yaml \<Rightarrow> nat \<Rightarrow> yaml result" where
  "node_at index_map (Y_seq xs) i = Inr (xs ! i)"
| "node_at index_map (Y_map ps) i = index_map ps i"
| "node_at index_map n i = Inl Library_exception"

fun node_push_back :: "yaml \<Rightarrow> yaml \<Rightarrow> yaml result" where
  "node_push_back n Y_null = Inr (Y_seq [n])"
| "node_push_back n (Y_seq xs) = Inr (Y_seq (xs @ [n]))"
| "node_push_back n other = Inl Library_exception"

text \<open>Assignment to \<^verbatim>\<open>node[key]\<close>, and the entries an iteration visits: a sequence gives invalid keys,
  which throw when they are read.\<close>

fun node_assign :: "string \<Rightarrow> yaml \<Rightarrow> yaml \<Rightarrow> yaml result" where
  "node_assign k n Y_null = Inr (Y_map [(Y_scalar k, n)])"
| "node_assign k n (Y_map ps) =
    Inr (Y_map (if \<exists>p \<in> set ps. fst p = Y_scalar k
       then map (\<lambda>p. if fst p = Y_scalar k then (fst p, n) else p) ps else ps @ [(Y_scalar k, n)]))"
| "node_assign k n other = Inl Library_exception"

fun node_pairs :: "yaml \<Rightarrow> (yaml \<times> yaml) list result" where
  "node_pairs (Y_map ps) = Inr ps"
| "node_pairs (Y_seq (x # xs)) = Inl Library_exception"
| "node_pairs n = Inr []"

section \<open>Sequences and sets\<close>

fun cast_loop :: "(nat \<Rightarrow> yaml result) \<Rightarrow> (yaml \<Rightarrow> string) \<Rightarrow> (string \<Rightarrow> 'a result) \<Rightarrow> ('a \<Rightarrow> 'c \<Rightarrow> 'c) \<Rightarrow>
    nat list \<Rightarrow> 'c \<Rightarrow> 'c result" where
  "cast_loop get emit conv add [] c = Inr c"
| "cast_loop get emit conv add (i # is) c =
    bindE (get i) (\<lambda>n. bindE (conv (emit n)) (\<lambda>x. cast_loop get emit conv add is (add x c)))"

definition string_to_vector where
  "string_to_vector load emit index_map conv v = bindE (load v) (\<lambda>node.
     cast_loop (node_at index_map node) emit conv (\<lambda>x vec. vec @ [x]) [0..<node_size node] [])"

definition string_to_list where
  "string_to_list load emit index_map conv v = bindE (load v) (\<lambda>node.
     cast_loop (node_at index_map node) emit conv (\<lambda>x lis. lis @ [x]) [0..<node_size node] [])"

definition string_to_set where
  "string_to_set lt load emit index_map conv v = bindE (load v) (\<lambda>node.
     cast_loop (node_at index_map node) emit conv (set_insert lt) [0..<node_size node] [])"

fun push_all :: "(string \<Rightarrow> yaml result) \<Rightarrow> ('a \<Rightarrow> string result) \<Rightarrow> 'a list \<Rightarrow> yaml \<Rightarrow> yaml result" where
  "push_all load conv [] node = Inr node"
| "push_all load conv (x # xs) node =
    bindE (conv x) (\<lambda>t. bindE (load t) (\<lambda>n. bindE (node_push_back n node) (push_all load conv xs)))"

definition vector_to_string where
  "vector_to_string load emit conv v = bindE (push_all load conv v Y_null) (\<lambda>node. Inr (emit node))"

definition list_to_string where
  "list_to_string load emit conv v = bindE (push_all load conv v Y_null) (\<lambda>node. Inr (emit node))"

definition set_to_string where
  "set_to_string load emit conv v = bindE (push_all load conv v Y_null) (\<lambda>node. Inr (emit node))"

section \<open>Maps\<close>

fun cast_pairs :: "(yaml \<Rightarrow> string) \<Rightarrow> (string \<Rightarrow> 'a result) \<Rightarrow> (string \<Rightarrow> 'a \<Rightarrow> 'c \<Rightarrow> 'c) \<Rightarrow>
    (yaml \<times> yaml) list \<Rightarrow> 'c \<Rightarrow> 'c result" where
  "cast_pairs emit conv add [] c = Inr c"
| "cast_pairs emit conv add ((k, n) # ps) c =
    bindE (conv (emit n)) (\<lambda>x. cast_pairs emit conv add ps (add (Scalar k) x c))"

definition string_to_map where
  "string_to_map load emit conv v = bindE (load v) (\<lambda>node. bindE (node_pairs node) (\<lambda>ps.
     cast_pairs emit conv (map_insert str_less) ps []))"

text \<open>An unordered map as a function; inserting a present key changes nothing.\<close>

definition string_to_unordered_map where
  "string_to_unordered_map load emit conv v = bindE (load v) (\<lambda>node. bindE (node_pairs node) (\<lambda>ps.
     cast_pairs emit conv (\<lambda>k x m. case m k of None \<Rightarrow> m(k \<mapsto> x) | Some y \<Rightarrow> m) ps Map.empty))"

fun assign_all :: "(string \<Rightarrow> yaml result) \<Rightarrow> ('a \<Rightarrow> string result) \<Rightarrow> (string \<times> 'a) list \<Rightarrow> yaml \<Rightarrow> yaml result" where
  "assign_all load conv [] node = Inr node"
| "assign_all load conv ((k, x) # xs) node =
    bindE (conv x) (\<lambda>t. bindE (load t) (\<lambda>n. bindE (node_assign k n node) (assign_all load conv xs)))"

definition map_to_string where
  "map_to_string load emit conv v = bindE (assign_all load conv v Y_null) (\<lambda>node. Inr (emit node))"

text \<open>The elements of an unordered map come in an order the library chooses: the argument is that list.\<close>

definition unordered_map_to_string where
  "unordered_map_to_string load emit conv v = bindE (assign_all load conv v Y_null) (\<lambda>node. Inr (emit node))"

section \<open>The nodes that are built and read\<close>

text \<open>An element \<open>x\<close> whose text loads to \<open>n\<close>, and whose node prints to a text that converts back.\<close>

definition element_ok :: "(string \<Rightarrow> yaml result) \<Rightarrow> (yaml \<Rightarrow> string) \<Rightarrow> ('a \<Rightarrow> string result) \<Rightarrow>
    (string \<Rightarrow> 'a result) \<Rightarrow> 'a \<Rightarrow> yaml \<Rightarrow> bool" where
  "element_ok load emit ToStr FromStr x n \<longleftrightarrow> bindE (ToStr x) load = Inr n \<and> FromStr (emit n) = Inr x"

definition seq_node :: "yaml list \<Rightarrow> yaml" where
  "seq_node ns = (if ns = [] then Y_null else Y_seq ns)"

definition map_node :: "(string \<times> yaml) list \<Rightarrow> yaml" where
  "map_node kns = (if kns = [] then Y_null else Y_map (map (\<lambda>(k, n). (Y_scalar k, n)) kns))"

lemma push_seq_node: "node_push_back n (seq_node ns) = Inr (seq_node (ns @ [n]))"
  by (simp add: seq_node_def)

lemma push_all_nodes:
  "list_all2 (element_ok load emit ToStr FromStr) xs ns \<Longrightarrow>
    push_all load ToStr xs (seq_node ms) = Inr (seq_node (ms @ ns))"
proof (induction xs arbitrary: ns ms)
  case (Cons x xs)
  then obtain n ns' where ns: "ns = n # ns'" "element_ok load emit ToStr FromStr x n"
    "list_all2 (element_ok load emit ToStr FromStr) xs ns'" by (auto simp: list_all2_Cons1)
  then obtain t where "ToStr x = Inr t" "load t = Inr n" by (cases "ToStr x") (auto simp: element_ok_def)
  with Cons.IH [OF ns(3)] ns(1) show ?case by (simp add: push_seq_node)
qed simp

lemma cast_loop_nodes:
  assumes "list_all2 (\<lambda>x i. \<exists>n. get i = Inr n \<and> FromStr (emit n) = Inr x) xs is"
  shows "cast_loop get emit FromStr add is c = Inr (fold add xs c)"
  using assms
proof (induction xs arbitrary: "is" c)
  case (Cons x xs)
  then show ?case by (auto simp: list_all2_Cons1)
qed simp

lemma read_seq_node:
  assumes "list_all2 (element_ok load emit ToStr FromStr) xs ns"
  shows "cast_loop (node_at index_map (seq_node ns)) emit FromStr add [0..<node_size (seq_node ns)] c = Inr (fold add xs c)"
proof (rule cast_loop_nodes)
  have "node_size (seq_node ns) = length ns" by (simp add: seq_node_def)
  then show "list_all2 (\<lambda>x i. \<exists>n. node_at index_map (seq_node ns) i = Inr n \<and> FromStr (emit n) = Inr x) xs
      [0..<node_size (seq_node ns)]"
    using assms by (auto simp: list_all2_conv_all_nth seq_node_def element_ok_def)
qed

lemma fold_push_back: "fold (\<lambda>x vec. vec @ [x]) xs c = c @ xs"
  by (induction xs arbitrary: c) simp_all

text \<open>Inserting the elements of a sorted set in order appends each.\<close>

context strict_weak_order
begin

lemma set_insert_last:
  assumes "\<forall>y \<in> set c. lt y x"
  shows "set_insert lt x c = c @ [x]"
proof -
  have "before_lower lt x c = c" "from_lower lt x c = []" using assms by (simp_all add: before_lower_def from_lower_def)
  then show ?thesis by (simp add: set_insert_def set_find_def)
qed

lemma fold_set_insert: "sorted_wrt lt (c @ xs) \<Longrightarrow> fold (set_insert lt) xs c = c @ xs"
proof (induction xs arbitrary: c)
  case (Cons x xs)
  then have "set_insert lt x c = c @ [x]" by (intro set_insert_last) (simp add: sorted_wrt_append)
  with Cons show ?case by simp
qed simp

lemma map_insert_last: "\<forall>y \<in> fst ` set m. lt y k \<Longrightarrow> map_insert lt k v m = m @ [(k, v)]"
proof (induction m)
  case (Cons p m)
  then show ?case using lt_asym by (cases p) auto
qed simp

end

lemma assign_map_node:
  "k \<notin> fst ` set kns \<Longrightarrow> node_assign k n (map_node kns) = Inr (map_node (kns @ [(k, n)]))"
  by (force simp: map_node_def image_iff)

lemma assign_all_nodes:
  "list_all2 (\<lambda>x y. fst x = fst y \<and> element_ok load emit ToStr FromStr (snd x) (snd y)) xs kns \<Longrightarrow>
    distinct (map fst (ms @ kns)) \<Longrightarrow> assign_all load ToStr xs (map_node ms) = Inr (map_node (ms @ kns))"
proof (induction xs arbitrary: kns ms)
  case (Cons x xs)
  obtain k v where x: "x = (k, v)" by fastforce
  from Cons.prems(1) x obtain n kns' where k: "kns = (k, n) # kns'" "element_ok load emit ToStr FromStr v n"
    "list_all2 (\<lambda>x y. fst x = fst y \<and> element_ok load emit ToStr FromStr (snd x) (snd y)) xs kns'"
    by (auto simp: list_all2_Cons1)
  then obtain t where "ToStr v = Inr t" "load t = Inr n" by (cases "ToStr v") (auto simp: element_ok_def)
  moreover have "k \<notin> fst ` set ms" using Cons.prems(2) k(1) by auto
  ultimately show ?case using Cons.IH [OF k(3), of "ms @ [(k, n)]"] Cons.prems(2) k(1) x
    by (simp add: assign_map_node)
qed simp

lemma node_pairs_map_node: "node_pairs (map_node kns) = Inr (map (\<lambda>(k, n). (Y_scalar k, n)) kns)"
  by (cases kns) (simp_all add: map_node_def)

lemma cast_pairs_nodes:
  "list_all2 (\<lambda>x y. fst x = fst y \<and> element_ok load emit ToStr FromStr (snd x) (snd y)) xs kns \<Longrightarrow>
    cast_pairs emit FromStr add (map (\<lambda>(k, n). (Y_scalar k, n)) kns) c = Inr (fold (\<lambda>x. add (fst x) (snd x)) xs c)"
proof (induction xs arbitrary: kns c)
  case (Cons x xs)
  then show ?case by (auto simp: list_all2_Cons1 element_ok_def)
qed simp

lemma fold_map_insert:
  "map_sorted str_less (c @ xs) \<Longrightarrow> fold (\<lambda>x. map_insert str_less (fst x) (snd x)) xs c = c @ xs"
proof (induction xs arbitrary: c)
  case (Cons x xs)
  then have "map_insert str_less (fst x) (snd x) c = c @ [x]"
    using str_order.map_insert_last [of c "fst x" "snd x"] by (force simp: map_sorted_def sorted_wrt_append)
  with Cons show ?case by simp
qed simp

section \<open>Properties\<close>

text \<open>a vector, a list, a set or a map of configuration values that is written to text is read back
  the same, when its elements are (each element's text loads to a node whose output converts back) and
  yaml-cpp reads the node it has written.\<close>

theorem container_cast_roundtrip:
  assumes "list_all2 (element_ok load emit ToStr FromStr) xs ns"
    and "load (emit (seq_node ns)) = Inr (seq_node ns)"
    and "strict_weak_order lt" and "sorted_wrt lt ys" and "list_all2 (element_ok load emit ToStr FromStr) ys ns'"
    and "load (emit (seq_node ns')) = Inr (seq_node ns')"
    and "map_sorted str_less m"
    and "list_all2 (\<lambda>x y. fst x = fst y \<and> element_ok load emit ToStr FromStr (snd x) (snd y)) m kns"
    and "load (emit (map_node kns)) = Inr (map_node kns)"
  shows "bindE (vector_to_string load emit ToStr xs) (string_to_vector load emit index_map FromStr) = Inr xs \<and>
    bindE (list_to_string load emit ToStr xs) (string_to_list load emit index_map FromStr) = Inr xs \<and>
    bindE (set_to_string load emit ToStr ys) (string_to_set lt load emit index_map FromStr) = Inr ys \<and>
    bindE (map_to_string load emit ToStr m) (string_to_map load emit FromStr) = Inr m"
proof -
  have p: "list_all2 (element_ok load emit ToStr FromStr) zs ns \<Longrightarrow> push_all load ToStr zs Y_null = Inr (seq_node ns)"
    for zs ns using push_all_nodes [of load emit ToStr FromStr zs ns "[]"] by (simp add: seq_node_def)
  have "distinct (map fst m)" using assms(7) str_order.sorted_lt_distinct by (simp add: map_sorted_def)
  moreover have "map fst kns = map fst m" using assms(8) by (auto simp: list_all2_conv_all_nth intro: nth_equalityI)
  ultimately have am: "assign_all load ToStr m Y_null = Inr (map_node kns)"
    using assign_all_nodes [OF assms(8), of "[]"] by (simp add: map_node_def)
  have "bindE (map_to_string load emit ToStr m) (string_to_map load emit FromStr) = Inr m"
    using assms(7,9) fold_map_insert [of "[]" m]
    by (simp add: map_to_string_def string_to_map_def am node_pairs_map_node cast_pairs_nodes [OF assms(8)])
  moreover have "bindE (set_to_string load emit ToStr ys) (string_to_set lt load emit index_map FromStr) = Inr ys"
    using strict_weak_order.fold_set_insert [OF assms(3), of "[]" ys] assms(4,6)
    by (simp add: set_to_string_def string_to_set_def p [OF assms(5)] read_seq_node [OF assms(5)])
  ultimately show ?thesis
    using assms(2)
    by (simp add: vector_to_string_def string_to_vector_def list_to_string_def string_to_list_def p [OF assms(1)]
        read_seq_node [OF assms(1)] fold_push_back)
qed

text \<open>The behaviour of yaml-cpp on three small documents.\<close>

definition example_load :: "string \<Rightarrow> yaml result" where
  "example_load t = (if t = ''7'' then Inr (Y_scalar ''7'') else if t = ''- 7'' then Inr (Y_seq [Y_scalar ''7''])
     else if t = ''a: 7'' then Inr (Y_map [(Y_scalar ''a'', Y_scalar ''7'')]) else Inl Library_exception)"

definition example_emit :: "yaml \<Rightarrow> string" where
  "example_emit n = (case n of Y_scalar t \<Rightarrow> t | Y_seq xs \<Rightarrow> ''- 7'' | Y_map ps \<Rightarrow> ''a: 7'' | Y_null \<Rightarrow> ''~'')"

theorem container_cast_roundtrip_witness:
  "bindE (vector_to_string example_load example_emit Inr [''7'']) (string_to_vector example_load example_emit (\<lambda>ps i. Inl Library_exception) Inr) = Inr [''7''] \<and>
   bindE (map_to_string example_load example_emit Inr [(''a'', ''7'')]) (string_to_map example_load example_emit Inr) = Inr [(''a'', ''7'')]"
proof -
  have e: "element_ok example_load example_emit Inr Inr ''7'' (Y_scalar ''7'')"
    by (simp add: element_ok_def example_load_def example_emit_def)
  have "example_load (example_emit (seq_node [Y_scalar ''7''])) = Inr (seq_node [Y_scalar ''7''])"
    "example_load (example_emit (map_node [(''a'', Y_scalar ''7'')])) = Inr (map_node [(''a'', Y_scalar ''7'')])"
    by (simp_all add: example_load_def example_emit_def seq_node_def map_node_def)
  with container_cast_roundtrip [where xs = "[''7'']" and ns = "[Y_scalar ''7'']" and ys = "[''7'']"
      and ns' = "[Y_scalar ''7'']" and m = "[(''a'', ''7'')]" and kns = "[(''a'', Y_scalar ''7'')]"
      and load = example_load and emit = example_emit and ToStr = Inr and FromStr = Inr
      and lt = str_less and index_map = "\<lambda>ps i. Inl Library_exception"] e
  show ?thesis by (simp add: str_order.strict_weak_order_axioms)
qed

end
