(* ===== verification/Logs.thy ===== *)
theory Logs
  imports Log_Formats Lexical_Casts
begin

text \<open>
  Appenders, loggers and their manager (\<^verbatim>\<open>log.h\<close>, \<^verbatim>\<open>log.cc\<close>), and the listener that applies a change
  of the \<^verbatim>\<open>logs\<close> variable. Loggers and appenders are shared by pointer, so they are heap cells; the
  state has what was written to standard output and to each file. Whether a file can be opened
  (\<open>opens\<close>) and the text of a time are arguments. A logger without appenders hands the event to
  its root: that recursion has fuel, and two calls are enough in every well-formed state.
\<close>

section \<open>State\<close>

datatype appender_kind = Stdout | Fileout string bool

record appender =
  ap_kind :: appender_kind
  ap_level :: log_level
  ap_formatter :: "formatter option"
  has_formatter :: bool

record logger =
  lg_name :: string
  lg_level :: log_level
  lg_appenders :: "nat list"
  lg_formatter :: "formatter option"
  lg_root :: "nat option"

record logs =
  appender_cells :: "appender list"
  logger_cells :: "logger list"
  m_loggers :: "(string \<times> nat) list"
  m_root :: nat
  console :: string
  files :: "string \<Rightarrow> string"

abbreviation appender_at :: "logs \<Rightarrow> nat \<Rightarrow> appender" where
  "appender_at w a \<equiv> appender_cells w ! a"

abbreviation logger_at :: "logs \<Rightarrow> nat \<Rightarrow> logger" where
  "logger_at w l \<equiv> logger_cells w ! l"

definition upd_logger :: "nat \<Rightarrow> (logger \<Rightarrow> logger) \<Rightarrow> logs \<Rightarrow> logs" where
  "upd_logger l f w = w\<lparr>logger_cells := (logger_cells w)[l := f (logger_at w l)]\<rparr>"

definition upd_appender :: "nat \<Rightarrow> (appender \<Rightarrow> appender) \<Rightarrow> logs \<Rightarrow> logs" where
  "upd_appender a f w = w\<lparr>appender_cells := (appender_cells w)[a := f (appender_at w a)]\<rparr>"

section \<open>Appenders\<close>

definition mk_StdoutLogAppender :: appender where
  "mk_StdoutLogAppender = \<lparr>ap_kind = Stdout, ap_level = DEBUG, ap_formatter = None, has_formatter = False\<rparr>"

definition mk_FileoutLogAppender :: "(string \<Rightarrow> bool) \<Rightarrow> string \<Rightarrow> appender" where
  "mk_FileoutLogAppender opens filename =
    \<lparr>ap_kind = Fileout filename (opens filename), ap_level = DEBUG, ap_formatter = None, has_formatter = False\<rparr>"

definition reopen :: "(string \<Rightarrow> bool) \<Rightarrow> appender \<Rightarrow> appender \<times> bool" where
  "reopen opens ap = (case ap_kind ap of
     Fileout filename open_now \<Rightarrow> (ap\<lparr>ap_kind := Fileout filename (opens filename)\<rparr>, opens filename)
   | Stdout \<Rightarrow> (ap, False))"

definition appender_setFormatter :: "formatter option \<Rightarrow> appender \<Rightarrow> appender" where
  "appender_setFormatter val ap = ap\<lparr>ap_formatter := val, has_formatter := (val \<noteq> None)\<rparr>"

definition appender_SetFormatter :: "formatter option \<Rightarrow> appender \<Rightarrow> appender" where
  "appender_SetFormatter val ap = ap\<lparr>ap_formatter := val\<rparr>"

definition write_text :: "appender_kind \<Rightarrow> string \<Rightarrow> logs \<Rightarrow> logs" where
  "write_text k t w = (case k of
     Stdout \<Rightarrow> w\<lparr>console := console w @ t\<rparr>
   | Fileout f is_open \<Rightarrow> if is_open then w\<lparr>files := (files w)(f := files w f @ t)\<rparr> else w)"

text \<open>\<^verbatim>\<open>StdoutLogAppender::log\<close> and \<^verbatim>\<open>FileoutLogAppender::log\<close> differ in the stream only.\<close>

definition appender_log :: "(string \<Rightarrow> uint64 \<Rightarrow> string) \<Rightarrow> log_level \<Rightarrow> log_event \<Rightarrow> nat \<Rightarrow> logs \<Rightarrow> logs result" where
  "appender_log strftime level e a w =
    (if level \<ge> ap_level (appender_at w a)
     then (case ap_formatter (appender_at w a) of
         None \<Rightarrow> Inl Null_dereference
       | Some f \<Rightarrow> bindE (LogFormatter_format strftime (lg_name (logger_at w (event_logger e))) level e f)
           (\<lambda>t. Inr (write_text (ap_kind (appender_at w a)) t w)))
     else Inr w)"

section \<open>Loggers\<close>

definition mk_Logger :: "string \<Rightarrow> logger" where
  "mk_Logger name = \<lparr>lg_name = name, lg_level = DEBUG, lg_appenders = [],
     lg_formatter = Some (mk_LogFormatter default_pattern), lg_root = None\<rparr>"

definition addAppender :: "nat \<Rightarrow> nat \<Rightarrow> logs \<Rightarrow> logs" where
  "addAppender l a w =
    (let w1 = (if ap_formatter (appender_at w a) = None
       then upd_appender a (appender_SetFormatter (lg_formatter (logger_at w l))) w else w)
     in upd_logger l (\<lambda>x. x\<lparr>lg_appenders := lg_appenders x @ [a]\<rparr>) w1)"

definition delAppender :: "nat \<Rightarrow> nat \<Rightarrow> logs \<Rightarrow> logs" where
  "delAppender l a w = upd_logger l (\<lambda>x. x\<lparr>lg_appenders := remove1 a (lg_appenders x)\<rparr>) w"

definition clearAppends :: "nat \<Rightarrow> logs \<Rightarrow> logs" where
  "clearAppends l w = upd_logger l (\<lambda>x. x\<lparr>lg_appenders := []\<rparr>) w"

definition setLevel :: "nat \<Rightarrow> log_level \<Rightarrow> logs \<Rightarrow> logs" where
  "setLevel l v w = upd_logger l (\<lambda>x. x\<lparr>lg_level := v\<rparr>) w"

fun log_all :: "(string \<Rightarrow> uint64 \<Rightarrow> string) \<Rightarrow> log_level \<Rightarrow> log_event \<Rightarrow> nat list \<Rightarrow> logs \<Rightarrow> logs result" where
  "log_all strftime level e [] w = Inr w"
| "log_all strftime level e (a # as) w = bindE (appender_log strftime level e a w) (log_all strftime level e as)"

fun Logger_log :: "nat \<Rightarrow> (string \<Rightarrow> uint64 \<Rightarrow> string) \<Rightarrow> log_level \<Rightarrow> log_event \<Rightarrow> nat \<Rightarrow> logs \<Rightarrow> logs result option" where
  "Logger_log 0 strftime level e l w = None"
| "Logger_log (Suc n) strftime level e l w =
    (if level \<ge> lg_level (logger_at w l)
     then if lg_appenders (logger_at w l) \<noteq> [] then Some (log_all strftime level e (lg_appenders (logger_at w l)) w)
       else (case lg_root (logger_at w l) of None \<Rightarrow> Some (Inr w) | Some r \<Rightarrow> Logger_log n strftime level e r w)
     else Some (Inr w))"

definition Logger_setFormatter :: "nat \<Rightarrow> formatter option \<Rightarrow> logs \<Rightarrow> logs" where
  "Logger_setFormatter l f w =
    fold (\<lambda>a w. if has_formatter (appender_at w a) then w else upd_appender a (appender_SetFormatter f) w)
      (lg_appenders (logger_at w l)) (upd_logger l (\<lambda>x. x\<lparr>lg_formatter := f\<rparr>) w)"

definition Logger_setFormatter_text :: "nat \<Rightarrow> string \<Rightarrow> logs \<Rightarrow> logs" where
  "Logger_setFormatter_text l pattern w =
    (let f = mk_LogFormatter pattern in if fmt_error f then w else Logger_setFormatter l (Some f) w)"

text \<open>The logging macros: an event is made only when the level of the logger admits it, filled through its
  stream, and logged by the destructor of its wrapper.\<close>

definition log_macro :: "nat \<Rightarrow> (string \<Rightarrow> uint64 \<Rightarrow> string) \<Rightarrow> log_level \<Rightarrow> log_event \<Rightarrow> string \<Rightarrow> nat \<Rightarrow> logs \<Rightarrow> logs result option" where
  "log_macro n strftime level e text l w =
    (if lg_level (logger_at w l) \<le> level
     then Logger_log n strftime level (e\<lparr>m_ss := m_ss e @ text, event_logger := l, m_level := level\<rparr>) l w
     else Some (Inr w))"

section \<open>The manager\<close>

definition mk_LoggerManager :: logs where
  "mk_LoggerManager = addAppender 0 0 \<lparr>appender_cells = [mk_StdoutLogAppender], logger_cells = [mk_Logger ''root''],
     m_loggers = [(''root'', 0)], m_root = 0, console = [], files = (\<lambda>f. [])\<rparr>"

definition getLogger :: "string \<Rightarrow> logs \<Rightarrow> nat \<times> logs" where
  "getLogger name w = (case map_find str_less name (m_loggers w) of
     Some l \<Rightarrow> (l, w)
   | None \<Rightarrow> let l = length (logger_cells w) in
       (l, w\<lparr>logger_cells := logger_cells w @ [(mk_Logger name)\<lparr>lg_root := Some (m_root w)\<rparr>],
             m_loggers := map_assign str_less name l (m_loggers w)\<rparr>))"

definition Getlogger :: "string \<Rightarrow> logs \<Rightarrow> nat result" where
  "Getlogger name w = (case map_find str_less name (m_loggers w) of Some l \<Rightarrow> Inr l | None \<Rightarrow> Inl Invalid_argument)"

definition insertLogger :: "string \<Rightarrow> nat \<Rightarrow> logs \<Rightarrow> bool \<times> logs" where
  "insertLogger name l w = (if map_find str_less name (m_loggers w) \<noteq> None then (False, w)
     else (True, w\<lparr>m_loggers := map_assign str_less name l (m_loggers w)\<rparr>))"

definition insertLogger_new :: "string \<Rightarrow> logs \<Rightarrow> bool \<times> logs" where
  "insertLogger_new name w = (if map_find str_less name (m_loggers w) \<noteq> None then (False, w)
     else (True, w\<lparr>logger_cells := logger_cells w @ [mk_Logger name],
                   m_loggers := map_assign str_less name (length (logger_cells w)) (m_loggers w)\<rparr>))"

section \<open>Definitions of loggers in the configuration\<close>

record log_appender_define =
  ad_type :: nat
  ad_level :: log_level
  ad_formatter :: string
  ad_file :: string

record log_define =
  ld_name :: string
  ld_level :: log_level
  ld_formatter :: string
  ld_appenders :: "log_appender_define list"

definition define_less :: "log_define \<Rightarrow> log_define \<Rightarrow> bool" where
  "define_less a b = str_less (ld_name a) (ld_name b)"

definition apply_appender :: "(string \<Rightarrow> bool) \<Rightarrow> nat \<Rightarrow> log_appender_define \<Rightarrow> logs \<Rightarrow> logs result" where
  "apply_appender opens l a w =
    (if ad_type a \<noteq> 1 \<and> ad_type a \<noteq> 2 then Inl Null_dereference
     else
       let ap = (if ad_type a = 1 then mk_FileoutLogAppender opens (ad_file a) else mk_StdoutLogAppender)\<lparr>ap_level := ad_level a\<rparr>;
           fmt = mk_LogFormatter (ad_formatter a);
           ap' = (if ad_formatter a \<noteq> [] \<and> \<not> fmt_error fmt then appender_setFormatter (Some fmt) ap else ap)
       in Inr (addAppender l (length (appender_cells w)) (w\<lparr>appender_cells := appender_cells w @ [ap']\<rparr>)))"

fun apply_appenders :: "(string \<Rightarrow> bool) \<Rightarrow> nat \<Rightarrow> log_appender_define list \<Rightarrow> logs \<Rightarrow> logs result" where
  "apply_appenders opens l [] w = Inr w"
| "apply_appenders opens l (a # as) w = bindE (apply_appender opens l a w) (apply_appenders opens l as)"

text \<open>One definition of the new value: the pointer to its logger stays null when the old value has the
  same definition.\<close>

definition apply_define :: "(string \<Rightarrow> bool) \<Rightarrow> log_define list \<Rightarrow> log_define \<Rightarrow> logs \<Rightarrow> logs result" where
  "apply_define opens old_value i w =
    (if set_find define_less i old_value = Some i then Inl Null_dereference
     else
       let (l, w1) = getLogger (ld_name i) w;
           w2 = setLevel l (ld_level i) w1;
           w3 = (if ld_formatter i \<noteq> [] then Logger_setFormatter_text l (ld_formatter i) w2 else w2)
       in apply_appenders opens l (ld_appenders i) (clearAppends l w3))"

fun apply_defines :: "(string \<Rightarrow> bool) \<Rightarrow> log_define list \<Rightarrow> log_define list \<Rightarrow> logs \<Rightarrow> logs result" where
  "apply_defines opens old_value [] w = Inr w"
| "apply_defines opens old_value (i # is) w = bindE (apply_define opens old_value i w) (apply_defines opens old_value is)"

definition drop_define :: "log_define list \<Rightarrow> log_define \<Rightarrow> logs \<Rightarrow> logs" where
  "drop_define new_value i w =
    (if set_find define_less i new_value = None
     then let (l, w1) = getLogger (ld_name i) w in clearAppends l (setLevel l 100 w1) else w)"

definition apply_changes :: "(string \<Rightarrow> bool) \<Rightarrow> log_define list \<Rightarrow> log_define list \<Rightarrow> logs \<Rightarrow> logs result" where
  "apply_changes opens old_value new_value w =
    bindE (apply_defines opens old_value new_value w) (\<lambda>w'. Inr (fold (drop_define new_value) old_value w'))"

definition logs_listener :: "(string \<Rightarrow> uint64 \<Rightarrow> string) \<Rightarrow> (string \<Rightarrow> bool) \<Rightarrow> log_event \<Rightarrow>
    log_define list \<Rightarrow> log_define list \<Rightarrow> logs \<Rightarrow> logs result option" where
  "logs_listener strftime opens e old_value new_value w =
    (case log_macro 2 strftime INFO e ''logger_conf_changed'' (m_root w) w of
       None \<Rightarrow> None
     | Some r \<Rightarrow> Some (bindE r (apply_changes opens old_value new_value)))"

section \<open>Well-formed states\<close>

definition logger_ok :: "logs \<Rightarrow> logger \<Rightarrow> bool" where
  "logger_ok w x \<longleftrightarrow> lg_formatter x \<noteq> None \<and> (\<forall>r. lg_root x = Some r \<longrightarrow> r = m_root w) \<and>
     (\<forall>a \<in> set (lg_appenders x). a < length (appender_cells w) \<and> ap_formatter (appender_at w a) \<noteq> None)"

definition logs_wf :: "logs \<Rightarrow> bool" where
  "logs_wf w \<longleftrightarrow> map_sorted str_less (m_loggers w) \<and>
     (\<forall>n l. map_find str_less n (m_loggers w) = Some l \<longrightarrow> l < length (logger_cells w) \<and> lg_name (logger_at w l) = n) \<and>
     m_root w < length (logger_cells w) \<and> lg_root (logger_at w (m_root w)) = None \<and>
     (\<forall>l < length (logger_cells w). logger_ok w (logger_at w l))"

lemma logs_wfD:
  assumes "logs_wf w"
  shows "map_sorted str_less (m_loggers w)"
    and "map_find str_less n (m_loggers w) = Some l \<Longrightarrow> l < length (logger_cells w)"
    and "map_find str_less n (m_loggers w) = Some l \<Longrightarrow> lg_name (logger_at w l) = n"
    and "m_root w < length (logger_cells w)" and "lg_root (logger_at w (m_root w)) = None"
    and "l < length (logger_cells w) \<Longrightarrow> logger_ok w (logger_at w l)"
  using assms by (auto simp: logs_wf_def)

lemma found_ok:
  "logs_wf w \<Longrightarrow> map_find str_less n (m_loggers w) = Some l \<Longrightarrow>
    l < length (logger_cells w) \<and> lg_name (logger_at w l) = n \<and> logger_ok w (logger_at w l)"
  using logs_wfD(2,3,6) by blast

text \<open>What a step that works on the logger named \<open>n\<close> leaves alone: the other loggers, and of every
  appender its stream, its level and a formatter of its own.\<close>

definition same_shape :: "appender \<Rightarrow> appender \<Rightarrow> bool" where
  "same_shape x y \<longleftrightarrow> ap_kind y = ap_kind x \<and> ap_level y = ap_level x \<and> has_formatter y = has_formatter x \<and>
     (has_formatter x \<longrightarrow> ap_formatter y = ap_formatter x)"

definition touches :: "string \<Rightarrow> logs \<Rightarrow> logs \<Rightarrow> bool" where
  "touches n w w' \<longleftrightarrow> length (appender_cells w) \<le> length (appender_cells w') \<and>
     (\<forall>a < length (appender_cells w). same_shape (appender_at w a) (appender_at w' a)) \<and>
     (\<forall>m l. m \<noteq> n \<longrightarrow> map_find str_less m (m_loggers w) = Some l \<longrightarrow>
        map_find str_less m (m_loggers w') = Some l \<and> logger_at w' l = logger_at w l)"

lemma touches_refl: "touches n w w"
  by (simp add: touches_def same_shape_def)

lemma same_shape_trans: "same_shape x y \<Longrightarrow> same_shape y z \<Longrightarrow> same_shape x z"
  by (auto simp: same_shape_def)

lemma touches_trans:
  assumes "touches n w w1" and "touches n w1 w2"
  shows "touches n w w2"
proof -
  from assms have "length (appender_cells w) \<le> length (appender_cells w2)" by (auto simp: touches_def)
  moreover have "same_shape (appender_at w a) (appender_at w2 a)" if "a < length (appender_cells w)" for a
    using assms that same_shape_trans [of "appender_at w a" "appender_at w1 a" "appender_at w2 a"]
    by (auto simp: touches_def)
  ultimately show ?thesis using assms by (auto simp: touches_def)
qed

text \<open>A step on the logger \<open>l\<close> with name \<open>n\<close>.\<close>

definition on_logger :: "string \<Rightarrow> nat \<Rightarrow> logs \<Rightarrow> logs \<Rightarrow> bool" where
  "on_logger n l w w' \<longleftrightarrow> logs_wf w' \<and> touches n w w' \<and> map_find str_less n (m_loggers w') = Some l"

lemma on_loggerD:
  assumes "on_logger n l w w'"
  shows "logs_wf w'" "touches n w w'" "map_find str_less n (m_loggers w') = Some l"
  using assms by (simp_all add: on_logger_def)

lemma on_logger_trans: "on_logger n l w w1 \<Longrightarrow> on_logger n l w1 w2 \<Longrightarrow> on_logger n l w w2"
  unfolding on_logger_def by (blast intro: touches_trans)

lemma on_logger_refl: "logs_wf w \<Longrightarrow> map_find str_less n (m_loggers w) = Some l \<Longrightarrow> on_logger n l w w"
  by (simp add: on_logger_def touches_refl)

lemma list_upd_nth: "xs[i := x] ! j = (if i = j \<and> i < length xs then x else xs ! j)"
  by (cases "i < length xs") (auto simp: nth_list_update list_update_beyond)

lemma upd_logger_simps [simp]:
  "appender_cells (upd_logger l f w) = appender_cells w" "m_loggers (upd_logger l f w) = m_loggers w"
  "m_root (upd_logger l f w) = m_root w" "length (logger_cells (upd_logger l f w)) = length (logger_cells w)"
  "logger_cells (upd_logger l f w) = (logger_cells w)[l := f (logger_at w l)]"
  by (simp_all add: upd_logger_def)

lemma upd_appender_simps [simp]:
  "logger_cells (upd_appender a f w) = logger_cells w" "m_loggers (upd_appender a f w) = m_loggers w"
  "m_root (upd_appender a f w) = m_root w" "length (appender_cells (upd_appender a f w)) = length (appender_cells w)"
  "appender_cells (upd_appender a f w) = (appender_cells w)[a := f (appender_at w a)]"
  by (simp_all add: upd_appender_def)

lemma logger_ok_frame: "logger_ok w x \<Longrightarrow> appender_cells w' = appender_cells w \<Longrightarrow> m_root w' = m_root w \<Longrightarrow> logger_ok w' x"
  by (simp add: logger_ok_def)

lemma upd_logger_on:
  assumes "logs_wf w" and "map_find str_less n (m_loggers w) = Some l"
    and "lg_name (f (logger_at w l)) = n" and "lg_root (f (logger_at w l)) = lg_root (logger_at w l)"
    and "logger_ok w (f (logger_at w l))"
  shows "on_logger n l w (upd_logger l f w)"
proof -
  have l: "l < length (logger_cells w)" by (rule logs_wfD(2) [OF assms(1,2)])
  note wf = logs_wfD [OF assms(1)]
  let ?w = "upd_logger l f w"
  have ok: "logger_ok ?w x = logger_ok w x" for x by (simp add: logger_ok_def)
  have "logs_wf ?w" unfolding logs_wf_def
  proof (intro conjI allI impI)
    show "map_sorted str_less (m_loggers ?w)" using wf(1) by simp
    show "k < length (logger_cells ?w)" "lg_name (logger_at ?w k) = m" if "map_find str_less m (m_loggers ?w) = Some k" for m k
      using that wf(2,3) [of m k] wf(3) [OF assms(2)] assms(3) by (auto simp: list_upd_nth)
    show "m_root ?w < length (logger_cells ?w)" "lg_root (logger_at ?w (m_root ?w)) = None"
      using wf(4,5) assms(4) by (auto simp: list_upd_nth)
    show "logger_ok ?w (logger_at ?w k)" if "k < length (logger_cells ?w)" for k
      using that wf(6) assms(5) ok by (auto simp: list_upd_nth)
  qed
  moreover have "touches n w (upd_logger l f w)"
    using logs_wfD(3) [OF assms(1)] assms(2) by (auto simp: touches_def same_shape_def list_upd_nth)
  ultimately show ?thesis using assms(2) by (simp add: on_logger_def)
qed

lemma getLogger_on:
  assumes "logs_wf w" and "getLogger n w = (l, w')"
  shows "on_logger n l w w'"
proof (cases "map_find str_less n (m_loggers w)")
  case None
  with assms(2) have l: "l = length (logger_cells w)"
    "w' = w\<lparr>logger_cells := logger_cells w @ [(mk_Logger n)\<lparr>lg_root := Some (m_root w)\<rparr>],
            m_loggers := map_assign str_less n l (m_loggers w)\<rparr>"
    by (auto simp: getLogger_def Let_def)
  note wf = logs_wfD [OF assms(1)]
  have lk: "map_find str_less k (m_loggers w') = (if k = n then Some l else map_find str_less k (m_loggers w))" for k
    using l str_order.map_find_assign [OF wf(1)] by auto
  have ok: "logger_ok w' x" if "logger_ok w x" for x using that l by (auto simp: logger_ok_def)
  have new: "logger_ok w' ((mk_Logger n)\<lparr>lg_root := Some (m_root w)\<rparr>)" by (simp add: logger_ok_def mk_Logger_def l)
  have "logs_wf w'" unfolding logs_wf_def
  proof (intro conjI allI impI)
    show "map_sorted str_less (m_loggers w')" using l wf(1) by (simp add: str_order.map_assign_sorted)
    show "k < length (logger_cells w')" "lg_name (logger_at w' k) = m" if "map_find str_less m (m_loggers w') = Some k" for m k
      using that lk wf(2,3) [of m k] l by (auto simp: nth_append mk_Logger_def split: if_splits)
    show "m_root w' < length (logger_cells w')" "lg_root (logger_at w' (m_root w')) = None"
      using l wf(4,5) by (simp_all add: nth_append)
    show "logger_ok w' (logger_at w' k)" if "k < length (logger_cells w')" for k
      using that l wf(6) ok new by (auto simp: nth_append less_Suc_eq)
  qed
  moreover have "touches n w w'" using l lk wf(2) by (auto simp: touches_def same_shape_def nth_append)
  ultimately show ?thesis using lk by (simp add: on_logger_def)
next
  case (Some k)
  with assms show ?thesis by (simp add: getLogger_def on_logger_refl)
qed

lemma setLevel_on:
  assumes "logs_wf w" and "map_find str_less n (m_loggers w) = Some l"
  shows "on_logger n l w (setLevel l v w)"
  unfolding setLevel_def using found_ok [OF assms] assms
  by (intro upd_logger_on) (auto simp: logger_ok_def)

lemma clearAppends_on:
  assumes "logs_wf w" and "map_find str_less n (m_loggers w) = Some l"
  shows "on_logger n l w (clearAppends l w)"
  unfolding clearAppends_def using found_ok [OF assms] assms
  by (intro upd_logger_on) (auto simp: logger_ok_def)

text \<open>Giving an appender a formatter that is not its own.\<close>

lemma upd_formatter_on:
  assumes "logs_wf w" and "map_find str_less n (m_loggers w) = Some l" and "\<not> has_formatter (appender_at w a)"
    and "f \<noteq> None"
  shows "on_logger n l w (upd_appender a (appender_SetFormatter f) w)"
proof -
  have "logger_ok w x \<Longrightarrow> logger_ok (upd_appender a (appender_SetFormatter f) w) x" for x
    using assms(4) by (auto simp: logger_ok_def appender_SetFormatter_def list_upd_nth)
  then have "logs_wf (upd_appender a (appender_SetFormatter f) w)"
    using logs_wfD [OF assms(1)] by (simp add: logs_wf_def)
  moreover have "touches n w (upd_appender a (appender_SetFormatter f) w)"
    using assms(3) by (auto simp: touches_def same_shape_def list_upd_nth appender_SetFormatter_def)
  ultimately show ?thesis using assms(2) by (simp add: on_logger_def)
qed

lemma setFormatter_on:
  assumes "logs_wf w" and "map_find str_less n (m_loggers w) = Some l" and "f \<noteq> None"
  shows "on_logger n l w (Logger_setFormatter l f w)"
proof -
  have step: "on_logger n l v (fold (\<lambda>a w. if has_formatter (appender_at w a) then w
      else upd_appender a (appender_SetFormatter f) w) as v)"
    if "logs_wf v" "map_find str_less n (m_loggers v) = Some l" for "as" v
    using that
  proof (induction "as" arbitrary: v)
    case (Cons a "as")
    define v1 where "v1 = (if has_formatter (appender_at v a) then v else upd_appender a (appender_SetFormatter f) v)"
    have v1: "on_logger n l v v1"
      using Cons.prems assms(3) by (auto simp: v1_def intro: on_logger_refl upd_formatter_on)
    then have "on_logger n l v1 (fold (\<lambda>a w. if has_formatter (appender_at w a) then w
      else upd_appender a (appender_SetFormatter f) w) as v1)" by (intro Cons.IH) (simp_all add: on_logger_def)
    from on_logger_trans [OF v1 this] show ?case by (simp add: v1_def)
  qed (simp add: on_logger_refl)
  have u: "on_logger n l w (upd_logger l (\<lambda>x. x\<lparr>lg_formatter := f\<rparr>) w)"
    using found_ok [OF assms(1,2)] assms by (intro upd_logger_on) (auto simp: logger_ok_def)
  with step show ?thesis unfolding Logger_setFormatter_def by (auto simp: on_logger_def intro: touches_trans)
qed

lemma setFormatter_text_on:
  assumes "logs_wf w" and "map_find str_less n (m_loggers w) = Some l"
  shows "on_logger n l w (Logger_setFormatter_text l p w)"
  using setFormatter_on [OF assms] on_logger_refl [OF assms] by (simp add: Logger_setFormatter_text_def Let_def)

lemma new_appender_on:
  assumes "logs_wf w" and "map_find str_less n (m_loggers w) = Some l"
    and "ap_formatter ap = None \<Longrightarrow> \<not> has_formatter ap" and a: "a = length (appender_cells w)"
    and w': "w' = addAppender l a (w\<lparr>appender_cells := appender_cells w @ [ap]\<rparr>)"
  shows "on_logger n l w w'" "logger_at w' l = (logger_at w l)\<lparr>lg_appenders := lg_appenders (logger_at w l) @ [a]\<rparr>"
    "same_shape ap (appender_at w' a)" "a < length (appender_cells w')"
proof -
  define w1 where "w1 = w\<lparr>appender_cells := appender_cells w @ [ap]\<rparr>"
  define w2 where "w2 = (if ap_formatter ap = None then upd_appender a (appender_SetFormatter (lg_formatter (logger_at w l))) w1 else w1)"
  have l: "l < length (logger_cells w)" "lg_name (logger_at w l) = n" "logger_ok w (logger_at w l)"
    using found_ok [OF assms(1,2)] by auto
  have at: "appender_at w1 a = ap" by (simp add: w1_def a)
  have ok1: "logger_ok w x \<Longrightarrow> logger_ok w1 x" for x by (auto simp: logger_ok_def w1_def nth_append)
  have o1: "on_logger n l w w1"
    using logs_wfD [OF assms(1)] ok1 assms(2)
    by (auto simp: on_logger_def logs_wf_def touches_def same_shape_def w1_def nth_append)
  have o2: "on_logger n l w1 w2"
  proof (cases "ap_formatter ap = None")
    case True
    moreover have "lg_formatter (logger_at w l) \<noteq> None" using l(3) by (simp add: logger_ok_def)
    ultimately show ?thesis
      using upd_formatter_on [of w1 n l a "lg_formatter (logger_at w l)"] o1 at assms(3) by (simp add: w2_def on_logger_def)
  next
    case False
    then have "w2 = w1" by (auto simp: w2_def)
    then show ?thesis by (simp add: on_logger_refl on_loggerD [OF o1])
  qed
  have c2: "logger_cells w2 = logger_cells w" "length (appender_cells w2) = Suc a"
    by (simp_all add: w2_def w1_def a)
  have at2: "appender_at w2 a = (if ap_formatter ap = None then ap\<lparr>ap_formatter := lg_formatter (logger_at w l)\<rparr> else ap)"
    by (simp add: w2_def at list_upd_nth w1_def a appender_SetFormatter_def)
  have w'2: "w' = upd_logger l (\<lambda>x. x\<lparr>lg_appenders := lg_appenders x @ [a]\<rparr>) w2"
    using at by (simp add: w' w2_def w1_def addAppender_def Let_def)
  have fm: "ap_formatter (appender_at w2 a) \<noteq> None" using at2 l(3) by (simp add: logger_ok_def)
  have "logger_ok w2 (logger_at w2 l)" using o2 found_ok [of w2 n l] by (simp add: on_logger_def)
  then have "logger_ok w2 ((logger_at w2 l)\<lparr>lg_appenders := lg_appenders (logger_at w2 l) @ [a]\<rparr>)"
    using fm c2(2) by (auto simp: logger_ok_def)
  then have "on_logger n l w2 w'" unfolding w'2 using o2 l c2 by (intro upd_logger_on) (simp_all add: on_logger_def)
  with o1 o2 show "on_logger n l w w'" by (blast intro: on_logger_trans)
  show "logger_at w' l = (logger_at w l)\<lparr>lg_appenders := lg_appenders (logger_at w l) @ [a]\<rparr>"
    using l(1) c2 by (simp add: w'2)
  show "same_shape ap (appender_at w' a)" using at2 assms(3) by (auto simp: w'2 same_shape_def)
  show "a < length (appender_cells w')" using c2 by (simp add: w'2)
qed

text \<open>An appender as its definition asks for it.\<close>

definition own_formatter :: "log_appender_define \<Rightarrow> bool" where
  "own_formatter ad \<longleftrightarrow> ad_formatter ad \<noteq> [] \<and> \<not> fmt_error (mk_LogFormatter (ad_formatter ad))"

definition appender_matches :: "(string \<Rightarrow> bool) \<Rightarrow> log_appender_define \<Rightarrow> appender \<Rightarrow> bool" where
  "appender_matches opens ad ap \<longleftrightarrow>
     ap_kind ap = (if ad_type ad = 1 then Fileout (ad_file ad) (opens (ad_file ad)) else Stdout) \<and>
     ap_level ap = ad_level ad \<and> has_formatter ap = own_formatter ad \<and>
     (own_formatter ad \<longrightarrow> ap_formatter ap = Some (mk_LogFormatter (ad_formatter ad)))"

lemma matches_shape: "appender_matches opens ad x \<Longrightarrow> same_shape x y \<Longrightarrow> appender_matches opens ad y"
  by (auto simp: appender_matches_def same_shape_def)

definition appenders_match :: "(string \<Rightarrow> bool) \<Rightarrow> log_appender_define list \<Rightarrow> nat list \<Rightarrow> logs \<Rightarrow> bool" where
  "appenders_match opens ads as w \<longleftrightarrow>
     list_all2 (\<lambda>ad a. a < length (appender_cells w) \<and> appender_matches opens ad (appender_at w a)) ads as"

lemma appenders_match_touches:
  "appenders_match opens ads as w \<Longrightarrow> touches n w w' \<Longrightarrow> appenders_match opens ads as w'"
  unfolding appenders_match_def
  by (erule list_all2_mono) (auto simp: touches_def intro: matches_shape)

lemma apply_appender_on:
  assumes "logs_wf w" and "map_find str_less n (m_loggers w) = Some l" and "ad_type ad \<in> {1, 2}"
  shows "\<exists>w' a. apply_appender opens l ad w = Inr w' \<and> on_logger n l w w' \<and>
    logger_at w' l = (logger_at w l)\<lparr>lg_appenders := lg_appenders (logger_at w l) @ [a]\<rparr> \<and>
    a < length (appender_cells w') \<and> appender_matches opens ad (appender_at w' a)"
proof -
  define ap where "ap = (if ad_type ad = 1 then mk_FileoutLogAppender opens (ad_file ad) else mk_StdoutLogAppender)\<lparr>ap_level := ad_level ad\<rparr>"
  define ap' where "ap' = (if own_formatter ad then appender_setFormatter (Some (mk_LogFormatter (ad_formatter ad))) ap else ap)"
  let ?w = "addAppender l (length (appender_cells w)) (w\<lparr>appender_cells := appender_cells w @ [ap']\<rparr>)"
  have m: "appender_matches opens ad ap'"
    by (auto simp: appender_matches_def ap'_def ap_def appender_setFormatter_def mk_FileoutLogAppender_def mk_StdoutLogAppender_def)
  have "apply_appender opens l ad w = Inr ?w"
    using assms(3) by (auto simp: apply_appender_def Let_def ap'_def ap_def own_formatter_def)
  moreover have "ap_formatter ap' = None \<Longrightarrow> \<not> has_formatter ap'" using m by (auto simp: appender_matches_def)
  note new_appender_on [OF assms(1,2) this refl refl]
  ultimately show ?thesis using m matches_shape by blast
qed

lemma apply_appenders_on:
  assumes "logs_wf w" and "map_find str_less n (m_loggers w) = Some l" and "\<forall>ad \<in> set ads. ad_type ad \<in> {1, 2}"
  shows "\<exists>w' as. apply_appenders opens l ads w = Inr w' \<and> on_logger n l w w' \<and>
    logger_at w' l = (logger_at w l)\<lparr>lg_appenders := lg_appenders (logger_at w l) @ as\<rparr> \<and>
    appenders_match opens ads as w'"
  using assms
proof (induction ads arbitrary: w)
  case Nil
  then show ?case by (simp add: on_logger_refl appenders_match_def exI [of _ "[]"])
next
  case (Cons ad ads)
  then obtain w1 a where w1: "apply_appender opens l ad w = Inr w1" "on_logger n l w w1"
    "logger_at w1 l = (logger_at w l)\<lparr>lg_appenders := lg_appenders (logger_at w l) @ [a]\<rparr>"
    "a < length (appender_cells w1)" "appender_matches opens ad (appender_at w1 a)"
    using apply_appender_on [of w n l ad opens] by auto
  then obtain w2 "as" where w2: "apply_appenders opens l ads w1 = Inr w2" "on_logger n l w1 w2"
    "logger_at w2 l = (logger_at w1 l)\<lparr>lg_appenders := lg_appenders (logger_at w1 l) @ as\<rparr>"
    "appenders_match opens ads as w2"
    using Cons.IH [of w1] Cons.prems(3) by (auto simp: on_logger_def)
  have "appenders_match opens [ad] [a] w2"
    using w1 w2(2) appenders_match_touches [of opens "[ad]" "[a]" w1 n w2] by (simp add: appenders_match_def on_logger_def)
  with w1 w2 show ?case
    by (auto simp: appenders_match_def intro!: exI [of _ "a # as"] intro: on_logger_trans)
qed

text \<open>A definition that is in force, and a logger that was given up.\<close>

definition in_force :: "(string \<Rightarrow> bool) \<Rightarrow> log_define \<Rightarrow> logs \<Rightarrow> bool" where
  "in_force opens d w \<longleftrightarrow> (\<exists>l. map_find str_less (ld_name d) (m_loggers w) = Some l \<and>
     lg_level (logger_at w l) = ld_level d \<and> appenders_match opens (ld_appenders d) (lg_appenders (logger_at w l)) w)"

definition given_up :: "string \<Rightarrow> logs \<Rightarrow> bool" where
  "given_up n w \<longleftrightarrow> (\<exists>l. map_find str_less n (m_loggers w) = Some l \<and>
     lg_level (logger_at w l) = 100 \<and> lg_appenders (logger_at w l) = [])"

lemma in_force_touches: "in_force opens d w \<Longrightarrow> touches n w w' \<Longrightarrow> n \<noteq> ld_name d \<Longrightarrow> in_force opens d w'"
proof -
  assume "in_force opens d w" and t: "touches n w w'" and n: "n \<noteq> ld_name d"
  then obtain l where l: "map_find str_less (ld_name d) (m_loggers w) = Some l" "lg_level (logger_at w l) = ld_level d"
    "appenders_match opens (ld_appenders d) (lg_appenders (logger_at w l)) w" by (auto simp: in_force_def)
  have "map_find str_less (ld_name d) (m_loggers w') = Some l" "logger_at w' l = logger_at w l"
    using t n l(1) by (auto simp: touches_def)
  with l appenders_match_touches [OF l(3) t] show ?thesis by (auto simp: in_force_def)
qed

lemma given_up_touches: "given_up m w \<Longrightarrow> touches n w w' \<Longrightarrow> n \<noteq> m \<Longrightarrow> given_up m w'"
  by (fastforce simp: given_up_def touches_def)

lemma fold_keeps_logger:
  "logger_cells (fold (\<lambda>a w. if has_formatter (appender_at w a) then w
      else upd_appender a (appender_SetFormatter f) w) as v) = logger_cells v"
  by (induction "as" arbitrary: v) auto

lemma setFormatter_text_logger:
  "l < length (logger_cells w) \<Longrightarrow> lg_level (logger_at (Logger_setFormatter_text l p w) l) = lg_level (logger_at w l)"
  by (simp add: Logger_setFormatter_text_def Logger_setFormatter_def Let_def fold_keeps_logger)

lemma apply_define_on:
  assumes "logs_wf w" and "set_find define_less d old \<noteq> Some d" and "\<forall>ad \<in> set (ld_appenders d). ad_type ad \<in> {1, 2}"
  shows "\<exists>w'. apply_define opens old d w = Inr w' \<and> logs_wf w' \<and> touches (ld_name d) w w' \<and> in_force opens d w'"
proof -
  obtain l w1 where g: "getLogger (ld_name d) w = (l, w1)" by fastforce
  note o1 = getLogger_on [OF assms(1) g]
  define w2 where "w2 = setLevel l (ld_level d) w1"
  define w3 where "w3 = (if ld_formatter d \<noteq> [] then Logger_setFormatter_text l (ld_formatter d) w2 else w2)"
  define w4 where "w4 = clearAppends l w3"
  have o2: "on_logger (ld_name d) l w1 w2" by (simp add: w2_def setLevel_on on_loggerD [OF o1])
  have o3: "on_logger (ld_name d) l w2 w3"
    by (simp add: w3_def setFormatter_text_on on_logger_refl on_loggerD [OF o2])
  have o4: "on_logger (ld_name d) l w3 w4" by (simp add: w4_def clearAppends_on on_loggerD [OF o3])
  have len: "l < length (logger_cells w1)" "l < length (logger_cells w2)" "l < length (logger_cells w3)"
    using o1 o2 o3 found_ok by (auto simp: on_logger_def)
  have lv: "lg_level (logger_at w4 l) = ld_level d" "lg_appenders (logger_at w4 l) = []"
    using len setFormatter_text_logger [of l w2] by (simp_all add: w4_def clearAppends_def w3_def w2_def setLevel_def)
  from apply_appenders_on [of w4 "ld_name d" l "ld_appenders d" opens] o4 assms(3)
  obtain w5 "as" where w5: "apply_appenders opens l (ld_appenders d) w4 = Inr w5" "on_logger (ld_name d) l w4 w5"
    "logger_at w5 l = (logger_at w4 l)\<lparr>lg_appenders := lg_appenders (logger_at w4 l) @ as\<rparr>"
    "appenders_match opens (ld_appenders d) as w5" by (auto simp: on_logger_def)
  have "apply_define opens old d w = Inr w5"
    using assms(2) g w5(1) by (simp add: apply_define_def Let_def w4_def w3_def, simp add: w2_def split: if_splits)
  moreover have "on_logger (ld_name d) l w w5" using o1 o2 o3 o4 w5(2) by (blast intro: on_logger_trans)
  moreover have "in_force opens d w5" using w5 lv by (auto simp: in_force_def on_logger_def)
  ultimately show ?thesis by (auto simp: on_logger_def)
qed

text \<open>Sets of definitions are in the order of their names.\<close>

lemma equiv_define: "equiv_key define_less x y \<longleftrightarrow> ld_name x = ld_name y"
  using equiv_str [of "ld_name x" "ld_name y"] by (simp add: equiv_key_def define_less_def)

interpretation define_order: strict_weak_order define_less
  by unfold_locales (auto simp: equiv_define define_less_def str_order.lt_irrefl intro: str_order.lt_trans)

lemma find_define: "sorted_wrt define_less ds \<Longrightarrow> set_find define_less d ds = Some d \<longleftrightarrow> d \<in> set ds"
proof
  assume so: "sorted_wrt define_less ds" and "d \<in> set ds"
  then obtain e where e: "set_find define_less d ds = Some e"
    using define_order.set_find_None [OF so, of d] by (auto simp: equiv_define)
  with define_order.set_find_Some [OF e so] define_order.sorted_unique [OF so \<open>d \<in> set ds\<close>, of e]
  show "set_find define_less d ds = Some d" by simp
qed (use define_order.set_find_Some in blast)

lemma apply_defines_on:
  assumes "logs_wf w" and "sorted_wrt define_less new" and "\<forall>d \<in> set new. set_find define_less d old \<noteq> Some d"
    and "\<forall>d \<in> set new. \<forall>ad \<in> set (ld_appenders d). ad_type ad \<in> {1, 2}"
  shows "\<exists>w'. apply_defines opens old new w = Inr w' \<and> logs_wf w' \<and> (\<forall>d \<in> set new. in_force opens d w') \<and>
    (\<forall>d. ld_name d \<notin> ld_name ` set new \<longrightarrow> in_force opens d w \<longrightarrow> in_force opens d w')"
  using assms
proof (induction new arbitrary: w)
  case (Cons i new)
  obtain w1 where w1: "apply_define opens old i w = Inr w1" "logs_wf w1" "touches (ld_name i) w w1" "in_force opens i w1"
    using apply_define_on [of w i old opens] Cons.prems by auto
  obtain w2 where w2: "apply_defines opens old new w1 = Inr w2" "logs_wf w2" "\<forall>d \<in> set new. in_force opens d w2"
    "\<forall>d. ld_name d \<notin> ld_name ` set new \<longrightarrow> in_force opens d w1 \<longrightarrow> in_force opens d w2"
    using Cons.IH [OF w1(2)] Cons.prems by auto
  have "ld_name i \<notin> ld_name ` set new"
    using Cons.prems(2) equiv_define by (auto simp: equiv_key_def)
  moreover have "in_force opens d w \<Longrightarrow> ld_name d \<noteq> ld_name i \<Longrightarrow> in_force opens d w1" for d
    using in_force_touches [OF _ w1(3)] by simp
  ultimately show ?case using w1 w2 by auto
qed simp

lemma drop_define_on:
  assumes "logs_wf w"
  shows "logs_wf (drop_define new i w)" "touches (ld_name i) w (drop_define new i w)"
    "set_find define_less i new = None \<Longrightarrow> given_up (ld_name i) (drop_define new i w)"
    "set_find define_less i new \<noteq> None \<Longrightarrow> drop_define new i w = w"
proof -
  obtain l w1 where g: "getLogger (ld_name i) w = (l, w1)" by fastforce
  note o1 = getLogger_on [OF assms g]
  note o2 = setLevel_on [OF on_loggerD(1,3) [OF o1], of 100]
  note o3 = clearAppends_on [OF on_loggerD(1,3) [OF o2]]
  have d: "drop_define new i w = (if set_find define_less i new = None then clearAppends l (setLevel l 100 w1) else w)"
    by (simp add: drop_define_def g)
  have l: "l < length (logger_cells w1)" using found_ok [OF on_loggerD(1,3) [OF o1]] by simp
  have g3: "given_up (ld_name i) (clearAppends l (setLevel l 100 w1))"
    using on_loggerD(3) [OF o3] l by (auto simp: given_up_def clearAppends_def setLevel_def)
  note o = on_logger_trans [OF on_logger_trans [OF o1 o2] o3]
  show "logs_wf (drop_define new i w)" "touches (ld_name i) w (drop_define new i w)"
    "set_find define_less i new = None \<Longrightarrow> given_up (ld_name i) (drop_define new i w)"
    "set_find define_less i new \<noteq> None \<Longrightarrow> drop_define new i w = w"
    using d g3 on_loggerD [OF o] assms by (auto simp: touches_refl)
qed

lemma drop_defines_on:
  assumes "logs_wf w"
  shows "logs_wf (fold (drop_define new) old w) \<and>
    (\<forall>m. given_up m w \<longrightarrow> given_up m (fold (drop_define new) old w)) \<and>
    (\<forall>i \<in> set old. set_find define_less i new = None \<longrightarrow> given_up (ld_name i) (fold (drop_define new) old w)) \<and>
    (\<forall>d. (\<forall>i \<in> set old. set_find define_less i new = None \<longrightarrow> ld_name i \<noteq> ld_name d) \<longrightarrow>
       in_force opens d w \<longrightarrow> in_force opens d (fold (drop_define new) old w))"
  using assms
proof (induction old arbitrary: w)
  case (Cons i old)
  let ?w = "drop_define new i w"
  note d = drop_define_on [OF Cons.prems, where new = new and i = i]
  have g: "given_up m w \<Longrightarrow> given_up m ?w" for m
    using d(2-4) given_up_touches [of m w "ld_name i" ?w] by (cases "set_find define_less i new = None"; cases "m = ld_name i") auto
  have f: "in_force opens e w \<Longrightarrow> set_find define_less i new = None \<longrightarrow> ld_name i \<noteq> ld_name e \<Longrightarrow> in_force opens e ?w" for e
    using d(2,4) in_force_touches by (cases "set_find define_less i new = None") auto
  from Cons.IH [OF d(1)] d(3) g f show ?case by auto
qed simp

section \<open>Delivery\<close>

definition log_targets :: "log_level \<Rightarrow> nat \<Rightarrow> logs \<Rightarrow> nat list" where
  "log_targets level l w =
    (if level < lg_level (logger_at w l) then []
     else if lg_appenders (logger_at w l) \<noteq> [] then lg_appenders (logger_at w l)
     else (case lg_root (logger_at w l) of
       None \<Rightarrow> []
     | Some r \<Rightarrow> if level < lg_level (logger_at w r) then [] else lg_appenders (logger_at w r)))"

lemma Logger_log_targets:
  assumes "logs_wf w" and "l < length (logger_cells w)"
  shows "Logger_log (Suc (Suc n)) strftime level e l w = Some (log_all strftime level e (log_targets level l w) w)"
proof -
  have r: "lg_root (logger_at w r) = None" if "lg_root (logger_at w l) = Some r" for r
    using logs_wfD(5,6) [OF assms(1)] assms(2) that by (auto simp: logger_ok_def)
  show ?thesis
    by (cases "lg_root (logger_at w l)") (auto simp: log_targets_def dest: r split: option.splits)
qed

text \<open>The text one appender writes.\<close>

definition entry :: "(string \<Rightarrow> uint64 \<Rightarrow> string) \<Rightarrow> log_level \<Rightarrow> log_event \<Rightarrow> logs \<Rightarrow> nat \<Rightarrow> string result" where
  "entry strftime level e w a = (case ap_formatter (appender_at w a) of
     None \<Rightarrow> Inl Null_dereference
   | Some f \<Rightarrow> LogFormatter_format strftime (lg_name (logger_at w (event_logger e))) level e f)"

lemma write_text_frame [simp]:
  "appender_cells (write_text k t w) = appender_cells w" "logger_cells (write_text k t w) = logger_cells w"
  "m_loggers (write_text k t w) = m_loggers w" "m_root (write_text k t w) = m_root w"
  by (cases k; simp add: write_text_def)+

lemma entry_write [simp]: "entry strftime level e (write_text k t w) = entry strftime level e w"
  by (simp add: entry_def fun_eq_iff split: option.split)

lemma appender_log_entry:
  "appender_log strftime level e a w =
    (if ap_level (appender_at w a) \<le> level
     then bindE (entry strftime level e w a) (\<lambda>t. Inr (write_text (ap_kind (appender_at w a)) t w)) else Inr w)"
  by (simp add: appender_log_def entry_def split: option.split)

lemma log_all_writes:
  assumes "\<forall>a \<in> set as. ap_level (appender_at w a) \<le> level \<longrightarrow> entry strftime level e w a = Inr (out a)"
  shows "\<exists>w'. log_all strftime level e as w = Inr w' \<and>
    appender_cells w' = appender_cells w \<and> logger_cells w' = logger_cells w \<and> m_loggers w' = m_loggers w \<and> m_root w' = m_root w \<and>
    console w' = console w @ concat (map out (filter (\<lambda>a. ap_level (appender_at w a) \<le> level \<and> ap_kind (appender_at w a) = Stdout) as)) \<and>
    (\<forall>f. files w' f = files w f @ concat (map out (filter (\<lambda>a. ap_level (appender_at w a) \<le> level \<and> ap_kind (appender_at w a) = Fileout f True) as)))"
  using assms
proof (induction "as" arbitrary: w)
  case (Cons a "as")
  show ?case
  proof (cases "ap_level (appender_at w a) \<le> level")
    case False
    with Cons show ?thesis by (simp add: appender_log_entry)
  next
    case True
    let ?w = "write_text (ap_kind (appender_at w a)) (out a) w"
    from Cons.IH [of ?w] Cons.prems obtain w' where w': "log_all strftime level e as ?w = Inr w'"
      "appender_cells w' = appender_cells w" "logger_cells w' = logger_cells w" "m_loggers w' = m_loggers w" "m_root w' = m_root w"
      "console w' = console ?w @ concat (map out (filter (\<lambda>a. ap_level (appender_at w a) \<le> level \<and> ap_kind (appender_at w a) = Stdout) as))"
      "\<forall>f. files w' f = files ?w f @ concat (map out (filter (\<lambda>a. ap_level (appender_at w a) \<le> level \<and> ap_kind (appender_at w a) = Fileout f True) as))"
      by auto
    have "log_all strftime level e (a # as) w = Inr w'"
      using True Cons.prems w'(1) by (simp add: appender_log_entry)
    with w' True show ?thesis by (cases "ap_kind (appender_at w a)") (auto simp: write_text_def)
  qed
qed simp

lemma format_total: "(\<And>f t. length (strftime f t) < 64) \<Longrightarrow> \<exists>s. format_items strftime name level e its = Inr s"
proof (induction its)
  case (Cons it its)
  then have "\<exists>t. item_format strftime name level e it = Inr t"
    by (cases it) (simp_all add: time_text_def Let_def)
  with Cons show ?case by auto
qed simp

lemma entry_total:
  assumes "\<And>f t. length (strftime f t) < 64" and "ap_formatter (appender_at w a) \<noteq> None"
  shows "\<exists>t. entry strftime level e w a = Inr t"
  using assms format_total [of strftime] by (auto simp: entry_def LogFormatter_format_def)

lemma LoggerManager_wf: "logs_wf mk_LoggerManager"
proof -
  have s: "appender_cells mk_LoggerManager = [mk_StdoutLogAppender\<lparr>ap_formatter := Some (mk_LogFormatter default_pattern)\<rparr>]"
    "logger_cells mk_LoggerManager = [(mk_Logger ''root'')\<lparr>lg_appenders := [0]\<rparr>]"
    "m_loggers mk_LoggerManager = [(''root'', 0)]" "m_root mk_LoggerManager = 0"
    by (simp_all add: mk_LoggerManager_def addAppender_def upd_logger_def upd_appender_def mk_StdoutLogAppender_def
        mk_Logger_def appender_SetFormatter_def Let_def)
  have r: "map_find str_less n [(''root'', 0 :: nat)] = (if n = ''root'' then Some 0 else None)" for n
    using equiv_str [of n "''root''"] by (auto simp: equiv_key_def)
  show ?thesis unfolding logs_wf_def s r by (simp add: logger_ok_def s mk_Logger_def)
qed

section \<open>Properties\<close>

text \<open>C26: an event reaches exactly the appenders it should: those of the logger, or of its root when the
  logger has none, if the level passes the loggers on the way and the appender. Each of them writes the
  formatted text once, in order, to its stream, and nothing else changes.\<close>

theorem log_delivery:
  assumes "logs_wf w" and "l < length (logger_cells w)"
    and "\<forall>a \<in> set (log_targets level l w). ap_level (appender_at w a) \<le> level \<longrightarrow> entry strftime level e w a = Inr (out a)"
  shows "\<exists>w'. Logger_log (Suc (Suc n)) strftime level e l w = Some (Inr w') \<and>
    appender_cells w' = appender_cells w \<and> logger_cells w' = logger_cells w \<and> m_loggers w' = m_loggers w \<and>
    console w' = console w @ concat (map out (filter
      (\<lambda>a. ap_level (appender_at w a) \<le> level \<and> ap_kind (appender_at w a) = Stdout) (log_targets level l w))) \<and>
    (\<forall>f. files w' f = files w f @ concat (map out (filter
      (\<lambda>a. ap_level (appender_at w a) \<le> level \<and> ap_kind (appender_at w a) = Fileout f True) (log_targets level l w))))"
  unfolding Logger_log_targets [OF assms(1,2)] using log_all_writes [OF assms(3)] by auto

text \<open>An event on a fresh logger, which goes to the standard output of the root.\<close>

definition example_logs :: logs where
  "example_logs = snd (getLogger ''http'' mk_LoggerManager)"

definition example_event :: log_event where
  "example_event = (mk_LogEvent (0, 0) 1 WARN ''a.cc'' 3 0 7 0 ''main'')\<lparr>m_ss := ''hi''\<rparr>"

lemma example_logs_facts:
  "logs_wf example_logs" "length (logger_cells example_logs) = 2" "log_targets WARN 1 example_logs = [0]"
  "console example_logs = []"
proof -
  have g: "getLogger ''http'' mk_LoggerManager = (1, example_logs)" by (simp add: example_logs_def getLogger_def
        mk_LoggerManager_def addAppender_def upd_logger_def upd_appender_def Let_def str_less_def)
  show "logs_wf example_logs" using getLogger_on [OF LoggerManager_wf g] by (rule on_loggerD(1))
  show "length (logger_cells example_logs) = 2" "log_targets WARN 1 example_logs = [0]" "console example_logs = []"
    by (simp_all add: example_logs_def getLogger_def mk_LoggerManager_def addAppender_def upd_logger_def upd_appender_def
        Let_def str_less_def log_targets_def mk_Logger_def level_defs)
qed

theorem log_delivery_witness:
  "\<exists>w' t. Logger_log 2 (\<lambda>f t. ''now'') WARN example_event 1 example_logs = Some (Inr w') \<and> console w' = t \<and>
     entry (\<lambda>f t. ''now'') WARN example_event example_logs 0 = Inr t"
proof -
  have k: "ap_level (appender_at example_logs 0) \<le> WARN" "ap_kind (appender_at example_logs 0) = Stdout"
    "ap_formatter (appender_at example_logs 0) \<noteq> None"
    by (simp_all add: example_logs_def getLogger_def mk_LoggerManager_def addAppender_def upd_logger_def upd_appender_def
        Let_def str_less_def mk_StdoutLogAppender_def appender_SetFormatter_def mk_Logger_def level_defs)
  obtain t where t: "entry (\<lambda>f t. ''now'') WARN example_event example_logs 0 = Inr t"
    using entry_total [of "\<lambda>f t. ''now''"] k(3) by fastforce
  with log_delivery [OF example_logs_facts(1), where l = "1" and level = "WARN"
      and strftime = "\<lambda>f t. ''now''" and e = "example_event" and out = "\<lambda>a. t" and n = "0"] k example_logs_facts
  show ?thesis by (auto simp: numeral_2_eq_2)
qed


definition example_define :: log_define where
  "example_define = \<lparr>ld_name = ''http'', ld_level = WARN, ld_formatter = [],
     ld_appenders = [\<lparr>ad_type = 1, ad_level = ERROR, ad_formatter = ''%m%n'', ad_file = ''http.log''\<rparr>]\<rparr>"


text \<open>C38: when a definition is in the old and in the new value unchanged, the listener dereferences a null
  pointer, whatever else changes: reloading a configuration that keeps a logger ends the process.\<close>

theorem unchanged_definition_crashes:
  assumes "sorted_wrt define_less old" and "d \<in> set old" and "d \<in> set new"
  shows "apply_changes opens old new w = Inl Null_dereference"
proof -
  have ap: "apply_appenders opens l ads v = Inl f \<Longrightarrow> f = Null_dereference" for l ads v f
    by (induction ads arbitrary: v) (auto simp: apply_appender_def Let_def split: if_splits)
  have one: "apply_define opens old i v = Inl f \<Longrightarrow> f = Null_dereference" for i v f
    by (auto simp: apply_define_def Let_def dest!: ap split: if_splits prod.splits)
  have "set_find define_less d old = Some d" using find_define [OF assms(1)] assms(2) by simp
  then have d: "apply_define opens old d v = Inl Null_dereference" for v by (simp add: apply_define_def)
  have "apply_defines opens old new w = Inl Null_dereference"
    using assms(3)
  proof (induction new arbitrary: w)
    case (Cons i new)
    show ?case
    proof (cases "apply_define opens old i w")
      case (Inl f)
      with one [OF Inl] show ?thesis by simp
    next
      case (Inr v)
      with d [of w] Cons.prems have "d \<in> set new" by auto
      with Cons.IH Inr show ?thesis by simp
    qed
  qed simp
  then show ?thesis by (simp add: apply_changes_def)
qed

theorem unchanged_definition_crashes_witness:
  "apply_changes (\<lambda>f. True) [example_define] [example_define\<lparr>ld_name := ''a''\<rparr>, example_define] mk_LoggerManager
     = Inl Null_dereference"
  using unchanged_definition_crashes [of "[example_define]" example_define] by simp

end
