(* ===== verification/Log_Defines.thy ===== *)
theory Log_Defines
  imports Logs
begin

text \<open>
  The conversions of a logger definition to and from YAML (the specialisations of \<^verbatim>\<open>LexicalCast\<close> in
  \<^verbatim>\<open>log.cc\<close>) and the listing of the manager. \<^verbatim>\<open>YAML::Load\<close>, the output of a node,
  \<^verbatim>\<open>as<std::string>\<close> and indexing a mapping by position are arguments.
\<close>

section \<open>Reading a definition\<close>

text \<open>\<^verbatim>\<open>node["key"]\<close>, and whether it is defined: a scalar has no members and throws.\<close>

fun node_get :: "string \<Rightarrow> yaml \<Rightarrow> yaml option result" where
  "node_get k (Y_map ps) = Inr (map_of ps (Y_scalar k))"
| "node_get k (Y_scalar s) = Inl Library_exception"
| "node_get k n = Inr None"

definition get_string :: "(yaml \<Rightarrow> string result) \<Rightarrow> string \<Rightarrow> yaml \<Rightarrow> string option result" where
  "get_string as_string k n = bindE (node_get k n) (\<lambda>v. case v of
     None \<Rightarrow> Inr None | Some m \<Rightarrow> bindE (as_string m) (\<lambda>s. Inr (Some s)))"

text \<open>The formatter and the level of an appender, then one appender; \<open>None\<close> where the loop goes on to the
  next.\<close>

definition read_details :: "(yaml \<Rightarrow> string result) \<Rightarrow> log_level \<Rightarrow> nat \<Rightarrow> string \<Rightarrow> yaml \<Rightarrow> log_appender_define option result" where
  "read_details as_string logger_level type f a =
    bindE (get_string as_string ''formatter'' a) (\<lambda>fmt. bindE (get_string as_string ''level'' a) (\<lambda>lv.
      Inr (Some \<lparr>ad_type = type,
        ad_level = (case lv of Some s \<Rightarrow> LogLevel_FromString s | None \<Rightarrow> logger_level),
        ad_formatter = (case fmt of Some s \<Rightarrow> s | None \<Rightarrow> []), ad_file = f\<rparr>)))"

definition read_appender :: "(yaml \<Rightarrow> string result) \<Rightarrow> log_level \<Rightarrow> yaml \<Rightarrow> log_appender_define option result" where
  "read_appender as_string logger_level a =
    bindE (get_string as_string ''type'' a) (\<lambda>type.
      if type = Some ''FileLogAppender'' then
        bindE (get_string as_string ''file'' a) (\<lambda>f.
          (case f of None \<Rightarrow> Inr None | Some fname \<Rightarrow> read_details as_string logger_level 1 fname a))
      else if type = Some ''StdoutLogAppender'' then read_details as_string logger_level 2 [] a
      else Inr None)"

fun read_appenders :: "(yaml \<Rightarrow> string result) \<Rightarrow> log_level \<Rightarrow> (nat \<Rightarrow> yaml result) \<Rightarrow> nat list \<Rightarrow>
    log_appender_define list result" where
  "read_appenders as_string lv get [] = Inr []"
| "read_appenders as_string lv get (i # is) =
    bindE (get i) (\<lambda>a. bindE (read_appender as_string lv a) (\<lambda>ad.
      bindE (read_appenders as_string lv get is) (\<lambda>ads. Inr (case ad of None \<Rightarrow> ads | Some x \<Rightarrow> x # ads))))"

definition read_define :: "(yaml \<Rightarrow> string result) \<Rightarrow> ((yaml \<times> yaml) list \<Rightarrow> nat \<Rightarrow> yaml result) \<Rightarrow> yaml \<Rightarrow> log_define result" where
  "read_define as_string index_map n =
    bindE (get_string as_string ''name'' n) (\<lambda>name. (case name of
      None \<Rightarrow> Inl Logic_error
    | Some nm \<Rightarrow>
        bindE (get_string as_string ''level'' n) (\<lambda>lv.
        bindE (get_string as_string ''formatter'' n) (\<lambda>fmt.
        bindE (node_get ''appenders'' n) (\<lambda>as.
          let level = LogLevel_FromString (case lv of Some s \<Rightarrow> s | None \<Rightarrow> []) in
          bindE (case as of None \<Rightarrow> Inr [] | Some m \<Rightarrow> read_appenders as_string level (node_at index_map m) [0..<node_size m])
            (\<lambda>ads. Inr \<lparr>ld_name = nm, ld_level = level, ld_formatter = (case fmt of Some s \<Rightarrow> s | None \<Rightarrow> []),
               ld_appenders = ads\<rparr>))))))"

definition string_to_define where
  "string_to_define load as_string index_map v = bindE (load v) (read_define as_string index_map)"

section \<open>Writing a definition\<close>

text \<open>Assigning to the members of a new node appends them in order.\<close>

definition members_node :: "(string \<times> yaml) list \<Rightarrow> yaml" where
  "members_node kns = (if kns = [] then Y_null else Y_map (map (\<lambda>(k, n). (Y_scalar k, n)) kns))"

definition optional :: "bool \<Rightarrow> string \<Rightarrow> yaml \<Rightarrow> (string \<times> yaml) list" where
  "optional b k n = (if b then [(k, n)] else [])"

definition appender_node :: "log_appender_define \<Rightarrow> yaml" where
  "appender_node a = members_node
    ((if ad_type a = 1 then [(''type'', Y_scalar ''FileLogAppender''), (''file'', Y_scalar (ad_file a))]
      else if ad_type a = 2 then [(''type'', Y_scalar ''StdoutLogAppender'')] else [])
     @ optional (ad_level a \<noteq> UNKNOW) ''level'' (Y_scalar (LogLevel_ToString (ad_level a)))
     @ optional (ad_formatter a \<noteq> []) ''formatter'' (Y_scalar (ad_formatter a)))"

definition define_node :: "log_define \<Rightarrow> yaml" where
  "define_node i = members_node
    ((''name'', Y_scalar (ld_name i))
     # optional (ld_level i \<noteq> UNKNOW) ''level'' (Y_scalar (LogLevel_ToString (ld_level i)))
     @ optional (ld_formatter i \<noteq> []) ''formatter'' (Y_scalar (ld_formatter i))
     @ optional (ld_appenders i \<noteq> []) ''appenders'' (Y_seq (map appender_node (ld_appenders i))))"

definition define_to_string where
  "define_to_string emit i = emit (define_node i)"

section \<open>The listing of the manager\<close>

definition appender_lines :: "appender \<Rightarrow> string result" where
  "appender_lines y = (case ap_formatter y of
     None \<Rightarrow> Inl Null_dereference
   | Some f \<Rightarrow> Inr ((case ap_kind y of
        Stdout \<Rightarrow> CHR 9 # '' type: StdoutLogAppender'' @ [CHR 10]
      | Fileout fname b \<Rightarrow> CHR 9 # '' type: FileoutLogAppender'' @ [CHR 10] @ CHR 9 # '' file_name: '' @ fname @ [CHR 10])
     @ CHR 9 # '' level: '' @ LogLevel_ToString (ap_level y) @ [CHR 10]
     @ CHR 9 # '' formater: '' @ m_pattern f @ [CHR 10]
     @ CHR 9 # '' -----------------------------'' @ [CHR 10]))"

fun concat_results :: "string result list \<Rightarrow> string result" where
  "concat_results [] = Inr []"
| "concat_results (r # rs) = bindE r (\<lambda>t. bindE (concat_results rs) (\<lambda>t'. Inr (t @ t')))"

definition logger_lines :: "logs \<Rightarrow> nat \<Rightarrow> string result" where
  "logger_lines w l = (case lg_formatter (logger_at w l) of
     None \<Rightarrow> Inl Null_dereference
   | Some f \<Rightarrow> concat_results (
       Inr (''name: '' @ lg_name (logger_at w l) @ [CHR 10] @ ''level: '' @ LogLevel_ToString (lg_level (logger_at w l)) @ [CHR 10]
         @ ''formater: '' @ m_pattern f @ [CHR 10] @ ''appenders: '' @ [CHR 10])
       # map (\<lambda>a. appender_lines (appender_at w a)) (lg_appenders (logger_at w l))
       @ [Inr (''*********************************'' @ [CHR 10])]))"

definition LoggerManager_toString :: "logs \<Rightarrow> string result" where
  "LoggerManager_toString w = concat_results (map (\<lambda>x. logger_lines w (snd x)) (m_loggers w))"

section \<open>Properties\<close>

text \<open>Definitions that the text can carry: the types of the two appenders, no file for standard output,
  known levels, and no appender without a level below a logger with one (it would inherit it).\<close>

definition define_ok :: "log_define \<Rightarrow> bool" where
  "define_ok d \<longleftrightarrow> ld_level d \<le> FATAL \<and> (\<forall>a \<in> set (ld_appenders d).
     (ad_type a = 1 \<or> ad_type a = 2 \<and> ad_file a = []) \<and> ad_level a \<le> FATAL \<and> (ad_level a = UNKNOW \<longrightarrow> ld_level d = UNKNOW))"

lemma map_of_members: "map_of (map (\<lambda>(k, n). (Y_scalar k, n)) kns) (Y_scalar k) = map_of kns k"
  by (induction kns) auto

lemma node_get_members: "node_get k (members_node kns) = Inr (map_of kns k)"
  by (simp add: members_node_def map_of_members)

lemma get_string_members:
  assumes "\<And>s. as_string (Y_scalar s) = Inr s"
  shows "get_string as_string k (members_node kns) =
    (case map_of kns k of None \<Rightarrow> Inr None | Some m \<Rightarrow> bindE (as_string m) (\<lambda>s. Inr (Some s)))"
  by (simp add: get_string_def node_get_members split: option.split)

lemma map_of_optional: "map_of (optional b k n @ kns) k' = (if b \<and> k = k' then Some n else map_of kns k')"
  "map_of (optional b k n) k' = (if b \<and> k = k' then Some n else None)"
  by (simp_all add: optional_def)

lemma read_appender_node:
  assumes "\<And>s. as_string (Y_scalar s) = Inr s" and "ad_type a = 1 \<or> ad_type a = 2 \<and> ad_file a = []"
    and "ad_level a \<le> FATAL" and "ad_level a = UNKNOW \<Longrightarrow> lv = UNKNOW"
  shows "read_appender as_string lv (appender_node a) = Inr (Some a)"
proof -
  have l: "LogLevel_FromString (LogLevel_ToString (ad_level a)) = ad_level a"
    using assms(3) by (simp add: level_text_roundtrip)
  note g = get_string_members [OF assms(1)]
  show ?thesis
    using assms(2,4) l
    by (elim disjE conjE; cases "ad_level a = UNKNOW"; cases "ad_formatter a = []")
      (simp_all add: read_appender_def read_details_def appender_node_def g map_of_optional assms(1) del: map_of_append)
qed

lemma read_appenders_nodes:
  assumes "\<And>a. a \<in> set ads \<Longrightarrow> read_appender as_string lv (appender_node a) = Inr (Some a)"
    and "list_all2 (\<lambda>a i. get i = Inr (appender_node a)) ads is"
  shows "read_appenders as_string lv get is = Inr ads"
  using assms by (induction ads arbitrary: "is") (auto simp: list_all2_Cons1)

lemma read_define_node:
  assumes "\<And>s. as_string (Y_scalar s) = Inr s" and "define_ok d"
  shows "read_define as_string index_map (define_node d) = Inr d"
proof -
  have lv: "LogLevel_FromString (case (if ld_level d \<noteq> UNKNOW then Some (LogLevel_ToString (ld_level d)) else None) of
      Some s \<Rightarrow> s | None \<Rightarrow> []) = ld_level d"
    using assms(2) by (simp add: define_ok_def level_text_roundtrip) (simp add: LogLevel_FromString_def)
  let ?m = "Y_seq (map appender_node (ld_appenders d))"
  have rd: "read_appenders as_string (ld_level d) (node_at index_map ?m) [0..<node_size ?m] = Inr (ld_appenders d)"
  proof (rule read_appenders_nodes)
    show "read_appender as_string (ld_level d) (appender_node a) = Inr (Some a)" if "a \<in> set (ld_appenders d)" for a
      using that assms(2) by (intro read_appender_node [OF assms(1)]) (auto simp: define_ok_def)
    show "list_all2 (\<lambda>a i. node_at index_map ?m i = Inr (appender_node a)) (ld_appenders d) [0..<node_size ?m]"
      by (simp add: list_all2_conv_all_nth)
  qed
  note g = get_string_members [OF assms(1)]
  have parts: "get_string as_string ''name'' (define_node d) = Inr (Some (ld_name d))"
    "get_string as_string ''level'' (define_node d) = Inr (if ld_level d \<noteq> UNKNOW then Some (LogLevel_ToString (ld_level d)) else None)"
    "get_string as_string ''formatter'' (define_node d) = Inr (if ld_formatter d \<noteq> [] then Some (ld_formatter d) else None)"
    "node_get ''appenders'' (define_node d) = Inr (if ld_appenders d \<noteq> [] then Some ?m else None)"
    by (simp_all add: define_node_def g node_get_members map_of_optional assms(1) del: map_of_append)
  show ?thesis using rd lv by (simp add: read_define_def parts Let_def del: node_size.simps)
qed

text \<open>a logger definition written to YAML text is read back the same, for definitions the text can
  carry, when yaml-cpp reads the node it has written and a scalar node gives its text.\<close>

theorem define_roundtrip:
  assumes "\<forall>s. as_string (Y_scalar s) = Inr s" and "define_ok d"
    and "load (emit (define_node d)) = Inr (define_node d)"
  shows "string_to_define load as_string index_map (define_to_string emit d) = Inr d"
  using read_define_node [of as_string, OF _ assms(2)] assms(1,3) by (simp add: string_to_define_def define_to_string_def)

theorem define_roundtrip_witness:
  "string_to_define (\<lambda>t. Inr (define_node example_define)) (\<lambda>n. Inr (Scalar n)) (\<lambda>ps i. Inl Library_exception)
     (define_to_string (\<lambda>n. ''name: http'') example_define) = Inr example_define"
proof -
  have "define_ok example_define" by (simp add: define_ok_def example_define_def level_defs)
  from define_roundtrip [OF _ this, of "\<lambda>n. Inr (Scalar n)" "\<lambda>t. Inr (define_node example_define)" "\<lambda>n. ''name: http''"]
  show ?thesis by simp
qed

text \<open>The manager can always list its loggers in a well-formed state.\<close>

lemma concat_results_ok: "(\<And>r. r \<in> set rs \<Longrightarrow> \<exists>t. r = Inr t) \<Longrightarrow> \<exists>t. concat_results rs = Inr t"
  by (induction rs) fastforce+

lemma find_entry: "map_sorted str_less m \<Longrightarrow> (n, l) \<in> set m \<Longrightarrow> map_find str_less n m = Some l"
proof (induction m)
  case (Cons p m)
  then show ?case by (cases p) (auto simp: str_order.lt_irrefl)
qed simp

lemma manager_lists:
  assumes "logs_wf w"
  shows "\<exists>t. LoggerManager_toString w = Inr t"
proof -
  have "\<exists>t. logger_lines w l = Inr t" if "l < length (logger_cells w)" for l
  proof -
    have ok: "logger_ok w (logger_at w l)" by (rule logs_wfD(6) [OF assms that])
    then obtain f where f: "lg_formatter (logger_at w l) = Some f" by (auto simp: logger_ok_def)
    have "\<exists>t. appender_lines (appender_at w a) = Inr t" if "a \<in> set (lg_appenders (logger_at w l))" for a
      using ok that by (auto simp: logger_ok_def appender_lines_def)
    then show ?thesis unfolding logger_lines_def f option.case by (intro concat_results_ok) auto
  qed
  moreover have "l < length (logger_cells w)" if "(n, l) \<in> set (m_loggers w)" for n l
    using logs_wfD(2) [OF assms find_entry [OF logs_wfD(1) [OF assms] that]] .
  ultimately show ?thesis unfolding LoggerManager_toString_def by (intro concat_results_ok) auto
qed

end
