(* ===== verification/Settings.thy ===== *)
theory Settings
  imports Configs
begin

text \<open>
  Settings that follow the configuration: the buffer and body sizes of the HTTP parsers (\<^verbatim>\<open>dwframe/http/http_parser.cc\<close>) and
  the connect timeout of the hooks (\<^verbatim>\<open>dwframe/hook.cc\<close>). Each is a static integer that a static initialiser copies from a
  configuration variable and that a listener of the variable assigns. A value of either C++ type is an \<open>int\<close>; the
  conversion from text is an argument, as in \<open>Configs\<close>.
\<close>

section \<open>The settings\<close>

datatype setting = Http_request_buffer_size | Http_request_max_body_size | Http_response_buffer_size
  | Http_response_max_body_size | Tcp_connect_timeout

datatype cpp_type = Cpp_uint64 | Cpp_int

fun setting_type :: "setting \<Rightarrow> cpp_type" where
  "setting_type Tcp_connect_timeout = Cpp_int"
| "setting_type _ = Cpp_uint64"

fun setting_name :: "setting \<Rightarrow> string" where
  "setting_name Http_request_buffer_size = ''http.request.buffer_size''"
| "setting_name Http_request_max_body_size = ''http.request.max_body_size''"
| "setting_name Http_response_buffer_size = ''http.response.buffer_size''"
| "setting_name Http_response_max_body_size = ''http.response.max_body_size''"
| "setting_name Tcp_connect_timeout = ''tcp.connect.timeout''"

fun setting_default :: "setting \<Rightarrow> int" where
  "setting_default Http_request_buffer_size = 4 * 1024"
| "setting_default Http_request_max_body_size = 64 * 1024 * 1024"
| "setting_default Http_response_buffer_size = 4 * 1024"
| "setting_default Http_response_max_body_size = 64 * 1024 * 1024"
| "setting_default Tcp_connect_timeout = 5000"

fun setting_description :: "setting \<Rightarrow> string" where
  "setting_description Http_request_buffer_size = ''http request buffer size''"
| "setting_description Http_request_max_body_size = ''http request max body size''"
| "setting_description Http_response_buffer_size = ''http response buffer size''"
| "setting_description Http_response_max_body_size = ''http response max body size''"
| "setting_description Tcp_connect_timeout = ''tcp connect timeout''"

text \<open>
  The configuration, the static integers, the pointers to the variables, and the counter of listeners, which every
  type of variable has one of. A listener is named by the setting it assigns.
\<close>

record settings =
  conf :: "(cpp_type, int, setting) config"
  statics :: "setting \<Rightarrow> uint64"
  vars :: "setting \<Rightarrow> nat"
  fun_ids :: "cpp_type \<Rightarrow> uint64"

text \<open>Before the initialisers run.\<close>

definition blank_settings :: "(cpp_type, int, setting) config \<Rightarrow> (cpp_type \<Rightarrow> uint64) \<Rightarrow> settings" where
  "blank_settings w ids = \<lparr>conf = w, statics = (\<lambda>s. if s = Tcp_connect_timeout then - 1 else 0), vars = (\<lambda>s. 0), fun_ids = ids\<rparr>"

section \<open>Initialisation\<close>

definition declare_setting :: "setting \<Rightarrow> settings \<Rightarrow> settings result" where
  "declare_setting s st =
     bindE (LookUp (setting_type s) (setting_name s) (setting_default s) (setting_description s) (conf st))
       (\<lambda>(a, w). Inr (st\<lparr>conf := w, vars := (vars st)(s := a)\<rparr>))"

fun declare_settings :: "setting list \<Rightarrow> settings \<Rightarrow> settings result" where
  "declare_settings [] st = Inr st"
| "declare_settings (s # ss) st = bindE (declare_setting s st) (declare_settings ss)"

definition read_setting :: "setting \<Rightarrow> settings \<Rightarrow> settings" where
  "read_setting s st = st\<lparr>statics := (statics st)(s := word_of_int (getValue (cells (conf st) ! vars st s)))\<rparr>"

definition listen_setting :: "setting \<Rightarrow> settings \<Rightarrow> settings" where
  "listen_setting s st = (let a = vars st s; (n, x) = addListener s (fun_ids st (setting_type s)) (cells (conf st) ! a) in
     st\<lparr>conf := (conf st)\<lparr>cells := (cells (conf st))[a := x]\<rparr>, fun_ids := (fun_ids st)(setting_type s := n)\<rparr>)"

definition http_settings :: "setting list" where
  "http_settings = [Http_request_buffer_size, Http_request_max_body_size, Http_response_buffer_size, Http_response_max_body_size]"

definition RequestSizeIniter :: "settings \<Rightarrow> settings" where
  "RequestSizeIniter st = fold listen_setting http_settings (fold read_setting http_settings st)"

definition HookIniter :: "settings \<Rightarrow> settings" where
  "HookIniter st = listen_setting Tcp_connect_timeout (read_setting Tcp_connect_timeout st)"

text \<open>The two files; which of them is initialised first is up to the linker.\<close>

definition init_http_parser :: "settings \<Rightarrow> settings result" where
  "init_http_parser st = bindE (declare_settings http_settings st) (\<lambda>st. Inr (RequestSizeIniter st))"

definition init_hook :: "settings \<Rightarrow> settings result" where
  "init_hook st = bindE (declare_settings [Tcp_connect_timeout] st) (\<lambda>st. Inr (HookIniter st))"

definition init_program :: "bool \<Rightarrow> settings \<Rightarrow> settings result" where
  "init_program hook_first st =
     (if hook_first then bindE (init_hook st) init_http_parser else bindE (init_http_parser st) init_hook)"

section \<open>Use\<close>

definition GetHttpRequestBufferSize :: "settings \<Rightarrow> uint64" where
  "GetHttpRequestBufferSize st = statics st Http_request_buffer_size"

definition GetHttpRequestMaxBodySize :: "settings \<Rightarrow> uint64" where
  "GetHttpRequestMaxBodySize st = statics st Http_request_max_body_size"

definition GetHttpResponseBufferSize :: "settings \<Rightarrow> uint64" where
  "GetHttpResponseBufferSize st = statics st Http_response_buffer_size"

definition GetHttpResponseMaxBodySize :: "settings \<Rightarrow> uint64" where
  "GetHttpResponseMaxBodySize st = statics st Http_response_max_body_size"

text \<open>What the listeners do: one assignment for each call, in order.\<close>

definition assign_settings :: "(setting \<times> int \<times> int) list \<Rightarrow> (setting \<Rightarrow> uint64) \<Rightarrow> setting \<Rightarrow> uint64" where
  "assign_settings calls f = fold (\<lambda>(s, old, v) f. f(s := word_of_int v)) calls f"

definition load_settings :: "(yaml \<Rightarrow> string) \<Rightarrow> (cpp_type \<Rightarrow> string \<Rightarrow> int result) \<Rightarrow> yaml \<Rightarrow> settings \<Rightarrow> settings result" where
  "load_settings emit FromStr root st =
     bindE (LodeFromYaml emit FromStr (\<lambda>cb old v. False) root (conf st)) (\<lambda>w.
       Inr (st\<lparr>conf := w, statics := assign_settings (drop (length (notified (conf st))) (notified w)) (statics st)\<rparr>))"

text \<open>Any number of documents one after the other; one that throws leaves everything as it was.\<close>

fun load_documents :: "(yaml \<Rightarrow> string) \<Rightarrow> (cpp_type \<Rightarrow> string \<Rightarrow> int result) \<Rightarrow> yaml list \<Rightarrow> settings \<Rightarrow> settings" where
  "load_documents emit FromStr [] st = st"
| "load_documents emit FromStr (d # ds) st =
     load_documents emit FromStr ds (case load_settings emit FromStr d st of Inl f \<Rightarrow> st | Inr st' \<Rightarrow> st')"

section \<open>The stages of initialisation\<close>

text \<open>
  The settings of \<open>D\<close> have their variable, those of \<open>R\<close> their static value, those of \<open>L\<close> their listener, and there is no other
  listener. At the end all three sets hold every setting.
\<close>

definition stage :: "setting set \<Rightarrow> setting set \<Rightarrow> setting set \<Rightarrow> settings \<Rightarrow> bool" where
  "stage D R L st \<longleftrightarrow> (let w = conf st in config_wf w \<and> R \<subseteq> D \<and> L \<subseteq> D
     \<and> (\<forall>s. LookupBase (setting_name s) w = (if s \<in> D then Some (vars st s) else None))
     \<and> (\<forall>s \<in> R. statics st s = word_of_int (m_val (cells w ! vars st s)))
     \<and> (\<forall>s \<in> D. map snd (m_cbs (cells w ! vars st s)) = (if s \<in> L then [s] else []))
     \<and> (\<forall>a < length (cells w). (\<forall>s \<in> L. a \<noteq> vars st s) \<longrightarrow> m_cbs (cells w ! a) = []))"

lemma setting_name_inj [simp]: "setting_name s = setting_name t \<longleftrightarrow> s = t"
  by (cases s; cases t) simp_all

lemma setting_name_valid: "valid_name (setting_name s)"
  by (cases s) (simp_all add: valid_name_def name_chars_def)

lemma stageD:
  assumes "stage D R L st"
  shows "config_wf (conf st)" "R \<subseteq> D" "L \<subseteq> D"
    "LookupBase (setting_name s) (conf st) = (if s \<in> D then Some (vars st s) else None)"
    "s \<in> R \<Longrightarrow> statics st s = word_of_int (m_val (cells (conf st) ! vars st s))"
    "s \<in> D \<Longrightarrow> map snd (m_cbs (cells (conf st) ! vars st s)) = (if s \<in> L then [s] else [])"
    "a < length (cells (conf st)) \<Longrightarrow> \<forall>s \<in> L. a \<noteq> vars st s \<Longrightarrow> m_cbs (cells (conf st) ! a) = []"
    "s \<in> D \<Longrightarrow> vars st s < length (cells (conf st))"
    "s \<in> D \<Longrightarrow> t \<in> D \<Longrightarrow> vars st s = vars st t \<Longrightarrow> s = t"
proof -
  show wf: "config_wf (conf st)" and "R \<subseteq> D" "L \<subseteq> D"
    and look: "LookupBase (setting_name s) (conf st) = (if s \<in> D then Some (vars st s) else None)" for s
    using assms by (simp_all add: stage_def Let_def)
  show "s \<in> R \<Longrightarrow> statics st s = word_of_int (m_val (cells (conf st) ! vars st s))"
    "s \<in> D \<Longrightarrow> map snd (m_cbs (cells (conf st) ! vars st s)) = (if s \<in> L then [s] else [])"
    "a < length (cells (conf st)) \<Longrightarrow> \<forall>s \<in> L. a \<noteq> vars st s \<Longrightarrow> m_cbs (cells (conf st) ! a) = []"
    using assms by (simp_all add: stage_def Let_def)
  show "s \<in> D \<Longrightarrow> vars st s < length (cells (conf st))" using config_wfD(1) [OF wf, of "setting_name s"] look by simp
  show "s \<in> D \<Longrightarrow> t \<in> D \<Longrightarrow> vars st s = vars st t \<Longrightarrow> s = t"
    using config_wfD(2) [OF wf] look by (metis setting_name_inj)
qed

lemma stage_declare:
  assumes "stage D R L st" and "s \<notin> D"
  shows "\<exists>st'. declare_setting s st = Inr st' \<and> stage (insert s D) R L st'"
proof -
  note d = stageD [OF assms(1)]
  have "LookupBase (setting_name s) (conf st) = None" using d(4) assms(2) by simp
  then obtain a w where look: "LookUp (setting_type s) (setting_name s) (setting_default s) (setting_description s) (conf st) = Inr (a, w)"
    using setting_name_valid by (auto simp: LookUp_def LookupBase_def Let_def)
  note f = LookUp_facts [OF d(1) look]
  let ?st = "st\<lparr>conf := w, vars := (vars st)(s := a)\<rparr>"
  have keep: "cells w ! vars st t = cells (conf st) ! vars st t" if "t \<in> D" for t using f(6) d(8) that by simp
  have new: "cells w ! a = mk_ConfigVar (setting_type s) (setting_name s) (setting_default s) (setting_description s)" by (rule f(4))
  have "stage (insert s D) R L ?st"
    unfolding stage_def Let_def
  proof (intro conjI allI ballI impI)
    fix t show "LookupBase (setting_name t) (conf ?st) = (if t \<in> insert s D then Some (vars ?st t) else None)"
      using f(3,5) d(4) by simp
  next
    fix t assume "t \<in> R"
    then show "statics ?st t = word_of_int (m_val (cells (conf ?st) ! vars ?st t))"
      using d(2,5) keep assms(2) by auto
  next
    fix t assume "t \<in> insert s D"
    then show "map snd (m_cbs (cells (conf ?st) ! vars ?st t)) = (if t \<in> L then [t] else [])"
      using d(3) d(6) [of t] keep assms(2) new by (cases "t = s") (auto simp: mk_ConfigVar_def)
  next
    fix b assume b: "b < length (cells (conf ?st))" "\<forall>t \<in> L. b \<noteq> vars ?st t"
    have "b \<noteq> vars st t" if "t \<in> L" for t using b(2) that d(3) assms(2) by (cases "t = s") auto
    then show "m_cbs (cells (conf ?st) ! b) = []"
      using d(7) [of b] f(1,6,7) new b(1) by (cases "b = a") (auto simp: mk_ConfigVar_def less_Suc_eq)
  qed (use f(2) d(2,3) in auto)
  then show ?thesis using look by (simp add: declare_setting_def)
qed

lemma stage_read: "stage D R L st \<Longrightarrow> s \<in> D \<Longrightarrow> stage D (insert s R) L (read_setting s st)"
  by (auto simp: stage_def read_setting_def getValue_def Let_def)

lemma stage_listen:
  assumes "stage D R L st" and "s \<in> D" and "s \<notin> L"
  shows "stage D R (insert s L) (listen_setting s st)"
proof -
  note d = stageD [OF assms(1)]
  have empty: "m_cbs (cells (conf st) ! vars st s) = []" using d(6) [OF assms(2)] assms(3) by simp
  define n where "n = fun_ids st (setting_type s) + 1"
  define x where "x = (cells (conf st) ! vars st s)\<lparr>m_cbs := [(n, s)]\<rparr>"
  have st': "listen_setting s st = st\<lparr>conf := (conf st)\<lparr>cells := (cells (conf st))[vars st s := x]\<rparr>,
      fun_ids := (fun_ids st)(setting_type s := n)\<rparr>"
    by (simp add: listen_setting_def addListener_def empty n_def x_def Let_def)
  have at: "(cells (conf st))[vars st s := x] ! vars st t = (if t = s then x else cells (conf st) ! vars st t)" if "t \<in> D" for t
    using d(8) [OF assms(2)] d(9) [OF that assms(2)] by (auto simp: nth_list_update)
  have wf: "config_wf ((conf st)\<lparr>cells := (cells (conf st))[vars st s := x]\<rparr>)"
  proof -
    have "m_name ((cells (conf st))[vars st s := x] ! a) = m_name (cells (conf st) ! a)" for a
      using d(8) [OF assms(2)] by (cases "a = vars st s") (simp_all add: x_def)
    then show ?thesis using d(1) by (simp add: config_wf_def LookupBase_def)
  qed
  have val: "m_val ((cells (conf st))[vars st s := x] ! a) = m_val (cells (conf st) ! a)" for a
    using d(8) [OF assms(2)] by (cases "a = vars st s") (simp_all add: x_def)
  show ?thesis
    unfolding st' stage_def Let_def
  proof (intro conjI allI ballI impI)
    fix t assume "t \<in> D"
    then show "map snd (m_cbs (cells (conf (st\<lparr>conf := (conf st)\<lparr>cells := (cells (conf st))[vars st s := x]\<rparr>,
        fun_ids := (fun_ids st)(setting_type s := n)\<rparr>)) ! vars (st\<lparr>conf := (conf st)\<lparr>cells := (cells (conf st))[vars st s := x]\<rparr>,
        fun_ids := (fun_ids st)(setting_type s := n)\<rparr>) t)) = (if t \<in> insert s L then [t] else [])"
      using d(6) [of t] at [of t] by (cases "t = s") (simp_all add: x_def)
  qed (use d(2-5) d(7) wf val assms(2) in \<open>auto simp: LookupBase_def nth_list_update\<close>)
qed

section \<open>Loading\<close>

text \<open>The calls that loading one text makes on the listeners of a variable.\<close>

lemma fromString_called:
  "fst (fromString FromStr (\<lambda>cb old v. False) t x) = (case FromStr (cv_type x) t of
     Inl f \<Rightarrow> []
   | Inr v \<Rightarrow> if m_val x = v then [] else map (\<lambda>cb. (cb, m_val x, v)) (map snd (m_cbs x)))"
  "loaded_value FromStr (\<lambda>cb old v. False) x t (m_val x) = (case FromStr (cv_type x) t of Inl f \<Rightarrow> m_val x | Inr v \<Rightarrow> v)"
proof -
  have all: "notify_all (\<lambda>cb old v. False) cbs old v = (map (\<lambda>cb. (cb, old, v)) cbs, True)" for cbs old v
    by (induction cbs) simp_all
  show "fst (fromString FromStr (\<lambda>cb old v. False) t x) = (case FromStr (cv_type x) t of
     Inl f \<Rightarrow> [] | Inr v \<Rightarrow> if m_val x = v then [] else map (\<lambda>cb. (cb, m_val x, v)) (map snd (m_cbs x)))"
    by (simp add: fromString_def setValue_def all split: sum.split)
  show "loaded_value FromStr (\<lambda>cb old v. False) x t (m_val x) = (case FromStr (cv_type x) t of Inl f \<Rightarrow> m_val x | Inr v \<Rightarrow> v)"
    by (auto simp: loaded_value_def list_ex_iff split: sum.split)
qed

lemma load_member_notified:
  assumes "valid_name (fst m)"
  shows "notified (load_member emit FromStr throws m w) = notified w @ (if fst m = [] then [] else
     case LookupBase (fst m) w of None \<Rightarrow> [] | Some a \<Rightarrow> fst (fromString FromStr throws (node_text emit (snd m)) (cells w ! a)))"
  using valid_tolower [OF assms] by (simp add: load_member_def node_text_def Let_def split: option.split prod.split)

lemma assign_settings_Nil [simp]: "assign_settings [] f = f"
  by (simp add: assign_settings_def)

lemma assign_settings_append: "assign_settings (xs @ ys) f = assign_settings ys (assign_settings xs f)"
  by (simp add: assign_settings_def)

lemma stage_load_member:
  assumes "stage UNIV UNIV UNIV st" and "valid_name (fst m)"
    and "w = load_member emit FromStr (\<lambda>cb old v. False) m (conf st)"
  shows "\<exists>new. notified w = notified (conf st) @ new
     \<and> stage UNIV UNIV UNIV (st\<lparr>conf := w, statics := assign_settings new (statics st)\<rparr>)"
proof -
  note d = stageD [OF assms(1)]
  note f = load_member_frame [OF d(1) assms(2,3)]
  define new where "new = (if fst m = [] then [] else case LookupBase (fst m) (conf st) of None \<Rightarrow> []
    | Some a \<Rightarrow> fst (fromString FromStr (\<lambda>cb old v. False) (node_text emit (snd m)) (cells (conf st) ! a)))"
  have notif: "notified w = notified (conf st) @ new"
    unfolding new_def assms(3) by (rule load_member_notified [OF assms(2)])
  have cbs: "m_cbs (cells w ! a) = m_cbs (cells (conf st) ! a)" for a using f(4) [of a] by simp
  have static: "assign_settings new (statics st) s = word_of_int (m_val (cells w ! vars st s))" for s
  proof (cases "fst m \<noteq> [] \<and> LookupBase (fst m) (conf st) \<noteq> None")
    case False
    then have "new = []" "cells w ! vars st s = cells (conf st) ! vars st s" using f(4) by (auto simp: new_def)
    then show ?thesis using d(5) by (simp add: assign_settings_def)
  next
    case True
    then obtain a where a: "LookupBase (fst m) (conf st) = Some a" "fst m \<noteq> []" by auto
    let ?x = "cells (conf st) ! a"
    have new: "new = (case FromStr (cv_type ?x) (node_text emit (snd m)) of Inl f \<Rightarrow> []
        | Inr v \<Rightarrow> if m_val ?x = v then [] else map (\<lambda>cb. (cb, m_val ?x, v)) (map snd (m_cbs ?x)))"
      using a by (simp add: new_def fromString_called(1))
    show ?thesis
    proof (cases "a = vars st s")
      case same: True
      then have "map snd (m_cbs ?x) = [s]" using d(6) by simp
      moreover have "cells w ! a = ?x\<lparr>m_val := (case FromStr (cv_type ?x) (node_text emit (snd m)) of Inl f \<Rightarrow> m_val ?x | Inr v \<Rightarrow> v)\<rparr>"
        using a f(4) [of a] by (simp add: fromString_called(2))
      ultimately show ?thesis
        using d(5) [of s] same by (auto simp: new assign_settings_def split: sum.split)
    next
      case other: False
      have "s \<notin> set (map snd (m_cbs ?x))"
      proof (cases "\<exists>t. a = vars st t")
        case True
        then obtain t where t: "a = vars st t" by blast
        then show ?thesis using d(6) [of t] other by auto
      next
        case False
        then show ?thesis using d(7) [of a] config_wfD(1) [OF d(1) a(1)] by simp
      qed
      moreover have "assign_settings (map (\<lambda>cb. (cb, u, v)) cbs) h s = h s" if "s \<notin> set cbs" for cbs u v h
        using that by (induction cbs arbitrary: h) (simp_all add: assign_settings_def)
      ultimately have "assign_settings new (statics st) s = statics st s"
        by (simp add: new del: map_map split: sum.split)
      moreover have "cells w ! vars st s = cells (conf st) ! vars st s" using f(4) [of "vars st s"] a other by auto
      ultimately show ?thesis using d(5) by simp
    qed
  qed
  have "stage UNIV UNIV UNIV (st\<lparr>conf := w, statics := assign_settings new (statics st)\<rparr>)"
    unfolding stage_def Let_def using d(4,6,7) f(1-3) cbs static by (simp add: LookupBase_def)
  with notif show ?thesis by blast
qed

lemma stage_load_members:
  assumes "stage UNIV UNIV UNIV st" and "\<forall>m \<in> set ms. valid_name (fst m)"
    and "w = fold (load_member emit FromStr (\<lambda>cb old v. False)) ms (conf st)"
  shows "\<exists>new. notified w = notified (conf st) @ new
     \<and> stage UNIV UNIV UNIV (st\<lparr>conf := w, statics := assign_settings new (statics st)\<rparr>)"
  using assms
proof (induction ms arbitrary: st)
  case Nil
  then show ?case by (simp add: assign_settings_def)
next
  case (Cons m ms)
  have "valid_name (fst m)" using Cons.prems(2) by simp
  from stage_load_member [OF Cons.prems(1) this refl, of emit FromStr] obtain n1 where
    n1: "notified (load_member emit FromStr (\<lambda>cb old v. False) m (conf st)) = notified (conf st) @ n1"
      "stage UNIV UNIV UNIV (st\<lparr>conf := load_member emit FromStr (\<lambda>cb old v. False) m (conf st), statics := assign_settings n1 (statics st)\<rparr>)"
    by blast
  from Cons.IH [OF n1(2)] Cons.prems(2,3) obtain n2 where
    "notified w = notified (load_member emit FromStr (\<lambda>cb old v. False) m (conf st)) @ n2"
    "stage UNIV UNIV UNIV (st\<lparr>conf := w, statics := assign_settings n2 (assign_settings n1 (statics st))\<rparr>)" by auto
  then show ?case using n1(1) by (intro exI [of _ "n1 @ n2"]) (simp add: assign_settings_append)
qed

lemma stage_load_settings:
  assumes "stage UNIV UNIV UNIV st" and "load_settings emit FromStr root st = Inr st'"
  shows "stage UNIV UNIV UNIV st' \<and> vars st' = vars st"
proof -
  define w where "w = fold (load_member emit FromStr (\<lambda>cb old v. False)) (members [] root) (conf st)"
  have ok: "\<forall>m \<in> set (members [] root). valid_name (fst m)" and
    st': "st' = st\<lparr>conf := w, statics := assign_settings (drop (length (notified (conf st))) (notified w)) (statics st)\<rparr>"
    using assms(2) by (auto simp: load_settings_def LodeFromYaml_members w_def split: if_splits)
  from stage_load_members [OF assms(1) ok w_def] show ?thesis using st' by auto
qed

lemma stage_load_documents:
  assumes "stage UNIV UNIV UNIV st"
  shows "stage UNIV UNIV UNIV (load_documents emit FromStr ds st) \<and> vars (load_documents emit FromStr ds st) = vars st"
  using assms
proof (induction ds arbitrary: st)
  case (Cons d ds)
  then show ?case
    using stage_load_settings [of st emit FromStr d] by (cases "load_settings emit FromStr d st") auto
qed simp

section \<open>The static initialisers\<close>

lemma setting_UNIV: "(UNIV :: setting set) = {Http_request_buffer_size, Http_request_max_body_size, Http_response_buffer_size,
    Http_response_max_body_size, Tcp_connect_timeout}"
  using setting.exhaust by blast

lemma stage_declares:
  "stage D R L st \<Longrightarrow> distinct ss \<Longrightarrow> set ss \<inter> D = {} \<Longrightarrow>
     \<exists>st'. declare_settings ss st = Inr st' \<and> stage (set ss \<union> D) R L st'"
proof (induction ss arbitrary: st D)
  case (Cons s ss)
  obtain st1 where st1: "declare_setting s st = Inr st1" "stage (insert s D) R L st1"
    using stage_declare [OF Cons.prems(1)] Cons.prems(3) by auto
  from Cons.IH [OF st1(2)] Cons.prems(2,3) st1(1) show ?case by auto
qed auto

lemma stage_reads: "stage D R L st \<Longrightarrow> set ss \<subseteq> D \<Longrightarrow> stage D (set ss \<union> R) L (fold read_setting ss st)"
proof (induction ss arbitrary: st R)
  case (Cons s ss)
  with Cons.IH [OF stage_read [OF Cons.prems(1), of s]] show ?case by simp
qed simp

lemma stage_listens:
  "stage D R L st \<Longrightarrow> set ss \<subseteq> D \<Longrightarrow> distinct ss \<Longrightarrow> set ss \<inter> L = {} \<Longrightarrow> stage D R (set ss \<union> L) (fold listen_setting ss st)"
proof (induction ss arbitrary: st L)
  case (Cons s ss)
  with Cons.IH [OF stage_listen [OF Cons.prems(1), of s]] show ?case by simp
qed simp

lemma stage_module:
  assumes "stage D D D st" and "distinct ss" and "set ss \<inter> D = {}"
  shows "\<exists>st1. declare_settings ss st = Inr st1
     \<and> stage (set ss \<union> D) (set ss \<union> D) (set ss \<union> D) (fold listen_setting ss (fold read_setting ss st1))"
proof -
  obtain st1 where st1: "declare_settings ss st = Inr st1" "stage (set ss \<union> D) D D st1"
    using stage_declares [OF assms(1-3)] by blast
  from stage_listens [OF stage_reads [OF st1(2), of ss], of ss] assms(2,3) st1(1) show ?thesis by simp
qed

text \<open>A program before its static initialisers: none of the names is taken, and no listener is there.\<close>

definition fresh_program :: "(cpp_type, int, setting) config \<Rightarrow> bool" where
  "fresh_program w \<longleftrightarrow> config_wf w \<and> (\<forall>s. LookupBase (setting_name s) w = None) \<and> list_all (\<lambda>x. m_cbs x = []) (cells w)"

lemma stage_blank: "fresh_program w \<Longrightarrow> stage {} {} {} (blank_settings w ids)"
  by (simp add: fresh_program_def stage_def blank_settings_def list_all_length)

lemma stage_init:
  assumes "fresh_program w"
  shows "\<exists>st. init_program hook_first (blank_settings w ids) = Inr st \<and> stage UNIV UNIV UNIV st"
proof -
  let ?h = "[Tcp_connect_timeout]"
  have http: "\<exists>st1. init_http_parser st = Inr st1 \<and> stage (set http_settings \<union> D) (set http_settings \<union> D) (set http_settings \<union> D) st1"
    if "stage D D D st" "set http_settings \<inter> D = {}" for D st
    using stage_module [OF that(1) _ that(2)] by (auto simp: init_http_parser_def RequestSizeIniter_def http_settings_def)
  have hook: "\<exists>st1. init_hook st = Inr st1 \<and> stage (set ?h \<union> D) (set ?h \<union> D) (set ?h \<union> D) st1"
    if "stage D D D st" "set ?h \<inter> D = {}" for D st
    using stage_module [OF that(1) _ that(2)] by (auto simp: init_hook_def HookIniter_def)
  show ?thesis
  proof (cases hook_first)
    case True
    obtain st1 where "init_hook (blank_settings w ids) = Inr st1" "stage (set ?h) (set ?h) (set ?h) st1"
      using hook [OF stage_blank [OF assms, of ids]] by auto
    with http [of "set ?h" st1] True show ?thesis
      by (auto simp: init_program_def http_settings_def setting_UNIV insert_commute)
  next
    case False
    obtain st1 where "init_http_parser (blank_settings w ids) = Inr st1"
        "stage (set http_settings) (set http_settings) (set http_settings) st1"
      using http [OF stage_blank [OF assms, of ids]] by auto
    with hook [of "set http_settings" st1] False show ?thesis
      by (auto simp: init_program_def http_settings_def setting_UNIV insert_commute)
  qed
qed

text \<open>
  C24: The settings follow the configuration. Whichever of the two files is initialised first, the initialisers of a fresh
  program return, and after any sequence of configuration documents, accepted or refused, each of the sizes of the HTTP
  parsers and the connect timeout equals the value of its variable: the buffer the server reads requests into has the
  size the configuration says.
\<close>

theorem settings_follow_config:
  assumes "fresh_program w"
  shows "\<exists>st. init_program hook_first (blank_settings w ids) = Inr st
     \<and> (let st' = load_documents emit FromStr ds st in
        \<forall>s. LookupBase (setting_name s) (conf st') = Some (vars st s)
          \<and> statics st' s = word_of_int (m_val (cells (conf st') ! vars st s)))"
proof -
  obtain st where st: "init_program hook_first (blank_settings w ids) = Inr st" "stage UNIV UNIV UNIV st"
    using stage_init [OF assms] by blast
  from stage_load_documents [OF st(2), of emit FromStr ds]
  have s: "stage UNIV UNIV UNIV (load_documents emit FromStr ds st)" "vars (load_documents emit FromStr ds st) = vars st" by auto
  from stageD(4,5) [OF s(1)] show ?thesis using st(1) s(2) by (simp add: Let_def)
qed

lemma settings_follow_config_witness:
  "\<exists>st. init_program True (blank_settings \<lparr>cells = [], s_datas = [], notified = []\<rparr> (\<lambda>_. 0)) = Inr st
     \<and> (\<forall>s. let st' = load_documents (\<lambda>n. []) (\<lambda>T t. Inr (int (length t))) [example_document] st in
          statics st' s = word_of_int (m_val (cells (conf st') ! vars st s)))"
proof -
  have "fresh_program \<lparr>cells = [], s_datas = [], notified = []\<rparr>"
    by (simp add: fresh_program_def config_wf_def LookupBase_def)
  from settings_follow_config [OF this] show ?thesis unfolding Let_def by metis
qed

end
