(* ===== verification/Utilities.thy ===== *)
theory Utilities
  imports Prelude "HOL-Library.Signed_Division"
begin

text \<open>
  The helpers of \<^verbatim>\<open>dwframe/util.cc\<close> that compute: the clock in milliseconds and in microseconds, and the text of a
  backtrace. The time of day and the symbols of the stack are arguments.
\<close>

record timeval =
  tv_sec :: int
  tv_usec :: int

definition GetCurrentMS :: "timeval \<Rightarrow> uint64" where
  "GetCurrentMS tv = word_of_int (tv_sec tv * 1000 + tv_usec tv sdiv 1000)"

definition GetCurrentUS :: "timeval \<Rightarrow> uint64" where
  "GetCurrentUS tv = word_of_int (tv_sec tv) * 1000000 + word_of_int (tv_usec tv)"

text \<open>The symbols are absent where the library has no memory for them. The number of frames to skip becomes a \<^verbatim>\<open>size_t\<close>.\<close>

definition BackTrace :: "string list option \<Rightarrow> int \<Rightarrow> string list \<Rightarrow> string list" where
  "BackTrace symbols skip bt = (case symbols of
     None \<Rightarrow> bt
   | Some strings \<Rightarrow> bt @ drop (unat (word_of_int skip :: uint64)) strings)"

definition BacktraceToString :: "string list option \<Rightarrow> int \<Rightarrow> string \<Rightarrow> string" where
  "BacktraceToString symbols skip pre = concat (map (\<lambda>s. pre @ s @ [CHR 0x0A]) (BackTrace symbols skip []))"

text \<open>
  A time of day is a whole number of seconds and fewer than a million microseconds. Until the microseconds leave 64 bits the
  two clocks agree: the milliseconds are the microseconds divided by a thousand.
\<close>

lemma clocks_agree:
  assumes "0 \<le> tv_sec tv" and "tv_sec tv < 2 ^ 44" and "0 \<le> tv_usec tv" and "tv_usec tv < 1000000"
  shows "GetCurrentMS tv = GetCurrentUS tv div 1000"
proof -
  let ?us = "tv_sec tv * 1000000 + tv_usec tv"
  have small: "0 \<le> ?us" "?us < 2 ^ 64" using assms by auto
  have "uint (word_of_int ?us :: uint64) = ?us mod 2 ^ 64" unfolding uint_word_of_int by simp
  moreover have "GetCurrentUS tv = word_of_int ?us" by (simp add: GetCurrentUS_def)
  ultimately have us: "uint (GetCurrentUS tv) = ?us" using small by (metis mod_pos_pos_trivial)
  have ms: "tv_sec tv * 1000 + tv_usec tv sdiv 1000 = ?us div 1000"
  proof -
    have "?us div 1000 = (tv_usec tv + tv_sec tv * 1000 * 1000) div 1000" by (simp add: add.commute)
    also have "\<dots> = tv_sec tv * 1000 + tv_usec tv div 1000" by (rule div_mult_self1) simp
    also have "tv_usec tv div 1000 = tv_usec tv sdiv 1000"
      using assms(3) by (simp add: signed_divide_int_def sgn_if)
    finally show ?thesis by simp
  qed
  have "uint (GetCurrentUS tv div 1000) = ?us div 1000" using us by (simp add: uint_div)
  then show ?thesis unfolding GetCurrentMS_def ms by (metis word_of_int_uint)
qed

lemma backtrace_lines:
  assumes "0 \<le> skip" and "skip < 2 ^ 64"
  shows "BacktraceToString (Some strings) skip pre = concat (map (\<lambda>s. pre @ s @ [CHR 0x0A]) (drop (nat skip) strings))"
  using assms by (simp add: BacktraceToString_def BackTrace_def unat_eq_nat_uint uint_word_of_int)

end
