(* ===== verification/Spec2Isabelle.thy ===== *)
theory Spec2Isabelle
  imports ByteArray_Props Http_Servers Client_Props Socket_Controls Locks Threads Log_Defines Settings Utilities
begin

text \<open>
  Verification of dwframe, a C++ framework for network servers built on fibers (\<^verbatim>\<open>src/dwframe\<close>).

  \<^bold>\<open>The program.\<close> Fibers (\<^verbatim>\<open>fiber.cc\<close>) are run by a scheduler with several worker threads (\<^verbatim>\<open>scheduler.cc\<close>). The IO manager
  (\<^verbatim>\<open>IoManager.cc\<close>) is a scheduler whose idle fiber waits in \<^verbatim>\<open>epoll\<close> for descriptors and for the timers of its timer manager
  (\<^verbatim>\<open>timer.cc\<close>). The hooked system calls (\<^verbatim>\<open>hook.cc\<close>), with the table of descriptors (\<^verbatim>\<open>fd_manager.cc\<close>), turn blocking calls of a
  fiber into a registration with the IO manager and a switch to another fiber. On top of these stand addresses and sockets
  (\<^verbatim>\<open>address.cc\<close>, \<^verbatim>\<open>socket.cc\<close>), streams (\<^verbatim>\<open>stream.cc\<close>, \<^verbatim>\<open>socket_stream.cc\<close>) with byte arrays as their buffers (\<^verbatim>\<open>bytearray.cc\<close>), the
  TCP server (\<^verbatim>\<open>Tcp_server.cc\<close>), and HTTP: messages, two parsers generated by Ragel, sessions, servlets and the server
  (\<^verbatim>\<open>http/\<close>). All of it uses threads and locks (\<^verbatim>\<open>thread.cc\<close>), a configuration of named variables that YAML documents change
  (\<^verbatim>\<open>config.cc\<close>), and loggers that such a variable defines (\<^verbatim>\<open>log.cc\<close>).

  \<^bold>\<open>Theories and sources.\<close>
  \<^item> \<open>Prelude\<close>: the type of results, in which every exception, assertion and undefined behaviour of the source is a fault; words
    as machine integers; lemmas on lists and digits. \<open>Ordered_Containers\<close>: \<^verbatim>\<open>std::set\<close> and \<^verbatim>\<open>std::map\<close> with a comparator, as a locale
    of strict weak orders that the timers, the header maps and the addresses interpret.
  \<^item> \<open>Byte_Codec\<close>, \<open>ByteArray\<close>, \<open>ByteArray_Typed\<close>, \<open>ByteArray_IO\<close>, \<open>ByteArray_Props\<close>: \<^verbatim>\<open>endian.h\<close>, \<^verbatim>\<open>bytearray.cc\<close>. The linked list
    of nodes is a list of blocks with the index of the current one; reads and writes refine operations on one flat sequence
    of bytes; typed fields and strings read back whatever the node size and the byte orders.
  \<^item> \<open>Timers\<close>: \<^verbatim>\<open>timer.cc\<close>. The set of timers is sorted by deadline, cancelling and resetting keep it so, and the expired
    timers are exactly the due ones.
  \<^item> \<open>Fibers\<close>, \<open>Schedulers\<close>, \<open>IoManagers\<close>: the states of fibers and their switches, the task queue and the run loop as steps of the
    workers, and the event loop with its reachable states. The count of pending events, the waiters and the interest list
    of the kernel agree in every reachable state; a scheduler that reports that it may stop has nothing left to do.
  \<^item> \<open>FdManagers\<close>, \<open>Hooks\<close>: the descriptor table and the hooked calls over the successive answers of the kernel.
  \<^item> \<open>Addresses\<close>, \<open>Sockets\<close>, \<open>Streams\<close>: the address classes; the life of a socket's descriptor as a step relation; the fixed
    size transfers. \<open>Streams\<close> has the locales of byte sources, byte sinks and byte array transfers, proved for every kernel
    that keeps the documented contract of \<^verbatim>\<open>recv\<close> and \<^verbatim>\<open>send\<close>, and interpreted on a connection of segments.
    \<open>Socket_Controls\<close>: socket options, and cancelling through the IO manager, which is safe exactly on open sockets.
  \<^item> \<open>Http_Messages\<close>: requests, responses, header maps, method and status tables and the printed forms.
  \<^item> \<open>Ragel_Machine\<close>, \<open>Http11_Table\<close>, \<open>Http_Parsers\<close>: the generated request machine as a table of 348 states with the actions of
    each transition, its execution and the callbacks. \<open>Http11_Facts\<close>, \<open>Http11_Check\<close>, \<open>Http_Parse_Runs\<close>, \<open>Http_Parse_Props\<close>: what the
    table does with the characters of a request, that every entry keeps the positions in the buffer, and that every printed
    request parses back.
  \<^item> \<open>Client_Table\<close>, \<open>Client_Parsers\<close>, \<open>Client_Check\<close>, \<open>Client_Props\<close>: the generated response machine (\<^verbatim>\<open>httpclient_parser.rl.cc\<close>) as a
    table of 123 states, its execution with \<^verbatim>\<open>strtol\<close>, and \<^verbatim>\<open>HttpResponseParser\<close>. A check over intervals of characters, run once over
    the whole table, says to which class of states each class of characters leads; from it follow the safety of every call and
    that every printed response parses back. The header of a chunk is read; one form of head is never reported as finished.
  \<^item> \<open>Http_Sessions\<close>, \<open>Servlets\<close>, \<open>Tcp_Servers\<close>, \<open>Http_Servers\<close>: receiving a request, choosing a servlet, listening and accepting, and
    the handler that composes them.

  \<^item> \<open>Locks\<close>: \<^verbatim>\<open>thread.h\<close>, the mutex, the spin lock, the read-write lock and their scoped guards. A lock is the set of its holders;
    the contract the guards rely on is a locale, interpreted on all of them. Guards of several threads in any interleaving
    exclude each other as long as a guard is locked when its scope ends.
  \<^item> \<open>Threads\<close>: the semaphore and \<^verbatim>\<open>Thread\<close>. The constructor and \<^verbatim>\<open>Thread::run\<close> are two programs of single statements in every
    interleaving.
  \<^item> \<open>Configs\<close>, \<open>Lexical_Casts\<close>: \<^verbatim>\<open>config.h\<close>, \<^verbatim>\<open>config.cc\<close>: variables with listeners, the table of names, loading a document, and
    the casts of containers to and from YAML text. A registered name keeps its type.
  \<^item> \<open>Settings\<close>: the sizes of \<^verbatim>\<open>http_parser.cc\<close> and the connect timeout of \<^verbatim>\<open>hook.cc\<close>, which static initialisers and listeners keep equal to
    their configuration variables. \<open>Utilities\<close>: the clocks and the backtrace text of \<^verbatim>\<open>util.cc\<close>.
  \<^item> \<open>Log_Formats\<close>, \<open>Logs\<close>, \<open>Log_Defines\<close>: \<^verbatim>\<open>log.cc\<close>: levels, events and the pattern language, whose indexed loops equal a reader
    of the rest of the pattern; appenders, loggers and the manager over a heap; the listener that applies a changed
    definition; the text of a definition.

  \<^bold>\<open>Parameters.\<close> System calls, the clock, the resolver, \<^verbatim>\<open>fnmatch\<close>, \<^verbatim>\<open>strftime\<close>, \<^verbatim>\<open>boost::lexical_cast\<close> and the loading and printing of
  yaml-cpp are arguments of the definitions that use them. Where a
  theorem relies on one, the documented behaviour is a named hypothesis (\<open>recv_contract\<close>, \<open>recv_delivers\<close>,
  \<open>send_contract\<close>, \<open>send_accepts\<close>, \<open>cast_contract\<close>) and the witness instantiates it.

  \<^bold>\<open>Loops.\<close> Loops whose length the data bounds are recursive functions with a measure. The hooked calls take the list of the
  answers that the kernel and the event loop will give; \<open>recv_loop\<close> and \<open>serve_loop\<close>, which nothing in the code bounds, are partial
  functions into an option, and are proved to return because every round takes input from a finite connection. \<open>Logger_log\<close>
  has fuel for the recursion from a logger to its root: a root has no root, so two calls are enough in every well-formed state.

  \<^bold>\<open>Not modelled.\<close> The memory model of the locks: outside \<open>Locks\<close> and \<open>Threads\<close> each operation of a component is one atomic
  step, as the locks of the source make it. The machine context of a fiber: switching changes the states only. The logging calls
  inside the other components, which have no effect on the state of their callers. The servlet that prints the configuration,
  which calls functions the repository does not have and is not built. Thread identifiers and the lookup of the original system
  calls by \<^verbatim>\<open>dlsym\<close>. The demonstration programs under \<^verbatim>\<open>tests\<close> and \<^verbatim>\<open>examples\<close>.

  \<^bold>\<open>Across components.\<close> This theory ends with the property of a whole exchange: a request printed by a client is received,
  dispatched, answered and the answer read back by the response parser.
\<close>

section \<open>A whole exchange\<close>

text \<open>The length the response parser finds for a printed body.\<close>

lemma content_length_parsed:
  assumes "cast_contract cast" and "length (r_body r) < 2 ^ 31" and "r_body r \<noteq> []" and "map_sorted CaseInsensitiveLess (r_headers d)"
    and "rp_data t = fold (\<lambda>h. rsp_setHeader (fst h) (snd h)) (rsp_printed_headers r) d"
  shows "response_getContentLength cast t = of_nat (length (r_body r))"
proof -
  let ?set = "\<lambda>h. rsp_setHeader (fst h) (snd h)"
  define hs where "hs = filter (\<lambda>h. \<not> skip_header (r_websocket r) h) (r_headers r) @ map (\<lambda>c. (''Set-Cookie'', c)) (r_cookies r)
     @ (if r_websocket r then [] else [(''connection'', if r_close r then ''close'' else ''keep-alive'')])"
  have sorted: "map_sorted CaseInsensitiveLess (r_headers (fold ?set xs e))"
    if "map_sorted CaseInsensitiveLess (r_headers e)" for xs e
    using that by (induction xs arbitrary: e) (simp_all add: rsp_setHeader_def header_map_ops)
  have "rp_data t = rsp_setHeader ''content-length'' (show_base 10 (length (r_body r))) (fold ?set hs d)"
    using assms(3,5) by (simp add: rsp_printed_headers_def hs_def)
  with sorted [OF assms(4), of hs] have "hfind ''content-length'' (r_headers (rp_data t)) = Some (show_base 10 (length (r_body r)))"
    by (simp add: rsp_setHeader_def header_map_ops CaseInsensitiveLess_equiv)
  then show ?thesis using assms(1,2) by (simp add: response_getContentLength_def getAs_def cast_contract_def)
qed

text \<open>
  C1: A whole exchange. A printable request arrives with its head in one piece on a connected client socket; its path is
  matched by a servlet that computes the response from the request, and the server does not keep connections alive. Then
  \<^verbatim>\<open>handleClient\<close> hands the servlet the request that was sent, sends one printed response and closes the descriptor; and a
  client that gives the bytes it receives to a fresh response parser gets the status, the reason and the headers of the
  servlet's response, without an error and finished, is left with exactly the body, and finds its length in the headers.
\<close>

theorem http_exchange:
  assumes "rsp = (\<lambda>req. f req (rsp_setHeader ''Server'' (t_name (h_tcp srv)) (mk_HttpResponse (m_version q) True)))"
    and "sendable q" and "recv_contract (e_recv e) pending" and "recv_delivers (e_recv e) pending" and "calm_recv (e_recv e) sent"
    and "send_contract (e_send e) sent" and "send_accepts (e_send e)" and "cast_contract (e_cast e)"
    and "m_isConnected client" and "0 \<le> m_sock client" and "pending k = request_dump q"
    and "int (length (request_head q)) \<le> fst (stream_read (e_recv e) (mk_SocketStream (Some client) True) (e_buff_size e) k)"
    and "e_buff_size e < 2 ^ 31" and "length (m_body q) \<le> e_max_size e" and "length (m_body q) < 2 ^ 31"
    and "\<not> m_isKeepalive srv" and "getMatchedServlet (e_fnmatch e) (m_path q) (m_dispatch srv) = Some slt"
    and "\<And>req rsp ses. servlet_handle slt req rsp ses = (0, req, f req rsp, ses)"
    and "\<And>req. same_request req q \<Longrightarrow> rsp_ok (rsp req) \<and> length (response_dump (rsp req)) < 2 ^ 31"
  shows "\<exists>req ss w1 k1 reply n t. handleClient e srv client w k = Some (Inr (ss, w1, k1)) \<and> same_request req q
     \<and> closed w1 = closed w @ [m_sock client] \<and> sent k1 = sent k @ reply
     \<and> response_execute (CHR 0x00) reply False (mk_HttpResponseParser memory) = Inr (n, r_body (rsp req), t)
     \<and> \<not> response_hasError t \<and> response_isFinished t = 1
     \<and> rp_data t = fold (\<lambda>h. rsp_setHeader (fst h) (snd h)) (rsp_printed_headers (rsp req))
          ((mk_HttpResponse (r_version (rsp req)) True)\<lparr>r_status := r_status (rsp req), r_reason := rsp_reason (rsp req)\<rparr>)
     \<and> (r_body (rsp req) \<noteq> [] \<longrightarrow> response_getContentLength (e_cast e) t = of_nat (length (r_body (rsp req))))"
proof -
  note answered = request_answered [OF assms(2-18), of w]
  obtain req ss w1 k1 where srv: "handleClient e srv client w k = Some (Inr (ss, w1, k1))" "same_request req q"
      "sent k1 = sent k @ response_dump (rsp req)" "closed w1 = closed w @ [m_sock client]"
    using answered assms(19) unfolding assms(1) by blast
  have ok: "rsp_ok (rsp req)" "length (response_dump (rsp req)) < 2 ^ 31" using assms(19) [OF srv(2)] by auto
  then have "int (length (response_dump (rsp req))) < 2 ^ 31" by simp
  from parse_response [OF ok(1) this, of False memory] obtain n t where parsed:
    "response_execute (CHR 0x00) (response_dump (rsp req)) False (mk_HttpResponseParser memory) = Inr (n, r_body (rsp req), t)"
    "\<not> response_hasError t" "response_isFinished t = 1"
    "rp_data t = fold (\<lambda>h. rsp_setHeader (fst h) (snd h)) (rsp_printed_headers (rsp req))
       ((mk_HttpResponse (r_version (rsp req)) True)\<lparr>r_status := r_status (rsp req), r_reason := rsp_reason (rsp req)\<rparr>)"
    by blast
  have "length (r_body (rsp req)) < 2 ^ 31" using ok(2) by (simp add: response_dump_parts)
  from content_length_parsed [OF assms(8) this _ _ parsed(4)]
  have "r_body (rsp req) \<noteq> [] \<longrightarrow> response_getContentLength (e_cast e) t = of_nat (length (r_body (rsp req)))"
    by (simp add: mk_HttpResponse_def map_sorted_def)
  with srv parsed show ?thesis by blast
qed

lemma ok_response_ok:
  "rsp_ok (ok_response req (rsp_setHeader ''Server'' ''dwframe/1.0.0'' (mk_HttpResponse 0x11 True)))
   \<and> length (response_dump (ok_response req (rsp_setHeader ''Server'' ''dwframe/1.0.0'' (mk_HttpResponse 0x11 True)))) < 2 ^ 31"
proof
  have "rsp_header_ok (''Server'', ''dwframe/1.0.0'')"
    by (simp add: rsp_header_ok_def Http11_Facts.name_char_def text_char_def text_start_def signed_char_def)
  then show "rsp_ok (ok_response req (rsp_setHeader ''Server'' ''dwframe/1.0.0'' (mk_HttpResponse 0x11 True)))"
    by (simp add: rsp_ok_def ok_response_def rsp_setHeader_def mk_HttpResponse_def)
  show "length (response_dump (ok_response req (rsp_setHeader ''Server'' ''dwframe/1.0.0'' (mk_HttpResponse 0x11 True)))) < 2 ^ 31"
    by (simp add: response_dump_def ok_response_def rsp_setHeader_def mk_HttpResponse_def show_version_def show_base_rec digit_char_def
        HttpStatusToString_def HTTP_STATUS_MAP_def skip_header_def header_line_def connection_line_def body_text_def)
qed

lemma http_exchange_witness:
  "\<exists>ss w1 k1 n t. handleClient example_surroundings example_server connected_sock quiet_world
       \<lparr>segments = [request_dump example_request], outgoing = []\<rparr> = Some (Inr (ss, w1, k1)) \<and> closed w1 = [5]
     \<and> response_execute (CHR 0x00) (outgoing k1) False (mk_HttpResponseParser blank_client) = Inr (n, ''ok'', t)
     \<and> response_isFinished t = 1 \<and> response_getContentLength decimal_cast t = 2"
proof -
  let ?l = "\<lparr>segments = [request_dump example_request], outgoing = []\<rparr> :: char link"
  let ?slt = "FunctionServlet (\<lambda>req rsp ses. (0, req, ok_response req rsp, ses)) :: char link session servlet"
  let ?rsp = "\<lambda>req. ok_response req (rsp_setHeader ''Server'' (t_name (h_tcp example_server)) (mk_HttpResponse (m_version example_request) True))"
  note env = example_surroundings_def example_server_def setServletDispatch_def mk_HttpServer_def mk_TcpServer_def
  have ex: "m_path example_request = ''/a''" "m_body example_request = ''hi''" "m_version example_request = 0x11"
    by (simp_all add: example_request_def mk_HttpRequest_def)
  have stream: "mk_SocketStream (Some connected_sock) True = open_stream" by (simp add: open_stream_def)
  have "request_dump example_request \<noteq> []" "length (request_dump example_request) \<le> 4096" using example_dump_short by auto
  from open_stream_reads [OF this order_refl, of "[]" "[]"]
  have first: "int (length (request_head example_request)) \<le> fst (stream_read link_recv open_stream 4096 ?l)"
    by (simp add: request_dump_parts)
  have "\<exists>req ss w1 k1 reply n t. handleClient example_surroundings example_server connected_sock quiet_world ?l = Some (Inr (ss, w1, k1))
     \<and> same_request req example_request
     \<and> closed w1 = closed quiet_world @ [m_sock connected_sock] \<and> outgoing k1 = outgoing ?l @ reply
     \<and> response_execute (CHR 0x00) reply False (mk_HttpResponseParser blank_client) = Inr (n, r_body (?rsp req), t)
     \<and> \<not> response_hasError t \<and> response_isFinished t = 1
     \<and> rp_data t = fold (\<lambda>h. rsp_setHeader (fst h) (snd h)) (rsp_printed_headers (?rsp req))
          ((mk_HttpResponse (r_version (?rsp req)) True)\<lparr>r_status := r_status (?rsp req), r_reason := rsp_reason (?rsp req)\<rparr>)
     \<and> (r_body (?rsp req) \<noteq> [] \<longrightarrow>
          response_getContentLength (e_cast example_surroundings) t = of_nat (length (r_body (?rsp req))))"
    by (rule http_exchange [where pending = arriving and slt = ?slt and rsp = ?rsp])
       (use first ok_response_ok in \<open>simp_all add: env example_sendable link_laws link_recv_calm decimal_cast_contract stream ex
          getMatchedServlet_def addServlet_cb_def\<close>)
  then show ?thesis by (auto simp: quiet_world_def ok_response_def example_surroundings_def)
qed

end
